(* ===== verification/Prelude.thy ===== *)
theory Prelude
  imports Main "HOL-Library.Word" "HOL-Library.AList" "HOL-Library.Monad_Syntax"
begin

text \<open>
  Shared vocabulary of the development.

  \<^item> \<open>u64\<close> is Go's \<open>uint64\<close>: the arithmetic of the type \<open>64 word\<close> wraps
    around exactly as Go's does, and comparisons are unsigned.
  \<^item> A Go function that may panic is a function into \<open>option\<close>; \<open>None\<close> is the
    panic, and the do-notation of the option monad is the sequencing of statements.
  \<^item> A Go \<open>map\<close> is an association list with distinct keys. The order of the list is the
    order in which a \<open>range\<close> loop visits the map: Go leaves that order open, and every
    lemma below is about an arbitrary list.
  \<^item> Slice expressions and slice indexing check their bounds and panic.
\<close>

section \<open>Types and panics\<close>

type_synonym u64 = "64 word"
type_synonym byte = "8 word"
type_synonym ('k, 'v) gomap = "('k \<times> 'v) list"

abbreviation (input) panic :: "'a option" where
  "panic \<equiv> None"

abbreviation max_u64 :: u64 where
  "max_u64 \<equiv> 18446744073709551615"

text \<open>Facts that turn a goal about \<open>u64\<close> values into linear arithmetic on their \<open>nat\<close> values.\<close>

named_theorems u64_nat
named_theorems panic_free \<open>under the component's invariant an operation does not panic\<close>

lemma unat_u64_bound [simp]: "unat (a :: u64) < 18446744073709551616"
  using unsigned_less [of a] by simp

lemma u64_add [u64_nat]:
  "unat a + unat b < 18446744073709551616 \<Longrightarrow> unat (a + b :: u64) = unat a + unat b"
  by (simp add: unat_word_ariths)

lemma u64_inc [u64_nat]:
  "unat a + 1 < 18446744073709551616 \<Longrightarrow> unat (a + 1 :: u64) = unat a + 1"
  by (simp add: unat_word_ariths)

lemma u64_of_nat [u64_nat]:
  "n < 18446744073709551616 \<Longrightarrow> unat (of_nat n :: u64) = n"
  by (simp add: unat_of_nat)

lemma u64_sub [u64_nat]:
  "unat b \<le> unat a \<Longrightarrow> unat (a - b :: u64) = unat a - unat b"
  by (simp add: unat_sub word_le_nat_alt)

lemmas u64_order [u64_nat] = word_le_nat_alt word_less_nat_alt word_unat_eq_iff

lemma u64_inc_neq_max: "unat (a :: u64) + 1 < 18446744073709551616 \<longleftrightarrow> a \<noteq> max_u64"
proof -
  have "unat (max_u64 :: u64) = 18446744073709551615"
    by simp
  moreover have "unat a < 18446744073709551616" by (rule unat_u64_bound)
  ultimately show ?thesis unfolding word_unat_eq_iff by linarith
qed

lemma u64_inc_positive: "a \<noteq> max_u64 \<Longrightarrow> (a :: u64) < a + 1"
  using u64_inc_neq_max [of a] by (simp add: word_less_nat_alt u64_inc)

lemma u64_eq_incI: "unat a + 1 = unat b \<Longrightarrow> (a :: u64) + 1 = b"
  by (metis u64_inc unat_u64_bound word_unat_eq_iff)

lemma u64_not_zero_pred: "(0 :: u64) < a \<Longrightarrow> unat (a - 1) = unat a - 1"
  by (rule unat_minus_one) auto

section \<open>Slices\<close>

text \<open>\<open>go_slice xs a b\<close> is \<open>xs[a:b]\<close> and \<open>go_index xs i\<close> is \<open>xs[i]\<close>, with the bounds
  checks the Go runtime makes.\<close>

definition go_slice :: "'a list \<Rightarrow> nat \<Rightarrow> nat \<Rightarrow> 'a list option" where
  "go_slice xs a b = (if a \<le> b \<and> b \<le> length xs then Some (take (b - a) (drop a xs)) else panic)"

definition go_index :: "'a list \<Rightarrow> nat \<Rightarrow> 'a option" where
  "go_index xs i = (if i < length xs then Some (xs ! i) else panic)"

lemma go_index_Some [simp]: "i < length xs \<Longrightarrow> go_index xs i = Some (xs ! i)"
  by (simp add: go_index_def)

lemma go_index_panic [simp]: "length xs \<le> i \<Longrightarrow> go_index xs i = panic"
  by (simp add: go_index_def)

lemma go_index_eq_Some: "go_index xs i = Some x \<longleftrightarrow> i < length xs \<and> xs ! i = x"
  by (simp add: go_index_def)

lemma go_slice_Some [simp]:
  "a \<le> b \<Longrightarrow> b \<le> length xs \<Longrightarrow> go_slice xs a b = Some (take (b - a) (drop a xs))"
  by (simp add: go_slice_def)

lemma go_slice_eq_Some:
  "go_slice xs a b = Some ys \<longleftrightarrow> a \<le> b \<and> b \<le> length xs \<and> ys = take (b - a) (drop a xs)"
  by (auto simp: go_slice_def)

lemma length_filter_mono: "(\<And>x. x \<in> set xs \<Longrightarrow> P x \<Longrightarrow> Q x) \<Longrightarrow> length (filter P xs) \<le> length (filter Q xs)"
  by (induction xs) auto

section \<open>Maps\<close>

abbreviation gomap_ok :: "('k, 'v) gomap \<Rightarrow> bool" where
  "gomap_ok m \<equiv> distinct (map fst m)"

abbreviation gomap_keys :: "('k, 'v) gomap \<Rightarrow> 'k set" where
  "gomap_keys m \<equiv> fst ` set m"

lemma map_of_eq_None_keys: "map_of m k = None \<longleftrightarrow> k \<notin> gomap_keys m"
  by (rule map_of_eq_None_iff)

lemma map_of_keys_Some: "map_of m k = Some v \<Longrightarrow> k \<in> gomap_keys m"
  by (metis map_of_eq_None_keys option.distinct(1))

lemma gomap_keys_map_of: "k \<in> gomap_keys m \<longleftrightarrow> (\<exists>v. map_of m k = Some v)"
  by (metis map_of_eq_None_keys not_None_eq)

lemma gomap_keys_update [simp]: "gomap_keys (AList.update k v m) = insert k (gomap_keys m)"
  by (simp add: dom_update)

lemma gomap_keys_update_same: "k \<in> gomap_keys m \<Longrightarrow> map fst (AList.update k v m) = map fst m"
  by (simp add: update_keys)

lemma gomap_ok_update [simp]: "gomap_ok m \<Longrightarrow> gomap_ok (AList.update k v m)"
  by (rule distinct_update)

lemma gomap_ok_delete [simp]: "gomap_ok m \<Longrightarrow> gomap_ok (AList.delete k m)"
  by (rule distinct_delete)

lemma map_of_update [simp]: "map_of (AList.update k v m) = (map_of m)(k \<mapsto> v)"
  by (rule update_conv')

lemma gomap_keys_delete [simp]: "gomap_keys (AList.delete k m) = gomap_keys m - {k}"
  by (auto simp: AList.delete_eq)

lemma card_gomap_keys: "gomap_ok m \<Longrightarrow> card (gomap_keys m) = length m"
  by (metis distinct_card length_map set_map)

lemma map_of_filter_keys: "k \<notin> S \<Longrightarrow> map_of (filter (\<lambda>kv. fst kv \<notin> S) m) k = map_of m k"
  by (induction m) auto

section \<open>Loops over a list in the panic monad\<close>

text \<open>\<open>go_fold f xs s\<close> is a \<open>range\<close> loop: the body \<open>f\<close> may panic, and then so does the loop.\<close>

primrec go_fold :: "('a \<Rightarrow> 's \<Rightarrow> 's option) \<Rightarrow> 'a list \<Rightarrow> 's \<Rightarrow> 's option" where
  "go_fold f [] s = Some s"
| "go_fold f (x # xs) s = do { s' \<leftarrow> f x s; go_fold f xs s' }"

lemma bind_SomeE:
  assumes "Option.bind a f = Some y"
  obtains x where "a = Some x" and "f x = Some y"
  using assms by (cases a) auto

text \<open>An invariant of the body, for the elements the loop visits, is an invariant of the loop.\<close>

lemma go_fold_invariant:
  assumes "go_fold f xs s = Some s'" and "P s"
    and "\<And>x t t'. x \<in> set xs \<Longrightarrow> P t \<Longrightarrow> f x t = Some t' \<Longrightarrow> P t'"
  shows "P s'"
  using assms
proof (induction xs arbitrary: s)
  case Nil
  then show ?case by simp
next
  case (Cons x xs)
  from Cons.prems(1) obtain t where "f x s = Some t" and rest: "go_fold f xs t = Some s'"
    by (auto simp: Option.bind_eq_Some_conv)
  moreover from this Cons.prems(2,3) have "P t" by (metis list.set_intros(1))
  ultimately show ?case using Cons.IH Cons.prems(3) by (metis list.set_intros(2))
qed

lemma go_fold_panic_free:
  assumes "P s"
    and "\<And>x t. x \<in> set xs \<Longrightarrow> P t \<Longrightarrow> \<exists>t'. f x t = Some t' \<and> P t'"
  shows "\<exists>s'. go_fold f xs s = Some s' \<and> P s'"
  using assms
proof (induction xs arbitrary: s)
  case Nil
  then show ?case by simp
next
  case (Cons x xs)
  from Cons.prems obtain t where t: "f x s = Some t" "P t" by (metis list.set_intros(1))
  then have "\<exists>s'. go_fold f xs t = Some s' \<and> P s'"
    using Cons.IH Cons.prems(2) by (metis list.set_intros(2))
  with t show ?case by simp
qed

end
