(* ===== verification/RaftPB.thy ===== *)
theory RaftPB
  imports Prelude
begin

text \<open>
  The data the components exchange: the enumerations and structs of \<open>raftpb/raft.pb.go\<close>
  (entries, messages, snapshots, membership, config changes, the persistent state), the
  hand-written structs and predicates of \<open>raftpb/raft.go\<close>, and the special client and
  series identifiers of \<open>client/session.go\<close> those predicates use.

  Field names carry a prefix for their struct (\<open>e_\<close> entry, \<open>m_\<close> message, \<open>ss_\<close> snapshot,
  \<open>mb_\<close> membership, \<open>cc_\<close> config change, \<open>st_\<close> state, \<open>ud_\<close> update, \<open>uc_\<close> update commit),
  because HOL records of one theory share a name space. \<open>empty_X\<close> is the Go zero value
  \<open>X{}\<close>; a composite literal is an update of it.
\<close>

section \<open>Enumerations\<close>

datatype message_type =
    LocalTick | Election | LeaderHeartbeat | ConfigChangeEvent | NoOP | Ping | Pong
  | Propose | SnapshotStatus | Unreachable | CheckQuorum | BatchedReadIndex
  | Replicate | ReplicateResp | RequestVote | RequestVoteResp | InstallSnapshot
  | Heartbeat | HeartbeatResp | ReadIndex | ReadIndexResp | Quiesce
  | SnapshotReceived | LeaderTransfer | TimeoutNow

datatype entry_type = ApplicationEntry | ConfigChangeEntry

datatype config_change_type = AddNode | RemoveNode | AddObserver

section \<open>Structs\<close>

record pb_state =
  st_Term :: u64
  st_Vote :: u64
  st_Commit :: u64

record entry =
  e_Term :: u64
  e_Index :: u64
  e_Type :: entry_type
  e_Key :: u64
  e_ClientID :: u64
  e_SeriesID :: u64
  e_RespondedTo :: u64
  e_Cmd :: "byte list"

record membership =
  mb_ConfigChangeId :: u64
  mb_Addresses :: "(u64, string) gomap"
  mb_Removed :: "(u64, bool) gomap"
  mb_Observers :: "(u64, string) gomap"

record snapshot_file =
  sf_Filepath :: string
  sf_FileSize :: u64
  sf_FileId :: u64
  sf_Metadata :: "byte list"

record snapshot =
  ss_Filepath :: string
  ss_FileSize :: u64
  ss_Index :: u64
  ss_Term :: u64
  ss_Membership :: membership
  ss_Files :: "snapshot_file list"

record message =
  m_Type :: message_type
  m_To :: u64
  m_From :: u64
  m_ClusterId :: u64
  m_Term :: u64
  m_LogTerm :: u64
  m_LogIndex :: u64
  m_Commit :: u64
  m_Reject :: bool
  m_Hint :: u64
  m_Entries :: "entry list"
  m_Snapshot :: snapshot
  m_HintHigh :: u64

record config_change =
  cc_ConfigChangeId :: u64
  cc_Type :: config_change_type
  cc_NodeID :: u64
  cc_Address :: string
  cc_Initialize :: bool

record bootstrap =
  bs_Addresses :: "(u64, string) gomap"
  bs_Join :: bool

record system_ctx =
  ctx_Low :: u64
  ctx_High :: u64

record ready_to_read =
  rtr_Index :: u64
  rtr_SystemCtx :: system_ctx

record update_commit =
  uc_AppliedTo :: u64
  uc_StableLogTo :: u64
  uc_StableLogTerm :: u64
  uc_StableSnapshotTo :: u64
  uc_ReadyToRead :: u64

record update =
  ud_ClusterID :: u64
  ud_NodeID :: u64
  ud_State :: pb_state
  ud_EntriesToSave :: "entry list"
  ud_CommittedEntries :: "entry list"
  ud_MoreCommittedEntries :: bool
  ud_Snapshot :: snapshot
  ud_ReadyToReads :: "ready_to_read list"
  ud_Messages :: "message list"
  ud_LastApplied :: u64
  ud_UpdateCommit :: update_commit

section \<open>Zero values\<close>

definition emptyState :: pb_state where
  "emptyState = \<lparr>st_Term = 0, st_Vote = 0, st_Commit = 0\<rparr>"

definition empty_entry :: entry where
  "empty_entry = \<lparr>e_Term = 0, e_Index = 0, e_Type = ApplicationEntry, e_Key = 0,
     e_ClientID = 0, e_SeriesID = 0, e_RespondedTo = 0, e_Cmd = []\<rparr>"

definition empty_membership :: membership where
  "empty_membership = \<lparr>mb_ConfigChangeId = 0, mb_Addresses = [], mb_Removed = [],
     mb_Observers = []\<rparr>"

definition empty_snapshot :: snapshot where
  "empty_snapshot = \<lparr>ss_Filepath = [], ss_FileSize = 0, ss_Index = 0, ss_Term = 0,
     ss_Membership = empty_membership, ss_Files = []\<rparr>"

definition empty_message :: message where
  "empty_message = \<lparr>m_Type = LocalTick, m_To = 0, m_From = 0, m_ClusterId = 0, m_Term = 0,
     m_LogTerm = 0, m_LogIndex = 0, m_Commit = 0, m_Reject = False, m_Hint = 0,
     m_Entries = [], m_Snapshot = empty_snapshot, m_HintHigh = 0\<rparr>"

definition zero_ctx :: system_ctx where
  "zero_ctx = \<lparr>ctx_Low = 0, ctx_High = 0\<rparr>"

definition empty_update_commit :: update_commit where
  "empty_update_commit = \<lparr>uc_AppliedTo = 0, uc_StableLogTo = 0, uc_StableLogTerm = 0,
     uc_StableSnapshotTo = 0, uc_ReadyToRead = 0\<rparr>"

definition empty_update :: update where
  "empty_update = \<lparr>ud_ClusterID = 0, ud_NodeID = 0, ud_State = emptyState,
     ud_EntriesToSave = [], ud_CommittedEntries = [], ud_MoreCommittedEntries = False,
     ud_Snapshot = empty_snapshot, ud_ReadyToReads = [], ud_Messages = [],
     ud_LastApplied = 0, ud_UpdateCommit = empty_update_commit\<rparr>"

lemma empty_entry_simps [simp]:
  "e_Term empty_entry = 0" "e_Index empty_entry = 0" "e_Type empty_entry = ApplicationEntry"
  "e_Key empty_entry = 0" "e_ClientID empty_entry = 0" "e_SeriesID empty_entry = 0"
  "e_RespondedTo empty_entry = 0" "e_Cmd empty_entry = []"
  by (simp_all add: empty_entry_def)

lemma empty_snapshot_simps [simp]:
  "ss_Index empty_snapshot = 0" "ss_Term empty_snapshot = 0"
  "ss_Membership empty_snapshot = empty_membership"
  by (simp_all add: empty_snapshot_def)

lemma empty_message_simps [simp]:
  "m_Type empty_message = LocalTick" "m_To empty_message = 0" "m_From empty_message = 0"
  "m_ClusterId empty_message = 0" "m_Term empty_message = 0" "m_LogTerm empty_message = 0"
  "m_LogIndex empty_message = 0" "m_Commit empty_message = 0" "m_Reject empty_message = False"
  "m_Hint empty_message = 0" "m_Entries empty_message = []"
  "m_Snapshot empty_message = empty_snapshot" "m_HintHigh empty_message = 0"
  by (simp_all add: empty_message_def)

section \<open>Client and series identifiers\<close>

definition NotSessionManagedClientID :: u64 where
  "NotSessionManagedClientID = 0"

definition NoOPSeriesID :: u64 where
  "NoOPSeriesID = 0"

definition SeriesIDForRegister :: u64 where
  "SeriesIDForRegister = max_u64 - 1"

definition SeriesIDForUnregister :: u64 where
  "SeriesIDForUnregister = max_u64"

definition SeriesIDFirstProposal :: u64 where
  "SeriesIDFirstProposal = 1"

section \<open>Predicates on states, snapshots and entries\<close>

definition isStateEqual :: "pb_state \<Rightarrow> pb_state \<Rightarrow> bool" where
  "isStateEqual a b \<longleftrightarrow> st_Term a = st_Term b \<and> st_Vote a = st_Vote b \<and> st_Commit a = st_Commit b"

definition IsEmptyState :: "pb_state \<Rightarrow> bool" where
  "IsEmptyState st \<longleftrightarrow> isStateEqual st emptyState"

definition IsStateEqual :: "pb_state \<Rightarrow> pb_state \<Rightarrow> bool" where
  "IsStateEqual a b \<longleftrightarrow> isStateEqual a b"

definition IsEmptySnapshot :: "snapshot \<Rightarrow> bool" where
  "IsEmptySnapshot s \<longleftrightarrow> ss_Index s = 0"

definition HasUpdate :: "update \<Rightarrow> bool" where
  "HasUpdate ud \<longleftrightarrow> \<not> IsEmptyState (ud_State ud) \<or> \<not> IsEmptySnapshot (ud_Snapshot ud)
     \<or> length (ud_EntriesToSave ud) > 0 \<or> length (ud_CommittedEntries ud) > 0
     \<or> length (ud_Messages ud) > 0 \<or> length (ud_ReadyToReads ud) \<noteq> 0"

definition IsConfigChange :: "entry \<Rightarrow> bool" where
  "IsConfigChange e \<longleftrightarrow> e_Type e = ConfigChangeEntry"

definition IsSessionManaged :: "entry \<Rightarrow> bool" where
  "IsSessionManaged e =
     (if IsConfigChange e then False
      else if e_ClientID e = NotSessionManagedClientID then False
      else True)"

definition IsEmpty :: "entry \<Rightarrow> bool" where
  "IsEmpty e =
     (if IsConfigChange e then False
      else if IsSessionManaged e then False
      else length (e_Cmd e) = 0)"

definition IsNoOPSession :: "entry \<Rightarrow> bool" where
  "IsNoOPSession e \<longleftrightarrow> e_SeriesID e = NoOPSeriesID"

definition IsNewSessionRequest :: "entry \<Rightarrow> bool" where
  "IsNewSessionRequest e \<longleftrightarrow> \<not> IsConfigChange e \<and> length (e_Cmd e) = 0
     \<and> e_ClientID e \<noteq> NotSessionManagedClientID \<and> e_SeriesID e = SeriesIDForRegister"

definition IsEndOfSessionRequest :: "entry \<Rightarrow> bool" where
  "IsEndOfSessionRequest e \<longleftrightarrow> \<not> IsConfigChange e \<and> length (e_Cmd e) = 0
     \<and> e_ClientID e \<noteq> NotSessionManagedClientID \<and> e_SeriesID e = SeriesIDForUnregister"

definition IsUpdateEntry :: "entry \<Rightarrow> bool" where
  "IsUpdateEntry e \<longleftrightarrow> \<not> IsConfigChange e \<and> IsSessionManaged e
     \<and> \<not> IsNewSessionRequest e \<and> \<not> IsEndOfSessionRequest e"

text \<open>\<open>Entry.SizeUpperLimit\<close> of \<open>raftpb/raft_optimized.go\<close>. Go's \<open>int\<close> is 64 bits wide and the
  sum is bounded by the memory the command occupies, so it is a natural number.\<close>

definition SizeUpperLimit :: "entry \<Rightarrow> nat" where
  "SizeUpperLimit e = 16 * 7 + 16 + length (e_Cmd e)"

lemma isStateEqual_iff [simp]: "isStateEqual a b \<longleftrightarrow> a = b"
  by (cases a; cases b) (auto simp: isStateEqual_def)

lemma IsEmptyState_iff: "IsEmptyState st \<longleftrightarrow> st = emptyState"
  by (simp add: IsEmptyState_def)

text \<open>The kinds of entries the state machine distinguishes are exhaustive and exclusive.\<close>

lemma entry_kinds:
  "IsConfigChange e \<or> (\<not> IsConfigChange e \<and> \<not> IsSessionManaged e)
   \<or> IsNewSessionRequest e \<or> IsEndOfSessionRequest e \<or> IsUpdateEntry e"
  by (auto simp: IsUpdateEntry_def)

lemma register_not_unregister: "\<not> (IsNewSessionRequest e \<and> IsEndOfSessionRequest e)"
  by (auto simp: IsNewSessionRequest_def IsEndOfSessionRequest_def
      SeriesIDForRegister_def SeriesIDForUnregister_def)

end
