(* ===== verification/EntryUtils.thy ===== *)
theory EntryUtils
  imports RaftPB
begin

text \<open>
  The helpers of \<open>internal/raft/entryutils.go\<close> on slices of entries and on message types, and
  the shape of a slice of log entries: consecutive indexes starting at a given one.
\<close>

section \<open>Helpers on entries\<close>

primrec countConfigChange :: "entry list \<Rightarrow> nat" where
  "countConfigChange [] = 0"
| "countConfigChange (e # es) =
     (if e_Type e = ConfigChangeEntry then 1 else 0) + countConfigChange es"

definition newEntrySlice :: "entry list \<Rightarrow> entry list" where
  "newEntrySlice ents = [] @ ents"

definition checkEntriesToAppend :: "entry list \<Rightarrow> entry list \<Rightarrow> unit option" where
  "checkEntriesToAppend ents toAppend =
     (if length ents = 0 \<or> length toAppend = 0 then Some ()
      else if e_Index (ents ! (length ents - 1)) + 1 \<noteq> e_Index (toAppend ! 0) then panic
      else if e_Term (ents ! (length ents - 1)) > e_Term (toAppend ! 0) then panic
      else Some ())"

text \<open>The loop of \<open>limitSize\<close>: \<open>tot\<close> is the size so far; the result is what is still included.\<close>

primrec limitSize_loop :: "nat \<Rightarrow> entry list \<Rightarrow> u64 \<Rightarrow> entry list" where
  "limitSize_loop tot [] limit = []"
| "limitSize_loop tot (e # es) limit =
     (let tot' = tot + SizeUpperLimit e
      in if tot' > unat limit then [] else e # limitSize_loop tot' es limit)"

fun limitSize :: "entry list \<Rightarrow> u64 \<Rightarrow> entry list" where
  "limitSize [] limit = []"
| "limitSize (e # es) limit = e # limitSize_loop (SizeUpperLimit e) es limit"

section \<open>Message types\<close>

definition isLocalMessageType :: "message_type \<Rightarrow> bool" where
  "isLocalMessageType t \<longleftrightarrow> t = Election \<or> t = LeaderHeartbeat \<or> t = Unreachable
     \<or> t = SnapshotStatus \<or> t = CheckQuorum \<or> t = LocalTick \<or> t = BatchedReadIndex"

definition isResponseMessageType :: "message_type \<Rightarrow> bool" where
  "isResponseMessageType t \<longleftrightarrow> t = ReplicateResp \<or> t = RequestVoteResp \<or> t = HeartbeatResp
     \<or> t = ReadIndexResp \<or> t = Unreachable \<or> t = SnapshotStatus \<or> t = LeaderTransfer"

section \<open>Consecutive entries\<close>

text \<open>\<open>indexed i es\<close>: the entries of \<open>es\<close> carry the indexes \<open>i\<close>, \<open>i + 1\<close>, and so on.\<close>

primrec indexed :: "u64 \<Rightarrow> entry list \<Rightarrow> bool" where
  "indexed i [] = True"
| "indexed i (e # es) \<longleftrightarrow> e_Index e = i \<and> indexed (i + 1) es"

lemma indexed_nth: "indexed i es \<Longrightarrow> k < length es \<Longrightarrow> e_Index (es ! k) = i + of_nat k"
proof (induction es arbitrary: i k)
  case Nil
  then show ?case by simp
next
  case (Cons e es)
  then show ?case using Cons.IH [of "i + 1" "k - 1"] by (cases k) (simp_all add: add.assoc)
qed

lemma indexed_append [simp]:
  "indexed i (xs @ ys) \<longleftrightarrow> indexed i xs \<and> indexed (i + of_nat (length xs)) ys"
  by (induction xs arbitrary: i) (simp_all add: add.assoc)

lemma indexed_take: "indexed i es \<Longrightarrow> indexed i (take n es)"
  by (metis append_take_drop_id indexed_append)

lemma indexed_drop: "indexed i es \<Longrightarrow> n \<le> length es \<Longrightarrow> indexed (i + of_nat n) (drop n es)"
  by (metis append_take_drop_id indexed_append length_take min.absorb2)

lemma indexed_last:
  "indexed i es \<Longrightarrow> es \<noteq> [] \<Longrightarrow> e_Index (last es) = i + of_nat (length es - 1)"
  by (simp add: indexed_nth last_conv_nth)

lemma indexed_iff_nth:
  "indexed i es \<longleftrightarrow> (\<forall>k < length es. e_Index (es ! k) = i + of_nat k)"
proof
  show "indexed i es \<Longrightarrow> \<forall>k < length es. e_Index (es ! k) = i + of_nat k"
    by (simp add: indexed_nth)
  show "\<forall>k < length es. e_Index (es ! k) = i + of_nat k \<Longrightarrow> indexed i es"
  proof (induction es arbitrary: i)
    case Nil
    then show ?case by simp
  next
    case (Cons e es)
    have "\<forall>k < length es. e_Index (es ! k) = (i + 1) + of_nat k"
    proof (intro allI impI)
      fix k assume "k < length es"
      with Cons.prems have "e_Index ((e # es) ! Suc k) = i + of_nat (Suc k)"
        by (metis Suc_less_eq length_Cons)
      then show "e_Index (es ! k) = (i + 1) + of_nat k" by simp
    qed
    moreover from Cons.prems have "e_Index e = i" by force
    ultimately show ?case by (simp add: Cons.IH)
  qed
qed

text \<open>\<open>limitSize\<close> returns a non-empty prefix.\<close>

lemma limitSize_loop_prefix: "\<exists>n. limitSize_loop t es limit = take n es"
proof (induction es arbitrary: t)
  case Nil
  then show ?case by simp
next
  case (Cons e es)
  from Cons.IH obtain n where "limitSize_loop (t + SizeUpperLimit e) es limit = take n es" by blast
  then have "limitSize_loop t (e # es) limit = take 0 (e # es)
     \<or> limitSize_loop t (e # es) limit = take (Suc n) (e # es)" by (simp add: Let_def)
  then show ?case by blast
qed

lemma limitSize_prefix: "\<exists>n. limitSize es limit = take n es \<and> (es \<noteq> [] \<longrightarrow> 0 < n)"
proof (cases es)
  case (Cons e es')
  obtain n where "limitSize_loop (SizeUpperLimit e) es' limit = take n es'"
    using limitSize_loop_prefix by blast
  with Cons have "limitSize es limit = take (Suc n) es" by simp
  then show ?thesis by blast
qed (auto intro: exI [of _ 0])

lemma limitSize_nonempty: "es \<noteq> [] \<Longrightarrow> limitSize es limit \<noteq> []"
  by (cases es) auto

text \<open>The size bound: beyond its first entry the result stays within the limit.\<close>

lemma limitSize_loop_bound:
  "t \<le> unat limit \<Longrightarrow> t + sum_list (map SizeUpperLimit (limitSize_loop t es limit)) \<le> unat limit"
proof (induction es arbitrary: t)
  case Nil
  then show ?case by simp
next
  case (Cons e es)
  then show ?case
    using Cons.IH [of "t + SizeUpperLimit e"] by (auto simp: Let_def add.assoc)
qed

lemma limitSize_loop_over: "unat limit < t \<Longrightarrow> limitSize_loop t es limit = []"
  by (cases es) (auto simp: Let_def SizeUpperLimit_def)

lemma limitSize_bound:
  assumes "1 < length (limitSize es limit)"
  shows "sum_list (map SizeUpperLimit (limitSize es limit)) \<le> unat limit"
proof (cases es)
  case (Cons e es')
  have "SizeUpperLimit e \<le> unat limit"
  proof (rule ccontr)
    assume "\<not> SizeUpperLimit e \<le> unat limit"
    then have "limitSize_loop (SizeUpperLimit e) es' limit = []"
      by (simp add: limitSize_loop_over)
    with assms Cons show False by simp
  qed
  with Cons show ?thesis using limitSize_loop_bound by simp
qed simp

end
