(* ===== verification/InMemory.thy ===== *)
theory InMemory
  imports EntryUtils
begin

text \<open>
  \<open>internal/raft/inmemory.go\<close>: the entries Raft keeps in memory until they are saved and
  applied. The slice holds the entries with indexes \<open>markerIndex\<close>, \<open>markerIndex + 1\<close>, and so on;
  those up to \<open>savedTo\<close> are on stable storage; \<open>snapshot\<close> is a received snapshot that is not
  yet on stable storage.

  \<open>resizeEntrySlice\<close> only changes the capacity of the slice and leaves its contents alone, so
  it is the identity here.
\<close>

section \<open>Definitions\<close>

record inMemory =
  im_snapshot :: "snapshot option"
  im_entries :: "entry list"
  im_markerIndex :: u64
  im_savedTo :: u64

definition newInMemory :: "u64 \<Rightarrow> inMemory" where
  "newInMemory lastIndex =
     \<lparr>im_snapshot = None, im_entries = [], im_markerIndex = lastIndex + 1, im_savedTo = lastIndex\<rparr>"

definition im_checkMarkerIndex :: "inMemory \<Rightarrow> unit option" where
  "im_checkMarkerIndex im =
     (if length (im_entries im) > 0 \<and> e_Index (im_entries im ! 0) \<noteq> im_markerIndex im
      then panic else Some ())"

definition im_getEntries :: "inMemory \<Rightarrow> u64 \<Rightarrow> u64 \<Rightarrow> entry list option" where
  "im_getEntries im low high =
     (let upperBound = im_markerIndex im + of_nat (length (im_entries im)) in
      if low > high \<or> low < im_markerIndex im then panic
      else if high > upperBound then panic
      else go_slice (im_entries im) (unat (low - im_markerIndex im)) (unat (high - im_markerIndex im)))"

definition im_getSnapshotIndex :: "inMemory \<Rightarrow> u64 option" where
  "im_getSnapshotIndex im = (case im_snapshot im of None \<Rightarrow> None | Some ss \<Rightarrow> Some (ss_Index ss))"

definition im_getLastIndex :: "inMemory \<Rightarrow> u64 option" where
  "im_getLastIndex im =
     (if length (im_entries im) > 0
      then Some (e_Index (im_entries im ! (length (im_entries im) - 1)))
      else im_getSnapshotIndex im)"

text \<open>The Go result \<open>(term, ok)\<close> is an \<open>option\<close>, inside the \<open>option\<close> of a possible panic.\<close>

definition im_getTerm :: "inMemory \<Rightarrow> u64 \<Rightarrow> u64 option option" where
  "im_getTerm im index =
     (if index < im_markerIndex im then
        (case im_snapshot im of
           Some ss \<Rightarrow> if ss_Index ss = index then Some (Some (ss_Term ss)) else Some None
         | None \<Rightarrow> Some None)
      else
        (case im_getLastIndex im of
           Some lastIndex \<Rightarrow>
             if index \<le> lastIndex then
               do { e \<leftarrow> go_index (im_entries im) (unat (index - im_markerIndex im));
                    Some (Some (e_Term e)) }
             else Some None
         | None \<Rightarrow> Some None))"

definition im_entriesToSave :: "inMemory \<Rightarrow> entry list option" where
  "im_entriesToSave im =
     (let idx = im_savedTo im + 1 in
      if idx - im_markerIndex im > of_nat (length (im_entries im)) then Some []
      else go_slice (im_entries im) (unat (idx - im_markerIndex im)) (length (im_entries im)))"

definition im_savedLogTo :: "inMemory \<Rightarrow> u64 \<Rightarrow> u64 \<Rightarrow> inMemory option" where
  "im_savedLogTo im index trm =
     (if index < im_markerIndex im then Some im
      else if length (im_entries im) = 0 then Some im
      else if index > e_Index (im_entries im ! (length (im_entries im) - 1)) then Some im
      else do {
        e \<leftarrow> go_index (im_entries im) (unat (index - im_markerIndex im));
        if trm \<noteq> e_Term e then Some im else Some (im\<lparr>im_savedTo := index\<rparr>) })"

definition im_appliedLogTo :: "inMemory \<Rightarrow> u64 \<Rightarrow> inMemory option" where
  "im_appliedLogTo im index =
     (if index < im_markerIndex im then Some im
      else if length (im_entries im) = 0 then Some im
      else if index > e_Index (im_entries im ! (length (im_entries im) - 1)) then Some im
      else do {
        es \<leftarrow> go_slice (im_entries im) (unat (index - im_markerIndex im)) (length (im_entries im));
        let im' = im\<lparr>im_entries := es, im_markerIndex := index\<rparr>;
        im_checkMarkerIndex im';
        Some im' })"

definition im_savedSnapshotTo :: "inMemory \<Rightarrow> u64 \<Rightarrow> inMemory" where
  "im_savedSnapshotTo im index =
     (case im_getSnapshotIndex im of
        Some idx \<Rightarrow> if idx = index then im\<lparr>im_snapshot := None\<rparr> else im
      | None \<Rightarrow> im)"

definition im_commitUpdate :: "inMemory \<Rightarrow> update_commit \<Rightarrow> inMemory option" where
  "im_commitUpdate im cu = do {
     im \<leftarrow> (if uc_StableLogTo cu > 0 then im_savedLogTo im (uc_StableLogTo cu) (uc_StableLogTerm cu)
           else Some im);
     Some (if uc_StableSnapshotTo cu > 0 then im_savedSnapshotTo im (uc_StableSnapshotTo cu) else im) }"

definition im_merge :: "inMemory \<Rightarrow> entry list \<Rightarrow> inMemory option" where
  "im_merge im ents = do {
     e0 \<leftarrow> go_index ents 0;
     let firstNewIndex = e_Index e0;
     im' \<leftarrow> (if firstNewIndex = im_markerIndex im + of_nat (length (im_entries im)) then
              do { checkEntriesToAppend (im_entries im) ents;
                   Some (im\<lparr>im_entries := im_entries im @ ents\<rparr>) }
            else if firstNewIndex \<le> im_markerIndex im then
              Some (im\<lparr>im_markerIndex := firstNewIndex, im_entries := newEntrySlice ents,
                       im_savedTo := firstNewIndex - 1\<rparr>)
            else
              do { existing \<leftarrow> im_getEntries im (im_markerIndex im) firstNewIndex;
                   checkEntriesToAppend existing ents;
                   Some (im\<lparr>im_entries := existing @ ents,
                            im_savedTo := min (im_savedTo im) (firstNewIndex - 1)\<rparr>) });
     im_checkMarkerIndex im';
     Some im' }"

definition im_restore :: "inMemory \<Rightarrow> snapshot \<Rightarrow> inMemory" where
  "im_restore im ss =
     im\<lparr>im_snapshot := Some ss, im_markerIndex := ss_Index ss + 1, im_entries := [],
        im_savedTo := ss_Index ss\<rparr>"

section \<open>Invariant\<close>

text \<open>The entries are consecutive from the marker on, no index overflows, the saved part ends
  inside the slice (or right before it), and a pending snapshot lies before the marker.\<close>

definition im_inv :: "inMemory \<Rightarrow> bool" where
  "im_inv im \<longleftrightarrow>
     indexed (im_markerIndex im) (im_entries im)
     \<and> 0 < unat (im_markerIndex im)
     \<and> unat (im_markerIndex im) + length (im_entries im) < 18446744073709551616
     \<and> unat (im_markerIndex im) \<le> unat (im_savedTo im) + 1
     \<and> unat (im_savedTo im) + 1 \<le> unat (im_markerIndex im) + length (im_entries im)
     \<and> (\<forall>ss. im_snapshot im = Some ss \<longrightarrow> ss_Index ss < im_markerIndex im)"

text \<open>One past the last index the slice covers, as a natural number.\<close>

abbreviation im_end :: "inMemory \<Rightarrow> nat" where
  "im_end im \<equiv> unat (im_markerIndex im) + length (im_entries im)"

lemma im_inv_indexed: "im_inv im \<Longrightarrow> indexed (im_markerIndex im) (im_entries im)"
  by (simp add: im_inv_def)

lemma im_inv_index:
  assumes "im_inv im" and "k < length (im_entries im)"
  shows "unat (e_Index (im_entries im ! k)) = unat (im_markerIndex im) + k"
proof -
  from assms have "e_Index (im_entries im ! k) = im_markerIndex im + of_nat k"
    by (simp add: indexed_nth im_inv_def)
  moreover from assms have "unat (of_nat k :: u64) = k"
    by (intro u64_of_nat) (simp add: im_inv_def)
  ultimately show ?thesis using assms by (simp add: im_inv_def u64_add)
qed

lemma im_inv_last:
  assumes "im_inv im" and "im_entries im \<noteq> []"
  shows "unat (e_Index (im_entries im ! (length (im_entries im) - Suc 0))) + 1 = im_end im"
proof -
  from assms(2) have "0 < length (im_entries im)" by simp
  then show ?thesis using im_inv_index [OF assms(1), of "length (im_entries im) - Suc 0"] by linarith
qed

lemma newInMemory_inv: "lastIndex \<noteq> max_u64 \<Longrightarrow> im_inv (newInMemory lastIndex)"
  using u64_inc_neq_max [of lastIndex] by (simp add: im_inv_def newInMemory_def u64_inc)

lemma im_restore_inv: "ss_Index ss \<noteq> max_u64 \<Longrightarrow> im_inv (im_restore im ss)"
  using u64_inc_neq_max [of "ss_Index ss"]
  by (simp add: im_inv_def im_restore_def u64_inc word_less_nat_alt)

lemma im_savedSnapshotTo_inv: "im_inv im \<Longrightarrow> im_inv (im_savedSnapshotTo im i)"
  by (auto simp: im_inv_def im_savedSnapshotTo_def split: option.splits)

lemma im_savedSnapshotTo_simps [simp]:
  "im_entries (im_savedSnapshotTo im i) = im_entries im"
  "im_markerIndex (im_savedSnapshotTo im i) = im_markerIndex im"
  "im_savedTo (im_savedSnapshotTo im i) = im_savedTo im"
  by (auto simp: im_savedSnapshotTo_def split: option.splits)

section \<open>Reading\<close>

lemma im_getEntries_spec:
  assumes "im_inv im" and "im_markerIndex im \<le> low" and "low \<le> high" and "unat high \<le> im_end im"
  shows "im_getEntries im low high
    = Some (take (unat high - unat low) (drop (unat low - unat (im_markerIndex im)) (im_entries im)))"
proof -
  let ?m = "im_markerIndex im"
  have ub: "unat (?m + of_nat (length (im_entries im))) = im_end im"
    using assms(1) by (simp add: im_inv_def u64_add u64_of_nat)
  have "unat (low - ?m) = unat low - unat ?m" "unat (high - ?m) = unat high - unat ?m"
    using assms by (simp_all add: u64_sub word_le_nat_alt)
  moreover have "unat ?m \<le> unat low" "unat low \<le> unat high"
    using assms by (simp_all add: word_le_nat_alt)
  ultimately show ?thesis
    using assms ub by (simp add: im_getEntries_def Let_def word_less_nat_alt word_le_nat_alt not_less)
qed

lemma im_getLastIndex_entries:
  assumes "im_inv im" and "im_entries im \<noteq> []"
  obtains i where "im_getLastIndex im = Some i" and "unat i + 1 = im_end im"
proof -
  from assms(2) that im_inv_last [OF assms] show thesis by (simp add: im_getLastIndex_def)
qed

lemma im_getTerm_entry:
  assumes "im_inv im" and "unat (im_markerIndex im) \<le> unat i" and "unat i < im_end im"
  shows "im_getTerm im i = Some (Some (e_Term (im_entries im ! (unat i - unat (im_markerIndex im)))))"
proof -
  from assms(2,3) have ne: "im_entries im \<noteq> []" by auto
  obtain la where la: "im_getLastIndex im = Some la" "unat la + 1 = im_end im"
    using im_getLastIndex_entries [OF assms(1) ne] by blast
  have "unat (i - im_markerIndex im) = unat i - unat (im_markerIndex im)"
    using assms(2) by (simp add: u64_sub)
  with la assms show ?thesis
    by (simp add: im_getTerm_def word_less_nat_alt word_le_nat_alt not_less)
qed

lemma im_getTerm_beyond:
  assumes "im_inv im" and "im_end im \<le> unat i"
  shows "im_getTerm im i = Some None"
proof (cases "im_entries im = []")
  case True
  with assms show ?thesis
    by (auto simp: im_getTerm_def im_inv_def im_getLastIndex_def im_getSnapshotIndex_def
        word_less_nat_alt word_le_nat_alt split: option.splits)
next
  case False
  then obtain la where la: "im_getLastIndex im = Some la" "unat la + 1 = im_end im"
    using im_getLastIndex_entries [OF assms(1)] by blast
  with assms show ?thesis by (auto simp: im_getTerm_def word_less_nat_alt word_le_nat_alt)
qed

lemma im_getTerm_below:
  assumes "unat i < unat (im_markerIndex im)"
  shows "im_getTerm im i =
    Some (case im_snapshot im of Some ss \<Rightarrow> if ss_Index ss = i then Some (ss_Term ss) else None
          | None \<Rightarrow> None)"
  using assms by (auto simp: im_getTerm_def word_less_nat_alt split: option.splits)

lemma im_getTerm_panic_free [panic_free]: "im_inv im \<Longrightarrow> \<exists>t. im_getTerm im i = Some t"
proof -
  assume inv: "im_inv im"
  consider "unat i < unat (im_markerIndex im)"
    | "unat (im_markerIndex im) \<le> unat i" "unat i < im_end im" | "im_end im \<le> unat i"
    by linarith
  then show ?thesis
    using inv by cases (auto simp: im_getTerm_below im_getTerm_entry im_getTerm_beyond)
qed

text \<open>What is left to save are the entries above \<open>savedTo\<close>.\<close>

lemma im_entriesToSave_spec:
  assumes "im_inv im"
  shows "im_entriesToSave im =
    Some (drop (unat (im_savedTo im) + 1 - unat (im_markerIndex im)) (im_entries im))"
proof -
  have "unat (im_savedTo im + 1) = unat (im_savedTo im) + 1"
    using assms by (intro u64_inc) (simp add: im_inv_def)
  moreover from this have "unat (im_savedTo im + 1 - im_markerIndex im)
      = unat (im_savedTo im) + 1 - unat (im_markerIndex im)"
    using assms by (simp add: im_inv_def u64_sub)
  moreover have "unat (of_nat (length (im_entries im)) :: u64) = length (im_entries im)"
    using assms by (intro u64_of_nat) (simp add: im_inv_def)
  ultimately show ?thesis
    using assms by (auto simp: im_entriesToSave_def Let_def im_inv_def word_less_nat_alt)
qed

section \<open>Saving and applying\<close>

lemma im_savedLogTo_spec:
  assumes "im_inv im"
  shows "im_savedLogTo im i t =
    Some (if unat (im_markerIndex im) \<le> unat i \<and> unat i < im_end im
             \<and> e_Term (im_entries im ! (unat i - unat (im_markerIndex im))) = t
          then im\<lparr>im_savedTo := i\<rparr> else im)"
proof (cases "unat (im_markerIndex im) \<le> unat i \<and> unat i < im_end im")
  case True
  then have ne: "im_entries im \<noteq> []" by auto
  have "\<not> e_Index (im_entries im ! (length (im_entries im) - Suc 0)) < i"
    using True im_inv_last [OF assms ne] unfolding word_less_nat_alt by linarith
  moreover have "unat (i - im_markerIndex im) = unat i - unat (im_markerIndex im)"
    using True by (simp add: u64_sub)
  moreover have "unat i - unat (im_markerIndex im) < length (im_entries im)"
    using True by linarith
  ultimately show ?thesis
    using True ne by (simp add: im_savedLogTo_def word_less_nat_alt)
next
  case False
  show ?thesis
  proof (cases "unat i < unat (im_markerIndex im) \<or> im_entries im = []")
    case True
    with False show ?thesis by (auto simp: im_savedLogTo_def word_less_nat_alt)
  next
    case ne: False
    with False have "unat (e_Index (im_entries im ! (length (im_entries im) - Suc 0))) < unat i"
      using im_inv_last [OF assms] by fastforce
    with ne False show ?thesis by (simp add: im_savedLogTo_def word_less_nat_alt)
  qed
qed

lemma im_savedLogTo_inv:
  assumes "im_inv im" and "im_savedLogTo im i t = Some im'"
  shows "im_inv im'"
  using assms by (auto simp: im_savedLogTo_spec im_inv_def split: if_splits)

lemma im_appliedLogTo_spec:
  assumes "im_inv im"
  shows "im_appliedLogTo im i =
    Some (if unat (im_markerIndex im) \<le> unat i \<and> unat i < im_end im
          then im\<lparr>im_entries := drop (unat i - unat (im_markerIndex im)) (im_entries im),
                  im_markerIndex := i\<rparr>
          else im)"
proof (cases "unat (im_markerIndex im) \<le> unat i \<and> unat i < im_end im")
  case True
  then have ne: "im_entries im \<noteq> []" by auto
  let ?k = "unat i - unat (im_markerIndex im)"
  have sub: "unat (i - im_markerIndex im) = ?k" using True by (simp add: u64_sub)
  have k: "?k < length (im_entries im)" using True by linarith
  have "unat (e_Index (im_entries im ! ?k)) = unat i"
    using im_inv_index [OF assms k] True by simp
  then have "e_Index (im_entries im ! ?k) = i" by (simp add: word_unat_eq_iff)
  then have chk: "im_checkMarkerIndex (im\<lparr>im_entries := drop ?k (im_entries im), im_markerIndex := i\<rparr>)
      = Some ()"
    using k by (simp add: im_checkMarkerIndex_def)
  have "\<not> e_Index (im_entries im ! (length (im_entries im) - Suc 0)) < i"
    using True im_inv_last [OF assms ne] unfolding word_less_nat_alt by linarith
  then show ?thesis
    using True ne k sub chk by (simp add: im_appliedLogTo_def word_less_nat_alt Let_def)
next
  case False
  show ?thesis
  proof (cases "unat i < unat (im_markerIndex im) \<or> im_entries im = []")
    case True
    with False show ?thesis by (auto simp: im_appliedLogTo_def word_less_nat_alt)
  next
    case ne: False
    with False have "unat (e_Index (im_entries im ! (length (im_entries im) - Suc 0))) < unat i"
      using im_inv_last [OF assms] by fastforce
    with ne False show ?thesis by (simp add: im_appliedLogTo_def word_less_nat_alt)
  qed
qed

text \<open>Dropping applied entries keeps the invariant when only saved entries are dropped.\<close>

lemma im_appliedLogTo_inv:
  assumes "im_inv im" and "im_appliedLogTo im i = Some im'" and "unat i \<le> unat (im_savedTo im) + 1"
  shows "im_inv im'"
proof (cases "unat (im_markerIndex im) \<le> unat i \<and> unat i < im_end im")
  case True
  let ?k = "unat i - unat (im_markerIndex im)"
  from assms(1,2) True have im': "im' = im\<lparr>im_entries := drop ?k (im_entries im), im_markerIndex := i\<rparr>"
    by (simp add: im_appliedLogTo_spec)
  have "im_markerIndex im + of_nat ?k = i"
    using True by (simp add: of_nat_diff)
  then have "indexed i (drop ?k (im_entries im))"
    using indexed_drop [OF im_inv_indexed [OF assms(1)], of ?k] True by fastforce
  then show ?thesis
    using assms(1,3) True im' by (auto simp: im_inv_def word_less_nat_alt)
next
  case False
  with assms show ?thesis by (auto simp: im_appliedLogTo_spec)
qed

section \<open>Merging new entries\<close>

text \<open>The three branches of \<open>merge\<close> are one operation: the slice is cut right before the first new
  index and the new entries follow, the marker moves back if they start before it, and what was
  saved above the cut is no longer considered saved. A gap, or a term that would decrease at the
  seam, panics.\<close>

definition im_merge_result :: "inMemory \<Rightarrow> entry list \<Rightarrow> inMemory" where
  "im_merge_result im ents =
     (let first = e_Index (ents ! 0) in
      im\<lparr>im_entries := take (unat first - unat (im_markerIndex im)) (im_entries im) @ ents,
         im_markerIndex := min first (im_markerIndex im),
         im_savedTo := min (im_savedTo im) (first - 1)\<rparr>)"

definition im_merge_ok :: "inMemory \<Rightarrow> entry list \<Rightarrow> bool" where
  "im_merge_ok im ents \<longleftrightarrow>
     (let first = unat (e_Index (ents ! 0)); m = unat (im_markerIndex im) in
      first \<le> im_end im
      \<and> (m < first \<longrightarrow> e_Term (im_entries im ! (first - m - 1)) \<le> e_Term (ents ! 0)))"

lemma checkEntriesToAppend_indexed:
  assumes "im_inv im" and "n \<le> length (im_entries im)" and "0 < n" and "ents \<noteq> []"
    and "unat (e_Index (ents ! 0)) = unat (im_markerIndex im) + n"
  shows "checkEntriesToAppend (take n (im_entries im)) ents
    = (if e_Term (im_entries im ! (n - 1)) \<le> e_Term (ents ! 0) then Some () else panic)"
proof -
  have "unat (e_Index (im_entries im ! (n - 1))) + 1 = unat (e_Index (ents ! 0))"
    using im_inv_index [OF assms(1), of "n - 1"] assms by simp
  then have "e_Index (im_entries im ! (n - 1)) + 1 = e_Index (ents ! 0)"
    by (rule u64_eq_incI)
  moreover have "length (take n (im_entries im)) - 1 = n - 1"
    using assms by simp
  ultimately show ?thesis
    using assms by (auto simp: checkEntriesToAppend_def)
qed

lemma im_merge_eq:
  assumes inv: "im_inv im" and ne: "ents \<noteq> []" and pos: "0 < unat (e_Index (ents ! 0))"
    and idx: "indexed (e_Index (ents ! 0)) ents"
  shows "im_merge im ents = (if im_merge_ok im ents then Some (im_merge_result im ents) else panic)"
proof -
  let ?f = "e_Index (ents ! 0)" and ?m = "im_markerIndex im" and ?es = "im_entries im"
  have ub: "unat (?m + of_nat (length ?es)) = im_end im"
    using inv by (simp add: im_inv_def u64_add u64_of_nat)
  have pred: "unat (?f - 1) = unat ?f - 1"
    using pos by (intro unat_minus_one) auto
  have saved: "unat ?m \<le> unat (im_savedTo im) + 1" "unat (im_savedTo im) + 1 \<le> im_end im"
    using inv by (simp_all add: im_inv_def)
  consider (app) "unat ?f = im_end im" | (repl) "unat ?f \<le> unat ?m" "unat ?f \<noteq> im_end im"
    | (cut) "unat ?m < unat ?f" "unat ?f < im_end im" | (gap) "im_end im < unat ?f"
    by linarith
  then show ?thesis
  proof cases
    case app
    then have f: "?f = ?m + of_nat (length ?es)" using ub by (simp add: word_unat_eq_iff)
    have "im_savedTo im \<le> ?f - 1"
      using app saved(2) unfolding word_le_nat_alt pred by linarith
    then have st: "min (im_savedTo im) (?f - 1) = im_savedTo im" by (rule min.absorb1)
    have mk: "min ?f ?m = ?m" using app by (intro min.absorb2) (simp add: word_le_nat_alt)
    show ?thesis
    proof (cases "?es = []")
      case True
      with f ne mk st app show ?thesis
        by (simp add: im_merge_def im_merge_ok_def im_merge_result_def checkEntriesToAppend_def
            im_checkMarkerIndex_def Let_def)
    next
      case False
      then have "0 < length ?es" by simp
      moreover from this have "e_Index ((?es @ ents) ! 0) = ?m"
        using im_inv_index [OF inv, of 0] by (simp add: nth_append word_unat_eq_iff)
      moreover have "checkEntriesToAppend ?es ents
          = (if e_Term (?es ! (length ?es - 1)) \<le> e_Term (ents ! 0) then Some () else panic)"
        using checkEntriesToAppend_indexed [OF inv, of "length ?es" ents] app ne False by simp
      ultimately show ?thesis
        using f ne mk st app
        by (simp add: im_merge_def im_merge_ok_def im_merge_result_def
            im_checkMarkerIndex_def Let_def)
    qed
  next
    case repl
    then have "?f \<noteq> ?m + of_nat (length ?es)" using ub by auto
    moreover have "?f - 1 \<le> im_savedTo im"
      using repl(1) saved(1) unfolding word_le_nat_alt pred by linarith
    moreover from this have "min (im_savedTo im) (?f - 1) = ?f - 1" by (rule min.absorb2)
    moreover have "min ?f ?m = ?f" using repl by (intro min.absorb1) (simp add: word_le_nat_alt)
    ultimately show ?thesis
      using repl ne
      by (simp add: im_merge_def im_merge_ok_def im_merge_result_def newEntrySlice_def
          im_checkMarkerIndex_def Let_def word_le_nat_alt)
  next
    case cut
    let ?n = "unat ?f - unat ?m"
    have nf: "?f \<noteq> ?m + of_nat (length ?es)" "\<not> ?f \<le> ?m" "min ?f ?m = ?m"
      using ub cut by (auto simp: word_le_nat_alt min_def)
    have ex: "im_getEntries im ?m ?f = Some (take ?n ?es)"
      using im_getEntries_spec [OF inv, of ?m ?f] cut by (simp add: word_le_nat_alt)
    have n: "0 < ?n" "?n \<le> length ?es" using cut by linarith+
    have len: "0 < length ?es" using n by linarith
    have "e_Index ((take ?n ?es @ ents) ! 0) = ?m"
      using im_inv_index [OF inv len] n len by (simp add: nth_append word_unat_eq_iff)
    moreover have "checkEntriesToAppend (take ?n ?es) ents
        = (if e_Term (?es ! (?n - 1)) \<le> e_Term (ents ! 0) then Some () else panic)"
      using checkEntriesToAppend_indexed [OF inv n(2) n(1) ne] cut by simp
    ultimately show ?thesis
      using nf ex ne n cut
      by (simp add: im_merge_def im_merge_ok_def im_merge_result_def
          im_checkMarkerIndex_def Let_def)
  next
    case gap
    then have "?f \<noteq> ?m + of_nat (length ?es)" "\<not> ?f \<le> ?m" "\<not> ?f < ?m"
      "?m + of_nat (length ?es) < ?f"
      using ub by (auto simp: word_le_nat_alt word_less_nat_alt)
    with gap ne show ?thesis
      by (simp add: im_merge_def im_merge_ok_def im_getEntries_def Let_def)
  qed
qed

lemma im_merge_result_inv:
  assumes inv: "im_inv im" and ne: "ents \<noteq> []" and pos: "0 < unat (e_Index (ents ! 0))"
    and idx: "indexed (e_Index (ents ! 0)) ents"
    and bnd: "unat (e_Index (ents ! 0)) + length ents < 18446744073709551616"
    and le: "unat (e_Index (ents ! 0)) \<le> im_end im"
    and snap: "\<And>ss. im_snapshot im = Some ss \<Longrightarrow> ss_Index ss < e_Index (ents ! 0)"
  shows "im_inv (im_merge_result im ents)"
proof -
  let ?f = "e_Index (ents ! 0)" and ?m = "im_markerIndex im" and ?es = "im_entries im"
  let ?n = "unat ?f - unat ?m"
  have pred: "unat (?f - 1) = unat ?f - 1"
    using pos by (intro unat_minus_one) auto
  have mn: "unat (min ?f ?m) = min (unat ?f) (unat ?m)"
    "unat (min (im_savedTo im) (?f - 1)) = min (unat (im_savedTo im)) (unat ?f - 1)"
    by (simp_all add: min_def word_le_nat_alt pred)
  have n: "?n \<le> length ?es" using le by linarith
  have "indexed (min ?f ?m) (take ?n ?es @ ents)"
  proof (cases "unat ?m < unat ?f")
    case True
    then have "?m + of_nat ?n = ?f" by (simp add: of_nat_diff)
    with True n idx im_inv_indexed [OF inv] show ?thesis
      by (simp add: indexed_take min_def word_le_nat_alt)
  qed (use idx in \<open>simp add: min_def word_le_nat_alt\<close>)
  moreover have "length (take ?n ?es @ ents) = ?n + length ents" using n by simp
  moreover have "unat ?m \<le> unat (im_savedTo im) + 1" "0 < unat ?m"
    using inv by (simp_all add: im_inv_def)
  ultimately show ?thesis
    using inv pos bnd ne snap mn
    by (auto simp: im_inv_def im_merge_result_def Let_def min_def word_less_nat_alt
        length_greater_0_conv [symmetric] simp del: length_greater_0_conv)
qed

lemma im_merge_inv:
  assumes "im_merge im ents = Some im'" and "im_inv im"
    and "ents \<noteq> []" and "0 < unat (e_Index (ents ! 0))"
    and "indexed (e_Index (ents ! 0)) ents"
    and "unat (e_Index (ents ! 0)) + length ents < 18446744073709551616"
    and "\<And>ss. im_snapshot im = Some ss \<Longrightarrow> ss_Index ss < e_Index (ents ! 0)"
  shows "im_inv im'" and "im' = im_merge_result im ents" and "im_merge_ok im ents"
proof -
  from assms show "im' = im_merge_result im ents" and ok: "im_merge_ok im ents"
    by (simp_all add: im_merge_eq split: if_splits)
  with assms show "im_inv im'"
    by (simp add: im_merge_result_inv im_merge_ok_def Let_def)
qed

end
