(* ===== verification/EntryLog.thy ===== *)
theory EntryLog
  imports InMemory
begin

text \<open>
  \<open>internal/raft/logentry.go\<close>: the Raft log. It reads from two places, the entries in memory and
  the persistent \<open>ILogDB\<close>. The interface value is a record with the methods the log calls; what
  an implementation of it promises is \<open>logdb_ok\<close>.
\<close>

section \<open>The persistent log interface\<close>

datatype raft_err = ErrCompacted | ErrSnapshotOutOfDate | ErrUnavailable | ErrOther

text \<open>Only the read methods: the raft package never writes to its \<open>ILogDB\<close>.\<close>

record ilogdb =
  db_GetRange :: "u64 \<times> u64"
  db_NodeState :: "pb_state \<times> membership"
  db_Term :: "u64 \<Rightarrow> raft_err + u64"
  db_Entries :: "u64 \<Rightarrow> u64 \<Rightarrow> u64 \<Rightarrow> raft_err + entry list"
  db_Snapshot :: snapshot

section \<open>Definitions\<close>

record entryLog =
  el_logdb :: ilogdb
  el_inmem :: inMemory
  el_committed :: u64
  el_applied :: u64

definition newEntryLog :: "ilogdb \<Rightarrow> entryLog" where
  "newEntryLog logdb =
     (let (firstIndex, lastIndex) = db_GetRange logdb in
      \<lparr>el_logdb = logdb, el_inmem = newInMemory lastIndex,
       el_committed = firstIndex - 1, el_applied = firstIndex - 1\<rparr>)"

definition el_firstIndex :: "entryLog \<Rightarrow> u64" where
  "el_firstIndex l =
     (case im_getSnapshotIndex (el_inmem l) of
        Some index \<Rightarrow> index + 1
      | None \<Rightarrow> fst (db_GetRange (el_logdb l)))"

definition el_lastIndex :: "entryLog \<Rightarrow> u64" where
  "el_lastIndex l =
     (case im_getLastIndex (el_inmem l) of
        Some index \<Rightarrow> index
      | None \<Rightarrow> snd (db_GetRange (el_logdb l)))"

definition el_termEntryRange :: "entryLog \<Rightarrow> u64 \<times> u64" where
  "el_termEntryRange l = (el_firstIndex l - 1, el_lastIndex l)"

definition el_entryRange :: "entryLog \<Rightarrow> (u64 \<times> u64) option" where
  "el_entryRange l =
     (if im_snapshot (el_inmem l) \<noteq> None \<and> length (im_entries (el_inmem l)) = 0 then None
      else Some (el_firstIndex l, el_lastIndex l))"

definition el_term :: "entryLog \<Rightarrow> u64 \<Rightarrow> (raft_err + u64) option" where
  "el_term l index =
     (let (first, lst) = el_termEntryRange l in
      if index < first \<or> index > lst then Some (Inr 0)
      else do {
        t \<leftarrow> im_getTerm (el_inmem l) index;
        case t of
          Some t \<Rightarrow> Some (Inr t)
        | None \<Rightarrow>
            (case db_Term (el_logdb l) index of
               Inr t \<Rightarrow> Some (Inr t)
             | Inl err \<Rightarrow> if err \<noteq> ErrCompacted \<and> err \<noteq> ErrUnavailable then panic
                         else Some (Inl err)) })"

definition el_lastTerm :: "entryLog \<Rightarrow> u64 option" where
  "el_lastTerm l = do {
     t \<leftarrow> el_term l (el_lastIndex l);
     case t of Inr t \<Rightarrow> Some t | Inl _ \<Rightarrow> panic }"

definition el_checkBound :: "entryLog \<Rightarrow> u64 \<Rightarrow> u64 \<Rightarrow> (raft_err + unit) option" where
  "el_checkBound l low high =
     (if low > high then panic
      else case el_entryRange l of
        None \<Rightarrow> Some (Inl ErrCompacted)
      | Some (first, lst) \<Rightarrow>
          if low < first then Some (Inl ErrCompacted)
          else if high > lst + 1 then panic
          else Some (Inr ()))"

definition el_getEntriesFromLogDB ::
    "entryLog \<Rightarrow> u64 \<Rightarrow> u64 \<Rightarrow> u64 \<Rightarrow> (raft_err + entry list \<times> bool) option" where
  "el_getEntriesFromLogDB l low high maxSize =
     (if low \<ge> im_markerIndex (el_inmem l) then Some (Inr ([], True))
      else
        let upperBound = min high (im_markerIndex (el_inmem l)) in
        (case db_Entries (el_logdb l) low upperBound maxSize of
           Inl err \<Rightarrow> if err = ErrCompacted then Some (Inl err) else panic
         | Inr ents \<Rightarrow>
             if of_nat (length ents) > upperBound - low then panic
             else Some (Inr (ents, of_nat (length ents) = upperBound - low))))"

definition el_getEntriesFromInMem ::
    "entryLog \<Rightarrow> entry list \<Rightarrow> u64 \<Rightarrow> u64 \<Rightarrow> entry list option" where
  "el_getEntriesFromInMem l ents low high =
     (if high \<le> im_markerIndex (el_inmem l) then Some ents
      else do {
        let lowerBound = max low (im_markerIndex (el_inmem l));
        inmem \<leftarrow> im_getEntries (el_inmem l) lowerBound high;
        if length inmem > 0 then
          if length ents > 0 then do { checkEntriesToAppend ents inmem; Some (ents @ inmem) }
          else Some inmem
        else Some ents })"

definition el_getEntries :: "entryLog \<Rightarrow> u64 \<Rightarrow> u64 \<Rightarrow> u64 \<Rightarrow> (raft_err + entry list) option" where
  "el_getEntries l low high maxSize = do {
     b \<leftarrow> el_checkBound l low high;
     case b of
       Inl err \<Rightarrow> Some (Inl err)
     | Inr _ \<Rightarrow>
         if low = high then Some (Inr [])
         else do {
           r \<leftarrow> el_getEntriesFromLogDB l low high maxSize;
           case r of
             Inl err \<Rightarrow> Some (Inl err)
           | Inr (ents, checkInMem) \<Rightarrow>
               if \<not> checkInMem then Some (Inr ents)
               else do {
                 es \<leftarrow> el_getEntriesFromInMem l ents low high;
                 Some (Inr (limitSize es maxSize)) } } }"

definition el_entries :: "entryLog \<Rightarrow> u64 \<Rightarrow> u64 \<Rightarrow> (raft_err + entry list) option" where
  "el_entries l start maxSize =
     (if start > el_lastIndex l then Some (Inr [])
      else el_getEntries l start (el_lastIndex l + 1) maxSize)"

definition el_snapshot :: "entryLog \<Rightarrow> snapshot" where
  "el_snapshot l =
     (case im_snapshot (el_inmem l) of Some ss \<Rightarrow> ss | None \<Rightarrow> db_Snapshot (el_logdb l))"

definition el_firstNotAppliedIndex :: "entryLog \<Rightarrow> u64" where
  "el_firstNotAppliedIndex l = max (el_applied l + 1) (el_firstIndex l)"

definition el_toApplyIndexLimit :: "entryLog \<Rightarrow> u64" where
  "el_toApplyIndexLimit l = el_committed l + 1"

definition el_hasEntriesToApply :: "entryLog \<Rightarrow> bool" where
  "el_hasEntriesToApply l \<longleftrightarrow> el_toApplyIndexLimit l > el_firstNotAppliedIndex l"

definition el_hasMoreEntriesToApply :: "entryLog \<Rightarrow> u64 \<Rightarrow> bool" where
  "el_hasMoreEntriesToApply l appliedTo \<longleftrightarrow> el_committed l > appliedTo"

definition el_getEntriesToApply :: "entryLog \<Rightarrow> u64 \<Rightarrow> entry list option" where
  "el_getEntriesToApply l limit =
     (if el_hasEntriesToApply l then do {
        r \<leftarrow> el_getEntries l (el_firstNotAppliedIndex l) (el_toApplyIndexLimit l) limit;
        case r of Inl _ \<Rightarrow> panic | Inr ents \<Rightarrow> Some ents }
      else Some [])"

text \<open>\<open>settings.MaxProposalPayloadSize\<close> of \<open>internal/settings/hard.go\<close>.\<close>

definition MaxProposalPayloadSize :: u64 where
  "MaxProposalPayloadSize = 32 * 1024 * 1024"

definition maxEntriesToApplySize :: u64 where
  "maxEntriesToApplySize = MaxProposalPayloadSize * 2"

definition el_entriesToApply :: "entryLog \<Rightarrow> entry list option" where
  "el_entriesToApply l = el_getEntriesToApply l maxEntriesToApplySize"

definition el_entriesToSave :: "entryLog \<Rightarrow> entry list option" where
  "el_entriesToSave l = im_entriesToSave (el_inmem l)"

definition el_matchTerm :: "entryLog \<Rightarrow> u64 \<Rightarrow> u64 \<Rightarrow> bool option" where
  "el_matchTerm l index trm = do {
     lt \<leftarrow> el_term l index;
     case lt of Inl _ \<Rightarrow> Some False | Inr lt \<Rightarrow> Some (lt = trm) }"

primrec el_getConflictIndex :: "entryLog \<Rightarrow> entry list \<Rightarrow> u64 option" where
  "el_getConflictIndex l [] = Some 0"
| "el_getConflictIndex l (e # es) = do {
     b \<leftarrow> el_matchTerm l (e_Index e) (e_Term e);
     if \<not> b then Some (e_Index e) else el_getConflictIndex l es }"

definition el_append :: "entryLog \<Rightarrow> entry list \<Rightarrow> entryLog option" where
  "el_append l entries =
     (if length entries = 0 then Some l
      else if e_Index (entries ! 0) \<le> el_committed l then panic
      else do { im \<leftarrow> im_merge (el_inmem l) entries; Some (l\<lparr>el_inmem := im\<rparr>) })"

definition el_tryAppend :: "entryLog \<Rightarrow> u64 \<Rightarrow> entry list \<Rightarrow> (bool \<times> entryLog) option" where
  "el_tryAppend l index ents = do {
     conflictIndex \<leftarrow> el_getConflictIndex l ents;
     if conflictIndex \<noteq> 0 then
       if conflictIndex \<le> el_committed l then panic
       else do {
         es \<leftarrow> go_slice ents (unat (conflictIndex - index - 1)) (length ents);
         l \<leftarrow> el_append l es;
         Some (True, l) }
     else Some (False, l) }"

definition el_commitTo :: "entryLog \<Rightarrow> u64 \<Rightarrow> entryLog option" where
  "el_commitTo l index =
     (if index \<le> el_committed l then Some l
      else if index > el_lastIndex l then panic
      else Some (l\<lparr>el_committed := index\<rparr>))"

definition el_commitUpdate :: "entryLog \<Rightarrow> update_commit \<Rightarrow> entryLog option" where
  "el_commitUpdate l cu = do {
     im \<leftarrow> im_commitUpdate (el_inmem l) cu;
     let l = l\<lparr>el_inmem := im\<rparr>;
     if uc_AppliedTo cu > 0 then
       if uc_AppliedTo cu < el_applied l \<or> uc_AppliedTo cu > el_committed l then panic
       else do {
         let l = l\<lparr>el_applied := uc_AppliedTo cu\<rparr>;
         im \<leftarrow> im_appliedLogTo (el_inmem l) (uc_AppliedTo cu);
         Some (l\<lparr>el_inmem := im\<rparr>) }
     else Some l }"

definition el_upToDate :: "entryLog \<Rightarrow> u64 \<Rightarrow> u64 \<Rightarrow> bool option" where
  "el_upToDate l index trm = do {
     r \<leftarrow> el_term l (el_lastIndex l);
     case r of
       Inl _ \<Rightarrow> panic
     | Inr lastTerm \<Rightarrow>
         Some (if trm \<ge> lastTerm then (if trm > lastTerm then True else index \<ge> el_lastIndex l)
               else False) }"

definition el_tryCommit :: "entryLog \<Rightarrow> u64 \<Rightarrow> u64 \<Rightarrow> (bool \<times> entryLog) option" where
  "el_tryCommit l index trm =
     (if index \<le> el_committed l then Some (False, l)
      else do {
        r \<leftarrow> el_term l index;
        lterm \<leftarrow> (case r of Inr t \<Rightarrow> Some t | Inl err \<Rightarrow> if err = ErrCompacted then Some 0 else panic);
        if index > el_committed l \<and> lterm = trm then
          do { l \<leftarrow> el_commitTo l index; Some (True, l) }
        else Some (False, l) })"

definition el_restore :: "entryLog \<Rightarrow> snapshot \<Rightarrow> entryLog" where
  "el_restore l s =
     l\<lparr>el_inmem := im_restore (el_inmem l) s, el_committed := ss_Index s, el_applied := ss_Index s\<rparr>"

end
