(* ===== verification/EntryLogSpec.thy ===== *)
theory EntryLogSpec
  imports EntryLog
begin

text \<open>
  The Raft log as one sequence. The two-stage log of \<open>EntryLog\<close> is read through the abstraction
  \<open>el_entry c l n\<close> and \<open>el_trm c l n\<close>, the entry and the term at the index \<open>n\<close> (a natural number),
  where \<open>c\<close> is the content of the persistent log. Under the invariant \<open>el_inv\<close> the readers
  return what the abstract log holds and never panic, and the writers act on it the way the
  log-replication rules of Raft say.
\<close>

section \<open>Contract of the persistent log\<close>

text \<open>\<open>logdb_ok db c\<close>: \<open>db\<close> serves the entries \<open>c n\<close> for the indexes \<open>n\<close> of its range; the term is
  also known for the index right before it. \<open>Entries\<close> may stop early because of its size limit,
  but returns at least one entry.\<close>

definition logdb_ok :: "ilogdb \<Rightarrow> (nat \<Rightarrow> entry) \<Rightarrow> bool" where
  "logdb_ok db c \<longleftrightarrow>
     (let f = unat (fst (db_GetRange db)); la = unat (snd (db_GetRange db)) in
      0 < f \<and> f \<le> la + 1 \<and> la + 1 < 18446744073709551616
      \<and> (\<forall>i. f \<le> unat i + 1 \<and> unat i \<le> la \<longrightarrow> db_Term db i = Inr (e_Term (c (unat i))))
      \<and> (\<forall>n. f \<le> n \<and> n \<le> la \<longrightarrow> unat (e_Index (c n)) = n)
      \<and> (\<forall>low high maxSize. f \<le> unat low \<and> unat low < unat high \<and> unat high \<le> la + 1 \<longrightarrow>
           (\<exists>k. 0 < k \<and> unat low + k \<le> unat high
              \<and> db_Entries db low high maxSize = Inr (map c [unat low ..< unat low + k]))))"

lemma logdb_ok_range:
  assumes "logdb_ok db c"
  shows "0 < unat (fst (db_GetRange db))"
    and "unat (fst (db_GetRange db)) \<le> unat (snd (db_GetRange db)) + 1"
    and "unat (snd (db_GetRange db)) + 1 < 18446744073709551616"
  using assms by (simp_all add: logdb_ok_def Let_def)

lemma logdb_ok_term:
  assumes "logdb_ok db c" and "unat (fst (db_GetRange db)) \<le> unat i + 1"
    and "unat i \<le> unat (snd (db_GetRange db))"
  shows "db_Term db i = Inr (e_Term (c (unat i)))"
  using assms by (simp add: logdb_ok_def Let_def)

lemma logdb_ok_index:
  assumes "logdb_ok db c" and "unat (fst (db_GetRange db)) \<le> n" and "n \<le> unat (snd (db_GetRange db))"
  shows "unat (e_Index (c n)) = n"
  using assms by (simp add: logdb_ok_def Let_def)

lemma logdb_ok_entries:
  assumes "logdb_ok db c" and "unat (fst (db_GetRange db)) \<le> unat low" and "unat low < unat high"
    and "unat high \<le> unat (snd (db_GetRange db)) + 1"
  obtains k where "0 < k" and "unat low + k \<le> unat high"
    and "db_Entries db low high maxSize = Inr (map c [unat low ..< unat low + k])"
proof -
  from assms(1) have "\<forall>low high maxSize. unat (fst (db_GetRange db)) \<le> unat low \<and> unat low < unat high
      \<and> unat high \<le> unat (snd (db_GetRange db)) + 1 \<longrightarrow>
      (\<exists>k. 0 < k \<and> unat low + k \<le> unat high
        \<and> db_Entries db low high maxSize = Inr (map c [unat low ..< unat low + k]))"
    unfolding logdb_ok_def Let_def by blast
  with assms(2-4) that show thesis by blast
qed

section \<open>Abstraction\<close>

abbreviation el_marker :: "entryLog \<Rightarrow> nat" where
  "el_marker l \<equiv> unat (im_markerIndex (el_inmem l))"

text \<open>One past the last index.\<close>

abbreviation el_end :: "entryLog \<Rightarrow> nat" where
  "el_end l \<equiv> im_end (el_inmem l)"

abbreviation el_first :: "entryLog \<Rightarrow> nat" where
  "el_first l \<equiv> unat (el_firstIndex l)"

definition el_entry :: "(nat \<Rightarrow> entry) \<Rightarrow> entryLog \<Rightarrow> nat \<Rightarrow> entry" where
  "el_entry c l n =
     (if el_marker l \<le> n then im_entries (el_inmem l) ! (n - el_marker l) else c n)"

definition el_trm :: "(nat \<Rightarrow> entry) \<Rightarrow> entryLog \<Rightarrow> nat \<Rightarrow> u64" where
  "el_trm c l n =
     (if el_marker l \<le> n then e_Term (im_entries (el_inmem l) ! (n - el_marker l))
      else case im_snapshot (el_inmem l) of Some ss \<Rightarrow> ss_Term ss | None \<Rightarrow> e_Term (c n))"

section \<open>Invariant\<close>

definition el_shape :: "entryLog \<Rightarrow> bool" where
  "el_shape l \<longleftrightarrow>
     (let im = el_inmem l; (f, la) = db_GetRange (el_logdb l) in
      case im_snapshot im of
        None \<Rightarrow> unat f \<le> unat (im_markerIndex im) + 1
               \<and> unat (im_markerIndex im) \<le> unat la + 1
               \<and> (im_entries im = [] \<longrightarrow> unat (im_markerIndex im) = unat la + 1)
      | Some ss \<Rightarrow> unat (im_markerIndex im) = unat (ss_Index ss) + 1)"

definition el_sorted :: "(nat \<Rightarrow> entry) \<Rightarrow> entryLog \<Rightarrow> bool" where
  "el_sorted c l \<longleftrightarrow> (\<forall>n. el_first l \<le> n + 1 \<and> n + 1 < el_end l \<longrightarrow> el_trm c l n \<le> el_trm c l (n + 1))"

definition el_inv :: "(nat \<Rightarrow> entry) \<Rightarrow> entryLog \<Rightarrow> bool" where
  "el_inv c l \<longleftrightarrow>
     logdb_ok (el_logdb l) c \<and> im_inv (el_inmem l) \<and> el_shape l \<and> el_sorted c l
     \<and> el_first l \<le> unat (el_applied l) + 1
     \<and> el_applied l \<le> el_committed l
     \<and> unat (el_committed l) < el_end l"

lemma el_inv_simps:
  assumes "el_inv c l"
  shows "logdb_ok (el_logdb l) c" "im_inv (el_inmem l)" "el_shape l" "el_sorted c l"
    "el_applied l \<le> el_committed l" "unat (el_committed l) < el_end l"
    "el_first l \<le> unat (el_applied l) + 1" "el_first l \<le> unat (el_committed l) + 1"
  using assms unfolding el_inv_def word_le_nat_alt by auto

lemma im_inv_end: "im_inv im \<Longrightarrow> im_end im < 18446744073709551616"
  by (simp add: im_inv_def)

text \<open>Where the log ends and where it starts.\<close>

lemma el_lastIndex_end:
  assumes "el_inv c l"
  shows "unat (el_lastIndex l) + 1 = el_end l"
proof (cases "im_entries (el_inmem l) = []")
  case True
  with el_inv_simps(3) [OF assms] show ?thesis
    by (auto simp: el_lastIndex_def im_getLastIndex_def im_getSnapshotIndex_def el_shape_def
        Let_def split: option.splits prod.splits)
next
  case False
  then obtain i where "im_getLastIndex (el_inmem l) = Some i" "unat i + 1 = im_end (el_inmem l)"
    using im_getLastIndex_entries el_inv_simps(2) [OF assms] by blast
  then show ?thesis by (simp add: el_lastIndex_def)
qed

lemma el_firstIndex_snapshot:
  assumes "el_inv c l" and "im_snapshot (el_inmem l) = Some ss"
  shows "el_first l = unat (ss_Index ss) + 1" and "el_marker l = unat (ss_Index ss) + 1"
proof -
  from assms show m: "el_marker l = unat (ss_Index ss) + 1"
    using el_inv_simps(3) [OF assms(1)] by (auto simp: el_shape_def Let_def split: prod.splits)
  moreover have "im_end (el_inmem l) < 18446744073709551616"
    using assms el_inv_simps(2) im_inv_end by blast
  ultimately have "unat (ss_Index ss + 1) = unat (ss_Index ss) + 1"
    by (intro u64_inc) linarith
  with assms(2) show "el_first l = unat (ss_Index ss) + 1"
    by (simp add: el_firstIndex_def im_getSnapshotIndex_def)
qed

lemma el_firstIndex_none:
  assumes "el_inv c l" and "im_snapshot (el_inmem l) = None"
  shows "el_firstIndex l = fst (db_GetRange (el_logdb l))"
    and "el_first l \<le> el_marker l + 1"
    and "el_marker l \<le> unat (snd (db_GetRange (el_logdb l))) + 1"
    and "im_entries (el_inmem l) = [] \<Longrightarrow> el_marker l = unat (snd (db_GetRange (el_logdb l))) + 1"
  using assms(2) el_inv_simps(3) [OF assms(1)]
  by (auto simp: el_firstIndex_def im_getSnapshotIndex_def el_shape_def Let_def split: prod.splits)

lemma el_first_pos: "el_inv c l \<Longrightarrow> 0 < el_first l"
proof (cases "im_snapshot (el_inmem l)")
  case None
  assume "el_inv c l"
  with None show ?thesis
    using logdb_ok_range(1) [OF el_inv_simps(1)] by (simp add: el_firstIndex_none(1))
qed (simp add: el_firstIndex_snapshot)

lemma el_first_le_end: "el_inv c l \<Longrightarrow> el_first l \<le> el_end l"
  using el_inv_simps(6,8) by fastforce

lemma el_firstIndex_pred: "el_inv c l \<Longrightarrow> unat (el_firstIndex l - 1) + 1 = el_first l"
  using el_first_pos [of c l] by (subst unat_minus_one) auto

section \<open>Reading terms\<close>

text \<open>Inside its range the log knows every term.\<close>

theorem el_term_in_range:
  assumes inv: "el_inv c l" and "el_first l \<le> unat i + 1" and "unat i < el_end l"
  shows "el_term l i = Some (Inr (el_trm c l (unat i)))"
proof -
  have rng: "\<not> i < el_firstIndex l - 1" "\<not> el_lastIndex l < i"
    using assms el_firstIndex_pred [OF inv] el_lastIndex_end [OF inv]
    by (auto simp: word_less_nat_alt)
  show ?thesis
  proof (cases "el_marker l \<le> unat i")
    case True
    then have "im_getTerm (el_inmem l) i = Some (Some (el_trm c l (unat i)))"
      using im_getTerm_entry [OF el_inv_simps(2) [OF inv]] assms(3) by (simp add: el_trm_def)
    with rng show ?thesis by (simp add: el_term_def el_termEntryRange_def)
  next
    case False
    show ?thesis
    proof (cases "im_snapshot (el_inmem l)")
      case (Some ss)
      have "unat i = unat (ss_Index ss)"
        using el_firstIndex_snapshot [OF inv Some] assms(2) False by linarith
      then have "ss_Index ss = i" by (simp add: word_unat_eq_iff)
      with Some False rng show ?thesis
        by (simp add: el_term_def el_termEntryRange_def im_getTerm_below el_trm_def)
    next
      case None
      have "db_Term (el_logdb l) i = Inr (e_Term (c (unat i)))"
        using logdb_ok_term [OF el_inv_simps(1) [OF inv]] el_firstIndex_none [OF inv None] assms(2) False
        by simp
      with None False rng show ?thesis
        by (simp add: el_term_def el_termEntryRange_def im_getTerm_below el_trm_def)
    qed
  qed
qed

text \<open>Outside it reports the term 0.\<close>

lemma el_term_out_of_range:
  assumes inv: "el_inv c l" and "unat i + 1 < el_first l \<or> el_end l \<le> unat i"
  shows "el_term l i = Some (Inr 0)"
proof -
  have "i < el_firstIndex l - 1 \<or> el_lastIndex l < i"
    using assms(2) el_firstIndex_pred [OF inv] el_lastIndex_end [OF inv]
    by (auto simp: word_less_nat_alt)
  then show ?thesis by (auto simp: el_term_def el_termEntryRange_def)
qed

definition el_tm :: "(nat \<Rightarrow> entry) \<Rightarrow> entryLog \<Rightarrow> nat \<Rightarrow> u64" where
  "el_tm c l n = (if el_first l \<le> n + 1 \<and> n < el_end l then el_trm c l n else 0)"

lemma el_term_spec:
  assumes "el_inv c l"
  shows "el_term l i = Some (Inr (el_tm c l (unat i)))"
proof (cases "el_first l \<le> unat i + 1 \<and> unat i < el_end l")
  case True
  then show ?thesis by (simp add: el_term_in_range [OF assms] el_tm_def)
next
  case False
  then have "unat i + 1 < el_first l \<or> el_end l \<le> unat i" by linarith
  with False show ?thesis by (auto simp: el_term_out_of_range [OF assms] el_tm_def)
qed

lemma el_matchTerm_spec:
  "el_inv c l \<Longrightarrow> el_matchTerm l i t = Some (el_tm c l (unat i) = t)"
  by (simp add: el_matchTerm_def el_term_spec)

lemma el_lastTerm_spec:
  assumes "el_inv c l"
  shows "el_lastTerm l = Some (el_trm c l (unat (el_lastIndex l)))"
proof -
  have "el_first l \<le> unat (el_lastIndex l) + 1" "unat (el_lastIndex l) < el_end l"
    using el_lastIndex_end [OF assms] el_first_le_end [OF assms] by auto
  then show ?thesis by (simp add: el_lastTerm_def el_term_in_range [OF assms])
qed

text \<open>\<open>upToDate\<close> is the comparison of section 5.4.1 of the Raft paper: last terms first, then
  log lengths.\<close>

lemma el_upToDate_spec:
  assumes "el_inv c l"
  shows "el_upToDate l i t =
    Some (el_trm c l (el_end l - 1) < t
          \<or> el_trm c l (el_end l - 1) = t \<and> el_end l \<le> unat i + 1)"
proof -
  have la: "unat (el_lastIndex l) = el_end l - 1" "unat (el_lastIndex l) < el_end l"
    "el_first l \<le> unat (el_lastIndex l) + 1"
    using el_lastIndex_end [OF assms] el_first_le_end [OF assms] by auto
  moreover have "el_lastIndex l \<le> i \<longleftrightarrow> el_end l \<le> unat i + 1"
    using el_lastIndex_end [OF assms] unfolding word_le_nat_alt by linarith
  ultimately show ?thesis
    by (auto simp: el_upToDate_def el_term_in_range [OF assms] not_less)
qed

section \<open>Reading entries\<close>

lemma map_el_entry_inmem:
  assumes "el_marker l \<le> a" and "b \<le> el_end l"
  shows "map (el_entry c l) [a ..< b] = take (b - a) (drop (a - el_marker l) (im_entries (el_inmem l)))"
  using assms by (intro nth_equalityI) (auto simp: el_entry_def min_def)

lemma map_el_entry_logdb:
  assumes "b \<le> el_marker l"
  shows "map (el_entry c l) [a ..< b] = map c [a ..< b]"
  using assms by (auto simp: el_entry_def)

lemma limitSize_map:
  assumes "a < b"
  obtains k where "0 < k" and "a + k \<le> b" and "limitSize (map f [a ..< b]) mx = map f [a ..< a + k]"
proof -
  obtain n where n: "limitSize (map f [a ..< b]) mx = take n (map f [a ..< b])" "0 < n"
    using limitSize_prefix [of "map f [a ..< b]" mx] assms by auto
  let ?k = "min n (b - a)"
  have "take n (map f [a ..< b]) = map f [a ..< a + ?k]"
    using assms by (auto simp: take_map min_def)
  with n assms that [of ?k] show thesis by simp
qed

lemma el_checkBound_ok:
  assumes inv: "el_inv c l"
    and "el_first l \<le> unat low" and "unat low < unat high" and "unat high \<le> el_end l"
  shows "el_checkBound l low high = Some (Inr ())"
proof -
  have "\<not> (im_snapshot (el_inmem l) \<noteq> None \<and> im_entries (el_inmem l) = [])"
    using assms el_firstIndex_snapshot [OF inv] by auto
  moreover have "unat (el_lastIndex l + 1) = el_end l"
    using el_lastIndex_end [OF inv] im_inv_end [OF el_inv_simps(2) [OF inv]] by (subst u64_inc) auto
  ultimately show ?thesis
    using assms by (auto simp: el_checkBound_def el_entryRange_def word_less_nat_alt)
qed

lemma el_seam_ok:
  assumes inv: "el_inv c l" and "im_snapshot (el_inmem l) = None"
    and "el_first l \<le> a" and "a < el_marker l" and "b \<noteq> []"
    and "b = take n (im_entries (el_inmem l))"
  shows "checkEntriesToAppend (map c [a ..< el_marker l]) b = Some ()"
proof -
  let ?m = "el_marker l"
  from assms(5,6) have es: "im_entries (el_inmem l) \<noteq> []" "b ! 0 = im_entries (el_inmem l) ! 0"
    by (auto simp: take_eq_Nil)
  then have len: "0 < length (im_entries (el_inmem l))" by simp
  have lst: "map c [a ..< ?m] ! (length (map c [a ..< ?m]) - 1) = c (?m - 1)"
    using assms(4) by simp
  have "el_first l \<le> ?m - 1" "?m - 1 \<le> unat (snd (db_GetRange (el_logdb l)))"
    using assms(3,4) el_firstIndex_none [OF inv assms(2)] by auto
  then have "unat (e_Index (c (?m - 1))) = ?m - 1"
    using logdb_ok_index [OF el_inv_simps(1) [OF inv]] el_firstIndex_none(1) [OF inv assms(2)]
    by simp
  moreover have "unat (e_Index (im_entries (el_inmem l) ! 0)) = ?m"
    using im_inv_index [OF el_inv_simps(2) [OF inv] len] by simp
  ultimately have "unat (e_Index (c (?m - 1))) + 1 = unat (e_Index (b ! 0))"
    using assms(4) es by simp
  then have idx: "e_Index (c (?m - 1)) + 1 = e_Index (b ! 0)" by (rule u64_eq_incI)
  have "el_first l \<le> ?m - 1 + 1 \<and> ?m - 1 + 1 < el_end l"
    using assms(3,4) len by linarith
  then have "el_trm c l (?m - 1) \<le> el_trm c l (?m - 1 + 1)"
    using el_inv_simps(4) [OF inv] unfolding el_sorted_def by blast
  then have "e_Term (c (?m - 1)) \<le> e_Term (b ! 0)"
    using assms(2,4) es by (auto simp: el_trm_def split: if_splits)
  with idx lst show ?thesis
    by (auto simp: checkEntriesToAppend_def not_less)
qed

text \<open>A read inside the range returns a non-empty run of the abstract log.\<close>

lemma el_getEntries_spec:
  assumes inv: "el_inv c l"
    and lo: "el_first l \<le> unat low" and lh: "unat low < unat high" and hi: "unat high \<le> el_end l"
  obtains k where "0 < k" and "unat low + k \<le> unat high"
    and "el_getEntries l low high mx = Some (Inr (map (el_entry c l) [unat low ..< unat low + k]))"
proof -
  let ?m = "im_markerIndex (el_inmem l)" and ?es = "im_entries (el_inmem l)"
  have cb: "el_checkBound l low high = Some (Inr ())"
    using assms by (rule el_checkBound_ok)
  have ne: "low \<noteq> high" using lh by auto
  show thesis
  proof (cases "?m \<le> low")
    case True
    then have "max low ?m = low" by (rule max.absorb1)
    then have "el_getEntriesFromInMem l [] low high
        = Some (take (unat high - unat low) (drop (unat low - unat ?m) ?es))"
      using True lh hi im_getEntries_spec [OF el_inv_simps(2) [OF inv], of low high]
      by (auto simp: el_getEntriesFromInMem_def word_le_nat_alt Let_def)
    also have "take (unat high - unat low) (drop (unat low - unat ?m) ?es)
        = map (el_entry c l) [unat low ..< unat high]"
      using True hi by (simp add: map_el_entry_inmem word_le_nat_alt)
    finally have mem: "el_getEntriesFromInMem l [] low high
        = Some (map (el_entry c l) [unat low ..< unat high])" .
    obtain k where "0 < k" "unat low + k \<le> unat high"
      "limitSize (map (el_entry c l) [unat low ..< unat high]) mx
        = map (el_entry c l) [unat low ..< unat low + k]"
      using limitSize_map [OF lh] by blast
    with that [of k] cb ne True mem show thesis
      by (simp add: el_getEntries_def el_getEntriesFromLogDB_def)
  next
    case False
    then have lm: "unat low < unat ?m" by (simp add: word_le_nat_alt)
    have sn: "im_snapshot (el_inmem l) = None"
      using el_firstIndex_snapshot [OF inv] lo lm by (metis less_le_trans not_None_eq not_less)
    let ?u = "min high ?m"
    have u: "unat ?u = min (unat high) (unat ?m)" by (simp add: min_def word_le_nat_alt)
    have ul: "unat ?u \<le> unat (snd (db_GetRange (el_logdb l))) + 1" "unat low < unat ?u"
      using el_firstIndex_none(3) [OF inv sn] lh lm u by auto
    obtain k where k: "0 < k" "unat low + k \<le> unat ?u"
      "db_Entries (el_logdb l) low ?u mx = Inr (map c [unat low ..< unat low + k])"
      using logdb_ok_entries [OF el_inv_simps(1) [OF inv]] el_firstIndex_none(1) [OF inv sn] lo ul
      by metis
    have ku: "unat (of_nat k :: u64) = k"
      using k(2) by (intro u64_of_nat) (use unat_u64_bound [of ?u] in linarith)
    have us: "unat (?u - low) = unat ?u - unat low"
      using ul by (simp add: u64_sub)
    have db: "el_getEntriesFromLogDB l low high mx
        = Some (Inr (map c [unat low ..< unat low + k], unat low + k = unat ?u))"
      using False k ku us
      by (auto simp: el_getEntriesFromLogDB_def Let_def word_less_nat_alt word_unat_eq_iff)
    have ce: "map c [unat low ..< unat low + k] = map (el_entry c l) [unat low ..< unat low + k]"
      using k(2) u by (simp add: map_el_entry_logdb)
    show thesis
    proof (cases "unat low + k = unat ?u")
      case False
      with that [of k] k cb ne db ce u show thesis
        by (simp add: el_getEntries_def)
    next
      case full: True
      have mem: "el_getEntriesFromInMem l (map c [unat low ..< unat low + k]) low high
          = Some (map (el_entry c l) [unat low ..< unat high])"
      proof (cases "high \<le> ?m")
        case True
        with full u ce show ?thesis
          by (simp add: el_getEntriesFromInMem_def word_le_nat_alt)
      next
        case False
        then have mh: "unat ?m < unat high" by (simp add: word_le_nat_alt)
        with full u have km: "unat low + k = unat ?m" by simp
        have g: "im_getEntries (el_inmem l) ?m high = Some (take (unat high - unat ?m) ?es)"
          using im_getEntries_spec [OF el_inv_simps(2) [OF inv], of ?m high] mh hi
          by (simp add: word_le_nat_alt)
        have ne2: "take (unat high - unat ?m) ?es \<noteq> []" using mh hi by auto
        have "checkEntriesToAppend (map c [unat low ..< el_marker l]) (take (unat high - unat ?m) ?es)
            = Some ()"
          using el_seam_ok [OF inv sn lo lm ne2] by simp
        moreover have "take (unat high - unat ?m) ?es = map (el_entry c l) [unat ?m ..< unat high]"
          using hi by (simp add: map_el_entry_inmem)
        moreover have "[unat low ..< unat ?m] @ [unat ?m ..< unat high] = [unat low ..< unat high]"
          using lm mh by (metis le_add_diff_inverse less_imp_le upt_add_eq_append)
        then have "map c [unat low ..< unat ?m] @ map (el_entry c l) [unat ?m ..< unat high]
            = map (el_entry c l) [unat low ..< unat high]"
          by (metis km ce map_append)
        moreover have "max low ?m = ?m" using lm by (simp add: max_def word_le_nat_alt)
        ultimately show ?thesis
          using False g ne2 km k(1) by (simp add: el_getEntriesFromInMem_def)
      qed
      obtain j where "0 < j" "unat low + j \<le> unat high"
        "limitSize (map (el_entry c l) [unat low ..< unat high]) mx
          = map (el_entry c l) [unat low ..< unat low + j]"
        using limitSize_map [OF lh] by blast
      with that [of j] cb ne db full mem show thesis
        by (simp add: el_getEntries_def)
    qed
  qed
qed

section \<open>Appending\<close>

text \<open>\<open>el_appended c l i ents l'\<close>: \<open>l'\<close> is \<open>l\<close> cut before the index \<open>i\<close> and continued with \<open>ents\<close>;
  nothing else changed.\<close>

definition el_appended :: "(nat \<Rightarrow> entry) \<Rightarrow> entryLog \<Rightarrow> nat \<Rightarrow> entry list \<Rightarrow> entryLog \<Rightarrow> bool" where
  "el_appended c l i ents l' \<longleftrightarrow>
     el_inv c l' \<and> el_logdb l' = el_logdb l \<and> el_committed l' = el_committed l
     \<and> el_applied l' = el_applied l \<and> el_firstIndex l' = el_firstIndex l
     \<and> im_snapshot (el_inmem l') = im_snapshot (el_inmem l)
     \<and> el_end l' = i + length ents
     \<and> (\<forall>n < i. el_trm c l' n = el_trm c l n \<and> el_entry c l' n = el_entry c l n)
     \<and> (\<forall>k < length ents. el_entry c l' (i + k) = ents ! k)"

text \<open>What a slice of entries must satisfy to be appended at the index \<open>i\<close>.\<close>

definition appendable :: "(nat \<Rightarrow> entry) \<Rightarrow> entryLog \<Rightarrow> nat \<Rightarrow> entry list \<Rightarrow> bool" where
  "appendable c l i ents \<longleftrightarrow>
     ents \<noteq> [] \<and> unat (e_Index (ents ! 0)) = i \<and> indexed (e_Index (ents ! 0)) ents
     \<and> sorted (map e_Term ents)
     \<and> unat (el_committed l) < i \<and> i \<le> el_end l \<and> i + length ents < 18446744073709551616
     \<and> el_trm c l (i - 1) \<le> e_Term (ents ! 0)"

lemma el_trm_entry: "el_marker l \<le> n \<Longrightarrow> el_trm c l n = e_Term (el_entry c l n)"
  by (simp add: el_trm_def el_entry_def)

lemma merge_result_below:
  assumes "l' = l\<lparr>el_inmem := im_merge_result (el_inmem l) ents\<rparr>"
    and "unat (e_Index (ents ! 0)) \<le> el_end l" and "n < unat (e_Index (ents ! 0))"
  shows "el_entry c l' n = el_entry c l n" and "el_trm c l' n = el_trm c l n"
proof -
  let ?f = "e_Index (ents ! 0)" and ?m = "im_markerIndex (el_inmem l)"
  have mk: "el_marker l' = min (unat ?f) (unat ?m)"
    using assms(1) by (simp add: im_merge_result_def Let_def min_def word_le_nat_alt)
  have es: "im_entries (el_inmem l') = take (unat ?f - unat ?m) (im_entries (el_inmem l)) @ ents"
    "im_snapshot (el_inmem l') = im_snapshot (el_inmem l)"
    using assms(1) by (simp_all add: im_merge_result_def Let_def)
  show "el_entry c l' n = el_entry c l n" "el_trm c l' n = el_trm c l n"
  proof (atomize (full), cases "unat ?m \<le> n")
    case True
    with assms(2,3) have "n - unat ?m < length (take (unat ?f - unat ?m) (im_entries (el_inmem l)))"
      by (auto simp: min_def)
    with True mk es assms(3) show "el_entry c l' n = el_entry c l n \<and> el_trm c l' n = el_trm c l n"
      by (simp add: el_entry_def el_trm_def nth_append)
  next
    case False
    then have "\<not> el_marker l' \<le> n" using mk assms(3) by linarith
    with False es show "el_entry c l' n = el_entry c l n \<and> el_trm c l' n = el_trm c l n"
      by (simp add: el_entry_def el_trm_def)
  qed
qed

lemma merge_result_above:
  assumes "l' = l\<lparr>el_inmem := im_merge_result (el_inmem l) ents\<rparr>"
    and "unat (e_Index (ents ! 0)) \<le> el_end l" and "k < length ents"
  shows "el_entry c l' (unat (e_Index (ents ! 0)) + k) = ents ! k"
proof -
  let ?f = "e_Index (ents ! 0)" and ?m = "im_markerIndex (el_inmem l)"
  have mk: "el_marker l' = min (unat ?f) (unat ?m)"
    using assms(1) by (simp add: im_merge_result_def Let_def min_def word_le_nat_alt)
  have len: "length (take (unat ?f - unat ?m) (im_entries (el_inmem l))) = unat ?f - unat ?m"
    using assms(2) by (simp add: min_def) linarith
  have "im_entries (el_inmem l') = take (unat ?f - unat ?m) (im_entries (el_inmem l)) @ ents"
    using assms(1) by (simp add: im_merge_result_def Let_def)
  moreover have "unat ?f + k - min (unat ?f) (unat ?m) = (unat ?f - unat ?m) + k"
    by (simp add: min_def)
  ultimately show ?thesis
    using mk len assms(3) by (simp add: el_entry_def nth_append)
qed

lemma el_append_spec:
  assumes inv: "el_inv c l" and ap: "appendable c l i ents"
  obtains l' where "el_append l ents = Some l'" and "el_appended c l i ents l'"
proof -
  let ?im = "el_inmem l" and ?f = "e_Index (ents ! 0)"
  let ?l = "l\<lparr>el_inmem := im_merge_result ?im ents\<rparr>"
  from ap have ents: "ents \<noteq> []" "unat ?f = i" "indexed ?f ents" "sorted (map e_Term ents)"
    "unat (el_committed l) < i" "i \<le> el_end l" "i + length ents < 18446744073709551616"
    "el_trm c l (i - 1) \<le> e_Term (ents ! 0)"
    by (auto simp: appendable_def)
  have ci: "el_first l \<le> i" "0 < i" using el_inv_simps(8) [OF inv] ents(5) by linarith+
  have snap: "ss_Index ss < ?f \<and> unat (im_markerIndex ?im) \<le> i" if "im_snapshot ?im = Some ss" for ss
    using el_firstIndex_snapshot [OF inv that] ci ents(2) by (simp add: word_less_nat_alt)
  have ok: "im_merge_ok ?im ents"
    using ents ci by (auto simp: im_merge_ok_def Let_def el_trm_def split: if_splits)
  have im': "im_inv (im_merge_result ?im ents)"
    using ents ci snap by (intro im_merge_result_inv [OF el_inv_simps(2) [OF inv]]) auto
  have end': "el_end ?l = i + length ents"
    using ents(1,2,6)
    by (auto simp: im_merge_result_def Let_def min_def word_le_nat_alt)
  have fst': "el_firstIndex ?l = el_firstIndex l"
    by (simp add: el_firstIndex_def im_getSnapshotIndex_def im_merge_result_def Let_def
        split: option.splits)
  have below: "el_trm c ?l n = el_trm c l n \<and> el_entry c ?l n = el_entry c l n" if "n < i" for n
    using merge_result_below [of ?l l ents n c] that ents by simp
  have above: "el_entry c ?l (i + k) = ents ! k" if "k < length ents" for k
    using merge_result_above [of ?l l ents k c] that ents by simp
  have mk: "el_marker ?l \<le> i"
    using ents(2) by (simp add: im_merge_result_def Let_def min_def word_le_nat_alt)
  then have above_trm: "el_trm c ?l (i + k) = e_Term (ents ! k)" if "k < length ents" for k
    using above [OF that] el_trm_entry [of ?l "i + k" c] by simp
  have "el_sorted c ?l"
    unfolding el_sorted_def end' fst'
  proof (intro allI impI)
    fix n assume n: "el_first l \<le> n + 1 \<and> n + 1 < i + length ents"
    consider "n + 1 < i" | "n + 1 = i" | k where "n = i + k" "k + 1 < length ents"
      using n by (metis add.assoc add_less_cancel_left le_Suc_ex less_Suc_eq_le not_less_eq
          Suc_eq_plus1 less_linear)
    then show "el_trm c ?l n \<le> el_trm c ?l (n + 1)"
    proof cases
      case 1
      with el_inv_simps(4) [OF inv] n ents(6) below show ?thesis
        by (simp add: el_sorted_def)
    next
      case 2
      with ents(1,8) below [of n] above_trm [of 0] show ?thesis by auto
    next
      case 3
      with above_trm [of k] above_trm [of "k + 1"] ents(4) show ?thesis
        by (simp add: sorted_iff_nth_mono_less)
    qed
  qed
  moreover have "el_shape ?l"
    using el_inv_simps(3) [OF inv] ci snap ents(1,2) el_firstIndex_none(1) [OF inv]
    by (auto simp: el_shape_def im_merge_result_def Let_def min_def word_le_nat_alt
        split: option.splits prod.splits)
  ultimately have "el_inv c ?l"
    using el_inv_simps [OF inv] im' fst' end' ents(5) by (auto simp: el_inv_def)
  then have "el_appended c l i ents ?l"
    using fst' end' below above
    by (simp add: el_appended_def im_merge_result_def Let_def)
  moreover have "el_append l ents = Some ?l"
    using ents im_merge_eq [OF el_inv_simps(2) [OF inv] ents(1)] ci ok
    by (simp add: el_append_def word_le_nat_alt)
  ultimately show thesis using that by blast
qed

section \<open>Replicating\<close>

text \<open>Entries of a Replicate message that follow the index \<open>p\<close> of the log.\<close>

definition replicable :: "(nat \<Rightarrow> entry) \<Rightarrow> entryLog \<Rightarrow> u64 \<Rightarrow> entry list \<Rightarrow> bool" where
  "replicable c l index ents \<longleftrightarrow>
     indexed (index + 1) ents \<and> sorted (map e_Term ents) \<and> (\<forall>e \<in> set ents. 0 < e_Term e)
     \<and> unat (el_committed l) \<le> unat index \<and> unat index < el_end l
     \<and> unat index + 1 + length ents < 18446744073709551616
     \<and> (ents \<noteq> [] \<longrightarrow> el_trm c l (unat index) \<le> e_Term (ents ! 0))"

text \<open>\<open>agree c l p ents k\<close>: the first \<open>k\<close> entries of \<open>ents\<close>, placed after the index \<open>p\<close>, carry the
  terms the log has there.\<close>

definition agree :: "(nat \<Rightarrow> entry) \<Rightarrow> entryLog \<Rightarrow> nat \<Rightarrow> entry list \<Rightarrow> nat \<Rightarrow> bool" where
  "agree c l p ents k \<longleftrightarrow> (\<forall>j < k. el_tm c l (p + 1 + j) = e_Term (ents ! j))"

text \<open>The receiver rules 3 and 4 of AppendEntries in the Raft paper: the log is cut at the first
  conflicting entry only, and left as it is when nothing conflicts.\<close>

definition el_replicated ::
    "(nat \<Rightarrow> entry) \<Rightarrow> entryLog \<Rightarrow> nat \<Rightarrow> entry list \<Rightarrow> bool \<Rightarrow> entryLog \<Rightarrow> bool" where
  "el_replicated c l p ents b l' \<longleftrightarrow>
     (if b then
        (\<exists>k < length ents. agree c l p ents k \<and> el_tm c l (p + 1 + k) \<noteq> e_Term (ents ! k)
           \<and> el_appended c l (p + 1 + k) (drop k ents) l')
      else l' = l \<and> agree c l p ents (length ents))"

lemma indexed_unat:
  assumes "indexed (index + 1) ents" and "k < length ents"
    and "unat index + 1 + length ents < 18446744073709551616"
  shows "e_Index (ents ! k) = index + 1 + of_nat k"
    and "unat (e_Index (ents ! k)) = unat index + 1 + k"
proof -
  show e: "e_Index (ents ! k) = index + 1 + of_nat k" using assms by (simp add: indexed_nth)
  have "unat (index + 1) = unat index + 1" using assms by (intro u64_inc) simp
  moreover have "unat (of_nat k :: u64) = k" using assms by (intro u64_of_nat) simp
  ultimately show "unat (e_Index (ents ! k)) = unat index + 1 + k"
    unfolding e using assms by (subst u64_add) simp_all
qed

lemma el_getConflictIndex_spec:
  assumes inv: "el_inv c l"
  shows "el_getConflictIndex l es =
    Some (case dropWhile (\<lambda>e. el_tm c l (unat (e_Index e)) = e_Term e) es of
            [] \<Rightarrow> 0 | e # _ \<Rightarrow> e_Index e)"
  by (induction es) (auto simp: el_matchTerm_spec [OF inv])

lemma first_conflict:
  assumes "indexed (index + 1) ents" and "unat index + 1 + length ents < 18446744073709551616"
  obtains (none) "agree c l (unat index) ents (length ents)"
      "dropWhile (\<lambda>e. el_tm c l (unat (e_Index e)) = e_Term e) ents = []"
  | (conflict) k where "k < length ents" "agree c l (unat index) ents k"
      "el_tm c l (unat index + 1 + k) \<noteq> e_Term (ents ! k)"
      "dropWhile (\<lambda>e. el_tm c l (unat (e_Index e)) = e_Term e) ents = drop k ents"
proof -
  let ?P = "\<lambda>e. el_tm c l (unat (e_Index e)) = e_Term e"
  have nth: "?P (ents ! j) \<longleftrightarrow> el_tm c l (unat index + 1 + j) = e_Term (ents ! j)"
    if "j < length ents" for j
    using indexed_unat(2) [OF assms(1) that assms(2)] by simp
  let ?k = "length (takeWhile ?P ents)"
  have dw: "dropWhile ?P ents = drop ?k ents" by (rule dropWhile_eq_drop)
  have ag: "agree c l (unat index) ents ?k"
    unfolding agree_def
  proof (intro allI impI)
    fix j assume j: "j < ?k"
    then have "takeWhile ?P ents ! j \<in> set (takeWhile ?P ents)" by (rule nth_mem)
    then have "?P (takeWhile ?P ents ! j)" by (rule set_takeWhileD [THEN conjunct2])
    then have "?P (ents ! j)" unfolding takeWhile_nth [OF j] .
    moreover have "j < length ents" using j length_takeWhile_le [of ?P ents] by linarith
    ultimately show "el_tm c l (unat index + 1 + j) = e_Term (ents ! j)" using nth by blast
  qed
  show thesis
  proof (cases "?k = length ents")
    case True
    then show thesis using none ag dw by simp
  next
    case False
    then have k: "?k < length ents" using length_takeWhile_le [of ?P ents] by linarith
    then have "\<not> ?P (ents ! ?k)" by (rule nth_length_takeWhile)
    then show thesis using conflict [OF k ag _ dw] nth [OF k] by blast
  qed
qed

lemma el_tm_pos: "0 < el_tm c l n \<Longrightarrow> n < el_end l \<and> el_first l \<le> n + 1 \<and> el_tm c l n = el_trm c l n"
  by (auto simp: el_tm_def split: if_splits)

lemma conflict_appendable:
  assumes inv: "el_inv c l" and rp: "replicable c l index ents"
    and k: "k < length ents" and ag: "agree c l (unat index) ents k"
  shows "appendable c l (unat index + 1 + k) (drop k ents)"
proof -
  let ?p = "unat index"
  from rp have r: "indexed (index + 1) ents" "sorted (map e_Term ents)" "\<forall>e \<in> set ents. 0 < e_Term e"
    "unat (el_committed l) \<le> ?p" "?p < el_end l" "?p + 1 + length ents < 18446744073709551616"
    "el_trm c l ?p \<le> e_Term (ents ! 0)"
    using k by (auto simp: replicable_def)
  have d0: "drop k ents ! 0 = ents ! k" using k by simp
  have idx: "indexed (e_Index (drop k ents ! 0)) (drop k ents)"
    using indexed_drop [OF r(1), of k] k indexed_unat(1) [OF r(1) k r(6)] by simp
  have seam: "?p + 1 + k \<le> el_end l \<and> el_trm c l (?p + k) \<le> e_Term (ents ! k)"
  proof (cases k)
    case 0
    with r show ?thesis by simp
  next
    case (Suc j)
    then have t: "el_tm c l (?p + k) = e_Term (ents ! j)" using ag by (simp add: agree_def)
    moreover have "0 < e_Term (ents ! j)" using r(3) k Suc by simp
    ultimately have "?p + k < el_end l \<and> el_trm c l (?p + k) = e_Term (ents ! j)"
      using el_tm_pos [of c l "?p + k"] by auto
    moreover have "e_Term (ents ! j) \<le> e_Term (ents ! k)"
      using r(2) k Suc by (simp add: sorted_iff_nth_mono_less)
    ultimately show ?thesis by simp
  qed
  have "sorted (map e_Term (drop k ents))"
    using r(2) by (simp add: drop_map [symmetric] sorted_wrt_drop)
  then show ?thesis
    using k d0 idx seam r indexed_unat(2) [OF r(1) k r(6)]
    by (simp add: appendable_def)
qed

lemma el_tryAppend_spec:
  assumes inv: "el_inv c l" and rp: "replicable c l index ents"
  obtains b l' where "el_tryAppend l index ents = Some (b, l')"
    and "el_replicated c l (unat index) ents b l'"
proof -
  from rp have r: "indexed (index + 1) ents" "unat (el_committed l) \<le> unat index"
    "unat index + 1 + length ents < 18446744073709551616"
    by (auto simp: replicable_def)
  from r(1,3) show thesis
  proof (cases rule: first_conflict [where c = c and l = l])
    case none
    have "el_getConflictIndex l ents = Some 0"
      unfolding el_getConflictIndex_spec [OF inv] none(2) by simp
    then have "el_tryAppend l index ents = Some (False, l)" by (simp add: el_tryAppend_def)
    moreover from none have "el_replicated c l (unat index) ents False l"
      by (simp add: el_replicated_def)
    ultimately show thesis by (rule that)
  next
    case (conflict k)
    let ?ci = "e_Index (ents ! k)"
    have "drop k ents = ents ! k # drop (Suc k) ents"
      using conflict(1) by (simp add: Cons_nth_drop_Suc)
    then have gc: "el_getConflictIndex l ents = Some ?ci"
      unfolding el_getConflictIndex_spec [OF inv] conflict(4) by simp
    have ci: "?ci = index + 1 + of_nat k" "unat ?ci = unat index + 1 + k"
      using indexed_unat [OF r(1) conflict(1) r(3)] by auto
    then have nz: "?ci \<noteq> 0" "\<not> ?ci \<le> el_committed l"
      using r(2) by (auto simp: word_le_nat_alt)
    have "unat (of_nat k :: u64) = k" using conflict(1) r(3) by (intro u64_of_nat) simp
    then have sub: "unat (?ci - index - 1) = k" using ci(1) by simp
    obtain l' where "el_append l (drop k ents) = Some l'"
      "el_appended c l (unat index + 1 + k) (drop k ents) l'"
      using el_append_spec [OF inv conflict_appendable [OF inv rp conflict(1,2)]] by blast
    then have "el_tryAppend l index ents = Some (True, l')"
      and "el_replicated c l (unat index) ents True l'"
      using gc nz sub conflict by (auto simp: el_tryAppend_def el_replicated_def)
    then show thesis by (rule that)
  qed
qed

text \<open>What holds after replicating: the log up to the previous index is untouched, the new entries'
  terms are in place, and the invariant is kept.\<close>

lemma el_appended_tm:
  assumes "el_appended c l i ents l'"
  shows "n < i \<Longrightarrow> i \<le> el_end l \<Longrightarrow> el_tm c l' n = el_tm c l n"
    and "k < length ents \<Longrightarrow> el_first l \<le> i + 1 \<Longrightarrow> el_marker l' \<le> i \<Longrightarrow> el_tm c l' (i + k) = e_Term (ents ! k)"
  using assms by (auto simp: el_appended_def el_tm_def el_trm_entry)

lemma el_appended_marker:
  assumes "el_appended c l i ents l'" and "ents \<noteq> []" and "k < length ents"
    and "el_first l \<le> i" and "unat (e_Index (ents ! 0)) = i"
  shows "el_first l' \<le> i + k + 1 \<and> i + k < el_end l'"
  using assms by (auto simp: el_appended_def)

section \<open>Committing\<close>

lemma el_commitTo_spec:
  assumes "el_inv c l"
  shows "el_commitTo l i =
    (if i \<le> el_committed l then Some l
     else if unat i < el_end l then Some (l\<lparr>el_committed := i\<rparr>) else panic)"
  using el_lastIndex_end [OF assms] by (auto simp: el_commitTo_def word_less_nat_alt)

lemma el_first_committed [simp]:
  "el_firstIndex (l\<lparr>el_committed := i\<rparr>) = el_firstIndex l"
  "el_firstIndex (l\<lparr>el_applied := i\<rparr>) = el_firstIndex l"
  "el_lastIndex (l\<lparr>el_committed := i\<rparr>) = el_lastIndex l"
  "el_lastIndex (l\<lparr>el_applied := i\<rparr>) = el_lastIndex l"
  by (simp_all add: el_firstIndex_def el_lastIndex_def split: option.splits)

lemma el_trm_committed [simp]:
  "el_trm c (l\<lparr>el_committed := i\<rparr>) = el_trm c l"
  "el_trm c (l\<lparr>el_applied := i\<rparr>) = el_trm c l"
  "el_entry c (l\<lparr>el_committed := i\<rparr>) = el_entry c l"
  "el_tm c (l\<lparr>el_committed := i\<rparr>) = el_tm c l"
  by (simp_all add: el_trm_def el_entry_def el_tm_def fun_eq_iff)

lemma el_inv_committed:
  assumes "el_inv c l" and "el_committed l \<le> i" and "unat i < el_end l"
  shows "el_inv c (l\<lparr>el_committed := i\<rparr>)"
  using assms by (auto simp: el_inv_def el_shape_def el_sorted_def)

lemma el_commitTo_inv:
  assumes "el_inv c l" and "el_commitTo l i = Some l'"
  shows "el_inv c l'" and "el_committed l \<le> el_committed l'" and "el_inmem l' = el_inmem l"
    and "el_logdb l' = el_logdb l" and "el_committed l' = max (el_committed l) i"
    and "el_applied l' = el_applied l"
  using assms by (auto simp: el_commitTo_spec el_inv_committed max_def split: if_splits)

text \<open>\<open>tryCommit\<close> advances the commit index to \<open>q\<close> exactly when \<open>q\<close> is new and its entry carries
  the given (non-zero) term.\<close>

lemma el_tryCommit_spec:
  assumes inv: "el_inv c l" and t: "t \<noteq> 0"
  shows "el_tryCommit l q t =
    Some (if el_committed l < q \<and> el_tm c l (unat q) = t then (True, l\<lparr>el_committed := q\<rparr>)
          else (False, l))"
proof -
  have "unat q < el_end l" if "el_tm c l (unat q) = t"
    using that t by (auto simp: el_tm_def split: if_splits)
  then show ?thesis
    by (auto simp: el_tryCommit_def el_term_spec [OF inv] el_commitTo_spec [OF inv] not_le)
qed

lemma el_tryCommit_inv:
  assumes inv: "el_inv c l" and t: "t \<noteq> 0" and "el_tryCommit l q t = Some (b, l')"
  shows "el_inv c l'" and "el_inmem l' = el_inmem l" and "el_logdb l' = el_logdb l"
    and "el_committed l \<le> el_committed l'" and "el_applied l' = el_applied l"
proof -
  have "unat q < el_end l" if "el_tm c l (unat q) = t"
    using that t by (auto simp: el_tm_def split: if_splits)
  with assms show "el_inv c l'"
    by (auto simp: el_tryCommit_spec el_inv_committed less_imp_le split: if_splits)
  from assms show "el_inmem l' = el_inmem l" "el_logdb l' = el_logdb l"
    "el_committed l \<le> el_committed l'" "el_applied l' = el_applied l"
    by (auto simp: el_tryCommit_spec split: if_splits)
qed

section \<open>Starting, and restoring from a snapshot\<close>

lemma newEntryLog_inv:
  assumes ok: "logdb_ok db c"
    and "\<And>n. unat (fst (db_GetRange db)) \<le> n + 1 \<Longrightarrow> n + 1 \<le> unat (snd (db_GetRange db)) \<Longrightarrow>
       e_Term (c n) \<le> e_Term (c (n + 1))"
  shows "el_inv c (newEntryLog db)"
proof -
  obtain f la where r: "db_GetRange db = (f, la)" by (cases "db_GetRange db")
  note rng = logdb_ok_range [OF ok, unfolded r fst_conv snd_conv]
  have la: "unat (la + 1) = unat la + 1" using rng(3) by (rule u64_inc)
  have f: "unat (f - 1) = unat f - 1" using rng(1) by (intro unat_minus_one) auto
  have "im_inv (newInMemory la)"
    using rng(3) u64_inc_neq_max [of la] by (intro newInMemory_inv) simp
  moreover have "el_firstIndex (newEntryLog db) = f"
    by (simp add: newEntryLog_def r el_firstIndex_def im_getSnapshotIndex_def newInMemory_def)
  ultimately show ?thesis
    using assms rng r la f
    by (auto simp: el_inv_def newEntryLog_def newInMemory_def el_shape_def el_sorted_def el_trm_def)
qed

lemma el_restore_inv:
  assumes "el_inv c l" and "ss_Index ss \<noteq> max_u64"
  shows "el_inv c (el_restore l ss)"
proof -
  have i: "unat (ss_Index ss + 1) = unat (ss_Index ss) + 1"
    using assms(2) u64_inc_neq_max by (intro u64_inc) blast
  have "el_firstIndex (el_restore l ss) = ss_Index ss + 1"
    by (simp add: el_firstIndex_def el_restore_def im_restore_def im_getSnapshotIndex_def)
  with i assms el_inv_simps(1) [OF assms(1)] show ?thesis
    by (auto simp: el_inv_def el_shape_def el_sorted_def el_restore_def im_restore_inv)
       (simp_all add: im_restore_def)
qed

section \<open>Entries to apply\<close>

text \<open>What is handed to the state machine is a run of the abstract log that starts right after the
  applied index and stays within the committed part; there is something to hand over exactly
  when not everything committed is applied.\<close>

lemma el_hasEntriesToApply_spec:
  assumes "el_inv c l"
  shows "el_hasEntriesToApply l \<longleftrightarrow> el_applied l < el_committed l"
    and "unat (el_firstNotAppliedIndex l) = unat (el_applied l) + 1"
    and "unat (el_toApplyIndexLimit l) = unat (el_committed l) + 1"
proof -
  note b = el_inv_simps(5-7) [OF assms, unfolded word_le_nat_alt] im_inv_end [OF el_inv_simps(2) [OF assms]]
  have a: "unat (el_applied l + 1) = unat (el_applied l) + 1" using b by (intro u64_inc) linarith
  have "max (el_applied l + 1) (el_firstIndex l) = el_applied l + 1"
    using a b by (intro max.absorb1) (simp add: word_le_nat_alt)
  then show fn: "unat (el_firstNotAppliedIndex l) = unat (el_applied l) + 1"
    using a by (simp add: el_firstNotAppliedIndex_def)
  show lim: "unat (el_toApplyIndexLimit l) = unat (el_committed l) + 1"
    unfolding el_toApplyIndexLimit_def using b by (intro u64_inc) linarith
  show "el_hasEntriesToApply l \<longleftrightarrow> el_applied l < el_committed l"
    using fn lim by (simp add: el_hasEntriesToApply_def word_less_nat_alt)
qed

lemma el_getEntriesToApply_spec:
  assumes inv: "el_inv c l"
  obtains k where "unat (el_applied l) + k \<le> unat (el_committed l)"
    and "0 < k \<longleftrightarrow> el_applied l < el_committed l"
    and "el_getEntriesToApply l limit =
      Some (map (el_entry c l) [unat (el_applied l) + 1 ..< unat (el_applied l) + 1 + k])"
proof (cases "el_applied l < el_committed l")
  case False
  with that [of 0] el_inv_simps(5) [OF inv] show thesis
    by (simp add: el_getEntriesToApply_def el_hasEntriesToApply_spec(1) [OF inv] word_le_nat_alt)
next
  case True
  note h = el_hasEntriesToApply_spec [OF inv]
  have "el_first l \<le> unat (el_firstNotAppliedIndex l)"
    "unat (el_firstNotAppliedIndex l) < unat (el_toApplyIndexLimit l)"
    "unat (el_toApplyIndexLimit l) \<le> el_end l"
    using h True el_inv_simps(6,7) [OF inv] by (auto simp: word_less_nat_alt)
  then obtain k where k: "0 < k" "unat (el_firstNotAppliedIndex l) + k \<le> unat (el_toApplyIndexLimit l)"
    "el_getEntries l (el_firstNotAppliedIndex l) (el_toApplyIndexLimit l) limit
      = Some (Inr (map (el_entry c l) [unat (el_firstNotAppliedIndex l)
          ..< unat (el_firstNotAppliedIndex l) + k]))"
    using el_getEntries_spec [OF inv] by blast
  with h True that [of k] show thesis by (simp add: el_getEntriesToApply_def)
qed

end
