(* ===== verification/Remote.thy ===== *)
theory Remote
  imports Prelude
begin

text \<open>
  \<open>internal/raft/remote.go\<close>: what a leader tracks about one other node, its match and next
  index and a small flow-control state machine. The leader keeps \<open>match < next\<close>; the lemmas
  show which operations keep that, and how the replication state moves.
\<close>

section \<open>Definitions\<close>

datatype remote_state = remoteRetry | remoteWait | remoteReplicate | remoteSnapshot

record remote =
  rm_match :: u64
  rm_next :: u64
  rm_snapshotIndex :: u64
  rm_state :: remote_state
  rm_active :: bool

definition empty_remote :: remote where
  "empty_remote = \<lparr>rm_match = 0, rm_next = 0, rm_snapshotIndex = 0, rm_state = remoteRetry,
     rm_active = False\<rparr>"

definition rm_reset :: "remote \<Rightarrow> remote" where
  "rm_reset r = r\<lparr>rm_snapshotIndex := 0\<rparr>"

definition rm_becomeRetry :: "remote \<Rightarrow> remote" where
  "rm_becomeRetry r =
     (let r = (if rm_state r = remoteSnapshot
               then r\<lparr>rm_next := max (rm_match r + 1) (rm_snapshotIndex r + 1)\<rparr>
               else r\<lparr>rm_next := rm_match r + 1\<rparr>);
          r = rm_reset r
      in r\<lparr>rm_state := remoteRetry\<rparr>)"

definition rm_retryToWait :: "remote \<Rightarrow> remote" where
  "rm_retryToWait r = (if rm_state r = remoteRetry then r\<lparr>rm_state := remoteWait\<rparr> else r)"

definition rm_waitToRetry :: "remote \<Rightarrow> remote" where
  "rm_waitToRetry r = (if rm_state r = remoteWait then r\<lparr>rm_state := remoteRetry\<rparr> else r)"

definition rm_becomeWait :: "remote \<Rightarrow> remote" where
  "rm_becomeWait r = rm_retryToWait (rm_becomeRetry r)"

definition rm_becomeReplicate :: "remote \<Rightarrow> remote" where
  "rm_becomeReplicate r =
     (let r = rm_reset (r\<lparr>rm_next := rm_match r + 1\<rparr>) in r\<lparr>rm_state := remoteReplicate\<rparr>)"

definition rm_becomeSnapshot :: "remote \<Rightarrow> u64 \<Rightarrow> remote" where
  "rm_becomeSnapshot r index =
     (rm_reset r)\<lparr>rm_snapshotIndex := index, rm_state := remoteSnapshot\<rparr>"

definition rm_clearPendingSnapshot :: "remote \<Rightarrow> remote" where
  "rm_clearPendingSnapshot r = r\<lparr>rm_snapshotIndex := 0\<rparr>"

definition rm_tryUpdate :: "remote \<Rightarrow> u64 \<Rightarrow> bool \<times> remote" where
  "rm_tryUpdate r index =
     (let r = (if rm_next r < index + 1 then r\<lparr>rm_next := index + 1\<rparr> else r) in
      if rm_match r < index then (True, (rm_waitToRetry r)\<lparr>rm_match := index\<rparr>)
      else (False, r))"

definition rm_progress :: "remote \<Rightarrow> u64 \<Rightarrow> remote option" where
  "rm_progress r lastIndex =
     (if rm_state r = remoteReplicate then Some (r\<lparr>rm_next := lastIndex + 1\<rparr>)
      else if rm_state r = remoteRetry then Some (rm_retryToWait r)
      else panic)"

definition rm_respondedTo :: "remote \<Rightarrow> remote" where
  "rm_respondedTo r =
     (if rm_state r = remoteRetry then rm_becomeReplicate r
      else if rm_state r = remoteSnapshot then
        (if rm_match r \<ge> rm_snapshotIndex r then rm_becomeRetry r else r)
      else r)"

definition rm_decreaseTo :: "remote \<Rightarrow> u64 \<Rightarrow> u64 \<Rightarrow> bool \<times> remote" where
  "rm_decreaseTo r rejected lst =
     (if rm_state r = remoteReplicate then
        if rejected \<le> rm_match r then (False, r)
        else (True, r\<lparr>rm_next := rm_match r + 1\<rparr>)
      else if rm_next r - 1 \<noteq> rejected then (False, r)
      else (True, (rm_waitToRetry r)\<lparr>rm_next := max 1 (min rejected (lst + 1))\<rparr>))"

definition rm_isPaused :: "remote \<Rightarrow> bool" where
  "rm_isPaused r =
     (case rm_state r of
        remoteRetry \<Rightarrow> False | remoteWait \<Rightarrow> True | remoteReplicate \<Rightarrow> False | remoteSnapshot \<Rightarrow> True)"

definition rm_isActive :: "remote \<Rightarrow> bool" where
  "rm_isActive r = rm_active r"

definition rm_setActive :: "remote \<Rightarrow> remote" where
  "rm_setActive r = r\<lparr>rm_active := True\<rparr>"

definition rm_setNotActive :: "remote \<Rightarrow> remote" where
  "rm_setNotActive r = r\<lparr>rm_active := False\<rparr>"

lemmas remote_defs = rm_reset_def rm_becomeRetry_def rm_retryToWait_def rm_waitToRetry_def
  rm_becomeWait_def rm_becomeReplicate_def rm_becomeSnapshot_def rm_clearPendingSnapshot_def
  rm_setActive_def rm_setNotActive_def rm_tryUpdate_def rm_progress_def rm_respondedTo_def
  rm_decreaseTo_def Let_def

section \<open>What the operations keep\<close>

text \<open>No operation other than \<open>tryUpdate\<close> changes the match index, and \<open>tryUpdate\<close> only raises it.\<close>

lemma rm_match_kept [simp]:
  "rm_match (rm_reset r) = rm_match r"
  "rm_match (rm_becomeRetry r) = rm_match r"
  "rm_match (rm_retryToWait r) = rm_match r"
  "rm_match (rm_waitToRetry r) = rm_match r"
  "rm_match (rm_becomeWait r) = rm_match r"
  "rm_match (rm_becomeReplicate r) = rm_match r"
  "rm_match (rm_becomeSnapshot r i) = rm_match r"
  "rm_match (rm_clearPendingSnapshot r) = rm_match r"
  "rm_match (rm_respondedTo r) = rm_match r"
  "rm_match (rm_setActive r) = rm_match r"
  "rm_match (rm_setNotActive r) = rm_match r"
  "rm_match (snd (rm_decreaseTo r a b)) = rm_match r"
  by (simp_all add: remote_defs)

lemma rm_progress_match: "rm_progress r i = Some r' \<Longrightarrow> rm_match r' = rm_match r"
  by (auto simp: remote_defs split: if_splits)

lemma rm_tryUpdate_match: "rm_match (snd (rm_tryUpdate r i)) = max (rm_match r) i"
  by (auto simp: remote_defs)

lemma rm_tryUpdate_raised: "fst (rm_tryUpdate r i) \<longleftrightarrow> rm_match r < i"
  by (auto simp: remote_defs)

text \<open>The next index stays above the match index.\<close>

definition rm_inv :: "remote \<Rightarrow> bool" where
  "rm_inv r \<longleftrightarrow> rm_match r < rm_next r \<and> rm_match r \<noteq> max_u64
     \<and> (rm_state r = remoteSnapshot \<longrightarrow> rm_snapshotIndex r \<noteq> max_u64)"

lemma rm_becomeRetry_inv: "rm_inv r \<Longrightarrow> rm_inv (rm_becomeRetry r)"
  using u64_inc_positive [of "rm_match r"]
  by (auto simp: rm_inv_def remote_defs less_max_iff_disj)

lemma rm_becomeReplicate_inv: "rm_inv r \<Longrightarrow> rm_inv (rm_becomeReplicate r)"
  using u64_inc_positive [of "rm_match r"] by (auto simp: rm_inv_def remote_defs)

lemma rm_toggle_inv:
  "rm_inv r \<Longrightarrow> rm_inv (rm_waitToRetry r)" "rm_inv r \<Longrightarrow> rm_inv (rm_retryToWait r)"
  "rm_inv r \<Longrightarrow> rm_inv (rm_setActive r)" "rm_inv r \<Longrightarrow> rm_inv (rm_setNotActive r)"
  "rm_inv r \<Longrightarrow> rm_inv (rm_clearPendingSnapshot r)"
  "rm_inv r \<Longrightarrow> i \<noteq> max_u64 \<Longrightarrow> rm_inv (rm_becomeSnapshot r i)"
  by (auto simp: rm_inv_def remote_defs)

lemma rm_becomeWait_inv: "rm_inv r \<Longrightarrow> rm_inv (rm_becomeWait r)"
  by (simp add: rm_becomeWait_def rm_becomeRetry_inv rm_toggle_inv)

lemma rm_respondedTo_inv: "rm_inv r \<Longrightarrow> rm_inv (rm_respondedTo r)"
  by (simp add: rm_respondedTo_def rm_becomeReplicate_inv rm_becomeRetry_inv)

lemma rm_tryUpdate_inv:
  assumes "rm_inv r" and "i \<noteq> max_u64"
  shows "rm_inv (snd (rm_tryUpdate r i))"
  using assms u64_inc_positive [of i]
  by (auto simp: rm_inv_def remote_defs)

lemma rm_progress_inv:
  assumes "rm_inv r" and "rm_match r \<le> i" and "i \<noteq> max_u64" and "rm_progress r i = Some r'"
  shows "rm_inv r'"
  using assms u64_inc_positive [of i] by (auto simp: rm_inv_def remote_defs split: if_splits)

text \<open>A rejection keeps the invariant when it is not older than the match index: in the retry
  states the new next index is taken from the message alone.\<close>

lemma rm_decreaseTo_inv:
  assumes "rm_inv r" and "rm_match r < rejected" and "rm_match r \<le> lst" and "lst \<noteq> max_u64"
  shows "rm_inv (snd (rm_decreaseTo r rejected lst))"
proof -
  have "rm_match r < rm_match r + 1" "lst < lst + 1"
    using assms u64_inc_positive by (auto simp: rm_inv_def)
  with assms show ?thesis
    by (auto simp: rm_inv_def remote_defs less_max_iff_disj)
qed

end
