(* ===== verification/ReadIdx.thy ===== *)
theory ReadIdx
  imports RaftPB
begin

text \<open>
  \<open>internal/raft/readindex.go\<close>: the leader's queue of read requests that wait for a quorum to
  confirm its leadership (section 6.4 of the Raft thesis). \<open>pending\<close> holds one record per
  request, \<open>queue\<close> their order of arrival. The Go map holds pointers to the records; no other
  reference to a record exists while it is in the map, so the map holds the records themselves.
\<close>

section \<open>Definitions\<close>

record readStatus =
  rs_index :: u64
  rs_from :: u64
  rs_ctx :: system_ctx
  rs_confirmed :: "u64 list"

record readIndex =
  ri_pending :: "(system_ctx, readStatus) gomap"
  ri_queue :: "system_ctx list"

definition newReadIndex :: readIndex where
  "newReadIndex = \<lparr>ri_pending = [], ri_queue = []\<rparr>"

definition ri_peepCtx :: "readIndex \<Rightarrow> system_ctx option" where
  "ri_peepCtx r = go_index (ri_queue r) (length (ri_queue r) - 1)"

definition ri_hasPendingRequest :: "readIndex \<Rightarrow> bool" where
  "ri_hasPendingRequest r \<longleftrightarrow> length (ri_queue r) > 0"

definition ri_addRequest :: "readIndex \<Rightarrow> u64 \<Rightarrow> system_ctx \<Rightarrow> u64 \<Rightarrow> readIndex option" where
  "ri_addRequest r index ctx from =
     (if map_of (ri_pending r) ctx \<noteq> None then Some r
      else do {
        (if length (ri_queue r) > 0 then do {
           c \<leftarrow> ri_peepCtx r;
           p \<leftarrow> map_of (ri_pending r) c;
           if index < rs_index p then panic else Some () }
         else Some ());
        Some (r\<lparr>ri_queue := ri_queue r @ [ctx],
                ri_pending := AList.update ctx
                  \<lparr>rs_index = index, rs_from = from, rs_ctx = ctx, rs_confirmed = []\<rparr>
                  (ri_pending r)\<rparr>) })"

text \<open>The loop of \<open>confirm\<close> over the queue. \<open>cs\<close> are the records collected so far, \<open>dn\<close> their
  number; the records collected are removed from \<open>pending\<close> when the confirmed context is met.\<close>

primrec ri_confirm_loop ::
    "readIndex \<Rightarrow> system_ctx \<Rightarrow> system_ctx list \<Rightarrow> nat \<Rightarrow> readStatus list \<Rightarrow> (readStatus list \<times> readIndex) option" where
  "ri_confirm_loop r ctx [] dn cs = Some ([], r)"
| "ri_confirm_loop r ctx (pctx # q) dn cs = do {
     s \<leftarrow> map_of (ri_pending r) pctx;
     let cs = cs @ [s];
     if pctx = ctx then
       if (\<exists>v \<in> set cs. rs_index v > rs_index s) then panic
       else do {
         let cs = map (\<lambda>v. v\<lparr>rs_index := rs_index s\<rparr>) cs;
         let queue = drop (dn + 1) (ri_queue r);
         let pending = foldl (\<lambda>p v. AList.delete (rs_ctx v) p) (ri_pending r) cs;
         if length queue \<noteq> length pending then panic
         else Some (cs, r\<lparr>ri_queue := queue, ri_pending := pending\<rparr>) }
     else ri_confirm_loop r ctx q (dn + 1) cs }"

definition ri_confirm ::
    "readIndex \<Rightarrow> system_ctx \<Rightarrow> u64 \<Rightarrow> nat \<Rightarrow> (readStatus list \<times> readIndex) option" where
  "ri_confirm r ctx from quorum =
     (case map_of (ri_pending r) ctx of
        None \<Rightarrow> Some ([], r)
      | Some p \<Rightarrow>
          let p = p\<lparr>rs_confirmed := List.insert from (rs_confirmed p)\<rparr>;
              r = r\<lparr>ri_pending := AList.update ctx p (ri_pending r)\<rparr> in
          if length (rs_confirmed p) + 1 < quorum then Some ([], r)
          else ri_confirm_loop r ctx (ri_queue r) 0 [])"

section \<open>Invariant\<close>

text \<open>Every queued context has its record, and only those; indexes do not decrease along the
  queue.\<close>

definition ri_idx :: "readIndex \<Rightarrow> system_ctx \<Rightarrow> u64" where
  "ri_idx r ctx = (case map_of (ri_pending r) ctx of Some s \<Rightarrow> rs_index s | None \<Rightarrow> 0)"

definition ri_inv :: "readIndex \<Rightarrow> bool" where
  "ri_inv r \<longleftrightarrow>
     gomap_ok (ri_pending r) \<and> distinct (ri_queue r)
     \<and> gomap_keys (ri_pending r) = set (ri_queue r)
     \<and> (\<forall>(ctx, s) \<in> set (ri_pending r). rs_ctx s = ctx \<and> distinct (rs_confirmed s))
     \<and> sorted (map (ri_idx r) (ri_queue r))"

lemma newReadIndex_inv: "ri_inv newReadIndex"
  by (simp add: ri_inv_def newReadIndex_def)

lemma ri_inv_pending:
  assumes "ri_inv r" and "ctx \<in> set (ri_queue r)"
  obtains s where "map_of (ri_pending r) ctx = Some s" "rs_ctx s = ctx" "ri_idx r ctx = rs_index s"
proof -
  from assms obtain s where s: "map_of (ri_pending r) ctx = Some s"
    unfolding ri_inv_def by (metis gomap_keys_map_of)
  moreover from s have "(ctx, s) \<in> set (ri_pending r)" by (rule map_of_SomeD)
  with assms(1) have "rs_ctx s = ctx" by (auto simp: ri_inv_def)
  ultimately show thesis using that by (simp add: ri_idx_def)
qed

lemma update_fresh: "k \<notin> gomap_keys m \<Longrightarrow> AList.update k v m = m @ [(k, v)]"
  by (induction m) auto

section \<open>Adding and confirming requests\<close>

text \<open>A request with an index not below the newest one is queued at the end.\<close>

lemma ri_addRequest_spec:
  assumes inv: "ri_inv r" and "ctx \<notin> set (ri_queue r)"
    and mono: "\<And>c. c \<in> set (ri_queue r) \<Longrightarrow> ri_idx r c \<le> index"
  obtains r' where "ri_addRequest r index ctx from = Some r'" and "ri_inv r'"
    and "ri_queue r' = ri_queue r @ [ctx]" and "ri_idx r' ctx = index"
    and "\<And>c. c \<in> set (ri_queue r) \<Longrightarrow> ri_idx r' c = ri_idx r c"
proof -
  let ?s = "\<lparr>rs_index = index, rs_from = from, rs_ctx = ctx, rs_confirmed = []\<rparr>"
  let ?r = "r\<lparr>ri_queue := ri_queue r @ [ctx], ri_pending := AList.update ctx ?s (ri_pending r)\<rparr>"
  from inv have k: "gomap_keys (ri_pending r) = set (ri_queue r)" by (simp add: ri_inv_def)
  have new: "map_of (ri_pending r) ctx = None"
    using assms(2) k by (simp add: map_of_eq_None_keys)
  have same: "ri_idx ?r c = ri_idx r c" if "c \<in> set (ri_queue r)" for c
    using that assms(2) by (auto simp: ri_idx_def)
  then have "map (ri_idx ?r) (ri_queue r) = map (ri_idx r) (ri_queue r)" by simp
  moreover have idx: "ri_idx ?r ctx = index" by (simp add: ri_idx_def)
  ultimately have "sorted (map (ri_idx ?r) (ri_queue ?r))"
    using inv mono same by (simp add: ri_inv_def sorted_append del: map_eq_conv)
  moreover have "AList.update ctx ?s (ri_pending r) = ri_pending r @ [(ctx, ?s)]"
    using k assms(2) by (intro update_fresh) simp
  ultimately have "ri_inv ?r" using inv assms(2) k by (auto simp: ri_inv_def)
  moreover have "ri_addRequest r index ctx from = Some ?r"
  proof (cases "ri_queue r = []")
    case False
    then have "last (ri_queue r) \<in> set (ri_queue r)" by simp
    then obtain s where "map_of (ri_pending r) (last (ri_queue r)) = Some s"
      "ri_idx r (last (ri_queue r)) = rs_index s"
      using ri_inv_pending [OF inv] by metis
    with False mono [of "last (ri_queue r)"] new show ?thesis
      by (simp add: ri_addRequest_def ri_peepCtx_def last_conv_nth not_less [symmetric])
  qed (simp add: ri_addRequest_def new)
  ultimately show thesis using that same idx by simp
qed

lemma foldl_delete:
  "foldl (\<lambda>p v. AList.delete (f v) p) m cs = filter (\<lambda>kv. fst kv \<notin> f ` set cs) m"
  by (induction cs arbitrary: m) (auto simp: AList.delete_eq intro: filter_cong)

definition ri_get :: "readIndex \<Rightarrow> system_ctx \<Rightarrow> readStatus" where
  "ri_get r ctx = the (map_of (ri_pending r) ctx)"

lemma ri_get_pending:
  assumes "ri_inv r" and "ctx \<in> set (ri_queue r)"
  shows "map_of (ri_pending r) ctx = Some (ri_get r ctx)" and "rs_ctx (ri_get r ctx) = ctx"
    and "rs_index (ri_get r ctx) = ri_idx r ctx"
proof -
  obtain s where "map_of (ri_pending r) ctx = Some s" "rs_ctx s = ctx" "ri_idx r ctx = rs_index s"
    using assms by (rule ri_inv_pending)
  then show "map_of (ri_pending r) ctx = Some (ri_get r ctx)" "rs_ctx (ri_get r ctx) = ctx"
    "rs_index (ri_get r ctx) = ri_idx r ctx"
    by (simp_all add: ri_get_def)
qed

text \<open>What is left once the requests up to \<open>ctx\<close> are confirmed.\<close>

definition ri_rest :: "readIndex \<Rightarrow> system_ctx list \<Rightarrow> readIndex" where
  "ri_rest r gone = r\<lparr>ri_queue := drop (length gone) (ri_queue r),
     ri_pending := filter (\<lambda>kv. fst kv \<notin> set gone) (ri_pending r)\<rparr>"

lemma ri_rest_inv:
  assumes "ri_inv r" and "ri_queue r = gone @ b"
  shows "ri_inv (ri_rest r gone)" and "length (ri_pending (ri_rest r gone)) = length b"
proof -
  from assms have ok: "gomap_ok (ri_pending (ri_rest r gone))"
    by (simp add: ri_inv_def ri_rest_def distinct_map_filter)
  have keys: "gomap_keys (ri_pending (ri_rest r gone)) = set b"
  proof -
    have "gomap_keys (ri_pending (ri_rest r gone)) = gomap_keys (ri_pending r) - set gone"
      by (auto simp: ri_rest_def intro: rev_image_eqI)
    with assms show ?thesis by (auto simp: ri_inv_def)
  qed
  have "map (ri_idx (ri_rest r gone)) b = map (ri_idx r) b"
  proof (rule map_cong [OF refl])
    fix c assume "c \<in> set b"
    then have "c \<notin> set gone" using assms by (auto simp: ri_inv_def)
    then show "ri_idx (ri_rest r gone) c = ri_idx r c"
      by (simp add: ri_idx_def ri_rest_def map_of_filter_keys)
  qed
  with assms ok keys show "ri_inv (ri_rest r gone)"
    by (auto simp: ri_inv_def ri_rest_def sorted_append simp del: map_eq_conv)
  have "distinct b" using assms by (simp add: ri_inv_def)
  then show "length (ri_pending (ri_rest r gone)) = length b"
    using card_gomap_keys [OF ok] keys by (simp add: distinct_card)
qed

lemma ri_confirm_loop_spec:
  assumes "ri_inv r" and "ri_queue r = a1 @ a2 @ ctx # b"
  shows "ri_confirm_loop r ctx (a2 @ ctx # b) (length a1) (map (ri_get r) a1) =
    Some (map (\<lambda>c. (ri_get r c)\<lparr>rs_index := ri_idx r ctx\<rparr>) (a1 @ a2 @ [ctx]),
          ri_rest r (a1 @ a2 @ [ctx]))"
  using assms(2)
proof (induction a2 arbitrary: a1)
  case Nil
  have in_q: "c \<in> set (ri_queue r)" if "c \<in> set (a1 @ [ctx])" for c using that Nil by auto
  note g = ri_get_pending [OF assms(1) in_q]
  have "sorted (map (ri_idx r) (ri_queue r))" using assms(1) by (simp add: ri_inv_def)
  then have le: "ri_idx r c \<le> ri_idx r ctx" if "c \<in> set a1" for c
    unfolding Nil using that by (simp add: sorted_append)
  have ctxs: "rs_ctx (ri_get r ctx) = ctx"
    "rs_ctx ` (\<lambda>c. (ri_get r c)\<lparr>rs_index := ri_idx r ctx\<rparr>) ` set a1 = set a1"
    using g(2) by (auto simp: image_image)
  have len: "length (ri_pending (ri_rest r (a1 @ [ctx]))) = length b"
    using ri_rest_inv(2) [OF assms(1), of "a1 @ [ctx]" b] Nil by simp
  show ?case
    using g(1,3) le len Nil
    by (simp add: ri_rest_def foldl_delete ctxs not_less)
next
  case (Cons c a2)
  have "distinct (ri_queue r)" using assms(1) by (simp add: ri_inv_def)
  then have "c \<noteq> ctx" unfolding Cons.prems by simp
  moreover have "c \<in> set (ri_queue r)" unfolding Cons.prems by simp
  then have "map_of (ri_pending r) c = Some (ri_get r c)"
    by (rule ri_get_pending(1) [OF assms(1)])
  moreover have "ri_confirm_loop r ctx (a2 @ ctx # b) (length a1 + 1) (map (ri_get r) a1 @ [ri_get r c]) =
    Some (map (\<lambda>c. (ri_get r c)\<lparr>rs_index := ri_idx r ctx\<rparr>) (a1 @ c # a2 @ [ctx]),
          ri_rest r (a1 @ c # a2 @ [ctx]))"
    using Cons.IH [of "a1 @ [c]"] Cons.prems by simp
  ultimately show ?case by simp
qed

text \<open>Recording one more confirmation changes nothing the invariant speaks of.\<close>

definition ri_mark :: "readIndex \<Rightarrow> system_ctx \<Rightarrow> u64 \<Rightarrow> readIndex" where
  "ri_mark r ctx from = r\<lparr>ri_pending := AList.update ctx
     ((ri_get r ctx)\<lparr>rs_confirmed := List.insert from (rs_confirmed (ri_get r ctx))\<rparr>) (ri_pending r)\<rparr>"

lemma set_update_cases: "kv \<in> set (AList.update k v m) \<Longrightarrow> gomap_ok m \<Longrightarrow> kv = (k, v) \<or> kv \<in> set m"
  by (induction m) (auto split: if_splits)

lemma ri_mark_inv:
  assumes "ri_inv r" and "ctx \<in> set (ri_queue r)"
  shows "ri_inv (ri_mark r ctx from)" and "ri_idx (ri_mark r ctx from) = ri_idx r"
    and "ri_queue (ri_mark r ctx from) = ri_queue r"
proof -
  note g = ri_get_pending [OF assms]
  show idx: "ri_idx (ri_mark r ctx from) = ri_idx r"
    using g(3) by (auto simp: ri_idx_def ri_mark_def)
  show "ri_queue (ri_mark r ctx from) = ri_queue r" by (simp add: ri_mark_def)
  have "(ctx, ri_get r ctx) \<in> set (ri_pending r)" using g(1) by (rule map_of_SomeD)
  then have "distinct (rs_confirmed (ri_get r ctx))" using assms(1) by (auto simp: ri_inv_def)
  with g(2) assms show "ri_inv (ri_mark r ctx from)"
    unfolding ri_inv_def idx
    by (auto simp: ri_mark_def dest!: set_update_cases)
qed

text \<open>Once a quorum (the leader included) has confirmed a context, every request up to it is
  released, all at the index of the confirmed one; before that nothing is released.\<close>

lemma ri_confirm_spec:
  assumes inv: "ri_inv r" and q: "ri_queue r = a @ ctx # b"
  shows "ri_confirm r ctx from qrm =
    Some (if length (List.insert from (rs_confirmed (ri_get r ctx))) + 1 < qrm
          then ([], ri_mark r ctx from)
          else (map (\<lambda>c. (ri_get (ri_mark r ctx from) c)\<lparr>rs_index := ri_idx r ctx\<rparr>) (a @ [ctx]),
                ri_rest (ri_mark r ctx from) (a @ [ctx])))"
proof -
  have m: "ctx \<in> set (ri_queue r)" using q by simp
  note mi = ri_mark_inv [OF inv m, of "from"]
  have "ri_confirm_loop (ri_mark r ctx from) ctx (ri_queue r) 0 [] =
    Some (map (\<lambda>c. (ri_get (ri_mark r ctx from) c)\<lparr>rs_index := ri_idx r ctx\<rparr>) (a @ [ctx]),
          ri_rest (ri_mark r ctx from) (a @ [ctx]))"
    using ri_confirm_loop_spec [OF mi(1), of "[]" a ctx b] mi(2,3) q by simp
  then show ?thesis
    using ri_get_pending(1) [OF inv m] by (simp add: ri_confirm_def Let_def ri_mark_def)
qed

lemma ri_confirm_unknown: "ri_inv r \<Longrightarrow> ctx \<notin> set (ri_queue r) \<Longrightarrow> ri_confirm r ctx from qrm = Some ([], r)"
  unfolding ri_inv_def by (metis (no_types, lifting) map_of_eq_None_keys option.simps(4) ri_confirm_def)

lemma ri_confirm_inv:
  assumes "ri_inv r"
  obtains rs r' where "ri_confirm r ctx from qrm = Some (rs, r')" and "ri_inv r'"
    and "\<exists>k. ri_queue r' = drop k (ri_queue r)"
proof (cases "ctx \<in> set (ri_queue r)")
  case True
  then obtain a b where q: "ri_queue r = a @ ctx # b" by (metis split_list)
  note mi = ri_mark_inv [OF assms True, of "from"]
  have "ri_inv (ri_rest (ri_mark r ctx from) (a @ [ctx]))"
    using ri_rest_inv(1) [OF mi(1), of "a @ [ctx]" b] mi(3) q by simp
  moreover have "\<exists>k. ri_queue (ri_rest (ri_mark r ctx from) (a @ [ctx])) = drop k (ri_queue r)"
    using mi(3) by (auto simp: ri_rest_def)
  moreover have "\<exists>k. ri_queue (ri_mark r ctx from) = drop k (ri_queue r)"
    using mi(3) by (auto intro: exI [of _ 0])
  ultimately show thesis
    using mi(1) ri_confirm_spec [OF assms q, of "from" qrm]
    by (cases "length (List.insert from (rs_confirmed (ri_get r ctx))) + 1 < qrm")
       (simp_all only: if_True if_False, (erule (2) that)+)
next
  case False
  have "ri_queue r = drop 0 (ri_queue r)" by simp
  with that ri_confirm_unknown [OF assms False] assms show thesis by blast
qed

end
