(* ===== verification/Config.thy ===== *)
theory Config
  imports Prelude
begin

text \<open>
  \<open>config/config.go\<close>: the per-node configuration and its validation. An error is its message,
  \<open>None\<close> is the \<open>nil\<close> error. The conditions \<open>c.NodeID <= 0\<close> and \<open>c.ClusterID < 0\<close> compare
  unsigned values.
\<close>

record config =
  cfg_NodeID :: u64
  cfg_ClusterID :: u64
  cfg_IsObserver :: bool
  cfg_CheckQuorum :: bool
  cfg_Quiesce :: bool
  cfg_ElectionRTT :: u64
  cfg_HeartbeatRTT :: u64
  cfg_SnapshotEntries :: u64
  cfg_CompactionOverhead :: u64
  cfg_OrderedConfigChange :: bool

definition Config_Validate :: "config \<Rightarrow> string option" where
  "Config_Validate c =
     (if cfg_NodeID c \<le> 0 then Some ''invalid NodeID, it must be >= 1''
      else if cfg_ClusterID c < 0 then Some ''invalid ClusterID''
      else if cfg_HeartbeatRTT c \<le> 0 then Some ''HeartbeatRTT must be > 0''
      else if cfg_ElectionRTT c \<le> 0 then Some ''ElectionRTT must be > 0''
      else if cfg_ElectionRTT c \<le> 2 * cfg_HeartbeatRTT c then Some ''invalid election rtt''
      else None)"

text \<open>A validated configuration has a node id and non-zero timeouts; the election timeout exceeds
  twice the heartbeat interval as long as doubling that interval does not wrap around.\<close>

lemma Config_Validate_ok:
  assumes "Config_Validate c = None"
  shows "cfg_NodeID c \<noteq> 0" and "cfg_ElectionRTT c \<noteq> 0" and "cfg_HeartbeatRTT c \<noteq> 0"
    and "unat (cfg_HeartbeatRTT c) < 9223372036854775808 \<Longrightarrow>
      2 * unat (cfg_HeartbeatRTT c) < unat (cfg_ElectionRTT c)"
proof -
  from assms have lt: "2 * cfg_HeartbeatRTT c < cfg_ElectionRTT c"
    by (auto simp: Config_Validate_def split: if_splits)
  show "unat (cfg_HeartbeatRTT c) < 9223372036854775808 \<Longrightarrow>
      2 * unat (cfg_HeartbeatRTT c) < unat (cfg_ElectionRTT c)"
    using lt by (simp add: word_less_nat_alt unat_word_ariths)
qed (use assms in \<open>auto simp: Config_Validate_def split: if_splits\<close>)

end
