(* ===== verification/Raft.thy ===== *)
theory Raft
  imports EntryLogSpec Remote ReadIdx Config
begin

text \<open>
  \<open>internal/raft/raft.go\<close>, first half: the state of a Raft node and the operations the message
  handlers are made of, in the order of the file. Membership, sending and broadcasting,
  committing, state transitions, elections.

  \<^item> \<open>r_rng\<close> is the stream of values \<open>random.LockGuardedRand\<close> returns and \<open>r_rngpos\<close> the number
    of values drawn so far.
  \<^item> \<open>r_recordLeader\<close> is the callback of that name: \<open>None\<close> when it is not set, otherwise the
    value it was last called with.
  \<^item> \<open>r_hasNotAppliedConfigChange\<close> is the hook tests install; a running node has \<open>None\<close>.
  \<^item> A \<open>*remote\<close> argument is the key under which the leader finds it: a lookup in \<open>remotes\<close> first,
    then in \<open>observers\<close> (\<open>get_remote\<close>, \<open>put_remote\<close>).
  \<^item> Log output is left out.
\<close>

section \<open>State\<close>

datatype node_state = follower | candidate | leader | observer

record raft =
  r_applied :: u64
  r_nodeID :: u64
  r_clusterID :: u64
  r_term :: u64
  r_vote :: u64
  r_log :: entryLog
  r_remotes :: "(u64, remote) gomap"
  r_observers :: "(u64, remote) gomap"
  r_state :: node_state
  r_votes :: "(u64, bool) gomap"
  r_msgs :: "message list"
  r_leaderID :: u64
  r_leaderTransferTarget :: u64
  r_isLeaderTransferTarget :: bool
  r_pendingConfigChange :: bool
  r_readIndex :: readIndex
  r_readyToRead :: "ready_to_read list"
  r_checkQuorum :: bool
  r_tickCount :: u64
  r_electionTick :: u64
  r_heartbeatTick :: u64
  r_heartbeatTimeout :: u64
  r_electionTimeout :: u64
  r_randomizedElectionTimeout :: u64
  r_matched :: "u64 list"
  r_hasNotAppliedConfigChange :: "bool option"
  r_recordLeader :: "u64 option"
  r_rng :: "nat \<Rightarrow> u64"
  r_rngpos :: nat

definition NoLeader :: u64 where "NoLeader = 0"

definition NoNode :: u64 where "NoNode = 0"

record raft_status =
  sts_NodeID :: u64
  sts_ClusterID :: u64
  sts_Applied :: u64
  sts_LeaderID :: u64
  sts_NodeState :: node_state
  sts_State :: pb_state

definition setApplied :: "raft \<Rightarrow> u64 \<Rightarrow> raft" where
  "setApplied r applied = r\<lparr>r_applied := applied\<rparr>"

definition getApplied :: "raft \<Rightarrow> u64" where
  "getApplied r = r_applied r"

definition resetMatchValueArray :: "raft \<Rightarrow> raft" where
  "resetMatchValueArray r = r\<lparr>r_matched := replicate (length (r_remotes r)) 0\<rparr>"

definition isObserver :: "raft \<Rightarrow> bool" where
  "isObserver r \<longleftrightarrow> r_state r = observer"

definition setLeaderID :: "raft \<Rightarrow> u64 \<Rightarrow> raft" where
  "setLeaderID r leaderID =
     (let r = r\<lparr>r_leaderID := leaderID\<rparr> in
      if r_recordLeader r \<noteq> None then r\<lparr>r_recordLeader := Some (r_leaderID r)\<rparr> else r)"

definition leaderTransfering :: "raft \<Rightarrow> bool" where
  "leaderTransfering r \<longleftrightarrow> r_leaderTransferTarget r \<noteq> NoNode \<and> r_state r = leader"

definition abortLeaderTransfer :: "raft \<Rightarrow> raft" where
  "abortLeaderTransfer r = r\<lparr>r_leaderTransferTarget := NoNode\<rparr>"

definition quorum :: "raft \<Rightarrow> nat" where
  "quorum r = length (r_remotes r) div 2 + 1"

definition isSingleNodeQuorum :: "raft \<Rightarrow> bool" where
  "isSingleNodeQuorum r \<longleftrightarrow> quorum r = 1"

text \<open>The loop visits every remote once and counts the active ones and the node itself, clearing
  their active flag.\<close>

primrec leaderHasQuorum_loop ::
    "u64 \<Rightarrow> (u64, remote) gomap \<Rightarrow> nat \<times> (u64, remote) gomap" where
  "leaderHasQuorum_loop self [] = (0, [])"
| "leaderHasQuorum_loop self (nr # rs) =
     (let (c, rs') = leaderHasQuorum_loop self rs in
      if fst nr = self \<or> rm_isActive (snd nr) then (c + 1, (fst nr, rm_setNotActive (snd nr)) # rs')
      else (c, nr # rs'))"

definition leaderHasQuorum :: "raft \<Rightarrow> bool \<times> raft" where
  "leaderHasQuorum r =
     (let (c, rs) = leaderHasQuorum_loop (r_nodeID r) (r_remotes r)
      in (c \<ge> quorum r, r\<lparr>r_remotes := rs\<rparr>))"

definition raft_nodes :: "raft \<Rightarrow> u64 list" where
  "raft_nodes r = sort (map fst (r_remotes r) @ map fst (r_observers r))"

definition raftState :: "raft \<Rightarrow> pb_state" where
  "raftState r = \<lparr>st_Term = r_term r, st_Vote = r_vote r, st_Commit = el_committed (r_log r)\<rparr>"

definition getLocalStatus :: "raft \<Rightarrow> raft_status" where
  "getLocalStatus r = \<lparr>sts_NodeID = r_nodeID r, sts_ClusterID = r_clusterID r,
     sts_Applied = el_applied (r_log r), sts_LeaderID = r_leaderID r,
     sts_NodeState = r_state r, sts_State = raftState r\<rparr>"

definition loadState :: "raft \<Rightarrow> pb_state \<Rightarrow> raft option" where
  "loadState r st =
     (if st_Commit st < el_committed (r_log r) \<or> st_Commit st > el_lastIndex (r_log r) then panic
      else Some (r\<lparr>r_log := (r_log r)\<lparr>el_committed := st_Commit st\<rparr>,
                   r_term := st_Term st, r_vote := st_Vote st\<rparr>))"

definition raft_restore :: "raft \<Rightarrow> snapshot \<Rightarrow> (bool \<times> raft) option" where
  "raft_restore r ss =
     (if ss_Index ss \<le> el_committed (r_log r) then Some (False, r)
      else if \<not> isObserver r \<and> r_nodeID r \<in> gomap_keys (mb_Observers (ss_Membership ss)) then panic
      else do {
        b \<leftarrow> el_matchTerm (r_log r) (ss_Index ss) (ss_Term ss);
        if b then do {
          l \<leftarrow> el_commitTo (r_log r) (ss_Index ss);
          Some (False, r\<lparr>r_log := l\<rparr>) }
        else Some (True, r\<lparr>r_log := el_restore (r_log r) ss\<rparr>) })"

definition setPendingConfigChange :: "raft \<Rightarrow> raft" where
  "setPendingConfigChange r = r\<lparr>r_pendingConfigChange := True\<rparr>"

definition hasPendingConfigChange :: "raft \<Rightarrow> bool" where
  "hasPendingConfigChange r = r_pendingConfigChange r"

definition clearPendingConfigChange :: "raft \<Rightarrow> raft" where
  "clearPendingConfigChange r = r\<lparr>r_pendingConfigChange := False\<rparr>"

definition setRemote :: "raft \<Rightarrow> u64 \<Rightarrow> u64 \<Rightarrow> u64 \<Rightarrow> raft" where
  "setRemote r nodeID mtch nxt =
     resetMatchValueArray
       (r\<lparr>r_remotes := AList.update nodeID (empty_remote\<lparr>rm_next := nxt, rm_match := mtch\<rparr>)
            (r_remotes r)\<rparr>)"

definition setObserver :: "raft \<Rightarrow> u64 \<Rightarrow> u64 \<Rightarrow> u64 \<Rightarrow> raft" where
  "setObserver r nodeID mtch nxt =
     r\<lparr>r_observers := AList.update nodeID (empty_remote\<lparr>rm_next := nxt, rm_match := mtch\<rparr>)
          (r_observers r)\<rparr>"

definition deleteRemote :: "raft \<Rightarrow> u64 \<Rightarrow> raft" where
  "deleteRemote r nodeID =
     resetMatchValueArray (r\<lparr>r_remotes := AList.delete nodeID (r_remotes r)\<rparr>)"

definition deleteObserver :: "raft \<Rightarrow> u64 \<Rightarrow> raft" where
  "deleteObserver r nodeID = r\<lparr>r_observers := AList.delete nodeID (r_observers r)\<rparr>"

section \<open>Remotes behind a pointer\<close>

definition get_remote :: "raft \<Rightarrow> u64 \<Rightarrow> remote option" where
  "get_remote r to =
     (case map_of (r_remotes r) to of Some rp \<Rightarrow> Some rp | None \<Rightarrow> map_of (r_observers r) to)"

definition put_remote :: "raft \<Rightarrow> u64 \<Rightarrow> remote \<Rightarrow> raft" where
  "put_remote r to rp =
     (if map_of (r_remotes r) to \<noteq> None then r\<lparr>r_remotes := AList.update to rp (r_remotes r)\<rparr>
      else r\<lparr>r_observers := AList.update to rp (r_observers r)\<rparr>)"

section \<open>Clock\<close>

definition timeForElection :: "raft \<Rightarrow> bool" where
  "timeForElection r \<longleftrightarrow> r_electionTick r \<ge> r_randomizedElectionTimeout r"

definition timeForHearbeat :: "raft \<Rightarrow> bool" where
  "timeForHearbeat r \<longleftrightarrow> r_heartbeatTick r \<ge> r_heartbeatTimeout r"

definition timeForCheckQuorum :: "raft \<Rightarrow> bool" where
  "timeForCheckQuorum r \<longleftrightarrow> r_electionTick r \<ge> r_electionTimeout r"

definition timeToAbortLeaderTransfer :: "raft \<Rightarrow> bool" where
  "timeToAbortLeaderTransfer r \<longleftrightarrow> leaderTransfering r \<and> r_electionTick r \<ge> r_electionTimeout r"

definition quiescedTick :: "raft \<Rightarrow> raft" where
  "quiescedTick r = r\<lparr>r_electionTick := r_electionTick r + 1\<rparr>"

text \<open>Dividing by a zero timeout panics.\<close>

definition setRandomizedElectionTimeout :: "raft \<Rightarrow> raft option" where
  "setRandomizedElectionTimeout r =
     (if r_electionTimeout r = 0 then panic
      else
        let randTime = r_rng r (r_rngpos r) mod r_electionTimeout r in
        Some (r\<lparr>r_rngpos := r_rngpos r + 1,
                r_randomizedElectionTimeout := r_electionTimeout r + randTime\<rparr>))"

section \<open>Sending\<close>

definition isRequestMessage :: "message_type \<Rightarrow> bool" where
  "isRequestMessage t \<longleftrightarrow> t = Propose \<or> t = ReadIndex"

definition isLeaderMessage :: "message_type \<Rightarrow> bool" where
  "isLeaderMessage t \<longleftrightarrow> t = Replicate \<or> t = InstallSnapshot \<or> t = Heartbeat \<or> t = TimeoutNow
     \<or> t = ReadIndexResp"

definition finalizeMessageTerm :: "raft \<Rightarrow> message \<Rightarrow> message option" where
  "finalizeMessageTerm r m =
     (if m_Term m = 0 \<and> m_Type m = RequestVote then panic
      else if m_Term m > 0 \<and> m_Type m \<noteq> RequestVote then panic
      else if \<not> isRequestMessage (m_Type m) then Some (m\<lparr>m_Term := r_term r\<rparr>)
      else Some m)"

definition send :: "raft \<Rightarrow> message \<Rightarrow> raft option" where
  "send r m = do {
     m \<leftarrow> finalizeMessageTerm r (m\<lparr>m_From := r_nodeID r\<rparr>);
     Some (r\<lparr>r_msgs := r_msgs r @ [m]\<rparr>) }"

definition makeInstallSnapshotMessage :: "raft \<Rightarrow> u64 \<Rightarrow> message \<Rightarrow> (u64 \<times> message) option" where
  "makeInstallSnapshotMessage r to m =
     (let snapshot = el_snapshot (r_log r) in
      if IsEmptySnapshot snapshot then panic
      else Some (ss_Index snapshot,
                 m\<lparr>m_To := to, m_Type := InstallSnapshot, m_Snapshot := snapshot\<rparr>))"

definition makeReplicateMessage :: "raft \<Rightarrow> u64 \<Rightarrow> u64 \<Rightarrow> u64 \<Rightarrow> (raft_err + message) option" where
  "makeReplicateMessage r to nxt maxSize = do {
     t \<leftarrow> el_term (r_log r) (nxt - 1);
     case t of
       Inl err \<Rightarrow> Some (Inl err)
     | Inr trm \<Rightarrow> do {
         es \<leftarrow> el_entries (r_log r) nxt maxSize;
         case es of
           Inl err \<Rightarrow> Some (Inl err)
         | Inr entries \<Rightarrow>
             if length entries > 0
                \<and> e_Index (entries ! (length entries - 1)) \<noteq> nxt - 1 + of_nat (length entries)
             then panic
             else Some (Inr (empty_message\<lparr>m_To := to, m_Type := Replicate, m_LogIndex := nxt - 1,
                    m_LogTerm := trm, m_Entries := entries,
                    m_Commit := el_committed (r_log r)\<rparr>)) } }"

text \<open>\<open>settings.Soft.MaxEntrySize\<close> at its default, \<open>MaxProposalPayloadSize * 2\<close>.\<close>

definition MaxEntrySize :: u64 where
  "MaxEntrySize = MaxProposalPayloadSize * 2"

definition sendReplicateMessage :: "raft \<Rightarrow> u64 \<Rightarrow> raft option" where
  "sendReplicateMessage r to = do {
     rp \<leftarrow> get_remote r to;
     if rm_isPaused rp then Some r
     else do {
       res \<leftarrow> makeReplicateMessage r to (rm_next rp) MaxEntrySize;
       case res of
         Inl err \<Rightarrow>
           if \<not> rm_isActive rp then Some r
           else do {
             (index, m) \<leftarrow> makeInstallSnapshotMessage r to empty_message;
             send (put_remote r to (rm_becomeSnapshot rp index)) m }
       | Inr m \<Rightarrow> do {
           r \<leftarrow> (if length (m_Entries m) > 0 then do {
                  let lastIndex = e_Index (m_Entries m ! (length (m_Entries m) - 1));
                  rp \<leftarrow> rm_progress rp lastIndex;
                  Some (put_remote r to rp) }
                else Some r);
           send r m } } }"

definition broadcastReplicateMessage :: "raft \<Rightarrow> raft option" where
  "broadcastReplicateMessage r = do {
     r \<leftarrow> go_fold (\<lambda>nid r. if nid \<noteq> r_nodeID r then sendReplicateMessage r nid else Some r)
           (map fst (r_remotes r)) r;
     go_fold (\<lambda>nid r. if nid = r_nodeID r then panic else sendReplicateMessage r nid)
           (map fst (r_observers r)) r }"

definition sendHeartbeatMessage :: "raft \<Rightarrow> u64 \<Rightarrow> system_ctx \<Rightarrow> bool \<Rightarrow> raft option" where
  "sendHeartbeatMessage r to hint toObserver = do {
     rp \<leftarrow> (if toObserver then map_of (r_observers r) to else map_of (r_remotes r) to);
     let commit = min (rm_match rp) (el_committed (r_log r));
     send r (empty_message\<lparr>m_To := to, m_Type := Heartbeat, m_Commit := commit,
               m_Hint := ctx_Low hint, m_HintHigh := ctx_High hint\<rparr>) }"

definition broadcastHeartbeatMessageWithHint :: "raft \<Rightarrow> system_ctx \<Rightarrow> raft option" where
  "broadcastHeartbeatMessageWithHint r ctx = do {
     r \<leftarrow> go_fold (\<lambda>id r. if id \<noteq> r_nodeID r then sendHeartbeatMessage r id ctx False else Some r)
           (map fst (r_remotes r)) r;
     if ctx = zero_ctx then
       go_fold (\<lambda>id r. sendHeartbeatMessage r id zero_ctx True) (map fst (r_observers r)) r
     else Some r }"

definition broadcastHeartbeatMessage :: "raft \<Rightarrow> raft option" where
  "broadcastHeartbeatMessage r =
     (if ri_hasPendingRequest (r_readIndex r) then do {
        ctx \<leftarrow> ri_peepCtx (r_readIndex r);
        broadcastHeartbeatMessageWithHint r ctx }
      else broadcastHeartbeatMessageWithHint r zero_ctx)"

definition sendTimeoutNowMessage :: "raft \<Rightarrow> u64 \<Rightarrow> raft option" where
  "sendTimeoutNowMessage r target =
     send r (empty_message\<lparr>m_Type := TimeoutNow, m_To := target\<rparr>)"

section \<open>Appending and committing\<close>

text \<open>The unrolled bubble sort for three values.\<close>

definition sort3 :: "u64 list \<Rightarrow> u64 list" where
  "sort3 ms =
     (let swap = (\<lambda>i j xs :: u64 list. if xs ! i > xs ! j then xs[i := xs ! j, j := xs ! i] else xs)
      in swap 0 1 (swap 1 2 (swap 0 1 ms)))"

definition sortMatchValues :: "raft \<Rightarrow> raft" where
  "sortMatchValues r =
     (if length (r_matched r) = 3 then r\<lparr>r_matched := sort3 (r_matched r)\<rparr>
      else r\<lparr>r_matched := sort (r_matched r)\<rparr>)"

primrec fillMatched :: "nat \<Rightarrow> (u64, remote) gomap \<Rightarrow> u64 list \<Rightarrow> u64 list" where
  "fillMatched idx [] ms = ms"
| "fillMatched idx (v # vs) ms = fillMatched (idx + 1) vs (ms[idx := rm_match (snd v)])"

text \<open>With no remotes at all the index \<open>len(r.remotes) - r.quorum()\<close> is negative and indexing
  panics; here it is 0 into an empty slice, which panics too.\<close>

definition raft_tryCommit :: "raft \<Rightarrow> (bool \<times> raft) option" where
  "raft_tryCommit r = do {
     let r = (if length (r_remotes r) \<noteq> length (r_matched r) then resetMatchValueArray r else r);
     let r = r\<lparr>r_matched := fillMatched 0 (r_remotes r) (r_matched r)\<rparr>;
     let r = sortMatchValues r;
     q \<leftarrow> go_index (r_matched r) (length (r_remotes r) - quorum r);
     (b, l) \<leftarrow> el_tryCommit (r_log r) q (r_term r);
     Some (b, r\<lparr>r_log := l\<rparr>) }"

primrec stampEntries :: "u64 \<Rightarrow> u64 \<Rightarrow> entry list \<Rightarrow> entry list" where
  "stampEntries trm index [] = []"
| "stampEntries trm index (e # es) =
     e\<lparr>e_Term := trm, e_Index := index\<rparr> # stampEntries trm (index + 1) es"

definition appendEntries :: "raft \<Rightarrow> entry list \<Rightarrow> raft option" where
  "appendEntries r entries = do {
     let lastIndex = el_lastIndex (r_log r);
     let entries = stampEntries (r_term r) (lastIndex + 1) entries;
     l \<leftarrow> el_append (r_log r) entries;
     let r = r\<lparr>r_log := l\<rparr>;
     rp \<leftarrow> map_of (r_remotes r) (r_nodeID r);
     let r = r\<lparr>r_remotes := AList.update (r_nodeID r)
                 (snd (rm_tryUpdate rp (el_lastIndex (r_log r)))) (r_remotes r)\<rparr>;
     if isSingleNodeQuorum r then do { (_, r) \<leftarrow> raft_tryCommit r; Some r } else Some r }"

section \<open>State transitions\<close>

definition resetRemotes :: "raft \<Rightarrow> raft" where
  "resetRemotes r = r\<lparr>r_remotes := map (\<lambda>(id, _).
     (id, empty_remote\<lparr>rm_next := el_lastIndex (r_log r) + 1,
        rm_match := (if id = r_nodeID r then el_lastIndex (r_log r) else 0)\<rparr>)) (r_remotes r)\<rparr>"

definition resetObservers :: "raft \<Rightarrow> raft" where
  "resetObservers r = r\<lparr>r_observers := map (\<lambda>(id, _).
     (id, empty_remote\<lparr>rm_next := el_lastIndex (r_log r) + 1,
        rm_match := (if id = r_nodeID r then el_lastIndex (r_log r) else 0)\<rparr>)) (r_observers r)\<rparr>"

definition raft_reset :: "raft \<Rightarrow> u64 \<Rightarrow> raft option" where
  "raft_reset r trm = do {
     let r = (if r_term r \<noteq> trm then r\<lparr>r_term := trm, r_vote := NoLeader\<rparr> else r);
     let r = setLeaderID r NoLeader;
     let r = r\<lparr>r_votes := [], r_electionTick := 0, r_heartbeatTick := 0\<rparr>;
     r \<leftarrow> setRandomizedElectionTimeout r;
     let r = r\<lparr>r_readIndex := newReadIndex\<rparr>;
     let r = clearPendingConfigChange r;
     let r = abortLeaderTransfer r;
     let r = resetRemotes r;
     let r = resetObservers r;
     Some (resetMatchValueArray r) }"

definition becomeObserver :: "raft \<Rightarrow> u64 \<Rightarrow> u64 \<Rightarrow> raft option" where
  "becomeObserver r trm leaderID =
     (if r_state r \<noteq> observer then panic
      else do { r \<leftarrow> raft_reset r trm; Some (setLeaderID r leaderID) })"

definition becomeFollower :: "raft \<Rightarrow> u64 \<Rightarrow> u64 \<Rightarrow> raft option" where
  "becomeFollower r trm leaderID = do {
     r \<leftarrow> raft_reset (r\<lparr>r_state := follower\<rparr>) trm;
     Some (setLeaderID r leaderID) }"

definition becomeCandidate :: "raft \<Rightarrow> raft option" where
  "becomeCandidate r =
     (if r_state r = leader then panic
      else if r_state r = observer then panic
      else do {
        r \<leftarrow> raft_reset (r\<lparr>r_state := candidate\<rparr>) (r_term r + 1);
        Some (r\<lparr>r_vote := r_nodeID r\<rparr>) })"

text \<open>The loop of \<open>getPendingConfigChangeCount\<close>; \<open>None\<close> is a panic or a loop that does not end.\<close>

partial_function (option) countPending :: "entryLog \<Rightarrow> u64 \<Rightarrow> nat \<Rightarrow> nat option" where
  "countPending l idx count = do {
     res \<leftarrow> el_entries l idx maxEntriesToApplySize;
     case res of
       Inl err \<Rightarrow> panic
     | Inr ents \<Rightarrow>
         if length ents = 0 then Some count
         else countPending l (e_Index (ents ! (length ents - 1)) + 1)
                (count + countConfigChange ents) }"

declare countPending.simps [code]

definition getPendingConfigChangeCount :: "raft \<Rightarrow> nat option" where
  "getPendingConfigChangeCount r = countPending (r_log r) (el_committed (r_log r) + 1) 0"

definition preLeaderPromotionHandleConfigChange :: "raft \<Rightarrow> raft option" where
  "preLeaderPromotionHandleConfigChange r = do {
     n \<leftarrow> getPendingConfigChangeCount r;
     if n > 1 then panic
     else if n = 1 then Some (setPendingConfigChange r)
     else Some r }"

definition becomeLeader :: "raft \<Rightarrow> raft option" where
  "becomeLeader r =
     (if r_state r = follower then panic
      else if r_state r = observer then panic
      else do {
        r \<leftarrow> raft_reset (r\<lparr>r_state := leader\<rparr>) (r_term r);
        let r = setLeaderID r (r_nodeID r);
        r \<leftarrow> preLeaderPromotionHandleConfigChange r;
        appendEntries r [empty_entry\<lparr>e_Type := ApplicationEntry\<rparr>] })"

section \<open>Elections\<close>

definition handleVoteResp :: "raft \<Rightarrow> u64 \<Rightarrow> bool \<Rightarrow> nat \<times> raft" where
  "handleVoteResp r from rejected =
     (let r = (if map_of (r_votes r) from = None
               then r\<lparr>r_votes := AList.update from (\<not> rejected) (r_votes r)\<rparr> else r)
      in (length (filter snd (r_votes r)), r))"

text \<open>The body of the loop of \<open>campaign\<close> over the remotes.\<close>

definition sendRequestVote :: "u64 \<Rightarrow> u64 \<Rightarrow> u64 \<Rightarrow> raft \<Rightarrow> raft option" where
  "sendRequestVote trm hint k r =
     (if k = r_nodeID r then Some r
      else do {
        lastTerm \<leftarrow> el_lastTerm (r_log r);
        send r (empty_message\<lparr>m_Term := trm, m_To := k, m_Type := RequestVote,
                  m_LogIndex := el_lastIndex (r_log r), m_LogTerm := lastTerm,
                  m_Hint := hint\<rparr>) })"

definition campaign :: "raft \<Rightarrow> raft option" where
  "campaign r = do {
     r \<leftarrow> becomeCandidate r;
     let trm = r_term r;
     let (_, r) = handleVoteResp r (r_nodeID r) False;
     if isSingleNodeQuorum r then becomeLeader r
     else do {
       let (hint, r) = (if r_isLeaderTransferTarget r
                        then (r_nodeID r, r\<lparr>r_isLeaderTransferTarget := False\<rparr>) else (0, r));
       go_fold (sendRequestVote trm hint) (map fst (r_remotes r)) r } }"

section \<open>Membership\<close>

definition selfRemoved :: "raft \<Rightarrow> bool" where
  "selfRemoved r =
     (if r_state r = observer then map_of (r_observers r) (r_nodeID r) = None
      else map_of (r_remotes r) (r_nodeID r) = None)"

definition addNode :: "raft \<Rightarrow> u64 \<Rightarrow> raft option" where
  "addNode r nodeID =
     (let r = clearPendingConfigChange r in
      if map_of (r_remotes r) nodeID \<noteq> None then Some r
      else case map_of (r_observers r) nodeID of
        Some rp \<Rightarrow>
          let r = deleteObserver r nodeID;
              r = r\<lparr>r_remotes := AList.update nodeID rp (r_remotes r)\<rparr> in
          if nodeID = r_nodeID r then becomeFollower r (r_term r) (r_leaderID r) else Some r
      | None \<Rightarrow> Some (setRemote r nodeID 0 (el_lastIndex (r_log r) + 1)))"

definition raft_addObserver :: "raft \<Rightarrow> u64 \<Rightarrow> raft" where
  "raft_addObserver r nodeID =
     (let r = clearPendingConfigChange r in
      if map_of (r_observers r) nodeID \<noteq> None then r
      else setObserver r nodeID 0 (el_lastIndex (r_log r) + 1))"

definition removeNode :: "raft \<Rightarrow> u64 \<Rightarrow> raft option" where
  "removeNode r nodeID = do {
     let r = deleteRemote r nodeID;
     let r = deleteObserver r nodeID;
     let r = clearPendingConfigChange r;
     let r = (if leaderTransfering r \<and> r_leaderTransferTarget r = nodeID
              then abortLeaderTransfer r else r);
     if length (r_remotes r) > 0 then do {
       (b, r) \<leftarrow> raft_tryCommit r;
       if b then broadcastReplicateMessage r else Some r }
     else Some r }"

definition restoreRemotes :: "raft \<Rightarrow> snapshot \<Rightarrow> raft option" where
  "restoreRemotes r ss = do {
     r \<leftarrow> go_fold (\<lambda>id r. do {
             r \<leftarrow> (if map_of (r_observers r) id \<noteq> None
                  then becomeFollower r (r_term r) (r_leaderID r) else Some r);
             let nxt = el_lastIndex (r_log r) + 1;
             let mtch = (if id = r_nodeID r then nxt - 1 else 0);
             Some (setRemote r id mtch nxt) })
           (map fst (mb_Addresses (ss_Membership ss))) (r\<lparr>r_remotes := []\<rparr>);
     r \<leftarrow> go_fold (\<lambda>id r. do {
             let nxt = el_lastIndex (r_log r) + 1;
             let mtch = (if id = r_nodeID r then nxt - 1 else 0);
             Some (setObserver r id mtch nxt) })
           (map fst (mb_Observers (ss_Membership ss))) (r\<lparr>r_observers := []\<rparr>);
     Some (resetMatchValueArray r) }"

end
