(* ===== verification/RaftHandlers.thy ===== *)
theory RaftHandlers
  imports Raft
begin

text \<open>
  \<open>internal/raft/raft.go\<close>, second half: the message handlers, the handler table, \<open>Handle\<close> and the
  clock.

  \<open>Handle\<close>, \<open>tick\<close> and the TimeoutNow handler are mutually recursive. A tick makes the node handle
  one of the local messages Election, CheckQuorum and LeaderHeartbeat, whose handlers do not tick,
  so the recursion is at most two calls of \<open>Handle\<close> deep. \<open>Handle_fuel n\<close> unrolls it \<open>n\<close> times;
  \<open>Handle\<close> is \<open>Handle_fuel 2\<close>, and more fuel gives the same result.
\<close>

section \<open>Message processing shared by the states\<close>

definition handleHeartbeatMessage :: "raft \<Rightarrow> message \<Rightarrow> raft option" where
  "handleHeartbeatMessage r m = do {
     l \<leftarrow> el_commitTo (r_log r) (m_Commit m);
     send (r\<lparr>r_log := l\<rparr>) (empty_message\<lparr>m_To := m_From m, m_Type := HeartbeatResp,
        m_Hint := m_Hint m, m_HintHigh := m_HintHigh m\<rparr>) }"

definition handleInstallSnapshotMessage :: "raft \<Rightarrow> message \<Rightarrow> raft option" where
  "handleInstallSnapshotMessage r m = do {
     let resp = empty_message\<lparr>m_To := m_From m, m_Type := ReplicateResp\<rparr>;
     (b, r) \<leftarrow> raft_restore r (m_Snapshot m);
     if b then send r (resp\<lparr>m_LogIndex := el_lastIndex (r_log r)\<rparr>)
     else send r (resp\<lparr>m_LogIndex := el_committed (r_log r)\<rparr>) }"

definition handleReplicateMessage :: "raft \<Rightarrow> message \<Rightarrow> raft option" where
  "handleReplicateMessage r m =
     (let resp = empty_message\<lparr>m_To := m_From m, m_Type := ReplicateResp\<rparr> in
      if m_LogIndex m < el_committed (r_log r) then
        send r (resp\<lparr>m_LogIndex := el_committed (r_log r)\<rparr>)
      else do {
        b \<leftarrow> el_matchTerm (r_log r) (m_LogIndex m) (m_LogTerm m);
        if b then do {
          (_, l) \<leftarrow> el_tryAppend (r_log r) (m_LogIndex m) (m_Entries m);
          let lastIdx = m_LogIndex m + of_nat (length (m_Entries m));
          l \<leftarrow> el_commitTo l (min lastIdx (m_Commit m));
          send (r\<lparr>r_log := l\<rparr>) (resp\<lparr>m_LogIndex := lastIdx\<rparr>) }
        else
          send r (resp\<lparr>m_Reject := True, m_LogIndex := m_LogIndex m,
                    m_Hint := el_lastIndex (r_log r)\<rparr>) })"

section \<open>Terms\<close>

definition dropRequestVoteFromHighTermNode :: "raft \<Rightarrow> message \<Rightarrow> bool" where
  "dropRequestVoteFromHighTermNode r m =
     (if m_Type m \<noteq> RequestVote \<or> \<not> r_checkQuorum r \<or> m_Term m \<le> r_term r then False
      else if m_Hint m = m_From m then False
      else if r_leaderID r \<noteq> NoLeader \<and> r_electionTick r < r_electionTimeout r then True
      else False)"

definition onMessageTermNotMatched :: "raft \<Rightarrow> message \<Rightarrow> (bool \<times> raft) option" where
  "onMessageTermNotMatched r m =
     (if m_Term m = 0 \<or> m_Term m = r_term r then Some (False, r)
      else if dropRequestVoteFromHighTermNode r m then Some (True, r)
      else if m_Term m > r_term r then do {
        let leaderID = (if isLeaderMessage (m_Type m) then m_From m else NoLeader);
        r \<leftarrow> (if isObserver r then becomeObserver r (m_Term m) leaderID
             else becomeFollower r (m_Term m) leaderID);
        Some (False, r) }
      else if m_Term m < r_term r then do {
        r \<leftarrow> (if isLeaderMessage (m_Type m) \<and> r_checkQuorum r
             then send r (empty_message\<lparr>m_To := m_From m, m_Type := NoOP\<rparr>)
             else Some r);
        Some (True, r) }
      else Some (False, r))"

definition doubleCheckTermMatched :: "raft \<Rightarrow> u64 \<Rightarrow> unit option" where
  "doubleCheckTermMatched r msgTerm =
     (if msgTerm \<noteq> 0 \<and> r_term r \<noteq> msgTerm then panic else Some ())"

section \<open>Handlers for any state\<close>

definition hasConfigChangeToApply :: "raft \<Rightarrow> bool" where
  "hasConfigChangeToApply r =
     (case r_hasNotAppliedConfigChange r of
        Some b \<Rightarrow> b
      | None \<Rightarrow> el_committed (r_log r) > getApplied r)"

definition canGrantVote :: "raft \<Rightarrow> message \<Rightarrow> bool" where
  "canGrantVote r m \<longleftrightarrow> r_vote r = NoNode \<or> r_vote r = m_From m \<or> m_Term m > r_term r"

definition handleNodeElection :: "raft \<Rightarrow> message \<Rightarrow> raft option" where
  "handleNodeElection r m =
     (if r_state r \<noteq> leader then
        if hasConfigChangeToApply r then Some r else campaign r
      else Some r)"

definition handleNodeRequestVote :: "raft \<Rightarrow> message \<Rightarrow> raft option" where
  "handleNodeRequestVote r m = do {
     let resp = empty_message\<lparr>m_To := m_From m, m_Type := RequestVoteResp\<rparr>;
     let canGrant = canGrantVote r m;
     isUpToDate \<leftarrow> el_upToDate (r_log r) (m_LogIndex m) (m_LogTerm m);
     if canGrant \<and> isUpToDate then
       send (r\<lparr>r_electionTick := 0, r_vote := m_From m\<rparr>) resp
     else send r (resp\<lparr>m_Reject := True\<rparr>) }"

section \<open>Handlers of the leader\<close>

definition handleLeaderLeaderHeartbeat :: "raft \<Rightarrow> message \<Rightarrow> raft option" where
  "handleLeaderLeaderHeartbeat r m = broadcastHeartbeatMessage r"

definition handleLeaderCheckQuorum :: "raft \<Rightarrow> message \<Rightarrow> raft option" where
  "handleLeaderCheckQuorum r m =
     (let (b, r) = leaderHasQuorum r in
      if \<not> b then becomeFollower r (r_term r) NoLeader else Some r)"

text \<open>The loop over the proposed entries: a config change is let through only when none is
  pending, otherwise it is replaced by an empty entry.\<close>

primrec filterProposals :: "raft \<Rightarrow> entry list \<Rightarrow> raft \<times> entry list" where
  "filterProposals r [] = (r, [])"
| "filterProposals r (e # es) =
     (if e_Type e = ConfigChangeEntry then
        let e' = (if hasPendingConfigChange r then empty_entry\<lparr>e_Type := ApplicationEntry\<rparr> else e);
            (r', es') = filterProposals (setPendingConfigChange r) es
        in (r', e' # es')
      else let (r', es') = filterProposals r es in (r', e # es'))"

definition handleLeaderPropose :: "raft \<Rightarrow> message \<Rightarrow> raft option" where
  "handleLeaderPropose r m =
     (if selfRemoved r then Some r
      else if leaderTransfering r then Some r
      else do {
        let (r, entries) = filterProposals r (m_Entries m);
        r \<leftarrow> appendEntries r entries;
        broadcastReplicateMessage r })"

definition hasCommittedEntryAtCurrentTerm :: "raft \<Rightarrow> bool option" where
  "hasCommittedEntryAtCurrentTerm r =
     (if r_term r = 0 then panic
      else do {
        t \<leftarrow> el_term (r_log r) (el_committed (r_log r));
        case t of
          Inr lastCommittedTerm \<Rightarrow> Some (lastCommittedTerm = r_term r)
        | Inl err \<Rightarrow> if err \<noteq> ErrCompacted then panic else Some (0 = r_term r) })"

definition clearReadyToRead :: "raft \<Rightarrow> raft" where
  "clearReadyToRead r = r\<lparr>r_readyToRead := []\<rparr>"

definition addReadyToRead :: "raft \<Rightarrow> u64 \<Rightarrow> system_ctx \<Rightarrow> raft" where
  "addReadyToRead r index ctx =
     r\<lparr>r_readyToRead := r_readyToRead r @ [\<lparr>rtr_Index = index, rtr_SystemCtx = ctx\<rparr>]\<rparr>"

text \<open>When the node has been removed the code only logs that the request is dropped and goes on.\<close>

definition handleLeaderReadIndex :: "raft \<Rightarrow> message \<Rightarrow> raft option" where
  "handleLeaderReadIndex r m =
     (let ctx = \<lparr>ctx_Low = m_Hint m, ctx_High = m_HintHigh m\<rparr> in
      if \<not> isSingleNodeQuorum r then do {
        b \<leftarrow> hasCommittedEntryAtCurrentTerm r;
        if \<not> b then Some r
        else do {
          ri \<leftarrow> ri_addRequest (r_readIndex r) (el_committed (r_log r)) ctx (m_From m);
          broadcastHeartbeatMessageWithHint (r\<lparr>r_readIndex := ri\<rparr>) ctx } }
      else
        let r = addReadyToRead r (el_committed (r_log r)) ctx in
        if m_From m \<noteq> r_nodeID r \<and> map_of (r_observers r) (m_From m) \<noteq> None then
          send r (empty_message\<lparr>m_To := m_From m, m_Type := ReadIndexResp,
            m_LogIndex := el_committed (r_log r), m_Hint := m_Hint m, m_HintHigh := m_HintHigh m,
            m_Commit := m_Commit m\<rparr>)
        else Some r)"

definition enterRetryState :: "remote \<Rightarrow> remote" where
  "enterRetryState rp = (if rm_state rp = remoteReplicate then rm_becomeRetry rp else rp)"

definition handleLeaderReplicateResp :: "raft \<Rightarrow> message \<Rightarrow> u64 \<Rightarrow> raft option" where
  "handleLeaderReplicateResp r m who = do {
     rp \<leftarrow> get_remote r who;
     let rp = rm_setActive rp;
     if \<not> m_Reject m then do {
       let paused = rm_isPaused rp;
       let (updated, rp) = rm_tryUpdate rp (m_LogIndex m);
       if updated then do {
         let r = put_remote r who (rm_respondedTo rp);
         (committed, r) \<leftarrow> raft_tryCommit r;
         r \<leftarrow> (if committed then broadcastReplicateMessage r
              else if paused then sendReplicateMessage r (m_From m)
              else Some r);
         rp \<leftarrow> get_remote r who;
         if leaderTransfering r \<and> m_From m = r_leaderTransferTarget r
            \<and> el_lastIndex (r_log r) = rm_match rp
         then sendTimeoutNowMessage r (r_leaderTransferTarget r)
         else Some r }
       else Some (put_remote r who rp) }
     else do {
       let (decreased, rp) = rm_decreaseTo rp (m_LogIndex m) (m_Hint m);
       if decreased then sendReplicateMessage (put_remote r who (enterRetryState rp)) (m_From m)
       else Some (put_remote r who rp) } }"

text \<open>The loop over the confirmed requests: local ones become ready to read, the others are
  answered.\<close>

definition releaseRead :: "message \<Rightarrow> readStatus \<Rightarrow> raft \<Rightarrow> raft option" where
  "releaseRead m s r =
     (if rs_from s = NoNode \<or> rs_from s = r_nodeID r then
        Some (addReadyToRead r (rs_index s) (rs_ctx s))
      else send r (empty_message\<lparr>m_To := rs_from s, m_Type := ReadIndexResp,
             m_LogIndex := rs_index s, m_Hint := m_Hint m, m_HintHigh := m_HintHigh m\<rparr>))"

definition handleReadIndexLeaderConfirmation :: "raft \<Rightarrow> message \<Rightarrow> raft option" where
  "handleReadIndexLeaderConfirmation r m = do {
     let ctx = \<lparr>ctx_Low = m_Hint m, ctx_High = m_HintHigh m\<rparr>;
     (ris, ri) \<leftarrow> ri_confirm (r_readIndex r) ctx (m_From m) (quorum r);
     go_fold (releaseRead m) ris (r\<lparr>r_readIndex := ri\<rparr>) }"

definition handleLeaderHeartbeatResp :: "raft \<Rightarrow> message \<Rightarrow> u64 \<Rightarrow> raft option" where
  "handleLeaderHeartbeatResp r m who = do {
     rp \<leftarrow> get_remote r who;
     let rp = rm_waitToRetry (rm_setActive rp);
     let r = put_remote r who rp;
     r \<leftarrow> (if rm_match rp < el_lastIndex (r_log r) then sendReplicateMessage r (m_From m)
          else Some r);
     if m_Hint m \<noteq> 0 then handleReadIndexLeaderConfirmation r m else Some r }"

definition handleLeaderLeaderTransfer :: "raft \<Rightarrow> message \<Rightarrow> u64 \<Rightarrow> raft option" where
  "handleLeaderLeaderTransfer r m who = do {
     rp \<leftarrow> get_remote r who;
     let target = m_Hint m;
     if target = NoNode then panic
     else if leaderTransfering r then Some r
     else if r_nodeID r = target then Some r
     else do {
       let r = r\<lparr>r_leaderTransferTarget := target, r_electionTick := 0\<rparr>;
       if rm_match rp = el_lastIndex (r_log r) then sendTimeoutNowMessage r target
       else Some r } }"

definition handleLeaderSnapshotStatus :: "raft \<Rightarrow> message \<Rightarrow> u64 \<Rightarrow> raft option" where
  "handleLeaderSnapshotStatus r m who = do {
     rp \<leftarrow> get_remote r who;
     if rm_state rp \<noteq> remoteSnapshot then Some r
     else
       let rp = (if m_Reject m then rm_clearPendingSnapshot rp else rp)
       in Some (put_remote r who (rm_becomeWait rp)) }"

definition handleLeaderUnreachable :: "raft \<Rightarrow> message \<Rightarrow> u64 \<Rightarrow> raft option" where
  "handleLeaderUnreachable r m who = do {
     rp \<leftarrow> get_remote r who;
     Some (put_remote r who (enterRetryState rp)) }"

section \<open>Handlers of followers and observers\<close>

definition handleFollowerPropose :: "raft \<Rightarrow> message \<Rightarrow> raft option" where
  "handleFollowerPropose r m =
     (if r_leaderID r = NoLeader then Some r
      else send r (m\<lparr>m_To := r_leaderID r, m_Entries := newEntrySlice (m_Entries m)\<rparr>))"

definition handleFollowerReplicate :: "raft \<Rightarrow> message \<Rightarrow> raft option" where
  "handleFollowerReplicate r m =
     handleReplicateMessage (setLeaderID (r\<lparr>r_electionTick := 0\<rparr>) (m_From m)) m"

definition handleFollowerHeartbeat :: "raft \<Rightarrow> message \<Rightarrow> raft option" where
  "handleFollowerHeartbeat r m =
     handleHeartbeatMessage (setLeaderID (r\<lparr>r_electionTick := 0\<rparr>) (m_From m)) m"

definition handleFollowerReadIndex :: "raft \<Rightarrow> message \<Rightarrow> raft option" where
  "handleFollowerReadIndex r m =
     (if r_leaderID r = NoLeader then Some r else send r (m\<lparr>m_To := r_leaderID r\<rparr>))"

definition handleFollowerLeaderTransfer :: "raft \<Rightarrow> message \<Rightarrow> raft option" where
  "handleFollowerLeaderTransfer r m =
     (if r_leaderID r = NoLeader then Some r else send r (m\<lparr>m_To := r_leaderID r\<rparr>))"

definition handleFollowerReadIndexResp :: "raft \<Rightarrow> message \<Rightarrow> raft option" where
  "handleFollowerReadIndexResp r m =
     (let ctx = \<lparr>ctx_Low = m_Hint m, ctx_High = m_HintHigh m\<rparr>;
          r = setLeaderID (r\<lparr>r_electionTick := 0\<rparr>) (m_From m)
      in Some (addReadyToRead r (m_LogIndex m) ctx))"

definition handleFollowerInstallSnapshot :: "raft \<Rightarrow> message \<Rightarrow> raft option" where
  "handleFollowerInstallSnapshot r m =
     handleInstallSnapshotMessage (setLeaderID (r\<lparr>r_electionTick := 0\<rparr>) (m_From m)) m"

definition handleObserverReplicate :: "raft \<Rightarrow> message \<Rightarrow> raft option" where
  "handleObserverReplicate r m = handleFollowerReplicate r m"

definition handleObserverHeartbeat :: "raft \<Rightarrow> message \<Rightarrow> raft option" where
  "handleObserverHeartbeat r m = handleFollowerHeartbeat r m"

definition handleObserverSnapshot :: "raft \<Rightarrow> message \<Rightarrow> raft option" where
  "handleObserverSnapshot r m = handleFollowerInstallSnapshot r m"

definition handleObserverPropose :: "raft \<Rightarrow> message \<Rightarrow> raft option" where
  "handleObserverPropose r m = handleFollowerPropose r m"

definition handleObserverReadIndex :: "raft \<Rightarrow> message \<Rightarrow> raft option" where
  "handleObserverReadIndex r m = handleFollowerReadIndex r m"

definition handleObserverReadIndexResp :: "raft \<Rightarrow> message \<Rightarrow> raft option" where
  "handleObserverReadIndexResp r m = handleFollowerReadIndexResp r m"

section \<open>Handlers of candidates\<close>

definition handleCandidatePropose :: "raft \<Rightarrow> message \<Rightarrow> raft option" where
  "handleCandidatePropose r m = Some r"

definition handleCandidateReplicate :: "raft \<Rightarrow> message \<Rightarrow> raft option" where
  "handleCandidateReplicate r m = do {
     r \<leftarrow> becomeFollower r (r_term r) (m_From m);
     handleReplicateMessage r m }"

definition handleCandidateInstallSnapshot :: "raft \<Rightarrow> message \<Rightarrow> raft option" where
  "handleCandidateInstallSnapshot r m = do {
     r \<leftarrow> becomeFollower r (r_term r) (m_From m);
     handleInstallSnapshotMessage r m }"

definition handleCandidateHeartbeat :: "raft \<Rightarrow> message \<Rightarrow> raft option" where
  "handleCandidateHeartbeat r m = do {
     r \<leftarrow> becomeFollower r (r_term r) (m_From m);
     handleHeartbeatMessage r m }"

definition handleCandidateRequestVoteResp :: "raft \<Rightarrow> message \<Rightarrow> raft option" where
  "handleCandidateRequestVoteResp r m =
     (if map_of (r_observers r) (m_From m) \<noteq> None then Some r
      else
        let (count, r) = handleVoteResp r (m_From m) (m_Reject m) in
        if count = quorum r then do { r \<leftarrow> becomeLeader r; broadcastReplicateMessage r }
        else if length (r_votes r) - count = quorum r then becomeFollower r (r_term r) NoLeader
        else Some r)"

section \<open>Clock\<close>

text \<open>\<open>h\<close> is \<open>Handle\<close>.\<close>

definition nonLeaderTick_with :: "(raft \<Rightarrow> message \<Rightarrow> raft option) \<Rightarrow> raft \<Rightarrow> raft option" where
  "nonLeaderTick_with h r =
     (if r_state r = leader then panic
      else
        let r = r\<lparr>r_electionTick := r_electionTick r + 1\<rparr> in
        if isObserver r then Some r
        else if \<not> selfRemoved r \<and> timeForElection r then
          h (r\<lparr>r_electionTick := 0\<rparr>) (empty_message\<lparr>m_From := r_nodeID r, m_Type := Election\<rparr>)
        else Some r)"

definition leaderTick_with :: "(raft \<Rightarrow> message \<Rightarrow> raft option) \<Rightarrow> raft \<Rightarrow> raft option" where
  "leaderTick_with h r =
     (if r_state r \<noteq> leader then panic
      else do {
        let r = r\<lparr>r_electionTick := r_electionTick r + 1\<rparr>;
        let abort = timeToAbortLeaderTransfer r;
        r \<leftarrow> (if timeForCheckQuorum r then
               let r = r\<lparr>r_electionTick := 0\<rparr> in
               if r_checkQuorum r
               then h r (empty_message\<lparr>m_From := r_nodeID r, m_Type := CheckQuorum\<rparr>) else Some r
             else Some r);
        let r = (if abort then abortLeaderTransfer r else r);
        let r = r\<lparr>r_heartbeatTick := r_heartbeatTick r + 1\<rparr>;
        if timeForHearbeat r then
          h (r\<lparr>r_heartbeatTick := 0\<rparr>)
            (empty_message\<lparr>m_From := r_nodeID r, m_Type := LeaderHeartbeat\<rparr>)
        else Some r })"

definition tick_with :: "(raft \<Rightarrow> message \<Rightarrow> raft option) \<Rightarrow> raft \<Rightarrow> raft option" where
  "tick_with h r =
     (let r = r\<lparr>r_tickCount := r_tickCount r + 1\<rparr> in
      if r_state r = leader then leaderTick_with h r else nonLeaderTick_with h r)"

definition handleFollowerTimeoutNow_with ::
    "(raft \<Rightarrow> message \<Rightarrow> raft option) \<Rightarrow> raft \<Rightarrow> message \<Rightarrow> raft option" where
  "handleFollowerTimeoutNow_with h r m = do {
     r \<leftarrow> tick_with h (r\<lparr>r_electionTick := r_randomizedElectionTimeout r,
                       r_isLeaderTransferTarget := True\<rparr>);
     Some (if r_isLeaderTransferTarget r then r\<lparr>r_isLeaderTransferTarget := False\<rparr> else r) }"

section \<open>The handler table\<close>

definition lw :: "(raft \<Rightarrow> message \<Rightarrow> u64 \<Rightarrow> raft option) \<Rightarrow> raft \<Rightarrow> message \<Rightarrow> raft option" where
  "lw f r nm =
     (if map_of (r_remotes r) (m_From nm) \<noteq> None then f r nm (m_From nm)
      else if map_of (r_observers r) (m_From nm) \<noteq> None then f r nm (m_From nm)
      else Some r)"

type_synonym handler = "raft \<Rightarrow> message \<Rightarrow> raft option"

definition candidateHandlers :: "message_type \<Rightarrow> handler option" where
  "candidateHandlers t =
     (case t of
        Heartbeat \<Rightarrow> Some handleCandidateHeartbeat
      | Propose \<Rightarrow> Some handleCandidatePropose
      | Replicate \<Rightarrow> Some handleCandidateReplicate
      | InstallSnapshot \<Rightarrow> Some handleCandidateInstallSnapshot
      | RequestVoteResp \<Rightarrow> Some handleCandidateRequestVoteResp
      | Election \<Rightarrow> Some handleNodeElection
      | RequestVote \<Rightarrow> Some handleNodeRequestVote
      | _ \<Rightarrow> None)"

definition followerHandlers :: "handler \<Rightarrow> message_type \<Rightarrow> handler option" where
  "followerHandlers h t =
     (case t of
        Propose \<Rightarrow> Some handleFollowerPropose
      | Replicate \<Rightarrow> Some handleFollowerReplicate
      | Heartbeat \<Rightarrow> Some handleFollowerHeartbeat
      | ReadIndex \<Rightarrow> Some handleFollowerReadIndex
      | LeaderTransfer \<Rightarrow> Some handleFollowerLeaderTransfer
      | ReadIndexResp \<Rightarrow> Some handleFollowerReadIndexResp
      | InstallSnapshot \<Rightarrow> Some handleFollowerInstallSnapshot
      | Election \<Rightarrow> Some handleNodeElection
      | RequestVote \<Rightarrow> Some handleNodeRequestVote
      | TimeoutNow \<Rightarrow> Some (handleFollowerTimeoutNow_with h)
      | _ \<Rightarrow> None)"

definition leaderHandlers :: "message_type \<Rightarrow> handler option" where
  "leaderHandlers t =
     (case t of
        LeaderHeartbeat \<Rightarrow> Some handleLeaderLeaderHeartbeat
      | CheckQuorum \<Rightarrow> Some handleLeaderCheckQuorum
      | Propose \<Rightarrow> Some handleLeaderPropose
      | ReadIndex \<Rightarrow> Some handleLeaderReadIndex
      | ReplicateResp \<Rightarrow> Some (lw handleLeaderReplicateResp)
      | HeartbeatResp \<Rightarrow> Some (lw handleLeaderHeartbeatResp)
      | SnapshotStatus \<Rightarrow> Some (lw handleLeaderSnapshotStatus)
      | Unreachable \<Rightarrow> Some (lw handleLeaderUnreachable)
      | LeaderTransfer \<Rightarrow> Some (lw handleLeaderLeaderTransfer)
      | Election \<Rightarrow> Some handleNodeElection
      | RequestVote \<Rightarrow> Some handleNodeRequestVote
      | _ \<Rightarrow> None)"

definition observerHandlers :: "message_type \<Rightarrow> handler option" where
  "observerHandlers t =
     (case t of
        Heartbeat \<Rightarrow> Some handleObserverHeartbeat
      | Replicate \<Rightarrow> Some handleObserverReplicate
      | InstallSnapshot \<Rightarrow> Some handleObserverSnapshot
      | Propose \<Rightarrow> Some handleObserverPropose
      | ReadIndex \<Rightarrow> Some handleObserverReadIndex
      | ReadIndexResp \<Rightarrow> Some handleObserverReadIndexResp
      | _ \<Rightarrow> None)"

definition handlers :: "handler \<Rightarrow> node_state \<Rightarrow> message_type \<Rightarrow> handler option" where
  "handlers h st t =
     (case st of
        candidate \<Rightarrow> candidateHandlers t
      | follower \<Rightarrow> followerHandlers h t
      | leader \<Rightarrow> leaderHandlers t
      | observer \<Rightarrow> observerHandlers t)"

definition checkHandlerMap_checks :: "(node_state \<times> message_type) list" where
  "checkHandlerMap_checks =
     [(leader, Heartbeat), (leader, Replicate), (leader, InstallSnapshot), (leader, ReadIndexResp),
      (follower, ReplicateResp), (follower, HeartbeatResp), (follower, SnapshotStatus),
      (follower, Unreachable), (candidate, ReplicateResp), (candidate, HeartbeatResp),
      (candidate, SnapshotStatus), (candidate, Unreachable), (observer, Election),
      (observer, RequestVote), (observer, RequestVoteResp), (observer, ReplicateResp),
      (observer, HeartbeatResp)]"

definition checkHandlerMap :: "handler \<Rightarrow> unit option" where
  "checkHandlerMap h =
     (if (\<exists>(st, t) \<in> set checkHandlerMap_checks. handlers h st t \<noteq> None) then panic else Some ())"

definition defaultHandle :: "handler \<Rightarrow> raft \<Rightarrow> message \<Rightarrow> raft option" where
  "defaultHandle h r m =
     (case handlers h (r_state r) (m_Type m) of Some f \<Rightarrow> f r m | None \<Rightarrow> Some r)"

primrec Handle_fuel :: "nat \<Rightarrow> raft \<Rightarrow> message \<Rightarrow> raft option" where
  "Handle_fuel 0 r m = None"
| "Handle_fuel (Suc n) r m = do {
     (ignore, r) \<leftarrow> onMessageTermNotMatched r m;
     if \<not> ignore then do {
       doubleCheckTermMatched r (m_Term m);
       defaultHandle (Handle_fuel n) r m }
     else Some r }"

definition Handle :: "raft \<Rightarrow> message \<Rightarrow> raft option" where
  "Handle = Handle_fuel 2"

definition tick :: "raft \<Rightarrow> raft option" where
  "tick = tick_with Handle"

section \<open>Starting a node\<close>

text \<open>The struct literal of \<open>newRaft\<close> with the remotes and observers filled in.\<close>

definition initRaft :: "config \<Rightarrow> ilogdb \<Rightarrow> (nat \<Rightarrow> u64) \<Rightarrow> raft" where
  "initRaft c logdb rng =
     (let members = snd (db_NodeState logdb) in
      \<lparr>r_applied = 0, r_nodeID = cfg_NodeID c, r_clusterID = cfg_ClusterID c,
       r_term = 0, r_vote = 0, r_log = newEntryLog logdb,
       r_remotes = map (\<lambda>(p, _). (p, empty_remote\<lparr>rm_next := 1\<rparr>)) (mb_Addresses members),
       r_observers = map (\<lambda>(p, _). (p, empty_remote\<lparr>rm_next := 1\<rparr>)) (mb_Observers members),
       r_state = follower, r_votes = [], r_msgs = [], r_leaderID = NoLeader,
       r_leaderTransferTarget = 0, r_isLeaderTransferTarget = False,
       r_pendingConfigChange = False, r_readIndex = newReadIndex, r_readyToRead = [],
       r_checkQuorum = cfg_CheckQuorum c, r_tickCount = 0, r_electionTick = 0,
       r_heartbeatTick = 0, r_heartbeatTimeout = cfg_HeartbeatRTT c,
       r_electionTimeout = cfg_ElectionRTT c, r_randomizedElectionTimeout = 0,
       r_matched = [], r_hasNotAppliedConfigChange = None, r_recordLeader = None,
       r_rng = rng, r_rngpos = 0\<rparr>)"

definition newRaft :: "config \<Rightarrow> ilogdb \<Rightarrow> (nat \<Rightarrow> u64) \<Rightarrow> raft option" where
  "newRaft c logdb rng =
     (if Config_Validate c \<noteq> None then panic
      else do {
        let st = fst (db_NodeState logdb);
        let r = resetMatchValueArray (initRaft c logdb rng);
        r \<leftarrow> (if \<not> IsEmptyState st then loadState r st else Some r);
        r \<leftarrow> (if cfg_IsObserver c then becomeObserver (r\<lparr>r_state := observer\<rparr>) (r_term r) NoLeader
             else becomeFollower r (r_term r) NoLeader);
        checkHandlerMap Handle;
        Some r })"

end
