(* ===== verification/RaftProps.thy ===== *)
theory RaftProps
  imports RaftHandlers
begin

text \<open>
  What the building blocks of the handlers leave alone. \<open>quiet r r'\<close>: the step from \<open>r\<close> to \<open>r'\<close> only
  queued messages and moved flow-control state; terms, votes, the log, the membership and the
  match indexes are the same. All sending operations are quiet.
\<close>

section \<open>Quiet steps\<close>

definition plain_msg :: "raft \<Rightarrow> message \<Rightarrow> bool" where
  "plain_msg r m \<longleftrightarrow> m_From m = r_nodeID r \<and> m_Type m \<noteq> RequestVoteResp \<and> m_Type m \<noteq> RequestVote
     \<and> (m_Term m = r_term r \<or> isRequestMessage (m_Type m) \<and> m_Term m = 0)"

definition same_progress :: "(u64, remote) gomap \<Rightarrow> (u64, remote) gomap \<Rightarrow> bool" where
  "same_progress m m' \<longleftrightarrow> map fst m' = map fst m \<and> map (rm_match \<circ> snd) m' = map (rm_match \<circ> snd) m"

definition quiet :: "raft \<Rightarrow> raft \<Rightarrow> bool" where
  "quiet r r' \<longleftrightarrow>
     (\<exists>ms rs os. r' = r\<lparr>r_msgs := r_msgs r @ ms, r_remotes := rs, r_observers := os\<rparr>
        \<and> same_progress (r_remotes r) rs \<and> same_progress (r_observers r) os
        \<and> (\<forall>m \<in> set ms. plain_msg r m))"

lemma same_progress_refl [simp]: "same_progress m m"
  by (simp add: same_progress_def)

lemma same_progress_trans: "same_progress a b \<Longrightarrow> same_progress b c \<Longrightarrow> same_progress a c"
  by (simp add: same_progress_def)

lemma same_progress_update:
  assumes "map_of m k = Some rp" and "rm_match rp' = rm_match rp"
  shows "same_progress m (AList.update k rp' m)"
proof -
  have "map fst (AList.update k rp' m) = map fst m"
    using assms(1) by (intro gomap_keys_update_same) (auto simp: gomap_keys_map_of)
  moreover have "map (rm_match \<circ> snd) (AList.update k rp' m) = map (rm_match \<circ> snd) m"
    using assms by (induction m) (auto split: if_splits)
  ultimately show ?thesis by (simp add: same_progress_def)
qed

lemma same_progress_length: "same_progress m m' \<Longrightarrow> length m' = length m"
  by (metis length_map same_progress_def)

lemma same_progress_keys: "same_progress m m' \<Longrightarrow> gomap_keys m' = gomap_keys m"
  by (metis list.set_map same_progress_def)

lemma quiet_refl [simp, intro!]: "quiet r r"
  unfolding quiet_def
  by (intro exI [of _ "[]"] exI [of _ "r_remotes r"] exI [of _ "r_observers r"]) simp

lemma quiet_trans [trans]:
  assumes "quiet a b" and "quiet b c"
  shows "quiet a c"
proof -
  from assms(1) obtain ms rs os where b: "b = a\<lparr>r_msgs := r_msgs a @ ms, r_remotes := rs, r_observers := os\<rparr>"
    "same_progress (r_remotes a) rs" "same_progress (r_observers a) os" "\<forall>m \<in> set ms. plain_msg a m"
    by (auto simp: quiet_def)
  from assms(2) obtain ms' rs' os' where c: "c = b\<lparr>r_msgs := r_msgs b @ ms', r_remotes := rs', r_observers := os'\<rparr>"
    "same_progress (r_remotes b) rs'" "same_progress (r_observers b) os'" "\<forall>m \<in> set ms'. plain_msg b m"
    by (auto simp: quiet_def)
  have "c = a\<lparr>r_msgs := r_msgs a @ (ms @ ms'), r_remotes := rs', r_observers := os'\<rparr>"
    using b(1) c(1) by simp
  moreover have "\<forall>m \<in> set (ms @ ms'). plain_msg a m" using b c by (auto simp: plain_msg_def)
  moreover have "same_progress (r_remotes a) rs'" "same_progress (r_observers a) os'"
    using b c by (auto intro: same_progress_trans)
  ultimately show ?thesis unfolding quiet_def by blast
qed

lemma quietD:
  assumes "quiet r r'"
  shows "r_term r' = r_term r" "r_vote r' = r_vote r" "r_log r' = r_log r" "r_state r' = r_state r"
    "r_nodeID r' = r_nodeID r" "r_clusterID r' = r_clusterID r" "r_votes r' = r_votes r"
    "r_leaderID r' = r_leaderID r" "r_applied r' = r_applied r"
    "r_electionTimeout r' = r_electionTimeout r" "r_matched r' = r_matched r"
    "same_progress (r_remotes r) (r_remotes r')" "same_progress (r_observers r) (r_observers r')"
    "r_readIndex r' = r_readIndex r" "r_readyToRead r' = r_readyToRead r"
    "r_pendingConfigChange r' = r_pendingConfigChange r"
    "r_leaderTransferTarget r' = r_leaderTransferTarget r"
    "\<exists>ms. r_msgs r' = r_msgs r @ ms \<and> (\<forall>m \<in> set ms. plain_msg r m)"
  using assms by (auto simp: quiet_def)

lemma quiet_keys:
  assumes "quiet r r'"
  shows "map fst (r_remotes r') = map fst (r_remotes r)"
    "map fst (r_observers r') = map fst (r_observers r)" "quorum r' = quorum r"
  using quietD(12,13) [OF assms] same_progress_length [OF quietD(12) [OF assms]]
  by (simp_all add: same_progress_def quorum_def)

section \<open>Sending is quiet\<close>

lemma send_quiet:
  assumes "send r m = Some r'" and "m_Type m \<noteq> RequestVoteResp" and "m_Type m \<noteq> RequestVote"
  shows "quiet r r'"
proof -
  obtain m' where "r' = r\<lparr>r_msgs := r_msgs r @ [m']\<rparr>" "plain_msg r m'"
    using assms by (auto simp: send_def finalizeMessageTerm_def plain_msg_def word_gt_0
        elim!: bind_SomeE split: if_splits)
  then show ?thesis unfolding quiet_def
    by (intro exI [of _ "[m']"] exI [of _ "r_remotes r"] exI [of _ "r_observers r"]) simp
qed

lemma put_remote_quiet:
  assumes "get_remote r to = Some rp" and "rm_match rp' = rm_match rp"
  shows "quiet r (put_remote r to rp')"
proof (cases "map_of (r_remotes r) to")
  case None
  with assms have "same_progress (r_observers r) (AList.update to rp' (r_observers r))"
    by (intro same_progress_update) (auto simp: get_remote_def)
  with None show ?thesis unfolding quiet_def
    by (intro exI [of _ "[]"] exI [of _ "r_remotes r"] exI [of _ "AList.update to rp' (r_observers r)"])
       (simp add: put_remote_def)
next
  case (Some rp0)
  with assms have "same_progress (r_remotes r) (AList.update to rp' (r_remotes r))"
    by (intro same_progress_update) (auto simp: get_remote_def)
  with Some show ?thesis unfolding quiet_def
    by (intro exI [of _ "[]"] exI [of _ "AList.update to rp' (r_remotes r)"] exI [of _ "r_observers r"])
       (simp add: put_remote_def)
qed

lemma makeReplicateMessage_type:
  "makeReplicateMessage r to nxt sz = Some (Inr m) \<Longrightarrow> m_Type m = Replicate \<and> m_To m = to"
  by (auto simp: makeReplicateMessage_def elim!: bind_SomeE split: sum.split_asm if_splits)

lemma sendReplicateMessage_quiet:
  assumes "sendReplicateMessage r to = Some r'"
  shows "quiet r r'"
proof -
  from assms obtain rp where rp: "get_remote r to = Some rp"
    by (auto simp: sendReplicateMessage_def bind_eq_Some_conv)
  show ?thesis
  proof (cases "rm_isPaused rp")
    case True
    with assms rp show ?thesis by (simp add: sendReplicateMessage_def)
  next
    case False
    with assms rp obtain res where res: "makeReplicateMessage r to (rm_next rp) MaxEntrySize = Some res"
      by (auto simp: sendReplicateMessage_def bind_eq_Some_conv)
    show ?thesis
    proof (cases res)
      case (Inl err)
      show ?thesis
      proof (cases "rm_isActive rp")
        case True
        with assms rp False res Inl obtain index m where
          "makeInstallSnapshotMessage r to empty_message = Some (index, m)"
          "send (put_remote r to (rm_becomeSnapshot rp index)) m = Some r'"
          by (auto simp: sendReplicateMessage_def bind_eq_Some_conv)
        moreover from this(1) have "m_Type m = InstallSnapshot"
          by (auto simp: makeInstallSnapshotMessage_def Let_def split: if_splits)
        ultimately have "quiet (put_remote r to (rm_becomeSnapshot rp index)) r'"
          by (auto intro: send_quiet)
        then show ?thesis using put_remote_quiet [OF rp] quiet_trans by (metis rm_match_kept(7))
      next
        case False
        with assms rp \<open>\<not> rm_isPaused rp\<close> res Inl show ?thesis by (simp add: sendReplicateMessage_def)
      qed
    next
      case (Inr m)
      then have ty: "m_Type m = Replicate" using res makeReplicateMessage_type by blast
      show ?thesis
      proof (cases "length (m_Entries m) > 0")
        case True
        with assms rp False res Inr obtain rp' where
          "rm_progress rp (e_Index (m_Entries m ! (length (m_Entries m) - 1))) = Some rp'"
          "send (put_remote r to rp') m = Some r'"
          by (auto simp: sendReplicateMessage_def bind_eq_Some_conv)
        then have "quiet r (put_remote r to rp')" "quiet (put_remote r to rp') r'"
          using put_remote_quiet [OF rp] rm_progress_match send_quiet ty by fastforce+
        then show ?thesis by (rule quiet_trans)
      next
        case f: False
        with assms rp False res Inr have "send r m = Some r'"
          by (simp add: sendReplicateMessage_def)
        with ty show ?thesis by (auto intro: send_quiet)
      qed
    qed
  qed
qed

lemma go_fold_quiet:
  assumes "go_fold f xs r = Some r'" and "\<And>x a b. f x a = Some b \<Longrightarrow> quiet a b"
  shows "quiet r r'"
  using assms(1)
  by (rule go_fold_invariant [where P = "quiet r"]) (auto intro: quiet_trans assms(2))

lemma broadcastReplicateMessage_quiet:
  assumes "broadcastReplicateMessage r = Some r'"
  shows "quiet r r'"
proof -
  from assms obtain r1 where
    "go_fold (\<lambda>nid r. if nid \<noteq> r_nodeID r then sendReplicateMessage r nid else Some r)
       (map fst (r_remotes r)) r = Some r1"
    "go_fold (\<lambda>nid r. if nid = r_nodeID r then panic else sendReplicateMessage r nid)
       (map fst (r_observers r1)) r1 = Some r'"
    by (auto simp: broadcastReplicateMessage_def bind_eq_Some_conv)
  then have "quiet r r1" "quiet r1 r'"
    by (auto elim!: go_fold_quiet split: if_splits intro: sendReplicateMessage_quiet)
  then show ?thesis by (rule quiet_trans)
qed

lemma sendHeartbeatMessage_quiet: "sendHeartbeatMessage r to hint b = Some r' \<Longrightarrow> quiet r r'"
  by (auto simp: sendHeartbeatMessage_def bind_eq_Some_conv Let_def intro: send_quiet)

lemma broadcastHeartbeatMessageWithHint_quiet:
  assumes "broadcastHeartbeatMessageWithHint r ctx = Some r'"
  shows "quiet r r'"
proof -
  from assms obtain r1 where
    "go_fold (\<lambda>id r. if id \<noteq> r_nodeID r then sendHeartbeatMessage r id ctx False else Some r)
       (map fst (r_remotes r)) r = Some r1"
    "r1 = r' \<or> go_fold (\<lambda>id r. sendHeartbeatMessage r id zero_ctx True)
       (map fst (r_observers r1)) r1 = Some r'"
    by (auto simp: broadcastHeartbeatMessageWithHint_def bind_eq_Some_conv split: if_splits)
  then have "quiet r r1" "quiet r1 r'"
    by (auto elim!: go_fold_quiet split: if_splits intro: sendHeartbeatMessage_quiet)
  then show ?thesis by (rule quiet_trans)
qed

lemma broadcastHeartbeatMessage_quiet: "broadcastHeartbeatMessage r = Some r' \<Longrightarrow> quiet r r'"
  by (auto simp: broadcastHeartbeatMessage_def bind_eq_Some_conv split: if_splits
      intro: broadcastHeartbeatMessageWithHint_quiet)

lemma sendTimeoutNowMessage_quiet: "sendTimeoutNowMessage r t = Some r' \<Longrightarrow> quiet r r'"
  by (auto simp: sendTimeoutNowMessage_def intro: send_quiet)

end
