(* ===== verification/RaftCommit.thy ===== *)
theory RaftCommit
  imports RaftProps
begin

text \<open>
  How a leader advances its commit index (\<open>sortMatchValues\<close>, \<open>tryCommit\<close> of \<open>raft.go\<close>): the value at
  the quorum position of the sorted match indexes is the largest index a quorum of the remotes
  has reached.
\<close>

section \<open>Sorting the match values\<close>

text \<open>The unrolled bubble sort is a sort.\<close>

lemma sort3_sort:
  assumes "length ms = 3"
  shows "sort3 ms = sort ms"
proof -
  from assms obtain a b c where "ms = [a, b, c]"
    by (metis (no_types, opaque_lifting) length_0_conv length_Suc_conv numeral_3_eq_3)
  then show ?thesis
    by (cases "a \<le> b"; cases "b \<le> c"; cases "a \<le> c"; fastforce simp: sort3_def Let_def not_le)
qed

lemma sortMatchValues_sort: "sortMatchValues r = r\<lparr>r_matched := sort (r_matched r)\<rparr>"
  by (simp add: sortMatchValues_def sort3_sort)

lemma fillMatched_append:
  "length ms = length vs \<Longrightarrow>
   fillMatched (length pre) vs (pre @ ms) = pre @ map (rm_match \<circ> snd) vs"
proof (induction vs arbitrary: pre ms)
  case (Cons v vs)
  then obtain m ms' where "ms = m # ms'" "length ms' = length vs" by (cases ms) auto
  then show ?case using Cons.IH [of ms' "pre @ [rm_match (snd v)]"] by simp
qed simp

lemma fillMatched_map: "length ms = length vs \<Longrightarrow> fillMatched 0 vs ms = map (rm_match \<circ> snd) vs"
  using fillMatched_append [of ms vs "[]"] by simp

section \<open>The quorum position\<close>

definition reached :: "(u64, remote) gomap \<Rightarrow> u64 \<Rightarrow> nat" where
  "reached rs i = length (filter (\<lambda>m. i \<le> m) (map (rm_match \<circ> snd) rs))"

definition quorumMatch :: "raft \<Rightarrow> u64" where
  "quorumMatch r = sort (map (rm_match \<circ> snd) (r_remotes r)) ! (length (r_remotes r) - quorum r)"

lemma sorted_position_reached:
  fixes xs :: "u64 list"
  assumes "k \<le> length xs" and "0 < k"
  shows "k \<le> length (filter (\<lambda>m. sort xs ! (length xs - k) \<le> m) xs)"
proof -
  let ?P = "\<lambda>m. sort xs ! (length xs - k) \<le> m" and ?n = "length xs - k"
  have "?P (sort xs ! (?n + j))" if "j < k" for j
    using that assms by (intro sorted_nth_mono) auto
  then have "\<forall>x \<in> set (drop ?n (sort xs)). ?P x"
    using assms by (auto simp: in_set_conv_nth)
  then have "filter ?P (drop ?n (sort xs)) = drop ?n (sort xs)" by (simp add: filter_id_conv)
  then have "k \<le> length (filter ?P (sort xs))"
    using assms append_take_drop_id [of ?n "sort xs"]
      filter_append [of ?P "take ?n (sort xs)" "drop ?n (sort xs)"] by simp
  then show ?thesis by (simp add: filter_sort)
qed

lemma sorted_position_maximal:
  fixes xs :: "u64 list"
  assumes "k \<le> length xs" and "0 < k" and "k \<le> length (filter (\<lambda>m. i \<le> m) xs)"
  shows "i \<le> sort xs ! (length xs - k)"
proof (rule ccontr)
  let ?n = "length xs - k"
  assume "\<not> i \<le> sort xs ! ?n"
  moreover have "sort xs ! j \<le> sort xs ! ?n" if "j \<le> ?n" for j
    using that assms by (intro sorted_nth_mono) auto
  ultimately have "\<not> i \<le> sort xs ! j" if "j \<le> ?n" for j using that order_trans by blast
  then have "\<forall>x \<in> set (take (Suc ?n) (sort xs)). \<not> i \<le> x"
    by (auto simp: in_set_conv_nth less_Suc_eq_le)
  then have "filter (\<lambda>m. i \<le> m) (take (Suc ?n) (sort xs)) = []" by (simp add: filter_empty_conv)
  then have "filter (\<lambda>m. i \<le> m) (sort xs) = filter (\<lambda>m. i \<le> m) (drop (Suc ?n) (sort xs))"
    by (metis append_Nil append_take_drop_id filter_append)
  then have "length (filter (\<lambda>m. i \<le> m) (sort xs)) \<le> length (drop (Suc ?n) (sort xs))"
    by (metis length_filter_le)
  with assms show False by (simp add: filter_sort)
qed

lemma quorum_bounds:
  assumes "r_remotes r \<noteq> []"
  shows "quorum r \<le> length (r_remotes r)" and "0 < quorum r"
  using assms by (cases "r_remotes r", simp_all add: quorum_def)

text \<open>A quorum of the remotes has reached the quorum position, and no larger index.\<close>

lemma quorumMatch_reached:
  assumes "r_remotes r \<noteq> []"
  shows "quorum r \<le> reached (r_remotes r) i \<longleftrightarrow> i \<le> quorumMatch r"
proof
  let ?ms = "map (rm_match \<circ> snd) (r_remotes r)"
  have k: "quorum r \<le> length ?ms" "0 < quorum r" using quorum_bounds [OF assms] by simp_all
  show "quorum r \<le> reached (r_remotes r) i \<Longrightarrow> i \<le> quorumMatch r"
    using sorted_position_maximal [OF k] by (simp add: reached_def quorumMatch_def)
  have "quorum r \<le> reached (r_remotes r) (quorumMatch r)"
    using sorted_position_reached [OF k] by (simp add: reached_def quorumMatch_def)
  moreover assume "i \<le> quorumMatch r"
  then have "reached (r_remotes r) (quorumMatch r) \<le> reached (r_remotes r) i"
    unfolding reached_def by (intro length_filter_mono) (auto intro: order_trans)
  ultimately show "quorum r \<le> reached (r_remotes r) i" by linarith
qed

section \<open>Committing\<close>

lemma raft_tryCommit_eq:
  assumes "r_remotes r \<noteq> []"
  shows "raft_tryCommit r =
    do { (b, l) \<leftarrow> el_tryCommit (r_log r) (quorumMatch r) (r_term r);
         Some (b, r\<lparr>r_matched := sort (map (rm_match \<circ> snd) (r_remotes r)), r_log := l\<rparr>) }"
proof -
  let ?n = "length (r_remotes r)"
  have "?n - quorum r < ?n" using quorum_bounds [OF assms] by linarith
  then show ?thesis
    by (simp add: raft_tryCommit_def sortMatchValues_sort fillMatched_map resetMatchValueArray_def
        quorumMatch_def quorum_def)
qed

lemma raft_tryCommit_none: "r_remotes r = [] \<Longrightarrow> raft_tryCommit r = panic"
  by (simp add: raft_tryCommit_def sortMatchValues_sort resetMatchValueArray_def)

text \<open>The commit rule of Raft: the leader moves its commit index forward exactly when the quorum
  position is beyond it and the entry there carries the leader's current term.\<close>

lemma raft_tryCommit_spec:
  assumes "el_inv c (r_log r)" and "r_term r \<noteq> 0" and "r_remotes r \<noteq> []"
  shows "raft_tryCommit r =
    Some (if el_committed (r_log r) < quorumMatch r
             \<and> el_tm c (r_log r) (unat (quorumMatch r)) = r_term r
          then (True, r\<lparr>r_matched := sort (map (rm_match \<circ> snd) (r_remotes r)),
                        r_log := (r_log r)\<lparr>el_committed := quorumMatch r\<rparr>\<rparr>)
          else (False, r\<lparr>r_matched := sort (map (rm_match \<circ> snd) (r_remotes r))\<rparr>))"
  by (simp add: raft_tryCommit_eq [OF assms(3)] el_tryCommit_spec [OF assms(1,2)])

lemma raft_tryCommit_frame:
  assumes "raft_tryCommit r = Some (b, r')"
  obtains ms l where "r' = r\<lparr>r_matched := ms, r_log := l\<rparr>"
    and "el_tryCommit (r_log r) (quorumMatch r) (r_term r) = Some (b, l)"
proof -
  from assms have "r_remotes r \<noteq> []" by (auto simp: raft_tryCommit_none)
  with assms that show thesis by (auto simp: raft_tryCommit_eq bind_eq_Some_conv)
qed

end
