(* ===== verification/RaftVotes.thy ===== *)
theory RaftVotes
  imports RaftCommit
begin

text \<open>
  What one message does to the term, the vote and the election state of a node. Every handler
  has one of four effects: it is calm (term and vote are kept and no vote is granted), it grants
  a vote, it counts a vote, or it starts a campaign.
\<close>

section \<open>Enough fuel for Handle\<close>

lemma handlers_no_fuel:
  "t \<noteq> TimeoutNow \<Longrightarrow> handlers h st t = handlers h' st t"
  by (cases st) (auto simp: handlers_def followerHandlers_def split: message_type.splits)

lemma Handle_fuel_local:
  "m_Term m = 0 \<Longrightarrow> Handle_fuel (Suc n) r m = defaultHandle (Handle_fuel n) r m"
  by (simp add: onMessageTermNotMatched_def doubleCheckTermMatched_def)

lemma Handle_fuel_no_timeout:
  assumes "m_Type m \<noteq> TimeoutNow"
  shows "Handle_fuel (Suc n) r m = Handle_fuel (Suc k) r m"
proof -
  have "handlers (Handle_fuel n) st (m_Type m) = handlers (Handle_fuel k) st (m_Type m)" for st
    using assms by (rule handlers_no_fuel)
  then have "defaultHandle (Handle_fuel n) r' m = defaultHandle (Handle_fuel k) r' m" for r'
    by (simp add: defaultHandle_def)
  then show ?thesis by (simp cong: if_cong)
qed

lemma tick_with_fuel: "tick_with (Handle_fuel (Suc n)) = tick_with (Handle_fuel (Suc k))"
proof -
  have "Handle_fuel (Suc n) r (empty_message\<lparr>m_From := i, m_Type := t\<rparr>)
      = Handle_fuel (Suc k) r (empty_message\<lparr>m_From := i, m_Type := t\<rparr>)"
    if "t \<in> {Election, CheckQuorum, LeaderHeartbeat}" for r i t
    using that by (intro Handle_fuel_no_timeout) auto
  then show ?thesis
    by (simp add: tick_with_def leaderTick_with_def nonLeaderTick_with_def fun_eq_iff Let_def
        cong: if_cong)
qed

lemma Handle_fuel_enough: "Handle_fuel (Suc (Suc n)) = Handle"
proof -
  have "handlers (Handle_fuel (Suc n)) st t = handlers (Handle_fuel (Suc 0)) st t" for st t
    using tick_with_fuel [of n 0]
    by (cases st) (auto simp: handlers_def followerHandlers_def handleFollowerTimeoutNow_with_def
        fun_eq_iff split: message_type.splits)
  then have "defaultHandle (Handle_fuel (Suc n)) r m = defaultHandle (Handle_fuel (Suc 0)) r m" for r m
    by (simp add: defaultHandle_def)
  then show ?thesis by (simp add: Handle_def fun_eq_iff numeral_2_eq_2 cong: if_cong)
qed

text \<open>The recursive equation of the Go function.\<close>

lemma Handle_unfold:
  "Handle r m = do {
     (ignore, r) \<leftarrow> onMessageTermNotMatched r m;
     if \<not> ignore then do { doubleCheckTermMatched r (m_Term m); defaultHandle Handle r m }
     else Some r }"
  using Handle_fuel.simps(2) [of "Suc (Suc 0)" r m] unfolding Handle_fuel_enough .

lemma checkHandlerMap_passes: "checkHandlerMap h = Some ()"
  by (simp add: checkHandlerMap_def checkHandlerMap_checks_def handlers_def followerHandlers_def
      leaderHandlers_def candidateHandlers_def observerHandlers_def)

section \<open>Frames of the state transitions\<close>

text \<open>Identity and membership of a node.\<close>

definition same_node :: "raft \<Rightarrow> raft \<Rightarrow> bool" where
  "same_node r r' \<longleftrightarrow> r_nodeID r' = r_nodeID r \<and> r_clusterID r' = r_clusterID r
     \<and> map fst (r_remotes r') = map fst (r_remotes r)
     \<and> map fst (r_observers r') = map fst (r_observers r)
     \<and> r_electionTimeout r' = r_electionTimeout r"

lemma same_node_refl [simp]: "same_node r r"
  by (simp add: same_node_def)

lemma same_node_trans: "same_node a b \<Longrightarrow> same_node b c \<Longrightarrow> same_node a c"
  by (simp add: same_node_def)

lemma same_node_quorum: "same_node r r' \<Longrightarrow> quorum r' = quorum r"
  by (metis length_map quorum_def same_node_def)

lemma quiet_same_node: "quiet r r' \<Longrightarrow> same_node r r'"
  using quietD quiet_keys by (simp add: same_node_def)

lemma map_fst_reset: "map fst (map (\<lambda>(id, _). (id, f id)) m) = map fst m"
  by (simp add: case_prod_unfold comp_def)

lemma setLeaderID_frame [simp]:
  "r_term (setLeaderID r i) = r_term r" "r_vote (setLeaderID r i) = r_vote r"
  "r_log (setLeaderID r i) = r_log r" "r_state (setLeaderID r i) = r_state r"
  "r_votes (setLeaderID r i) = r_votes r" "r_msgs (setLeaderID r i) = r_msgs r"
  "r_nodeID (setLeaderID r i) = r_nodeID r" "r_remotes (setLeaderID r i) = r_remotes r"
  "r_observers (setLeaderID r i) = r_observers r" "r_clusterID (setLeaderID r i) = r_clusterID r"
  "r_electionTimeout (setLeaderID r i) = r_electionTimeout r" "r_leaderID (setLeaderID r i) = i"
  "r_readIndex (setLeaderID r i) = r_readIndex r"
  "r_pendingConfigChange (setLeaderID r i) = r_pendingConfigChange r"
  by (simp_all add: setLeaderID_def Let_def)

lemma raft_reset_frame:
  assumes "raft_reset r t = Some r'"
  shows "r_term r' = t" "r_vote r' = (if r_term r = t then r_vote r else 0)" "r_votes r' = []"
    "r_state r' = r_state r" "r_log r' = r_log r" "r_msgs r' = r_msgs r" "same_node r r'"
    "r_readIndex r' = newReadIndex" "r_pendingConfigChange r' = False"
    "r_leaderTransferTarget r' = NoNode" "r_leaderID r' = NoLeader"
    "r_electionTick r' = 0" "r_remotes r' = r_remotes (resetRemotes r)"
    "r_observers r' = r_observers (resetObservers r)" "r_electionTimeout r' = r_electionTimeout r"
  using assms
  by (auto simp: raft_reset_def setRandomizedElectionTimeout_def Let_def clearPendingConfigChange_def
      abortLeaderTransfer_def resetRemotes_def resetObservers_def resetMatchValueArray_def
      same_node_def map_fst_reset NoLeader_def split: if_splits)

lemma becomeFollower_frame:
  assumes "becomeFollower r t l = Some r'"
  shows "r_term r' = t" "r_vote r' = (if r_term r = t then r_vote r else 0)" "r_votes r' = []"
    "r_state r' = follower" "r_log r' = r_log r" "r_msgs r' = r_msgs r" "same_node r r'"
    "r_readIndex r' = newReadIndex" "r_leaderID r' = l"
  using assms raft_reset_frame [of "r\<lparr>r_state := follower\<rparr>" t]
  by (auto simp: becomeFollower_def bind_eq_Some_conv same_node_def)

lemma becomeObserver_frame:
  assumes "becomeObserver r t l = Some r'"
  shows "r_term r' = t" "r_vote r' = (if r_term r = t then r_vote r else 0)" "r_votes r' = []"
    "r_state r' = observer" "r_log r' = r_log r" "r_msgs r' = r_msgs r" "same_node r r'"
    "r_readIndex r' = newReadIndex" "r_state r = observer"
  using assms raft_reset_frame [of r t]
  by (auto simp: becomeObserver_def bind_eq_Some_conv same_node_def split: if_splits)

lemma becomeCandidate_frame:
  assumes "becomeCandidate r = Some r'"
  shows "r_term r' = r_term r + 1" "r_vote r' = r_nodeID r" "r_votes r' = []"
    "r_state r' = candidate" "r_log r' = r_log r" "r_msgs r' = r_msgs r" "same_node r r'"
    "r_state r \<in> {follower, candidate}" "r_readIndex r' = newReadIndex"
proof -
  from assms obtain r1 where r1: "raft_reset (r\<lparr>r_state := candidate\<rparr>) (r_term r + 1) = Some r1"
    "r' = r1\<lparr>r_vote := r_nodeID r1\<rparr>" and st: "r_state r \<notin> {leader, observer}"
    by (auto simp: becomeCandidate_def elim!: bind_SomeE split: if_splits)
  then show "r_state r \<in> {follower, candidate}" by (cases "r_state r") auto
  from r1(2) raft_reset_frame [OF r1(1)]
  show "r_term r' = r_term r + 1" "r_vote r' = r_nodeID r" "r_votes r' = []"
    "r_state r' = candidate" "r_log r' = r_log r" "r_msgs r' = r_msgs r" "same_node r r'"
    "r_readIndex r' = newReadIndex"
    by (simp_all add: same_node_def)
qed

lemma appendEntries_frame:
  assumes "appendEntries r es = Some r'"
  shows "r_term r' = r_term r" "r_vote r' = r_vote r" "r_votes r' = r_votes r"
    "r_state r' = r_state r" "r_msgs r' = r_msgs r" "same_node r r'"
    "r_readIndex r' = r_readIndex r"
proof -
  from assms obtain l rp where l: "el_append (r_log r)
      (stampEntries (r_term r) (el_lastIndex (r_log r) + 1) es) = Some l"
    and rp: "map_of (r_remotes r) (r_nodeID r) = Some rp"
    by (auto simp: appendEntries_def Let_def elim!: bind_SomeE)
  let ?r = "r\<lparr>r_log := l, r_remotes := AList.update (r_nodeID r)
      (snd (rm_tryUpdate rp (el_lastIndex l))) (r_remotes r)\<rparr>"
  have keys: "map fst (r_remotes ?r) = map fst (r_remotes r)"
    using rp by (simp, intro gomap_keys_update_same) (auto simp: gomap_keys_map_of)
  have "r' = ?r \<or> (\<exists>b. raft_tryCommit ?r = Some (b, r'))"
    using assms l rp
    by (auto simp: appendEntries_def Let_def elim!: bind_SomeE split: if_splits)
  then have "\<exists>ms l'. r' = ?r\<lparr>r_matched := ms, r_log := l'\<rparr>"
  proof
    assume "r' = ?r"
    then show ?thesis by (intro exI [of _ "r_matched r"] exI [of _ l]) simp
  next
    assume "\<exists>b. raft_tryCommit ?r = Some (b, r')"
    then obtain b where "raft_tryCommit ?r = Some (b, r')" by blast
    then show ?thesis by (rule raft_tryCommit_frame) blast
  qed
  then show "r_term r' = r_term r" "r_vote r' = r_vote r" "r_votes r' = r_votes r"
    "r_state r' = r_state r" "r_msgs r' = r_msgs r" "same_node r r'"
    "r_readIndex r' = r_readIndex r"
    using keys by (auto simp: same_node_def)
qed

lemma preLeaderPromotion_frame:
  assumes "preLeaderPromotionHandleConfigChange r = Some r'"
  obtains b where "r' = r\<lparr>r_pendingConfigChange := b\<rparr>"
proof -
  from assms have "r' = setPendingConfigChange r \<or> r' = r"
    by (auto simp: preLeaderPromotionHandleConfigChange_def elim!: bind_SomeE split: if_splits)
  moreover have "r = r\<lparr>r_pendingConfigChange := r_pendingConfigChange r\<rparr>" by simp
  ultimately show thesis using that unfolding setPendingConfigChange_def by blast
qed

lemma becomeLeader_frame:
  assumes "becomeLeader r = Some r'"
  shows "r_term r' = r_term r" "r_vote r' = r_vote r" "r_votes r' = []"
    "r_state r' = leader" "r_msgs r' = r_msgs r" "same_node r r'"
    "r_state r \<in> {candidate, leader}"
proof -
  from assms have st: "r_state r \<in> {candidate, leader}"
    by (cases "r_state r") (auto simp: becomeLeader_def)
  then obtain r1 r2 where r1: "raft_reset (r\<lparr>r_state := leader\<rparr>) (r_term r) = Some r1"
    and r2: "preLeaderPromotionHandleConfigChange (setLeaderID r1 (r_nodeID r1)) = Some r2"
    and r': "appendEntries r2 [empty_entry\<lparr>e_Type := ApplicationEntry\<rparr>] = Some r'"
    using assms by (auto simp: becomeLeader_def Let_def elim!: bind_SomeE split: if_splits)
  from r2 obtain b where b: "r2 = (setLeaderID r1 (r_nodeID r1))\<lparr>r_pendingConfigChange := b\<rparr>"
    by (rule preLeaderPromotion_frame)
  note f = raft_reset_frame [OF r1] appendEntries_frame [OF r']
  from f b show "r_term r' = r_term r" "r_vote r' = r_vote r" "r_votes r' = []"
    "r_state r' = leader" "r_msgs r' = r_msgs r" "same_node r r'"
    by (auto simp: same_node_def)
  show "r_state r \<in> {candidate, leader}" by (rule st)
qed

section \<open>Calm steps\<close>

text \<open>\<open>msgs_ok rv i t ms\<close>: messages sent by the node \<open>i\<close> in term \<open>t\<close>, none of them grants a vote, and
  only if \<open>rv\<close> there may be vote requests among them.\<close>

definition msgs_ok :: "bool \<Rightarrow> u64 \<Rightarrow> u64 \<Rightarrow> message list \<Rightarrow> bool" where
  "msgs_ok rv i t ms \<longleftrightarrow> (\<forall>m \<in> set ms. m_From m = i \<and> m_Term m \<in> {0, t}
     \<and> (m_Type m = RequestVoteResp \<longrightarrow> m_Reject m)
     \<and> (m_Type m = RequestVote \<longrightarrow> rv \<and> m_Term m \<noteq> 0))"

definition sent_ok :: "bool \<Rightarrow> raft \<Rightarrow> raft \<Rightarrow> bool" where
  "sent_ok rv r r' \<longleftrightarrow> (\<exists>ms. r_msgs r' = r_msgs r @ ms \<and> msgs_ok rv (r_nodeID r') (r_term r') ms)"

definition calm :: "raft \<Rightarrow> raft \<Rightarrow> bool" where
  "calm r r' \<longleftrightarrow> same_node r r' \<and> sent_ok False r r' \<and> r_term r' = r_term r \<and> r_vote r' = r_vote r
     \<and> (r_state r' = r_state r \<and> r_votes r' = r_votes r
        \<or> r_state r \<noteq> observer \<and> r_state r' = follower)"

lemma sent_ok_same: "r_msgs r' = r_msgs r \<Longrightarrow> sent_ok rv r r'"
  by (simp add: sent_ok_def msgs_ok_def)

lemma sent_ok_trans:
  assumes "sent_ok rv a b" and "sent_ok rv b c" and "r_nodeID c = r_nodeID b" "r_term c = r_term b"
  shows "sent_ok rv a c"
proof -
  from assms(1,2) obtain ms ms' where "r_msgs b = r_msgs a @ ms" "msgs_ok rv (r_nodeID b) (r_term b) ms"
    "r_msgs c = r_msgs b @ ms'" "msgs_ok rv (r_nodeID c) (r_term c) ms'" by (auto simp: sent_ok_def)
  with assms(3,4) have "r_msgs c = r_msgs a @ (ms @ ms')" "msgs_ok rv (r_nodeID c) (r_term c) (ms @ ms')"
    by (auto simp: msgs_ok_def)
  then show ?thesis unfolding sent_ok_def by blast
qed

lemma calm_refl [simp, intro!]: "calm r r"
  by (simp add: calm_def sent_ok_same)

lemma calm_trans [trans]: "calm a b \<Longrightarrow> calm b c \<Longrightarrow> calm a c"
  unfolding calm_def by (auto intro: same_node_trans sent_ok_trans simp: same_node_def)

lemma quiet_calm: "quiet r r' \<Longrightarrow> calm r r'"
  using quietD [of r r'] quiet_same_node [of r r']
  by (auto simp: calm_def sent_ok_def msgs_ok_def plain_msg_def)

lemma calm_upd [simp]:
  "calm r (r\<lparr>r_log := l\<rparr>)" "calm r (r\<lparr>r_electionTick := e\<rparr>)" "calm r (r\<lparr>r_heartbeatTick := e\<rparr>)"
  "calm r (r\<lparr>r_readIndex := ri\<rparr>)" "calm r (r\<lparr>r_readyToRead := rr\<rparr>)"
  "calm r (r\<lparr>r_leaderTransferTarget := e\<rparr>)" "calm r (r\<lparr>r_tickCount := e\<rparr>)"
  "calm r (r\<lparr>r_pendingConfigChange := b\<rparr>)" "calm r (r\<lparr>r_isLeaderTransferTarget := b\<rparr>)"
  "calm r (r\<lparr>r_matched := ms\<rparr>)" "calm r (setLeaderID r i)" "calm r (addReadyToRead r i ctx)"
  by (simp_all add: calm_def same_node_def sent_ok_same addReadyToRead_def)

lemma becomeFollower_calm:
  "becomeFollower r (r_term r) l = Some r' \<Longrightarrow> r_state r \<noteq> observer \<Longrightarrow> calm r r'"
  using becomeFollower_frame [of r "r_term r" l r'] by (auto simp: calm_def sent_ok_same)

lemma put_remote_calm:
  assumes "get_remote r k = Some rp"
  shows "calm r (put_remote r k rp')"
proof -
  have "map fst (AList.update k rp' m) = map fst m" if "map_of m k = Some x"
    for m and x :: remote
    using that by (intro gomap_keys_update_same) (auto simp: gomap_keys_map_of)
  with assms show ?thesis
    by (auto simp: calm_def same_node_def sent_ok_same put_remote_def get_remote_def
        split: option.splits)
qed

lemma appendEntries_calm: "appendEntries r es = Some r' \<Longrightarrow> calm r r'"
  using appendEntries_frame [of r es r'] by (simp add: calm_def sent_ok_same)

lemma raft_tryCommit_calm: "raft_tryCommit r = Some (b, r') \<Longrightarrow> calm r r'"
  by (erule raft_tryCommit_frame) (simp add: calm_def same_node_def sent_ok_same)

lemmas quiet_ops_calm =
  quiet_calm [OF sendReplicateMessage_quiet] quiet_calm [OF broadcastReplicateMessage_quiet]
  quiet_calm [OF broadcastHeartbeatMessageWithHint_quiet]
  quiet_calm [OF broadcastHeartbeatMessage_quiet] quiet_calm [OF sendTimeoutNowMessage_quiet]

lemma send_calm:
  assumes "send r m = Some r'" and "m_Type m = RequestVoteResp \<Longrightarrow> m_Reject m"
    and "m_Type m \<noteq> RequestVote"
  shows "calm r r'"
proof (cases "m_Type m = RequestVoteResp")
  case True
  with assms show ?thesis
    by (auto simp: send_def finalizeMessageTerm_def calm_def same_node_def sent_ok_def msgs_ok_def
        isRequestMessage_def elim!: bind_SomeE split: if_splits)
qed (use assms in \<open>auto intro: quiet_calm send_quiet\<close>)

section \<open>Calm handlers\<close>

lemma handleHeartbeatMessage_calm: "handleHeartbeatMessage r m = Some r' \<Longrightarrow> calm r r'"
  unfolding handleHeartbeatMessage_def
  by (elim bind_SomeE, rule calm_trans [OF calm_upd(1) send_calm]) auto

lemma raft_restore_calm: "raft_restore r ss = Some (b, r') \<Longrightarrow> calm r r'"
  by (auto simp: raft_restore_def elim!: bind_SomeE split: if_splits)

lemma handleInstallSnapshotMessage_calm:
  assumes "handleInstallSnapshotMessage r m = Some r'"
  shows "calm r r'"
proof -
  from assms obtain b r1 x where "raft_restore r (m_Snapshot m) = Some (b, r1)"
    and s: "send r1 x = Some r'" "m_Type x = ReplicateResp"
    by (auto simp: handleInstallSnapshotMessage_def Let_def elim!: bind_SomeE split: if_splits)
  then have "calm r r1" by (simp add: raft_restore_calm)
  also have "calm r1 r'" using s by (intro send_calm) auto
  finally show ?thesis .
qed

lemma send_log_calm:
  assumes "send (r\<lparr>r_log := l\<rparr>) m = Some r'" and "m_Type m = ReplicateResp"
  shows "calm r r'"
  using assms by (intro calm_trans [OF calm_upd(1) send_calm]) auto

lemma handleReplicateMessage_calm: "handleReplicateMessage r m = Some r' \<Longrightarrow> calm r r'"
  unfolding handleReplicateMessage_def Let_def
  by (auto elim!: bind_SomeE send_calm send_log_calm split: if_splits)

end
