(* ===== verification/RaftEffects.thy ===== *)
theory RaftEffects
  imports RaftVotes
begin

text \<open>
  The effect of every message on term, vote and election state, handler by handler, and the
  resulting facts about \<open>Handle\<close> and \<open>tick\<close>: the term never decreases, a vote is never changed
  within a term, and a node becomes leader only with a quorum of votes.
\<close>

section \<open>Calm handlers of the leader\<close>

lemma handleLeaderCheckQuorum_calm:
  assumes "handleLeaderCheckQuorum r m = Some r'" and "r_state r = leader"
  shows "calm r r'"
proof -
  obtain c rs where q: "leaderHasQuorum_loop (r_nodeID r) (r_remotes r) = (c, rs)"
    by (cases "leaderHasQuorum_loop (r_nodeID r) (r_remotes r)")
  have "map fst (snd (leaderHasQuorum_loop i xs)) = map fst xs" for i xs
    by (induction xs) (auto simp: Let_def split: prod.splits)
  from this [of "r_nodeID r" "r_remotes r"] q have "map fst rs = map fst (r_remotes r)" by simp
  then have "calm r (r\<lparr>r_remotes := rs\<rparr>)" by (simp add: calm_def same_node_def sent_ok_same)
  moreover have "calm (r\<lparr>r_remotes := rs\<rparr>) r'"
    using assms q becomeFollower_calm [of "r\<lparr>r_remotes := rs\<rparr>" NoLeader r']
    by (auto simp: handleLeaderCheckQuorum_def leaderHasQuorum_def split: if_splits)
  ultimately show ?thesis by (rule calm_trans)
qed

lemma filterProposals_frame: "\<exists>b. fst (filterProposals r es) = r\<lparr>r_pendingConfigChange := b\<rparr>"
proof (induction es arbitrary: r)
  case Nil
  have "r = r\<lparr>r_pendingConfigChange := r_pendingConfigChange r\<rparr>" by simp
  then show ?case by (simp only: filterProposals.simps fst_conv) blast
next
  case (Cons e es)
  show ?case
    using Cons.IH [of r] Cons.IH [of "setPendingConfigChange r"]
    by (auto simp: Let_def setPendingConfigChange_def split: prod.splits)
qed

lemma handleLeaderPropose_calm:
  assumes "handleLeaderPropose r m = Some r'"
  shows "calm r r'"
proof (cases "selfRemoved r \<or> leaderTransfering r")
  case True
  with assms show ?thesis by (auto simp: handleLeaderPropose_def split: if_splits)
next
  case False
  obtain r1 es where f: "filterProposals r (m_Entries m) = (r1, es)"
    by (cases "filterProposals r (m_Entries m)")
  with filterProposals_frame [of r "m_Entries m"] have "calm r r1" by auto
  also from assms False f obtain r2 where "appendEntries r1 es = Some r2"
    and b: "broadcastReplicateMessage r2 = Some r'"
    by (auto simp: handleLeaderPropose_def Let_def elim!: bind_SomeE split: if_splits)
  from this(1) have "calm r1 r2" by (rule appendEntries_calm)
  also from b have "calm r2 r'" by (rule quiet_ops_calm)
  finally show ?thesis .
qed

lemma handleLeaderReadIndex_calm:
  assumes "handleLeaderReadIndex r m = Some r'"
  shows "calm r r'"
proof (cases "isSingleNodeQuorum r")
  case True
  have "calm r r'" if "send (addReadyToRead r i ctx) x = Some r'" "m_Type x = ReadIndexResp"
    for i ctx x
    using that by (intro calm_trans [OF calm_upd(12) send_calm]) auto
  with True assms show ?thesis
    by (auto simp: handleLeaderReadIndex_def Let_def split: if_splits)
next
  case False
  with assms show ?thesis
    by (auto simp: handleLeaderReadIndex_def Let_def elim!: bind_SomeE split: if_splits
        dest!: quiet_ops_calm intro: calm_trans [OF calm_upd(4)])
qed

lemma handleLeaderReplicateResp_calm:
  assumes "handleLeaderReplicateResp r m k = Some r'"
  shows "calm r r'"
proof -
  from assms obtain rp where rp: "get_remote r k = Some rp"
    by (auto simp: handleLeaderReplicateResp_def elim!: bind_SomeE)
  note put = put_remote_calm [OF rp]
  show ?thesis
  proof (cases "m_Reject m")
    case True
    then show ?thesis
      using assms rp put
      by (auto simp: handleLeaderReplicateResp_def Let_def split: prod.splits if_splits
          intro: calm_trans quiet_ops_calm)
  next
    case False
    obtain u rp1 where u: "rm_tryUpdate (rm_setActive rp) (m_LogIndex m) = (u, rp1)"
      by (cases "rm_tryUpdate (rm_setActive rp) (m_LogIndex m)")
    show ?thesis
    proof (cases u)
      case True
      with False assms rp u obtain c r1 r2 rp2 where
        c: "raft_tryCommit (put_remote r k (rm_respondedTo rp1)) = Some (c, r1)"
        and r2: "(if c then broadcastReplicateMessage r1
             else if rm_isPaused (rm_setActive rp) then sendReplicateMessage r1 (m_From m)
             else Some r1) = Some r2"
        and r': "r' = r2 \<or> sendTimeoutNowMessage r2 (r_leaderTransferTarget r2) = Some r'"
        by (auto simp: handleLeaderReplicateResp_def Let_def elim!: bind_SomeE split: if_splits)
      have "calm r (put_remote r k (rm_respondedTo rp1))" by (rule put)
      also from c have "calm \<dots> r1" by (rule raft_tryCommit_calm)
      also from r2 have "calm r1 r2" by (auto split: if_splits intro: quiet_ops_calm)
      also from r' have "calm r2 r'" by (auto intro: quiet_ops_calm)
      finally show ?thesis .
    next
      case u0: False
      with False assms rp u have "r' = put_remote r k rp1"
        by (simp add: handleLeaderReplicateResp_def)
      with put show ?thesis by simp
    qed
  qed
qed

lemma handleReadIndexLeaderConfirmation_calm:
  assumes "handleReadIndexLeaderConfirmation r m = Some r'"
  shows "calm r r'"
proof -
  from assms obtain ris ri where "go_fold (releaseRead m) ris (r\<lparr>r_readIndex := ri\<rparr>) = Some r'"
    by (auto simp: handleReadIndexLeaderConfirmation_def elim!: bind_SomeE)
  then show ?thesis
  proof (rule go_fold_invariant [where P = "calm r"])
    show "calm r (r\<lparr>r_readIndex := ri\<rparr>)" by simp
    fix x t t' assume "calm r t" "releaseRead m x t = Some t'"
    moreover from this(2) have "calm t t'"
      by (auto simp: releaseRead_def split: if_splits elim!: send_calm)
    ultimately show "calm r t'" by (rule_tac calm_trans)
  qed
qed

lemma handleLeaderHeartbeatResp_calm:
  assumes "handleLeaderHeartbeatResp r m k = Some r'"
  shows "calm r r'"
proof -
  from assms obtain rp where rp: "get_remote r k = Some rp"
    by (auto simp: handleLeaderHeartbeatResp_def elim!: bind_SomeE)
  let ?rp = "rm_waitToRetry (rm_setActive rp)"
  from assms rp obtain r1 where
    r1: "(if rm_match ?rp < el_lastIndex (r_log (put_remote r k ?rp))
          then sendReplicateMessage (put_remote r k ?rp) (m_From m)
          else Some (put_remote r k ?rp)) = Some r1"
    and r': "r' = r1 \<or> handleReadIndexLeaderConfirmation r1 m = Some r'"
    by (auto simp: handleLeaderHeartbeatResp_def Let_def elim!: bind_SomeE)
       (auto split: if_splits)
  have "calm r (put_remote r k ?rp)" using rp by (rule put_remote_calm)
  also from r1 have "calm \<dots> r1" by (auto intro: quiet_ops_calm split: if_splits)
  also from r' have "calm r1 r'" by (auto intro: handleReadIndexLeaderConfirmation_calm)
  finally show ?thesis .
qed

lemma handleLeaderLeaderTransfer_calm:
  assumes "handleLeaderLeaderTransfer r m k = Some r'"
  shows "calm r r'"
proof -
  have "calm r (r\<lparr>r_leaderTransferTarget := t, r_electionTick := 0\<rparr>)" for t
    by (simp add: calm_def same_node_def sent_ok_same)
  then show ?thesis
    using assms
    by (auto simp: handleLeaderLeaderTransfer_def Let_def elim!: bind_SomeE split: if_splits
        dest!: quiet_ops_calm) (blast intro: calm_trans)
qed

lemma handleLeaderSnapshotStatus_calm: "handleLeaderSnapshotStatus r m k = Some r' \<Longrightarrow> calm r r'"
  by (auto simp: handleLeaderSnapshotStatus_def Let_def elim!: bind_SomeE split: if_splits
      intro: put_remote_calm)

lemma handleLeaderUnreachable_calm: "handleLeaderUnreachable r m k = Some r' \<Longrightarrow> calm r r'"
  by (auto simp: handleLeaderUnreachable_def elim!: bind_SomeE intro: put_remote_calm)

lemma lw_calm: "lw f r m = Some r' \<Longrightarrow> (\<And>k. f r m k = Some r' \<Longrightarrow> calm r r') \<Longrightarrow> calm r r'"
  by (auto simp: lw_def split: if_splits)

section \<open>Calm handlers of the other states\<close>

lemma follower_prelude_calm: "calm r (setLeaderID (r\<lparr>r_electionTick := 0\<rparr>) i)"
  by (rule calm_trans [OF calm_upd(2) calm_upd(11)])

lemma handleFollower_calm:
  "handleFollowerReplicate r m = Some r' \<Longrightarrow> calm r r'"
  "handleFollowerHeartbeat r m = Some r' \<Longrightarrow> calm r r'"
  "handleFollowerInstallSnapshot r m = Some r' \<Longrightarrow> calm r r'"
  "handleFollowerReadIndexResp r m = Some r' \<Longrightarrow> calm r r'"
  by (auto simp: handleFollowerReplicate_def handleFollowerHeartbeat_def Let_def
      handleFollowerInstallSnapshot_def handleFollowerReadIndexResp_def
      dest!: handleReplicateMessage_calm handleHeartbeatMessage_calm handleInstallSnapshotMessage_calm
      intro: calm_trans [OF follower_prelude_calm] calm_trans [OF follower_prelude_calm calm_upd(12)])

lemma handleFollower_forward_calm:
  "handleFollowerPropose r m = Some r' \<Longrightarrow> m_Type m = Propose \<Longrightarrow> calm r r'"
  "handleFollowerReadIndex r m = Some r' \<Longrightarrow> m_Type m = ReadIndex \<Longrightarrow> calm r r'"
  "handleFollowerLeaderTransfer r m = Some r' \<Longrightarrow> m_Type m = LeaderTransfer \<Longrightarrow> calm r r'"
  by (auto simp: handleFollowerPropose_def handleFollowerReadIndex_def
      handleFollowerLeaderTransfer_def split: if_splits elim!: send_calm)

lemma handleCandidate_calm:
  "handleCandidateReplicate r m = Some r' \<Longrightarrow> r_state r = candidate \<Longrightarrow> calm r r'"
  "handleCandidateHeartbeat r m = Some r' \<Longrightarrow> r_state r = candidate \<Longrightarrow> calm r r'"
  "handleCandidateInstallSnapshot r m = Some r' \<Longrightarrow> r_state r = candidate \<Longrightarrow> calm r r'"
  by (auto simp: handleCandidateReplicate_def handleCandidateHeartbeat_def
      handleCandidateInstallSnapshot_def elim!: bind_SomeE
      dest!: becomeFollower_calm handleReplicateMessage_calm handleHeartbeatMessage_calm
        handleInstallSnapshotMessage_calm intro: calm_trans)

section \<open>Granting and counting votes, campaigning\<close>

definition granted :: "raft \<Rightarrow> message \<Rightarrow> raft \<Rightarrow> bool" where
  "granted r m r' \<longleftrightarrow> m_Type m = RequestVote \<and> canGrantVote r m \<and> same_node r r'
     \<and> r_term r' = r_term r \<and> r_vote r' = m_From m \<and> r_state r' = r_state r \<and> r_votes r' = r_votes r
     \<and> (\<exists>x. r_msgs r' = r_msgs r @ [x] \<and> m_Type x = RequestVoteResp \<and> \<not> m_Reject x
          \<and> m_To x = m_From m \<and> m_From x = r_nodeID r \<and> m_Term x = r_term r)"

definition cast :: "(u64, bool) gomap \<Rightarrow> message \<Rightarrow> (u64, bool) gomap" where
  "cast vs m = (if map_of vs (m_From m) = None then AList.update (m_From m) (\<not> m_Reject m) vs else vs)"

definition counted :: "raft \<Rightarrow> message \<Rightarrow> raft \<Rightarrow> bool" where
  "counted r m r' \<longleftrightarrow> m_Type m = RequestVoteResp \<and> r_state r = candidate
     \<and> map_of (r_observers r) (m_From m) = None
     \<and> same_node r r' \<and> sent_ok False r r' \<and> r_term r' = r_term r \<and> r_vote r' = r_vote r
     \<and> (r_state r' = candidate \<and> r_votes r' = cast (r_votes r) m
        \<or> r_state r' = leader \<and> length (filter snd (cast (r_votes r) m)) = quorum r
        \<or> r_state r' = follower)"

definition campaigned :: "raft \<Rightarrow> raft \<Rightarrow> bool" where
  "campaigned r r' \<longleftrightarrow> r_state r \<in> {follower, candidate} \<and> same_node r r' \<and> sent_ok True r r'
     \<and> r_term r' = r_term r + 1
     \<and> r_vote r' = r_nodeID r
     \<and> (r_state r' = candidate \<and> r_votes r' = [(r_nodeID r, True)]
        \<or> r_state r' = leader \<and> quorum r = 1)"

definition effect :: "raft \<Rightarrow> message \<Rightarrow> raft \<Rightarrow> bool" where
  "effect r m r' \<longleftrightarrow> calm r r' \<or> granted r m r' \<or> counted r m r' \<or> campaigned r r'"

lemma handleNodeRequestVote_effect:
  assumes "handleNodeRequestVote r m = Some r'" and "m_Type m = RequestVote"
  shows "effect r m r'"
proof -
  from assms consider
      "canGrantVote r m" "send (r\<lparr>r_electionTick := 0, r_vote := m_From m\<rparr>)
         (empty_message\<lparr>m_To := m_From m, m_Type := RequestVoteResp\<rparr>) = Some r'"
    | "send r (empty_message\<lparr>m_To := m_From m, m_Type := RequestVoteResp, m_Reject := True\<rparr>) = Some r'"
    by (auto simp: handleNodeRequestVote_def Let_def elim!: bind_SomeE split: if_splits)
  then show ?thesis
  proof cases
    case 1
    with assms(2) have "granted r m r'"
      by (auto simp: send_def finalizeMessageTerm_def granted_def same_node_def isRequestMessage_def
          split: if_splits)
    then show ?thesis by (simp add: effect_def)
  next
    case 2
    then have "calm r r'" by (rule send_calm) auto
    then show ?thesis by (simp add: effect_def)
  qed
qed

lemma handleCandidateRequestVoteResp_effect:
  assumes "handleCandidateRequestVoteResp r m = Some r'" and "m_Type m = RequestVoteResp"
    and "r_state r = candidate"
  shows "effect r m r'"
proof (cases "map_of (r_observers r) (m_From m) = None")
  case False
  with assms show ?thesis by (simp add: handleCandidateRequestVoteResp_def effect_def)
next
  case notobs: True
  let ?vs = "cast (r_votes r) m"
  let ?r = "r\<lparr>r_votes := ?vs\<rparr>"
  have v: "handleVoteResp r (m_From m) (m_Reject m) = (length (filter snd ?vs), ?r)"
    by (simp add: handleVoteResp_def cast_def)
  have "handleCandidateRequestVoteResp r m =
      (if length (filter snd ?vs) = quorum r
       then do { r1 \<leftarrow> becomeLeader ?r; broadcastReplicateMessage r1 }
       else if length ?vs - length (filter snd ?vs) = quorum r
       then becomeFollower ?r (r_term r) NoLeader else Some ?r)"
    using notobs by (simp add: handleCandidateRequestVoteResp_def v quorum_def)
  note eq = this [unfolded assms(1)]
  have "counted r m r'"
  proof (cases "length (filter snd ?vs) = quorum r")
    case True
    with eq obtain r1 where r1: "becomeLeader ?r = Some r1"
      and b: "broadcastReplicateMessage r1 = Some r'"
      by (cases "becomeLeader ?r") auto
    note l = becomeLeader_frame [OF r1] and q = broadcastReplicateMessage_quiet [OF b]
    have "same_node r r'" using l(6) quiet_same_node [OF q] by (simp add: same_node_def)
    moreover have "sent_ok False r r'"
      using l(5) quiet_calm [OF q] by (auto simp: calm_def sent_ok_def)
    ultimately show ?thesis
      using True l quietD [OF q] assms(2,3) notobs by (simp add: counted_def)
  next
    case False
    show ?thesis
    proof (cases "length ?vs - length (filter snd ?vs) = quorum r")
      case True
      with False eq have "becomeFollower ?r (r_term r) NoLeader = Some r'" by simp
      from becomeFollower_frame [OF this] assms(2,3) notobs show ?thesis
        by (simp add: counted_def same_node_def sent_ok_same)
    next
      case f: False
      with False eq have "r' = ?r" by simp
      with assms(2,3) notobs show ?thesis by (simp add: counted_def same_node_def sent_ok_same)
    qed
  qed
  then show ?thesis by (simp add: effect_def)
qed

lemma campaign_effect:
  assumes "campaign r = Some r'"
  shows "campaigned r r'"
proof -
  from assms obtain r1 where r1: "becomeCandidate r = Some r1"
    by (auto simp: campaign_def elim!: bind_SomeE)
  note c = becomeCandidate_frame [OF r1]
  have id: "r_nodeID r1 = r_nodeID r" and qr: "quorum r1 = quorum r"
    using c(7) same_node_quorum [OF c(7)] by (simp_all add: same_node_def)
  let ?r = "r1\<lparr>r_votes := [(r_nodeID r, True)]\<rparr>"
  have v: "handleVoteResp r1 (r_nodeID r1) False = (1, ?r)"
    by (simp add: handleVoteResp_def c(3) id)
  show ?thesis
  proof (cases "quorum r = 1")
    case True
    then have "becomeLeader ?r = Some r'"
      using assms r1 v qr by (simp add: campaign_def isSingleNodeQuorum_def quorum_def)
    note l = becomeLeader_frame [OF this]
    from l(6) c(7) have "same_node r r'" by (simp add: same_node_def)
    with l c True id show ?thesis by (simp add: campaigned_def sent_ok_same)
  next
    case False
    have "campaign r = (let (hint, r2) = (if r_isLeaderTransferTarget ?r
        then (r_nodeID ?r, ?r\<lparr>r_isLeaderTransferTarget := False\<rparr>) else (0, ?r))
      in go_fold (sendRequestVote (r_term ?r) hint) (map fst (r_remotes r2)) r2)"
      using r1 v False qr by (simp add: campaign_def isSingleNodeQuorum_def quorum_def)
    with assms obtain hint r2 where
      gf: "go_fold (sendRequestVote (r_term ?r) hint) (map fst (r_remotes r1)) r2 = Some r'"
      and r2: "r2 = ?r \<or> r2 = ?r\<lparr>r_isLeaderTransferTarget := False\<rparr>"
      by (cases "r_isLeaderTransferTarget ?r") auto
    let ?P = "\<lambda>s. same_node r2 s \<and> sent_ok True r2 s \<and> r_term s = r_term r2 \<and> r_vote s = r_vote r2
      \<and> r_state s = r_state r2 \<and> r_votes s = r_votes r2"
    have "?P r'"
    proof (rule go_fold_invariant [OF gf])
      show "?P r2" by (simp add: sent_ok_same)
    next
      fix k s s'
      assume P: "?P s" and "sendRequestVote (r_term ?r) hint k s = Some s'"
      then have "same_node s s' \<and> sent_ok True s s' \<and> r_term s' = r_term s \<and> r_vote s' = r_vote s
        \<and> r_state s' = r_state s \<and> r_votes s' = r_votes s"
        using r2
        by (auto simp: sendRequestVote_def send_def finalizeMessageTerm_def same_node_def sent_ok_def
            msgs_ok_def isRequestMessage_def elim!: bind_SomeE split: if_splits)
      moreover from P this have "same_node r2 s'" "sent_ok True r2 s'"
        using same_node_trans [of r2 s s'] sent_ok_trans [of True r2 s s'] by (auto simp: same_node_def)
      ultimately show "?P s'" using P by simp
    qed
    moreover have "same_node r r2" "sent_ok True r r2"
      using c(6,7) r2 by (auto simp: same_node_def sent_ok_def msgs_ok_def)
    ultimately have "same_node r r'" "sent_ok True r r'"
      using same_node_trans [of r r2 r'] sent_ok_trans [of True r r2 r'] by (auto simp: same_node_def)
    with \<open>?P r'\<close> c r2 show ?thesis by (auto simp: campaigned_def)
  qed
qed

end
