(* ===== verification/RaftSteps.thy ===== *)
theory RaftSteps
  imports RaftEffects
begin

text \<open>
  The effect of \<open>Handle\<close> and \<open>tick\<close> as a whole, from the effects of the handlers.
\<close>

section \<open>One message\<close>

definition same_core :: "raft \<Rightarrow> raft \<Rightarrow> bool" where
  "same_core r r' \<longleftrightarrow> same_node r r' \<and> r_term r' = r_term r \<and> r_vote r' = r_vote r
     \<and> r_state r' = r_state r \<and> r_votes r' = r_votes r \<and> r_msgs r' = r_msgs r"

lemma campaigned_core: "same_core r r0 \<Longrightarrow> campaigned r0 r' \<Longrightarrow> campaigned r r'"
  using same_node_quorum [of r r0]
  by (auto simp: same_core_def campaigned_def same_node_def sent_ok_def msgs_ok_def)

lemma calm_core: "same_core r r0 \<Longrightarrow> calm r0 r' \<Longrightarrow> calm r r'"
  by (auto simp: same_core_def calm_def same_node_def sent_ok_def msgs_ok_def)

lemma core_campaigned: "campaigned r r' \<Longrightarrow> same_core r' r'' \<Longrightarrow> campaigned r r''"
  by (auto simp: same_core_def campaigned_def same_node_def sent_ok_def)

lemma core_calm: "calm r r' \<Longrightarrow> same_core r' r'' \<Longrightarrow> calm r r''"
  by (auto simp: same_core_def calm_def same_node_def sent_ok_def)

lemma handleNodeElection_effect:
  assumes "handleNodeElection r m = Some r'"
  shows "calm r r' \<or> campaigned r r'"
  using assms campaign_effect [of r r']
  by (auto simp: handleNodeElection_def split: if_splits)

lemma Handle_local: "m_Term m = 0 \<Longrightarrow> Handle r m = defaultHandle Handle r m"
  by (simp add: Handle_unfold onMessageTermNotMatched_def doubleCheckTermMatched_def)

lemma Handle_Election:
  assumes "Handle r (empty_message\<lparr>m_From := i, m_Type := Election\<rparr>) = Some r'"
  shows "calm r r' \<or> campaigned r r'"
proof -
  have "handlers Handle (r_state r) Election = Some handleNodeElection
    \<or> handlers Handle (r_state r) Election = None"
    by (cases "r_state r") (auto simp: handlers_def followerHandlers_def leaderHandlers_def
        candidateHandlers_def observerHandlers_def)
  with assms show ?thesis
    by (auto simp: Handle_local defaultHandle_def dest: handleNodeElection_effect)
qed

lemma nonLeaderTick_effect:
  assumes "nonLeaderTick_with Handle r = Some r'"
  shows "calm r r' \<or> campaigned r r'"
proof -
  let ?r = "r\<lparr>r_electionTick := r_electionTick r + 1\<rparr>"
  from assms have "r' = ?r \<or>
      Handle (?r\<lparr>r_electionTick := 0\<rparr>) (empty_message\<lparr>m_From := r_nodeID ?r, m_Type := Election\<rparr>) = Some r'"
    by (auto simp: nonLeaderTick_with_def Let_def split: if_splits)
  moreover have "same_core r (?r\<lparr>r_electionTick := 0\<rparr>)"
    by (simp add: same_core_def same_node_def)
  ultimately show ?thesis
    using Handle_Election [of "?r\<lparr>r_electionTick := 0\<rparr>" "r_nodeID ?r" r'] calm_core campaigned_core
    by auto
qed

lemma handleFollowerTimeoutNow_effect:
  assumes "handleFollowerTimeoutNow_with Handle r m = Some r'" and "r_state r = follower"
  shows "calm r r' \<or> campaigned r r'"
proof -
  let ?r = "r\<lparr>r_electionTick := r_randomizedElectionTimeout r, r_isLeaderTransferTarget := True\<rparr>"
  let ?r1 = "?r\<lparr>r_tickCount := r_tickCount ?r + 1\<rparr>"
  from assms obtain r2 where r2: "nonLeaderTick_with Handle ?r1 = Some r2"
    and r': "r' = (if r_isLeaderTransferTarget r2 then r2\<lparr>r_isLeaderTransferTarget := False\<rparr> else r2)"
    by (auto simp: handleFollowerTimeoutNow_with_def tick_with_def elim!: bind_SomeE)
  have "same_core r ?r1" by (simp add: same_core_def same_node_def)
  moreover have "same_core r2 r'" using r' by (simp add: same_core_def same_node_def)
  ultimately show ?thesis
    using nonLeaderTick_effect [OF r2] calm_core campaigned_core core_calm core_campaigned by blast
qed

lemma candidateHandlers_effect:
  assumes "candidateHandlers (m_Type m) = Some f" and "f r m = Some r'" and "r_state r = candidate"
  shows "effect r m r'"
proof (cases "m_Type m \<in> {RequestVote, RequestVoteResp}")
  case True
  with assms show ?thesis
    by (auto simp: candidateHandlers_def intro: handleNodeRequestVote_effect
        handleCandidateRequestVoteResp_effect)
next
  case False
  with assms show ?thesis
    by (auto simp: candidateHandlers_def effect_def handleCandidatePropose_def
        split: message_type.splits dest: handleNodeElection_effect handleCandidate_calm)
qed

lemma followerHandlers_effect:
  assumes "followerHandlers Handle (m_Type m) = Some f" and "f r m = Some r'" and "r_state r = follower"
  shows "effect r m r'"
proof (cases "m_Type m = RequestVote")
  case True
  with assms show ?thesis by (auto simp: followerHandlers_def intro: handleNodeRequestVote_effect)
next
  case False
  with assms show ?thesis
    by (auto simp: followerHandlers_def effect_def split: message_type.splits
        dest: handleNodeElection_effect handleFollower_calm handleFollower_forward_calm
          handleFollowerTimeoutNow_effect)
qed

lemma leaderHandlers_effect:
  assumes "leaderHandlers (m_Type m) = Some f" and "f r m = Some r'" and "r_state r = leader"
  shows "effect r m r'"
proof (cases "m_Type m = RequestVote")
  case True
  with assms show ?thesis by (auto simp: leaderHandlers_def intro: handleNodeRequestVote_effect)
next
  case False
  with assms have "calm r r' \<or> campaigned r r'"
    by (auto simp: leaderHandlers_def handleLeaderLeaderHeartbeat_def split: message_type.splits
        dest: handleNodeElection_effect quiet_ops_calm handleLeaderCheckQuorum_calm
          handleLeaderPropose_calm handleLeaderReadIndex_calm
        elim!: lw_calm intro: handleLeaderReplicateResp_calm handleLeaderHeartbeatResp_calm
          handleLeaderSnapshotStatus_calm handleLeaderUnreachable_calm handleLeaderLeaderTransfer_calm)
  then show ?thesis by (auto simp: effect_def)
qed

lemma observerHandlers_effect:
  assumes "observerHandlers (m_Type m) = Some f" and "f r m = Some r'"
  shows "effect r m r'"
  using assms
  by (auto simp: observerHandlers_def effect_def handleObserverHeartbeat_def handleObserverReplicate_def
      handleObserverSnapshot_def handleObserverPropose_def handleObserverReadIndex_def
      handleObserverReadIndexResp_def split: message_type.splits
      dest: handleFollower_calm handleFollower_forward_calm)

lemma defaultHandle_effect:
  assumes "defaultHandle Handle r m = Some r'"
  shows "effect r m r'"
proof (cases "handlers Handle (r_state r) (m_Type m)")
  case None
  with assms show ?thesis by (simp add: defaultHandle_def effect_def)
next
  case (Some f)
  with assms have "f r m = Some r'" by (simp add: defaultHandle_def)
  with Some show ?thesis
    by (cases "r_state r") (auto simp: handlers_def intro: candidateHandlers_effect
        followerHandlers_effect leaderHandlers_effect observerHandlers_effect)
qed

text \<open>A message with a higher term first turns the node into a follower (or leaves it an observer)
  of that term.\<close>

definition bumped :: "raft \<Rightarrow> message \<Rightarrow> raft \<Rightarrow> bool" where
  "bumped r m r1 \<longleftrightarrow> (m_Term m = 0 \<or> m_Term m = r_term r) \<and> r1 = r
     \<or> r_term r < m_Term m \<and> same_node r r1 \<and> r_msgs r1 = r_msgs r \<and> r_term r1 = m_Term m
       \<and> r_vote r1 = 0 \<and> r_votes r1 = []
       \<and> r_state r1 = (if r_state r = observer then observer else follower) \<and> r_log r1 = r_log r"

lemma onMessageTermNotMatched_effect:
  assumes "onMessageTermNotMatched r m = Some (ignore, r1)"
  shows "(ignore \<and> calm r r1) \<or> (\<not> ignore \<and> bumped r m r1)"
proof (cases "m_Term m = 0 \<or> m_Term m = r_term r")
  case True
  with assms show ?thesis by (auto simp: onMessageTermNotMatched_def bumped_def)
next
  case False
  show ?thesis
  proof (cases "dropRequestVoteFromHighTermNode r m")
    case True
    with False assms show ?thesis by (simp add: onMessageTermNotMatched_def)
  next
    case nodrop: False
    show ?thesis
    proof (cases "r_term r < m_Term m")
      case True
      with False nodrop assms obtain l where
        "(if isObserver r then becomeObserver r (m_Term m) l
          else becomeFollower r (m_Term m) l) = Some r1" "\<not> ignore"
        by (auto simp: onMessageTermNotMatched_def Let_def elim!: bind_SomeE)
      with True show ?thesis
        using becomeObserver_frame [of r "m_Term m" l r1] becomeFollower_frame [of r "m_Term m" l r1]
        by (auto simp: bumped_def isObserver_def split: if_splits)
    next
      case le: False
      with False have "m_Term m < r_term r" by (simp add: not_less le_less)
      with False nodrop le assms show ?thesis
        by (auto simp: onMessageTermNotMatched_def elim!: bind_SomeE send_calm split: if_splits)
    qed
  qed
qed

lemma Handle_effect:
  assumes "Handle r m = Some r'"
  shows "calm r r' \<or> (\<exists>r1. bumped r m r1 \<and> effect r1 m r')"
proof -
  from assms obtain ignore r1 where o: "onMessageTermNotMatched r m = Some (ignore, r1)"
    and rest: "(if \<not> ignore then do { doubleCheckTermMatched r1 (m_Term m); defaultHandle Handle r1 m }
       else Some r1) = Some r'"
    by (subst (asm) Handle_unfold) (auto elim!: bind_SomeE)
  show ?thesis
  proof (cases ignore)
    case True
    with onMessageTermNotMatched_effect [OF o] rest show ?thesis by simp
  next
    case False
    with rest have "defaultHandle Handle r1 m = Some r'" by (auto elim!: bind_SomeE)
    with False onMessageTermNotMatched_effect [OF o] defaultHandle_effect show ?thesis by blast
  qed
qed

section \<open>One tick\<close>

text \<open>The messages a leader handles on a tick are calm.\<close>

lemma Handle_leader_tick:
  assumes "Handle r (empty_message\<lparr>m_From := i, m_Type := t\<rparr>) = Some r'"
    and "t \<in> {CheckQuorum, LeaderHeartbeat}"
  shows "calm r r'"
proof -
  let ?m = "empty_message\<lparr>m_From := i, m_Type := t\<rparr>"
  have "handlers Handle (r_state r) t = None \<or> r_state r = leader"
    using assms(2) by (cases "r_state r") (auto simp: handlers_def followerHandlers_def
        candidateHandlers_def observerHandlers_def)
  then show ?thesis
  proof
    assume "handlers Handle (r_state r) t = None"
    with assms(1) show ?thesis by (simp add: Handle_local defaultHandle_def)
  next
    assume "r_state r = leader"
    with assms show ?thesis
      by (auto simp: Handle_local defaultHandle_def handlers_def leaderHandlers_def
          handleLeaderLeaderHeartbeat_def
          dest: handleLeaderCheckQuorum_calm quiet_ops_calm)
  qed
qed

lemma leaderTick_calm:
  assumes "leaderTick_with Handle r = Some r'"
  shows "calm r r'"
proof -
  let ?r = "r\<lparr>r_electionTick := r_electionTick r + 1\<rparr>"
  from assms have "r_state r = leader" by (simp add: leaderTick_with_def split: if_splits)
  with assms obtain r1 where
    r1: "(if timeForCheckQuorum ?r then
            let r = ?r\<lparr>r_electionTick := 0\<rparr> in
            if r_checkQuorum r
            then Handle r (empty_message\<lparr>m_From := r_nodeID r, m_Type := CheckQuorum\<rparr>) else Some r
          else Some ?r) = Some r1"
    and r': "(let r2 = (if timeToAbortLeaderTransfer ?r then abortLeaderTransfer r1 else r1);
           r3 = r2\<lparr>r_heartbeatTick := r_heartbeatTick r2 + 1\<rparr> in
           if timeForHearbeat r3 then Handle (r3\<lparr>r_heartbeatTick := 0\<rparr>)
             (empty_message\<lparr>m_From := r_nodeID r3, m_Type := LeaderHeartbeat\<rparr>)
           else Some r3) = Some r'"
    unfolding leaderTick_with_def by (simp only: if_False Let_def simp_thms) (erule bind_SomeE, blast)
  from r1 have "r1 = ?r \<or> r1 = ?r\<lparr>r_electionTick := 0\<rparr> \<or> Handle (?r\<lparr>r_electionTick := 0\<rparr>)
      (empty_message\<lparr>m_From := r_nodeID ?r, m_Type := CheckQuorum\<rparr>) = Some r1"
    by (auto simp: Let_def split: if_splits)
  moreover have "same_core r (?r\<lparr>r_electionTick := 0\<rparr>)" "calm r ?r"
    by (simp_all add: same_core_def same_node_def)
  ultimately have c1: "calm r r1"
    using Handle_leader_tick [of "?r\<lparr>r_electionTick := 0\<rparr>" CheckQuorum "r_nodeID ?r" r1]
    by (auto intro: calm_core)
  define r2 where "r2 = (if timeToAbortLeaderTransfer ?r then abortLeaderTransfer r1 else r1)"
  have core: "same_core r1 (r2\<lparr>r_heartbeatTick := h\<rparr>)" for h
    by (simp add: r2_def same_core_def same_node_def abortLeaderTransfer_def)
  from r' have "r' = r2\<lparr>r_heartbeatTick := r_heartbeatTick r2 + 1\<rparr> \<or>
     Handle (r2\<lparr>r_heartbeatTick := 0\<rparr>) (empty_message\<lparr>m_From := r_nodeID r2, m_Type := LeaderHeartbeat\<rparr>) = Some r'"
    unfolding r2_def [symmetric] Let_def by (auto split: if_splits)
  then show ?thesis
    using core_calm [OF c1 core] calm_core [OF core] calm_trans [OF c1]
      Handle_leader_tick [of "r2\<lparr>r_heartbeatTick := 0\<rparr>" LeaderHeartbeat "r_nodeID r2" r']
    by blast
qed

lemma tick_effect:
  assumes "tick r = Some r'"
  shows "calm r r' \<or> campaigned r r'"
proof -
  let ?r = "r\<lparr>r_tickCount := r_tickCount r + 1\<rparr>"
  have "same_core r ?r" by (simp add: same_core_def same_node_def)
  moreover from assms have "leaderTick_with Handle ?r = Some r' \<or> nonLeaderTick_with Handle ?r = Some r'"
    by (auto simp: tick_def tick_with_def Let_def split: if_splits)
  then have "calm ?r r' \<or> campaigned ?r r'" using leaderTick_calm nonLeaderTick_effect by blast
  ultimately show ?thesis using calm_core campaigned_core by blast
qed

section \<open>Terms and votes\<close>

text \<open>Every effect keeps the term or raises it, and within a term a vote once cast is kept.\<close>

definition vote_step :: "raft \<Rightarrow> raft \<Rightarrow> bool" where
  "vote_step r r' \<longleftrightarrow> r_term r \<le> r_term r'
     \<and> (r_term r' = r_term r \<longrightarrow> r_vote r \<noteq> 0 \<longrightarrow> r_vote r' = r_vote r)"

lemma effect_vote_step:
  assumes "effect r m r'" and "r_term r \<noteq> max_u64" and "m_Term m \<in> {0, r_term r}"
  shows "vote_step r r'"
proof -
  have "m_Term m \<le> r_term r" using assms(3) by auto
  then have "granted r m r' \<Longrightarrow> vote_step r r'"
    by (auto simp: granted_def vote_step_def canGrantVote_def NoNode_def)
  moreover have "campaigned r r' \<Longrightarrow> vote_step r r'"
    using u64_inc_positive [OF assms(2)] by (auto simp: campaigned_def vote_step_def)
  ultimately show ?thesis
    using assms(1) by (auto simp: effect_def calm_def counted_def vote_step_def)
qed

lemma bumped_vote_step:
  assumes "bumped r m r1" and "vote_step r1 r'"
  shows "vote_step r r'"
  using assms by (auto simp: bumped_def vote_step_def)

lemma Handle_vote_step:
  assumes "Handle r m = Some r'" and "r_term r \<noteq> max_u64" and "m_Term m \<noteq> max_u64"
  shows "vote_step r r'"
proof -
  from Handle_effect [OF assms(1)] consider "calm r r'" | r1 where "bumped r m r1" "effect r1 m r'"
    by blast
  then show ?thesis
  proof cases
    case 1
    then show ?thesis by (simp add: calm_def vote_step_def)
  next
    case 2
    then have "r_term r1 \<noteq> max_u64" "m_Term m \<in> {0, r_term r1}"
      using assms(2,3) by (auto simp: bumped_def)
    with 2 show ?thesis using effect_vote_step bumped_vote_step by blast
  qed
qed

end
