(* ===== verification/ProtoWire.thy ===== *)
theory ProtoWire
  imports RaftPB
begin

text \<open>
  The protocol-buffer wire format of \<open>raftpb/raft.pb.go\<close>: base-128 varints (\<open>encodeVarintRaft\<close>,
  \<open>sovRaft\<close>) and the decoding loop every \<open>Unmarshal\<close> method repeats. A Go \<open>string\<close> field holds
  bytes; a character of the model is one byte.
\<close>

unbundle bit_operations_syntax

section \<open>Varints\<close>

lemma unat_drop_bit_7: "unat (drop_bit 7 (v :: u64)) = unat v div 128"
  by (simp add: drop_bit_eq_div unat_div)

lemma drop_bit_7_less: "128 \<le> (v :: u64) \<Longrightarrow> unat (drop_bit 7 v) < unat v"
  by (simp add: unat_drop_bit_7 word_le_nat_alt)

lemma drop_bit_7_zero: "drop_bit 7 (v :: u64) = 0 \<longleftrightarrow> v < 128"
  by (simp add: unat_eq_zero [symmetric] unat_drop_bit_7 word_less_nat_alt div_eq_0_iff)

text \<open>The bytes the loop writes, from the offset on.\<close>

function encodeVarintRaft :: "u64 \<Rightarrow> byte list" where
  "encodeVarintRaft v =
     (if v \<ge> 128 then ucast (v AND 0x7f OR 0x80) # encodeVarintRaft (drop_bit 7 v)
      else [ucast v])"
  by pat_completeness auto
termination
  by (relation "measure unat") (auto simp: drop_bit_7_less)

function sovRaft :: "u64 \<Rightarrow> nat" where
  "sovRaft x = (let x' = drop_bit 7 x in if x' = 0 then 1 else 1 + sovRaft x')"
  by pat_completeness auto
termination
  by (relation "measure unat") (auto simp: drop_bit_7_less drop_bit_7_zero not_less)

declare encodeVarintRaft.simps [simp del] sovRaft.simps [simp del]

text \<open>\<open>Size\<close> reserves exactly the bytes \<open>MarshalTo\<close> writes.\<close>

lemma encodeVarintRaft_length: "length (encodeVarintRaft v) = sovRaft v"
proof (induction v rule: encodeVarintRaft.induct)
  case (1 v)
  then show ?case
    by (subst encodeVarintRaft.simps, subst sovRaft.simps)
       (auto simp: Let_def drop_bit_7_zero not_less)
qed

definition str_bytes :: "string \<Rightarrow> byte list" where
  "str_bytes s = map of_char s"

lemma str_bytes_length [simp]: "length (str_bytes s) = length s"
  by (simp add: str_bytes_def)

definition bytes_string :: "byte list \<Rightarrow> string" where
  "bytes_string bs = map (\<lambda>b. char_of (unat b)) bs"

lemma bytes_string_bytes [simp]: "bytes_string (str_bytes t) = t"
proof -
  have "char_of (unat (of_char c :: byte)) = c" for c
  proof -
    have "unat (of_nat (of_char c) :: byte) = of_char c" by (simp add: unat_of_nat)
    then show ?thesis by (simp add: of_nat_of_char)
  qed
  then show ?thesis by (simp add: bytes_string_def str_bytes_def o_def)
qed

section \<open>Encoding a config change\<close>

definition ConfigChangeType_value :: "config_change_type \<Rightarrow> u64" where
  "ConfigChangeType_value t = (case t of AddNode \<Rightarrow> 0 | RemoveNode \<Rightarrow> 1 | AddObserver \<Rightarrow> 2)"

definition ConfigChange_Size :: "config_change \<Rightarrow> nat" where
  "ConfigChange_Size m =
     1 + sovRaft (cc_ConfigChangeId m) + (1 + sovRaft (ConfigChangeType_value (cc_Type m)))
     + (1 + sovRaft (cc_NodeID m))
     + (1 + length (cc_Address m) + sovRaft (of_nat (length (cc_Address m)))) + 2"

definition ConfigChange_MarshalTo :: "config_change \<Rightarrow> byte list" where
  "ConfigChange_MarshalTo m =
     [0x8] @ encodeVarintRaft (cc_ConfigChangeId m)
     @ [0x10] @ encodeVarintRaft (ConfigChangeType_value (cc_Type m))
     @ [0x18] @ encodeVarintRaft (cc_NodeID m)
     @ [0x22] @ encodeVarintRaft (of_nat (length (cc_Address m))) @ str_bytes (cc_Address m)
     @ [0x28] @ [if cc_Initialize m then 1 else 0]"

text \<open>\<open>Marshal\<close> allocates \<open>Size\<close> bytes; writing past them panics.\<close>

definition ConfigChange_Marshal :: "config_change \<Rightarrow> byte list option" where
  "ConfigChange_Marshal m =
     (let dAtA = ConfigChange_MarshalTo m in
      if length dAtA > ConfigChange_Size m then panic else Some dAtA)"

lemma ConfigChange_Marshal_total: "ConfigChange_Marshal m = Some (ConfigChange_MarshalTo m)"
  by (simp add: ConfigChange_Marshal_def ConfigChange_MarshalTo_def ConfigChange_Size_def
      encodeVarintRaft_length)

end
