(* ===== verification/Peer.thy ===== *)
theory Peer
  imports RaftSteps ProtoWire
begin

text \<open>
  \<open>internal/raft/peer.go\<close>: the interface through which the node host drives a Raft node. Local
  requests become messages; \<open>GetUpdate\<close> collects what must be saved, sent and applied, and
  \<open>Commit\<close> acknowledges it. The field \<open>leaderID\<close> of the Go struct is written by the \<open>recordLeader\<close>
  callback only and is kept in \<open>r_recordLeader\<close>.
\<close>

section \<open>Definitions\<close>

record peer_address =
  pa_NodeID :: u64
  pa_Address :: string

record peer =
  p_raft :: raft
  p_prevState :: pb_state

text \<open>The bootstrap entries a new cluster starts with: one config change per initial member.\<close>

primrec bootstrapEntries :: "nat \<Rightarrow> peer_address list \<Rightarrow> entry list option" where
  "bootstrapEntries i [] = Some []"
| "bootstrapEntries i (p # ps) = do {
     data \<leftarrow> ConfigChange_Marshal \<lparr>cc_ConfigChangeId = 0, cc_Type = AddNode, cc_NodeID = pa_NodeID p,
        cc_Address = pa_Address p, cc_Initialize = True\<rparr>;
     es \<leftarrow> bootstrapEntries (i + 1) ps;
     Some (empty_entry\<lparr>e_Type := ConfigChangeEntry, e_Term := 1, e_Index := of_nat (i + 1),
             e_Cmd := data\<rparr> # es) }"

definition LaunchPeer ::
    "config \<Rightarrow> ilogdb \<Rightarrow> (nat \<Rightarrow> u64) \<Rightarrow> peer_address list \<Rightarrow> bool \<Rightarrow> bool \<Rightarrow> peer option" where
  "LaunchPeer c logdb rng addresses initial newNode =
     (if cfg_NodeID c = 0 then panic
      else if initial \<and> newNode \<and> length addresses = 0 then panic
      else if length (remdups (map pa_Address addresses)) \<noteq> length addresses then panic
      else do {
        r \<leftarrow> newRaft c logdb rng;
        let r = r\<lparr>r_recordLeader := Some 0\<rparr>;
        let (_, lastIndex) = db_GetRange logdb;
        r \<leftarrow> (if newNode \<and> \<not> cfg_IsObserver c then becomeFollower r 1 NoLeader else Some r);
        r \<leftarrow> (if initial \<and> newNode then do {
               let addresses = sort_key pa_NodeID addresses;
               ents \<leftarrow> bootstrapEntries 0 addresses;
               l \<leftarrow> el_append (r_log r) ents;
               let r = r\<lparr>r_log := l\<lparr>el_committed := of_nat (length ents)\<rparr>\<rparr>;
               go_fold (\<lambda>peer r. addNode r (pa_NodeID peer)) addresses r }
             else Some r);
        Some \<lparr>p_raft = r,
              p_prevState = (if lastIndex = 0 then emptyState else raftState r)\<rparr> })"

definition lift_raft :: "peer \<Rightarrow> raft option \<Rightarrow> peer option" where
  "lift_raft rc r = map_option (\<lambda>r. rc\<lparr>p_raft := r\<rparr>) r"

definition Peer_Tick :: "peer \<Rightarrow> peer option" where
  "Peer_Tick rc = lift_raft rc (tick (p_raft rc))"

definition Peer_QuiescedTick :: "peer \<Rightarrow> peer" where
  "Peer_QuiescedTick rc = rc\<lparr>p_raft := quiescedTick (p_raft rc)\<rparr>"

definition Peer_RequestLeaderTransfer :: "peer \<Rightarrow> u64 \<Rightarrow> peer option" where
  "Peer_RequestLeaderTransfer rc target = lift_raft rc (Handle (p_raft rc)
     (empty_message\<lparr>m_Type := LeaderTransfer, m_To := r_nodeID (p_raft rc), m_From := target,
        m_Hint := target\<rparr>))"

definition Peer_ProposeEntries :: "peer \<Rightarrow> entry list \<Rightarrow> peer option" where
  "Peer_ProposeEntries rc ents = lift_raft rc (Handle (p_raft rc)
     (empty_message\<lparr>m_Type := Propose, m_From := r_nodeID (p_raft rc), m_Entries := ents\<rparr>))"

definition Peer_ProposeConfigChange :: "peer \<Rightarrow> config_change \<Rightarrow> u64 \<Rightarrow> peer option" where
  "Peer_ProposeConfigChange rc configChange key = do {
     data \<leftarrow> ConfigChange_Marshal configChange;
     lift_raft rc (Handle (p_raft rc) (empty_message\<lparr>m_Type := Propose,
       m_Entries := [empty_entry\<lparr>e_Type := ConfigChangeEntry, e_Cmd := data, e_Key := key\<rparr>]\<rparr>)) }"

definition Peer_Campaign :: "peer \<Rightarrow> peer option" where
  "Peer_Campaign rc = lift_raft rc (Handle (p_raft rc) (empty_message\<lparr>m_Type := Election\<rparr>))"

definition Peer_ApplyConfigChange :: "peer \<Rightarrow> config_change \<Rightarrow> peer option" where
  "Peer_ApplyConfigChange rc cc =
     (if cc_NodeID cc = NoLeader then Some (rc\<lparr>p_raft := clearPendingConfigChange (p_raft rc)\<rparr>)
      else case cc_Type cc of
        AddNode \<Rightarrow> lift_raft rc (addNode (p_raft rc) (cc_NodeID cc))
      | RemoveNode \<Rightarrow> lift_raft rc (removeNode (p_raft rc) (cc_NodeID cc))
      | AddObserver \<Rightarrow> Some (rc\<lparr>p_raft := raft_addObserver (p_raft rc) (cc_NodeID cc)\<rparr>))"

definition Peer_RejectConfigChange :: "peer \<Rightarrow> peer" where
  "Peer_RejectConfigChange rc = rc\<lparr>p_raft := clearPendingConfigChange (p_raft rc)\<rparr>"

definition Peer_RestoreRemotes :: "peer \<Rightarrow> snapshot \<Rightarrow> peer option" where
  "Peer_RestoreRemotes rc ss = lift_raft rc (restoreRemotes (p_raft rc) ss)"

definition Peer_ReportUnreachableNode :: "peer \<Rightarrow> u64 \<Rightarrow> peer option" where
  "Peer_ReportUnreachableNode rc nodeID = lift_raft rc (Handle (p_raft rc)
     (empty_message\<lparr>m_Type := Unreachable, m_From := nodeID\<rparr>))"

definition Peer_ReportSnapshotStatus :: "peer \<Rightarrow> u64 \<Rightarrow> bool \<Rightarrow> peer option" where
  "Peer_ReportSnapshotStatus rc nodeID reject = lift_raft rc (Handle (p_raft rc)
     (empty_message\<lparr>m_Type := SnapshotStatus, m_From := nodeID, m_Reject := reject\<rparr>))"

definition Peer_Handle :: "peer \<Rightarrow> message \<Rightarrow> peer option" where
  "Peer_Handle rc m =
     (if isLocalMessageType (m_Type m) then panic
      else
        let rok = map_of (r_remotes (p_raft rc)) (m_From m) \<noteq> None;
            ook = map_of (r_observers (p_raft rc)) (m_From m) \<noteq> None in
        if rok \<or> ook \<or> \<not> isResponseMessageType (m_Type m)
        then lift_raft rc (Handle (p_raft rc) m) else Some rc)"

definition getUpdateCommit :: "update \<Rightarrow> update_commit" where
  "getUpdateCommit ud =
     (let uc = empty_update_commit\<lparr>uc_ReadyToRead := of_nat (length (ud_ReadyToReads ud))\<rparr>;
          uc = (if length (ud_CommittedEntries ud) > 0
                then uc\<lparr>uc_AppliedTo := e_Index (last (ud_CommittedEntries ud))\<rparr> else uc);
          uc = (if length (ud_EntriesToSave ud) > 0
                then uc\<lparr>uc_StableLogTo := e_Index (last (ud_EntriesToSave ud)),
                        uc_StableLogTerm := e_Term (last (ud_EntriesToSave ud))\<rparr> else uc)
      in if \<not> IsEmptySnapshot (ud_Snapshot ud)
         then uc\<lparr>uc_StableSnapshotTo := ss_Index (ud_Snapshot ud),
                 uc_AppliedTo := max (uc_AppliedTo uc) (ss_Index (ud_Snapshot ud))\<rparr>
         else uc)"

definition getUpdate :: "raft \<Rightarrow> pb_state \<Rightarrow> bool \<Rightarrow> update option" where
  "getUpdate r ppst moreEntriesToApply = do {
     toSave \<leftarrow> el_entriesToSave (r_log r);
     let ud = empty_update\<lparr>ud_ClusterID := r_clusterID r, ud_NodeID := r_nodeID r,
        ud_EntriesToSave := toSave, ud_Messages := r_msgs r\<rparr>;
     ud \<leftarrow> (if moreEntriesToApply then do {
             es \<leftarrow> el_entriesToApply (r_log r); Some (ud\<lparr>ud_CommittedEntries := es\<rparr>) }
           else Some ud);
     let ud = (if length (ud_CommittedEntries ud) > 0
               then ud\<lparr>ud_MoreCommittedEntries :=
                 el_hasMoreEntriesToApply (r_log r) (e_Index (last (ud_CommittedEntries ud)))\<rparr>
               else ud);
     let ud = (if \<not> IsStateEqual (raftState r) ppst then ud\<lparr>ud_State := raftState r\<rparr> else ud);
     let ud = (case im_snapshot (el_inmem (r_log r)) of
                 Some ss \<Rightarrow> ud\<lparr>ud_Snapshot := ss\<rparr> | None \<Rightarrow> ud);
     let ud = (if length (r_readyToRead r) > 0 then ud\<lparr>ud_ReadyToReads := r_readyToRead r\<rparr> else ud);
     Some (ud\<lparr>ud_UpdateCommit := getUpdateCommit ud\<rparr>) }"

definition Peer_GetUpdate :: "peer \<Rightarrow> bool \<Rightarrow> update option" where
  "Peer_GetUpdate rc moreEntriesToApply = getUpdate (p_raft rc) (p_prevState rc) moreEntriesToApply"

definition Peer_HasUpdate :: "peer \<Rightarrow> bool \<Rightarrow> bool option" where
  "Peer_HasUpdate rc moreEntriesToApply =
     (let r = p_raft rc; pst = raftState r in
      if \<not> IsEmptyState pst \<and> \<not> IsStateEqual pst (p_prevState rc) then Some True
      else if (case im_snapshot (el_inmem (r_log r)) of Some ss \<Rightarrow> \<not> IsEmptySnapshot ss | None \<Rightarrow> False)
      then Some True
      else if length (r_msgs r) > 0 then Some True
      else do {
        toSave \<leftarrow> el_entriesToSave (r_log r);
        if length toSave > 0 then Some True
        else if moreEntriesToApply \<and> el_hasEntriesToApply (r_log r) then Some True
        else if length (r_readyToRead r) \<noteq> 0 then Some True
        else Some False })"

definition Peer_Commit :: "peer \<Rightarrow> update \<Rightarrow> peer option" where
  "Peer_Commit rc ud = do {
     let rc = rc\<lparr>p_raft := (p_raft rc)\<lparr>r_msgs := []\<rparr>\<rparr>;
     let rc = (if \<not> IsEmptyState (ud_State ud) then rc\<lparr>p_prevState := ud_State ud\<rparr> else rc);
     let rc = (if uc_ReadyToRead (ud_UpdateCommit ud) > 0
               then rc\<lparr>p_raft := clearReadyToRead (p_raft rc)\<rparr> else rc);
     l \<leftarrow> el_commitUpdate (r_log (p_raft rc)) (ud_UpdateCommit ud);
     Some (rc\<lparr>p_raft := (p_raft rc)\<lparr>r_log := l\<rparr>\<rparr>) }"

definition Peer_LocalStatus :: "peer \<Rightarrow> raft_status" where
  "Peer_LocalStatus rc = getLocalStatus (p_raft rc)"

definition Peer_ReadIndex :: "peer \<Rightarrow> system_ctx \<Rightarrow> peer option" where
  "Peer_ReadIndex rc ctx = lift_raft rc (Handle (p_raft rc)
     (empty_message\<lparr>m_Type := ReadIndex, m_Hint := ctx_Low ctx, m_HintHigh := ctx_High ctx\<rparr>))"

definition Peer_GetLeaderID :: "peer \<Rightarrow> u64 option" where
  "Peer_GetLeaderID rc = r_recordLeader (p_raft rc)"

definition Peer_NotifyRaftLastApplied :: "peer \<Rightarrow> u64 \<Rightarrow> peer" where
  "Peer_NotifyRaftLastApplied rc lastApplied = rc\<lparr>p_raft := setApplied (p_raft rc) lastApplied\<rparr>"

end
