(* ===== verification/Quorum.thy ===== *)
theory Quorum
  imports Main
begin

text \<open>
  Quorums. The interface a voting argument needs is that two quorums of the same electorate share
  a member; the electorate's majorities, the quorums of \<open>raft.quorum\<close>, provide it.
\<close>

locale quorum_system =
  fixes is_q :: "'v set \<Rightarrow> 'v set \<Rightarrow> bool"
  assumes q_voters: "is_q N Q \<Longrightarrow> Q \<subseteq> N"
    and q_overlap: "is_q N Q \<Longrightarrow> is_q N Q' \<Longrightarrow> Q \<inter> Q' \<noteq> {}"
begin

text \<open>If every voter of a quorum casts its single vote for the winner, there is one winner.\<close>

lemma single_winner:
  assumes "is_q N Q" and "is_q N Q'"
    and "\<And>v. v \<in> Q \<Longrightarrow> vote v = w" and "\<And>v. v \<in> Q' \<Longrightarrow> vote v = w'"
  shows "w = w'"
proof -
  from q_overlap [OF assms(1,2)] obtain v where "v \<in> Q" "v \<in> Q'" by blast
  with assms(3,4) show ?thesis by auto
qed

lemma single_winner_rel:
  assumes "is_q N Q" and "is_q N Q'"
    and "\<And>v. v \<in> Q \<Longrightarrow> R v w" and "\<And>v. v \<in> Q' \<Longrightarrow> R v w'"
    and "\<And>v x y. R v x \<Longrightarrow> R v y \<Longrightarrow> x = y"
  shows "w = w'"
proof -
  from q_overlap [OF assms(1,2)] obtain v where "v \<in> Q" "v \<in> Q'" by blast
  with assms(3-5) show ?thesis by blast
qed

end

definition majority :: "'v set \<Rightarrow> 'v set \<Rightarrow> bool" where
  "majority N Q \<longleftrightarrow> finite N \<and> Q \<subseteq> N \<and> card N div 2 + 1 \<le> card Q"

interpretation maj: quorum_system majority
proof
  fix N Q Q' :: "'v set"
  show "majority N Q \<Longrightarrow> Q \<subseteq> N" by (simp add: majority_def)
  assume m: "majority N Q" "majority N Q'"
  show "Q \<inter> Q' \<noteq> {}"
  proof
    assume "Q \<inter> Q' = {}"
    then have "card (Q \<union> Q') = card Q + card Q'"
      using m by (intro card_Un_disjoint) (auto simp: majority_def intro: finite_subset)
    moreover have "card (Q \<union> Q') \<le> card N"
      using m by (intro card_mono) (auto simp: majority_def)
    ultimately show False using m by (auto simp: majority_def)
  qed
qed

end
