(* ===== verification/Cluster.thy ===== *)
theory Cluster
  imports Peer Quorum
begin

text \<open>
  A Raft cluster: one peer per member, a network that may delay, reorder, duplicate and drop
  messages, and for every member the Raft state (term, vote, commit) it has saved.

  The steps are those the node host takes. A peer ticks, handles a request of its own host, or
  handles a message from the network; a round of \<open>GetUpdate\<close> and \<open>Commit\<close> saves the state and sends
  the queued messages, in that order; and a peer may crash at any moment, losing everything that
  was not saved, and be launched again from the saved state. The membership is fixed: \<open>N\<close> are the
  voting members and \<open>Obs\<close> the observers. \<open>cl_leaders\<close> records which node was leader in which term.
  A run stays below the largest term number, where the addition in \<open>becomeCandidate\<close> would wrap
  around.
\<close>

section \<open>State and steps\<close>

record cluster =
  cl_peer :: "u64 \<Rightarrow> peer"
  cl_disk :: "u64 \<Rightarrow> pb_state"
  cl_net :: "message set"
  cl_leaders :: "(u64 \<times> u64) set"

abbreviation cl_raft :: "cluster \<Rightarrow> u64 \<Rightarrow> raft" where
  "cl_raft s i \<equiv> p_raft (cl_peer s i)"

definition cl_set :: "cluster \<Rightarrow> u64 \<Rightarrow> peer \<Rightarrow> cluster" where
  "cl_set s i p = s\<lparr>cl_peer := (cl_peer s)(i := p),
     cl_leaders := cl_leaders s \<union> (if r_state (p_raft p) = leader then {(i, r_term (p_raft p))} else {})\<rparr>"

text \<open>A request of the node's own host.\<close>

definition peer_local :: "peer \<Rightarrow> peer \<Rightarrow> bool" where
  "peer_local p p' \<longleftrightarrow>
     Peer_Tick p = Some p' \<or> p' = Peer_QuiescedTick p
     \<or> (\<exists>t. Peer_RequestLeaderTransfer p t = Some p')
     \<or> (\<exists>es. Peer_ProposeEntries p es = Some p')
     \<or> (\<exists>cc key. Peer_ProposeConfigChange p cc key = Some p')
     \<or> Peer_Campaign p = Some p' \<or> p' = Peer_RejectConfigChange p
     \<or> (\<exists>i. Peer_ReportUnreachableNode p i = Some p')
     \<or> (\<exists>i b. Peer_ReportSnapshotStatus p i b = Some p')
     \<or> (\<exists>ctx. Peer_ReadIndex p ctx = Some p')
     \<or> (\<exists>i. p' = Peer_NotifyRaftLastApplied p i)"

definition launched :: "u64 set \<Rightarrow> u64 set \<Rightarrow> u64 \<Rightarrow> pb_state \<Rightarrow> peer \<Rightarrow> bool" where
  "launched N Obs i st p \<longleftrightarrow>
     (\<exists>c db rng. cfg_NodeID c = i \<and> (cfg_IsObserver c \<longleftrightarrow> i \<in> Obs) \<and> fst (db_NodeState db) = st
        \<and> gomap_ok (mb_Addresses (snd (db_NodeState db)))
        \<and> gomap_keys (mb_Addresses (snd (db_NodeState db))) = N
        \<and> gomap_keys (mb_Observers (snd (db_NodeState db))) = Obs
        \<and> LaunchPeer c db rng [] False False = Some p)"

inductive cl_step :: "u64 set \<Rightarrow> u64 set \<Rightarrow> cluster \<Rightarrow> cluster \<Rightarrow> bool" for N Obs where
  local: "i \<in> N \<union> Obs \<Longrightarrow> peer_local (cl_peer s i) p' \<Longrightarrow> r_term (p_raft p') \<noteq> max_u64 \<Longrightarrow>
    cl_step N Obs s (cl_set s i p')"
| deliver: "i \<in> N \<union> Obs \<Longrightarrow> m \<in> cl_net s \<Longrightarrow> m_To m = i \<Longrightarrow> Peer_Handle (cl_peer s i) m = Some p' \<Longrightarrow>
    r_term (p_raft p') \<noteq> max_u64 \<Longrightarrow> cl_step N Obs s (cl_set s i p')"
| update: "i \<in> N \<union> Obs \<Longrightarrow> Peer_GetUpdate (cl_peer s i) b = Some ud \<Longrightarrow>
    Peer_Commit (cl_peer s i) ud = Some p' \<Longrightarrow>
    cl_step N Obs s ((cl_set s i p')
      \<lparr>cl_net := cl_net s \<union> set (ud_Messages ud),
       cl_disk := (cl_disk s)(i := if IsEmptyState (ud_State ud) then cl_disk s i else ud_State ud)\<rparr>)"
| crash: "i \<in> N \<union> Obs \<Longrightarrow> launched N Obs i (cl_disk s i) p' \<Longrightarrow> cl_step N Obs s (cl_set s i p')"

definition cl_init :: "u64 set \<Rightarrow> u64 set \<Rightarrow> cluster \<Rightarrow> bool" where
  "cl_init N Obs s \<longleftrightarrow> finite N \<and> N \<inter> Obs = {} \<and> 0 \<notin> N \<union> Obs \<and> cl_net s = {} \<and> cl_leaders s = {}
     \<and> (\<forall>i \<in> N \<union> Obs. launched N Obs i (cl_disk s i) (cl_peer s i) \<and> st_Term (cl_disk s i) \<noteq> max_u64)"

inductive cl_reach :: "u64 set \<Rightarrow> u64 set \<Rightarrow> cluster \<Rightarrow> bool" for N Obs where
  init: "cl_init N Obs s \<Longrightarrow> cl_reach N Obs s"
| step: "cl_reach N Obs s \<Longrightarrow> cl_step N Obs s s' \<Longrightarrow> cl_reach N Obs s'"

section \<open>What a peer does in one step\<close>

lemma lift_raft_Some: "lift_raft p x = Some p' \<longleftrightarrow> (\<exists>r. x = Some r \<and> p' = p\<lparr>p_raft := r\<rparr>)"
  by (auto simp: lift_raft_def)

lemma Handle_local_effect:
  assumes "Handle r m = Some r'" and "m_Term m = 0"
    and "m_Type m \<noteq> RequestVote" and "m_Type m \<noteq> RequestVoteResp"
  shows "calm r r' \<or> campaigned r r'"
  using assms defaultHandle_effect [of r m r']
  by (auto simp: Handle_local effect_def granted_def counted_def)

lemma peer_local_cases:
  assumes "peer_local p p'"
  shows "\<exists>r. p' = p\<lparr>p_raft := r\<rparr> \<and> (tick (p_raft p) = Some r \<or> calm (p_raft p) r
    \<or> (\<exists>m. Handle (p_raft p) m = Some r \<and> m_Term m = 0 \<and> m_Type m \<noteq> RequestVote
          \<and> m_Type m \<noteq> RequestVoteResp))"
proof -
  have c: "calm r (quiescedTick r)" "calm r (clearPendingConfigChange r)" "calm r (setApplied r i)" for r i
    by (simp_all add: quiescedTick_def clearPendingConfigChange_def setApplied_def calm_def
        same_node_def sent_ok_same)
  show ?thesis
    using assms unfolding peer_local_def
  proof (elim disjE exE)
    fix cc key assume "Peer_ProposeConfigChange p cc key = Some p'"
    then obtain m r where "Handle (p_raft p) m = Some r" "p' = p\<lparr>p_raft := r\<rparr>"
      "m_Term m = 0" "m_Type m = Propose"
      by (auto simp: Peer_ProposeConfigChange_def lift_raft_Some elim!: bind_SomeE)
    then show ?thesis by fastforce
  qed (use c in \<open>fastforce simp: Peer_Tick_def Peer_QuiescedTick_def Peer_RequestLeaderTransfer_def
    Peer_ProposeEntries_def Peer_Campaign_def Peer_RejectConfigChange_def
    Peer_ReportUnreachableNode_def Peer_ReportSnapshotStatus_def Peer_ReadIndex_def
    Peer_NotifyRaftLastApplied_def lift_raft_Some\<close>)+
qed

lemma peer_local_effect:
  assumes "peer_local p p'"
  shows "p_prevState p' = p_prevState p"
    and "calm (p_raft p) (p_raft p') \<or> campaigned (p_raft p) (p_raft p')"
proof -
  from peer_local_cases [OF assms] obtain r where r: "p' = p\<lparr>p_raft := r\<rparr>"
    and "tick (p_raft p) = Some r \<or> calm (p_raft p) r
    \<or> (\<exists>m. Handle (p_raft p) m = Some r \<and> m_Term m = 0 \<and> m_Type m \<noteq> RequestVote
          \<and> m_Type m \<noteq> RequestVoteResp)"
    by blast
  then show "calm (p_raft p) (p_raft p') \<or> campaigned (p_raft p) (p_raft p')"
  proof (elim disjE exE conjE)
    fix m assume "Handle (p_raft p) m = Some r" "m_Term m = 0" "m_Type m \<noteq> RequestVote"
      "m_Type m \<noteq> RequestVoteResp"
    then show ?thesis using Handle_local_effect r by simp
  qed (use tick_effect r in simp_all)
  from r show "p_prevState p' = p_prevState p" by simp
qed

lemma Peer_Handle_effect:
  assumes "Peer_Handle p m = Some p'"
  shows "p_prevState p' = p_prevState p"
    and "calm (p_raft p) (p_raft p') \<or>
      (\<exists>r1. bumped (p_raft p) m r1 \<and> effect r1 m (p_raft p')
          \<and> (m_Type m = RequestVoteResp \<longrightarrow>
               m_From m \<in> gomap_keys (r_remotes (p_raft p)) \<union> gomap_keys (r_observers (p_raft p))))"
proof -
  let ?from = "m_From m \<in> gomap_keys (r_remotes (p_raft p)) \<union> gomap_keys (r_observers (p_raft p))"
  from assms have "p' = p \<or> (\<exists>r'. Handle (p_raft p) m = Some r' \<and> p' = p\<lparr>p_raft := r'\<rparr>
      \<and> (m_Type m = RequestVoteResp \<longrightarrow> ?from))"
    by (auto simp: Peer_Handle_def lift_raft_Some isResponseMessageType_def Let_def
        map_of_eq_None_keys split: if_splits)
  then have "p_prevState p' = p_prevState p \<and> (calm (p_raft p) (p_raft p') \<or>
      (\<exists>r1. bumped (p_raft p) m r1 \<and> effect r1 m (p_raft p') \<and> (m_Type m = RequestVoteResp \<longrightarrow> ?from)))"
  proof (elim disjE exE conjE)
    fix r' assume "Handle (p_raft p) m = Some r'" and p': "p' = p\<lparr>p_raft := r'\<rparr>"
      and f: "m_Type m = RequestVoteResp \<longrightarrow> ?from"
    have "calm (p_raft p) r' \<or> (\<exists>r1. bumped (p_raft p) m r1 \<and> effect r1 m r')"
      by (rule Handle_effect) fact
    then show ?thesis using f by (auto simp: p')
  qed simp
  then show "p_prevState p' = p_prevState p" and "calm (p_raft p) (p_raft p') \<or>
      (\<exists>r1. bumped (p_raft p) m r1 \<and> effect r1 m (p_raft p') \<and> (m_Type m = RequestVoteResp \<longrightarrow> ?from))"
    by blast+
qed

lemma newRaft_frame:
  assumes "newRaft c db rng = Some r"
  shows "r_nodeID r = cfg_NodeID c" "map fst (r_remotes r) = map fst (mb_Addresses (snd (db_NodeState db)))"
    "map fst (r_observers r) = map fst (mb_Observers (snd (db_NodeState db)))"
    "r_term r = st_Term (fst (db_NodeState db))" "r_vote r = st_Vote (fst (db_NodeState db))"
    "r_votes r = []" "r_msgs r = []"
    "r_state r = (if cfg_IsObserver c then observer else follower)"
proof -
  let ?st = "fst (db_NodeState db)" and ?mb = "snd (db_NodeState db)"
  let ?r0 = "resetMatchValueArray (initRaft c db rng)"
  from assms obtain r1 where
    r1: "(if \<not> IsEmptyState ?st then loadState ?r0 ?st else Some ?r0) = Some r1"
    and r: "(if cfg_IsObserver c then becomeObserver (r1\<lparr>r_state := observer\<rparr>) (r_term r1) NoLeader
       else becomeFollower r1 (r_term r1) NoLeader) = Some r"
    unfolding newRaft_def Let_def by (simp split: if_splits) (elim bind_SomeE, simp)+
  have "r_nodeID r1 = cfg_NodeID c" "map fst (r_remotes r1) = map fst (mb_Addresses ?mb)"
    "map fst (r_observers r1) = map fst (mb_Observers ?mb)" "r_votes r1 = []" "r_msgs r1 = []"
    "r_term r1 = st_Term ?st" "r_vote r1 = st_Vote ?st"
    using r1
    by (auto simp: loadState_def initRaft_def map_fst_reset resetMatchValueArray_def Let_def
        IsEmptyState_def emptyState_def split: if_splits)
  with r becomeObserver_frame [of "r1\<lparr>r_state := observer\<rparr>" "r_term r1" NoLeader r]
    becomeFollower_frame [of r1 "r_term r1" NoLeader r]
  show "r_nodeID r = cfg_NodeID c" "map fst (r_remotes r) = map fst (mb_Addresses (snd (db_NodeState db)))"
    "map fst (r_observers r) = map fst (mb_Observers (snd (db_NodeState db)))"
    "r_term r = st_Term (fst (db_NodeState db))" "r_vote r = st_Vote (fst (db_NodeState db))"
    "r_votes r = []" "r_msgs r = []" "r_state r = (if cfg_IsObserver c then observer else follower)"
    by (auto simp: same_node_def split: if_splits)
qed

lemma launched_frame:
  assumes "launched N Obs i st p"
  shows "r_nodeID (p_raft p) = i" "gomap_keys (r_remotes (p_raft p)) = N" "gomap_ok (r_remotes (p_raft p))"
    "gomap_keys (r_observers (p_raft p)) = Obs" "r_term (p_raft p) = st_Term st"
    "r_vote (p_raft p) = st_Vote st" "r_votes (p_raft p) = []" "r_msgs (p_raft p) = []"
    "r_state (p_raft p) = (if i \<in> Obs then observer else follower)"
    "p_prevState p = emptyState \<or> (st_Term (p_prevState p) = st_Term st \<and> st_Vote (p_prevState p) = st_Vote st)"
proof -
  from assms obtain c db rng where c: "cfg_NodeID c = i" "cfg_IsObserver c \<longleftrightarrow> i \<in> Obs"
    "fst (db_NodeState db) = st" "gomap_ok (mb_Addresses (snd (db_NodeState db)))"
    "gomap_keys (mb_Addresses (snd (db_NodeState db))) = N"
    "gomap_keys (mb_Observers (snd (db_NodeState db))) = Obs"
    and l: "LaunchPeer c db rng [] False False = Some p"
    unfolding launched_def by blast
  from l obtain r where r: "newRaft c db rng = Some r"
    and p: "p_raft p = r\<lparr>r_recordLeader := Some 0\<rparr>"
      "p_prevState p = emptyState \<or> p_prevState p = raftState (p_raft p)"
    by (auto simp: LaunchPeer_def Let_def elim!: bind_SomeE split: if_splits prod.splits)
  note f = newRaft_frame [OF r]
  have "gomap_keys (r_remotes r) = N" "gomap_keys (r_observers r) = Obs"
    using f(2,3) c(5,6) by (metis list.set_map)+
  with f c p show "r_nodeID (p_raft p) = i" "gomap_keys (r_remotes (p_raft p)) = N"
    "gomap_ok (r_remotes (p_raft p))"
    "gomap_keys (r_observers (p_raft p)) = Obs" "r_term (p_raft p) = st_Term st"
    "r_vote (p_raft p) = st_Vote st" "r_votes (p_raft p) = []" "r_msgs (p_raft p) = []"
    "r_state (p_raft p) = (if i \<in> Obs then observer else follower)"
    "p_prevState p = emptyState \<or> (st_Term (p_prevState p) = st_Term st \<and> st_Vote (p_prevState p) = st_Vote st)"
    by (auto simp: raftState_def)
qed

end
