(* ===== verification/SampleData.thy ===== *)
theory SampleData
  imports EntryLogSpec RaftHandlers
begin

text \<open>
  Concrete inputs for the theorems to be applied to: an empty log database, a log of three entries
  in memory, of the terms 1, 1 and 2, of which the first is committed, and nodes of a three node
  cluster that hold such logs.
\<close>

definition demo_db :: "(u64, string) gomap \<Rightarrow> (u64, string) gomap \<Rightarrow> ilogdb" where
  "demo_db addrs obs = \<lparr>db_GetRange = (1, 0),
     db_NodeState = (emptyState, \<lparr>mb_ConfigChangeId = 0, mb_Addresses = addrs, mb_Removed = [],
        mb_Observers = obs\<rparr>),
     db_Term = (\<lambda>i. if i = 0 then Inr 0 else Inl ErrUnavailable),
     db_Entries = (\<lambda>low high maxSize. Inl ErrUnavailable),
     db_Snapshot = empty_snapshot\<rparr>"

definition demo_entry :: "u64 \<Rightarrow> u64 \<Rightarrow> entry" where
  "demo_entry t i = empty_entry\<lparr>e_Term := t, e_Index := i\<rparr>"

definition demo_log :: entryLog where
  "demo_log = \<lparr>el_logdb = demo_db [] [],
     el_inmem = \<lparr>im_snapshot = None, im_entries = [demo_entry 1 1, demo_entry 1 2, demo_entry 2 3],
                 im_markerIndex = 1, im_savedTo = 2\<rparr>,
     el_committed = 1, el_applied = 0\<rparr>"

definition demo_config :: "u64 \<Rightarrow> config" where
  "demo_config i = \<lparr>cfg_NodeID = i, cfg_ClusterID = 1, cfg_IsObserver = False, cfg_CheckQuorum = False,
     cfg_Quiesce = False, cfg_ElectionRTT = 10, cfg_HeartbeatRTT = 1, cfg_SnapshotEntries = 0,
     cfg_CompactionOverhead = 0, cfg_OrderedConfigChange = False\<rparr>"

definition demo_addrs :: "(u64, string) gomap" where
  "demo_addrs = [(1, ''a1''), (2, ''a2''), (3, ''a3'')]"

definition demo_rng :: "nat \<Rightarrow> u64" where
  "demo_rng n = of_nat n"

definition demo_raft :: "u64 \<Rightarrow> entryLog \<Rightarrow> raft" where
  "demo_raft i l = (initRaft (demo_config i) (demo_db demo_addrs []) demo_rng)\<lparr>r_log := l, r_term := 2\<rparr>"

text \<open>The same log when only its first entry has arrived.\<close>

definition demo_short :: entryLog where
  "demo_short = demo_log\<lparr>el_inmem := (el_inmem demo_log)\<lparr>im_entries := [demo_entry 1 1], im_savedTo := 1\<rparr>\<rparr>"

lemma demo_db_ok: "logdb_ok (demo_db a b) (\<lambda>n. empty_entry)"
proof -
  have "i = 0" if "unat i \<le> 0" for i :: u64 using that by (simp add: unat_eq_0)
  then show ?thesis
    unfolding logdb_ok_def demo_db_def by (auto simp: empty_entry_def)
qed

lemma demo_log_terms: "el_trm (\<lambda>n. empty_entry) demo_log n =
    (if n = 0 then 0 else if n = 1 \<or> n = 2 then 1 else e_Term ([demo_entry 1 1, demo_entry 1 2, demo_entry 2 3] ! (n - 1)))"
  by (auto simp: el_trm_def demo_log_def demo_entry_def)

lemma demo_log_inv: "el_inv (\<lambda>n. empty_entry) demo_log"
proof -
  have "n = 0 \<or> n = 1 \<or> n = 2" if "n < 3" for n :: nat using that by linarith
  then have "el_sorted (\<lambda>n. empty_entry) demo_log"
    unfolding el_sorted_def demo_log_terms
    by (auto simp: demo_log_def demo_entry_def)
  moreover have "el_firstIndex demo_log = 1"
    by (simp add: el_firstIndex_def im_getSnapshotIndex_def demo_log_def demo_db_def)
  moreover have "el_shape demo_log" by (simp add: el_shape_def demo_log_def demo_db_def)
  moreover have "im_inv (el_inmem demo_log)" by (simp add: im_inv_def demo_log_def demo_entry_def)
  moreover have "logdb_ok (el_logdb demo_log) (\<lambda>n. empty_entry)"
    using demo_db_ok by (simp add: demo_log_def)
  ultimately show ?thesis by (simp add: el_inv_def demo_log_def)
qed

lemma demo_short_inv: "el_inv (\<lambda>n. empty_entry) demo_short"
proof -
  have "el_sorted (\<lambda>n. empty_entry) demo_short"
    unfolding el_sorted_def by (auto simp: el_trm_def demo_short_def demo_log_def demo_entry_def)
  moreover have "el_firstIndex demo_short = 1"
    by (simp add: el_firstIndex_def im_getSnapshotIndex_def demo_short_def demo_log_def demo_db_def)
  moreover have "el_shape demo_short" by (simp add: el_shape_def demo_short_def demo_log_def demo_db_def)
  moreover have "im_inv (el_inmem demo_short)"
    by (simp add: im_inv_def demo_short_def demo_log_def demo_entry_def)
  moreover have "logdb_ok (el_logdb demo_short) (\<lambda>n. empty_entry)"
    using demo_db_ok by (simp add: demo_short_def demo_log_def)
  ultimately show ?thesis by (simp add: el_inv_def demo_short_def demo_log_def)
qed

lemma demo_raft_simps [simp]:
  "r_log (demo_raft i l) = l" "r_term (demo_raft i l) = 2" "r_nodeID (demo_raft i l) = i"
  "r_msgs (demo_raft i l) = []"
  by (simp_all add: demo_raft_def initRaft_def demo_config_def Let_def)

definition demo_replicate :: message where
  "demo_replicate = empty_message\<lparr>m_Type := Replicate, m_From := 1, m_To := 2, m_Term := 2,
     m_LogIndex := 1, m_LogTerm := 1, m_Entries := [demo_entry 1 2, demo_entry 2 3], m_Commit := 1\<rparr>"

end
