(* ===== verification/Samples.thy ===== *)
theory Samples
  imports Peer SampleData
begin

text \<open>
  The configuration of a three node cluster and the peers launched from it on empty log databases.
\<close>

definition demo_launch :: "u64 \<Rightarrow> peer option" where
  "demo_launch i = LaunchPeer (demo_config i) (demo_db demo_addrs []) demo_rng [] False False"

definition demo_peer :: "u64 \<Rightarrow> peer" where
  "demo_peer i = the (demo_launch i)"

lemma not_none_the: "\<not> Option.is_none x \<Longrightarrow> x = Some (the x)"
  by (cases x) simp_all

end
