(* ===== verification/DemoCluster.thy ===== *)
theory DemoCluster
  imports Cluster Samples
begin

text \<open>
  A run of a three node cluster in which node 1 campaigns, saves its vote and sends its requests,
  node 2 grants its vote, and node 1 becomes the leader of term 1.
\<close>

section \<open>The peers along the run\<close>

definition demo_campaign :: peer where
  "demo_campaign = the (Peer_Campaign (demo_peer 1))"

definition demo_update1 :: update where
  "demo_update1 = the (Peer_GetUpdate demo_campaign True)"

definition demo_saved1 :: peer where
  "demo_saved1 = the (Peer_Commit demo_campaign demo_update1)"

definition demo_request :: message where
  "demo_request = hd (ud_Messages demo_update1)"

definition demo_voter :: peer where
  "demo_voter = the (Peer_Handle (demo_peer 2) demo_request)"

definition demo_update2 :: update where
  "demo_update2 = the (Peer_GetUpdate demo_voter True)"

definition demo_saved2 :: peer where
  "demo_saved2 = the (Peer_Commit demo_voter demo_update2)"

definition demo_response :: message where
  "demo_response = hd (ud_Messages demo_update2)"

definition demo_leader :: peer where
  "demo_leader = the (Peer_Handle demo_saved1 demo_response)"

lemma demo_launch_runs: "\<not> Option.is_none (demo_launch 1)" "\<not> Option.is_none (demo_launch 2)"
  "\<not> Option.is_none (demo_launch 3)"
  by code_simp+

lemma demo_campaign_runs: "\<not> Option.is_none (Peer_Campaign (demo_peer 1))"
  "r_term (p_raft demo_campaign) = 1" "r_state (p_raft demo_campaign) = candidate"
  by code_simp+

lemma demo_update1_runs: "\<not> Option.is_none (Peer_GetUpdate demo_campaign True)"
  "\<not> Option.is_none (Peer_Commit demo_campaign demo_update1)"
  "ud_Messages demo_update1 \<noteq> []" "m_To demo_request = 2" "r_state (p_raft demo_saved1) = candidate"
  by code_simp+

lemma demo_voter_runs: "\<not> Option.is_none (Peer_Handle (demo_peer 2) demo_request)"
  "r_term (p_raft demo_voter) = 1" "r_state (p_raft demo_voter) = follower"
  by code_simp+

lemma demo_update2_runs: "\<not> Option.is_none (Peer_GetUpdate demo_voter True)"
  "\<not> Option.is_none (Peer_Commit demo_voter demo_update2)"
  "ud_Messages demo_update2 \<noteq> []" "m_To demo_response = 1" "r_state (p_raft demo_saved2) = follower"
  by code_simp+

lemma demo_leader_runs: "\<not> Option.is_none (Peer_Handle demo_saved1 demo_response)"
  "r_term (p_raft demo_leader) = 1" "r_state (p_raft demo_leader) = leader"
  by code_simp+

section \<open>The run of the cluster\<close>

definition demo_s0 :: cluster where
  "demo_s0 = \<lparr>cl_peer = demo_peer, cl_disk = (\<lambda>i. emptyState), cl_net = {}, cl_leaders = {}\<rparr>"

definition demo_s1 :: cluster where
  "demo_s1 = cl_set demo_s0 1 demo_campaign"

definition demo_s2 :: cluster where
  "demo_s2 = (cl_set demo_s1 1 demo_saved1)
     \<lparr>cl_net := cl_net demo_s1 \<union> set (ud_Messages demo_update1),
      cl_disk := (cl_disk demo_s1)(1 := if IsEmptyState (ud_State demo_update1) then cl_disk demo_s1 1
        else ud_State demo_update1)\<rparr>"

definition demo_s3 :: cluster where
  "demo_s3 = cl_set demo_s2 2 demo_voter"

definition demo_s4 :: cluster where
  "demo_s4 = (cl_set demo_s3 2 demo_saved2)
     \<lparr>cl_net := cl_net demo_s3 \<union> set (ud_Messages demo_update2),
      cl_disk := (cl_disk demo_s3)(2 := if IsEmptyState (ud_State demo_update2) then cl_disk demo_s3 2
        else ud_State demo_update2)\<rparr>"

definition demo_s5 :: cluster where
  "demo_s5 = cl_set demo_s4 1 demo_leader"

lemma demo_launched:
  assumes "i \<in> {1, 2, 3}"
  shows "launched {1, 2, 3} {} i emptyState (demo_peer i)"
proof -
  have "demo_launch i = Some (demo_peer i)"
    using assms demo_launch_runs not_none_the unfolding demo_peer_def by blast
  then show ?thesis
    unfolding launched_def demo_launch_def
    by (intro exI [of _ "demo_config i"] exI [of _ "demo_db demo_addrs []"] exI [of _ demo_rng])
      (simp add: demo_config_def demo_db_def demo_addrs_def)
qed

lemma demo_reach0: "cl_reach {1, 2, 3} {} demo_s0"
  by (rule cl_reach.init) (use demo_launched in \<open>simp add: cl_init_def demo_s0_def emptyState_def\<close>)

lemma demo_reach1: "cl_reach {1, 2, 3} {} demo_s1"
proof -
  have "Peer_Campaign (demo_peer 1) = Some demo_campaign"
    unfolding demo_campaign_def by (rule not_none_the [OF demo_campaign_runs(1)])
  then have "peer_local (cl_peer demo_s0 1) demo_campaign" by (simp add: peer_local_def demo_s0_def)
  then show ?thesis
    using cl_reach.step [OF demo_reach0 cl_step.local, of 1 demo_campaign] demo_campaign_runs
    by (simp add: demo_s1_def)
qed

lemma demo_reach2: "cl_reach {1, 2, 3} {} demo_s2"
proof -
  have "Peer_GetUpdate demo_campaign True = Some demo_update1"
    "Peer_Commit demo_campaign demo_update1 = Some demo_saved1"
    unfolding demo_update1_def demo_saved1_def
    by (rule not_none_the, rule demo_update1_runs [unfolded demo_update1_def])+
  then show ?thesis
    using cl_reach.step [OF demo_reach1 cl_step.update, of 1 True demo_update1 demo_saved1]
    by (simp add: demo_s2_def demo_s1_def cl_set_def)
qed

lemma demo_reach3: "cl_reach {1, 2, 3} {} demo_s3"
proof -
  have "Peer_Handle (demo_peer 2) demo_request = Some demo_voter"
    unfolding demo_voter_def by (rule not_none_the [OF demo_voter_runs(1)])
  moreover have "demo_request \<in> cl_net demo_s2"
    using demo_update1_runs(3) by (simp add: demo_s2_def demo_request_def)
  moreover have "cl_peer demo_s2 2 = demo_peer 2"
    by (simp add: demo_s2_def demo_s1_def demo_s0_def cl_set_def)
  ultimately show ?thesis
    using cl_reach.step [OF demo_reach2 cl_step.deliver, of 2 demo_request demo_voter]
      demo_update1_runs(4) demo_voter_runs(2)
    by (simp add: demo_s3_def)
qed

lemma demo_reach4: "cl_reach {1, 2, 3} {} demo_s4"
proof -
  have "Peer_GetUpdate demo_voter True = Some demo_update2"
    "Peer_Commit demo_voter demo_update2 = Some demo_saved2"
    unfolding demo_update2_def demo_saved2_def
    by (rule not_none_the, rule demo_update2_runs [unfolded demo_update2_def])+
  then show ?thesis
    using cl_reach.step [OF demo_reach3 cl_step.update, of 2 True demo_update2 demo_saved2]
    by (simp add: demo_s4_def demo_s3_def cl_set_def)
qed

lemma demo_reach5: "cl_reach {1, 2, 3} {} demo_s5"
proof -
  have "Peer_Handle demo_saved1 demo_response = Some demo_leader"
    unfolding demo_leader_def by (rule not_none_the [OF demo_leader_runs(1)])
  moreover have "demo_response \<in> cl_net demo_s4"
    using demo_update2_runs(3) by (simp add: demo_s4_def demo_response_def)
  moreover have "cl_peer demo_s4 1 = demo_saved1"
    by (simp add: demo_s4_def demo_s3_def demo_s2_def cl_set_def)
  ultimately show ?thesis
    using cl_reach.step [OF demo_reach4 cl_step.deliver, of 1 demo_response demo_leader]
      demo_update2_runs(4) demo_leader_runs(2)
    by (simp add: demo_s5_def)
qed

lemma demo_leaders: "cl_leaders demo_s5 = {(1, 1)}"
  using demo_campaign_runs demo_update1_runs demo_voter_runs demo_update2_runs demo_leader_runs
  by (simp add: demo_s5_def demo_s4_def demo_s3_def demo_s2_def demo_s1_def demo_s0_def cl_set_def)

end
