(* ===== verification/ElectionSafety.thy ===== *)
theory ElectionSafety
  imports DemoCluster
begin

text \<open>
  Election safety of the cluster: at most one node is leader in a term, over the whole run and
  through crashes.

  The invariant speaks of two sets of votes, triples of voter, term and candidate: \<open>H\<close> are the
  votes the running peers have cast, \<open>D\<close> those among them that are on disk (or superseded there
  by a later term). A voter has at most one vote per term in \<open>H\<close>; a granting message in the network
  stands for a vote in \<open>D\<close>, because the state is saved before the messages are sent; and a leader
  has a majority of votes in \<open>D\<close>.
\<close>

section \<open>Invariant\<close>

type_synonym ballots = "(u64 \<times> u64 \<times> u64) set"

definition queued_ok :: "ballots \<Rightarrow> ballots \<Rightarrow> u64 \<Rightarrow> message \<Rightarrow> bool" where
  "queued_ok H D i x \<longleftrightarrow> m_From x = i \<and> m_Term x \<noteq> max_u64
     \<and> (m_Type x = RequestVote \<longrightarrow> m_Term x \<noteq> 0 \<and> (i, m_Term x, i) \<in> H)
     \<and> (m_Type x = RequestVoteResp \<and> \<not> m_Reject x \<longrightarrow>
          m_Term x \<noteq> 0 \<and> (i, m_Term x, m_To x) \<in> H \<and> (m_To x, m_Term x, m_To x) \<in> D)"

definition tally_ok :: "u64 set \<Rightarrow> ballots \<Rightarrow> u64 \<Rightarrow> u64 \<Rightarrow> (u64, bool) gomap \<Rightarrow> bool" where
  "tally_ok N D i t vs \<longleftrightarrow> gomap_ok vs \<and>
     (\<forall>k. map_of vs k = Some True \<longrightarrow> k \<in> N \<and> (k = i \<or> (k, t, i) \<in> D \<and> (i, t, i) \<in> D))"

definition ballots_ok :: "ballots \<Rightarrow> u64 \<Rightarrow> u64 \<Rightarrow> u64 \<Rightarrow> bool" where
  "ballots_ok V i t v \<longleftrightarrow> (\<forall>t' x. (i, t', x) \<in> V \<longrightarrow> t' \<le> t \<and> (t' = t \<longrightarrow> v = x))
     \<and> (v \<noteq> 0 \<longrightarrow> (i, t, v) \<in> V)"

definition raft_ok :: "u64 set \<Rightarrow> u64 set \<Rightarrow> ballots \<Rightarrow> ballots \<Rightarrow> raft \<Rightarrow> u64 \<Rightarrow> bool" where
  "raft_ok N Obs H D r i \<longleftrightarrow>
     r_nodeID r = i \<and> gomap_ok (r_remotes r) \<and> gomap_keys (r_remotes r) = N
     \<and> gomap_keys (r_observers r) = Obs \<and> (r_state r = observer \<longleftrightarrow> i \<in> Obs) \<and> r_term r \<noteq> max_u64
     \<and> ballots_ok H i (r_term r) (r_vote r)
     \<and> (\<forall>x \<in> set (r_msgs r). queued_ok H D i x)
     \<and> (r_state r = candidate \<longrightarrow> r_vote r = i \<and> tally_ok N D i (r_term r) (r_votes r))"

definition disk_ok :: "ballots \<Rightarrow> pb_state \<Rightarrow> pb_state \<Rightarrow> u64 \<Rightarrow> bool" where
  "disk_ok D st prev i \<longleftrightarrow> ballots_ok D i (st_Term st) (st_Vote st) \<and> st_Term st \<noteq> max_u64
     \<and> (st_Term prev = 0 \<and> st_Vote prev = 0
        \<or> st_Term prev = st_Term st \<and> st_Vote prev = st_Vote st)"

definition elected :: "u64 set \<Rightarrow> ballots \<Rightarrow> u64 \<Rightarrow> u64 \<Rightarrow> bool" where
  "elected N D i t \<longleftrightarrow> i \<in> N \<and> (N = {i} \<or> (\<exists>Q. majority N Q \<and> (\<forall>k \<in> Q. (k, t, i) \<in> D)))"

definition votes_ok :: "ballots \<Rightarrow> ballots \<Rightarrow> bool" where
  "votes_ok H D \<longleftrightarrow> D \<subseteq> H \<and> (\<forall>i t x. (i, t, x) \<in> H \<longrightarrow> x \<noteq> 0)
     \<and> (\<forall>i t x y. (i, t, x) \<in> H \<longrightarrow> (i, t, y) \<in> H \<longrightarrow> x = y)"

definition es_inv :: "u64 set \<Rightarrow> u64 set \<Rightarrow> ballots \<Rightarrow> ballots \<Rightarrow> cluster \<Rightarrow> bool" where
  "es_inv N Obs H D s \<longleftrightarrow> finite N \<and> N \<inter> Obs = {} \<and> 0 \<notin> N \<union> Obs \<and> votes_ok H D
     \<and> (\<forall>x \<in> cl_net s. m_From x \<in> N \<union> Obs \<and> queued_ok D D (m_From x) x)
     \<and> (\<forall>i \<in> N \<union> Obs. raft_ok N Obs H D (cl_raft s i) i
          \<and> disk_ok D (cl_disk s i) (p_prevState (cl_peer s i)) i
          \<and> (r_state (cl_raft s i) = leader \<longrightarrow> (i, r_term (cl_raft s i)) \<in> cl_leaders s))
     \<and> (\<forall>(i, t) \<in> cl_leaders s. elected N D i t)"

section \<open>More votes\<close>

text \<open>Adding votes of one node leaves what is known of the others.\<close>

lemma queued_ok_mono: "queued_ok H D i x \<Longrightarrow> H \<subseteq> H' \<Longrightarrow> D \<subseteq> D' \<Longrightarrow> queued_ok H' D' i x"
  by (auto simp: queued_ok_def)

lemma tally_ok_mono: "tally_ok N D i t vs \<Longrightarrow> D \<subseteq> D' \<Longrightarrow> tally_ok N D' i t vs"
  by (auto simp: tally_ok_def)

lemma ballots_ok_cong:
  "ballots_ok V i t v \<Longrightarrow> (\<And>t x. (i, t, x) \<in> V' \<longleftrightarrow> (i, t, x) \<in> V) \<Longrightarrow> ballots_ok V' i t v"
  by (simp add: ballots_ok_def)

lemma queued_ok_local:
  assumes "queued_ok H D i x" and "\<And>t y. (i, t, y) \<in> H \<Longrightarrow> (i, t, y) \<in> H'" and "D \<subseteq> D'"
  shows "queued_ok H' D' i x"
  using assms by (auto simp: queued_ok_def)

lemma raft_ok_mono:
  assumes "raft_ok N Obs H D r i" and "\<And>t x. (i, t, x) \<in> H' \<longleftrightarrow> (i, t, x) \<in> H" and "D \<subseteq> D'"
  shows "raft_ok N Obs H' D' r i"
  using assms ballots_ok_cong [of H i "r_term r" "r_vote r" H']
    queued_ok_local [of H D i _ H' D'] tally_ok_mono [of N D i "r_term r" "r_votes r" D']
  by (auto simp: raft_ok_def)

lemma disk_ok_mono: "disk_ok D st prev i \<Longrightarrow> (\<And>t x. (i, t, x) \<in> D' \<longleftrightarrow> (i, t, x) \<in> D) \<Longrightarrow> disk_ok D' st prev i"
  using ballots_ok_cong [of D i "st_Term st" "st_Vote st" D'] by (auto simp: disk_ok_def)

lemma elected_mono: "elected N D i t \<Longrightarrow> D \<subseteq> D' \<Longrightarrow> elected N D' i t"
  unfolding elected_def by blast

lemma votes_ok_subset: "votes_ok H D \<Longrightarrow> D \<subseteq> H' \<Longrightarrow> H' \<subseteq> H \<Longrightarrow> votes_ok H' D"
  unfolding votes_ok_def by blast

section \<open>Casting a vote\<close>

definition cast_vote :: "ballots \<Rightarrow> raft \<Rightarrow> ballots" where
  "cast_vote H r = H \<union> (if r_vote r = 0 then {} else {(r_nodeID r, r_term r, r_vote r)})"

lemma cast_vote_other: "j \<noteq> r_nodeID r \<Longrightarrow> (j, t, x) \<in> cast_vote H r \<longleftrightarrow> (j, t, x) \<in> H"
  by (auto simp: cast_vote_def)

lemma cast_vote_ok:
  assumes "votes_ok H D" and "ballots_ok H i (r_term r) (r_vote r)" and "vote_step r r'"
    and "r_nodeID r' = i"
  shows "votes_ok (cast_vote H r') D" and "ballots_ok (cast_vote H r') i (r_term r') (r_vote r')"
proof -
  have old: "t \<le> r_term r' \<and> (t = r_term r' \<longrightarrow> r_vote r' = x)" if h: "(i, t, x) \<in> H" for t x
  proof -
    have "t \<le> r_term r" "t = r_term r \<Longrightarrow> r_vote r = x" "x \<noteq> 0"
      using assms(1,2) h by (auto simp: ballots_ok_def votes_ok_def)
    with assms(3) show ?thesis unfolding vote_step_def by (metis order.antisym order_trans)
  qed
  then show "ballots_ok (cast_vote H r') i (r_term r') (r_vote r')"
    using assms(4) by (auto simp: ballots_ok_def cast_vote_def)
  show "votes_ok (cast_vote H r') D"
    using assms(1,4) old by (auto simp: votes_ok_def cast_vote_def)
qed

section \<open>One node\<close>

lemma msgs_ok_queued:
  assumes "msgs_ok rv i t ms" and "t \<noteq> max_u64" and "rv \<Longrightarrow> (i, t, i) \<in> H"
  shows "\<forall>x \<in> set ms. queued_ok H D i x"
  using assms by (auto simp: msgs_ok_def queued_ok_def)

lemma same_node_keys:
  assumes "same_node r r'"
  shows "gomap_keys (r_remotes r') = gomap_keys (r_remotes r)"
    and "gomap_keys (r_observers r') = gomap_keys (r_observers r)"
  using assms unfolding same_node_def by (metis list.set_map)+

lemma raft_step_ok:
  assumes ok: "raft_ok N Obs H D r i" and vt: "votes_ok H D" and "same_node r r'" and "vote_step r r'"
    and "r_term r' \<noteq> max_u64" and "r_state r' = observer \<longleftrightarrow> r_state r = observer"
    and msgs: "r_msgs r' = r_msgs r @ ms" "\<forall>x \<in> set ms. queued_ok (cast_vote H r') D i x"
    and "r_state r' = candidate \<Longrightarrow> r_vote r' = i \<and> tally_ok N D i (r_term r') (r_votes r')"
  shows "raft_ok N Obs (cast_vote H r') D r' i"
proof -
  have id: "r_nodeID r' = i" "gomap_ok (r_remotes r')" "gomap_keys (r_remotes r') = N"
    "gomap_keys (r_observers r') = Obs"
    using ok assms(3) same_node_keys [OF assms(3)] by (simp_all add: raft_ok_def same_node_def)
  moreover have "ballots_ok (cast_vote H r') i (r_term r') (r_vote r')"
    using ok cast_vote_ok(2) [OF vt _ assms(4) id(1)] by (simp add: raft_ok_def)
  moreover have "queued_ok (cast_vote H r') D i x" if "x \<in> set (r_msgs r)" for x
    using ok that by (auto simp: raft_ok_def cast_vote_def intro: queued_ok_mono)
  ultimately show ?thesis using assms by (auto simp: raft_ok_def)
qed

text \<open>The votes a candidate has counted.\<close>

lemma tally_ok_cast:
  assumes "tally_ok N D i t vs" and "\<not> m_Reject m \<Longrightarrow> m_From m \<in> N \<and> (m_From m, t, i) \<in> D \<and> (i, t, i) \<in> D"
  shows "tally_ok N D i t (cast vs m)"
  using assms by (auto simp: tally_ok_def cast_def simp del: map_of_eq_Some_iff split: if_splits)

lemma tally_ok_elected:
  assumes ok: "tally_ok N D i t vs" and "finite N" and "i \<in> N"
    and q: "card N div 2 + 1 \<le> length (filter snd vs)"
  shows "elected N D i t"
proof -
  let ?Y = "{k. map_of vs k = Some True}"
  have "?Y = fst ` set (filter snd vs)"
    using ok by (auto simp: tally_ok_def map_of_eq_Some_iff image_iff Bex_def)
  moreover have "distinct (map fst (filter snd vs))"
    using ok by (simp add: tally_ok_def distinct_map_filter)
  ultimately have card: "card ?Y = length (filter snd vs)"
    using distinct_card [of "map fst (filter snd vs)"] by simp
  have sub: "?Y \<subseteq> N" using ok by (auto simp: tally_ok_def)
  then have maj: "majority N ?Y" using assms(2) card q by (simp add: majority_def)
  show ?thesis
  proof (cases "N = {i}")
    case True
    with assms(3) show ?thesis by (simp add: elected_def)
  next
    case False
    have "card N \<noteq> 1" using False assms(3) by (auto simp: card_1_singleton_iff)
    moreover have "card N \<noteq> 0" using assms(2,3) by auto
    ultimately have "2 \<le> card ?Y" using card q by linarith
    have "\<not> ?Y \<subseteq> {i}"
    proof
      assume "?Y \<subseteq> {i}"
      then have "card ?Y \<le> card {i}" by (intro card_mono) auto
      with \<open>2 \<le> card ?Y\<close> show False by simp
    qed
    then obtain k where "map_of vs k = Some True" "k \<noteq> i" by blast
    then have "(i, t, i) \<in> D" using ok by (auto simp: tally_ok_def)
    then have "\<forall>k \<in> ?Y. (k, t, i) \<in> D" using ok by (auto simp: tally_ok_def)
    with maj assms(3) show ?thesis unfolding elected_def by blast
  qed
qed

lemma raft_ok_quorum: "raft_ok N Obs H D r i \<Longrightarrow> quorum r = card N div 2 + 1"
  unfolding raft_ok_def quorum_def by (metis card_gomap_keys)

definition incoming :: "u64 set \<Rightarrow> u64 set \<Rightarrow> ballots \<Rightarrow> u64 \<Rightarrow> message \<Rightarrow> bool" where
  "incoming N Obs D i m \<longleftrightarrow> m_Term m \<noteq> max_u64
     \<and> (m_Type m = RequestVote \<or> m_Type m = RequestVoteResp \<longrightarrow>
          m_From m \<in> N \<union> Obs \<and> queued_ok D D (m_From m) m)
     \<and> (m_Type m = RequestVoteResp \<longrightarrow> m_To m = i)"

definition node_good :: "u64 set \<Rightarrow> u64 set \<Rightarrow> ballots \<Rightarrow> ballots \<Rightarrow> u64 \<Rightarrow> raft \<Rightarrow> raft \<Rightarrow> bool" where
  "node_good N Obs H D i r r' \<longleftrightarrow> raft_ok N Obs (cast_vote H r') D r' i
     \<and> (r_state r' = leader \<longrightarrow>
          elected N D i (r_term r') \<or> r_state r = leader \<and> r_term r = r_term r')"

text \<open>The common part of the four effects.\<close>

lemma bumped_frame:
  assumes "bumped r m r1"
  shows "same_node r r1" "r_msgs r1 = r_msgs r" "r_state r1 = observer \<longleftrightarrow> r_state r = observer"
    "m_Term m \<in> {0, r_term r1}" "r_state r1 = leader \<or> r_state r1 = candidate \<Longrightarrow> r1 = r"
  using assms by (auto simp: bumped_def split: if_splits)

lemma effect_frame:
  assumes "effect r m r'"
  shows "same_node r r'" "r_state r' = observer \<longleftrightarrow> r_state r = observer"
  using assms by (auto simp: effect_def calm_def granted_def counted_def campaigned_def)

lemma node_calm:
  assumes ok: "raft_ok N Obs H D r i" and vt: "votes_ok H D" and b: "bumped r m r1" and e: "calm r1 r'"
    and vs: "vote_step r r'" and mx: "r_term r' \<noteq> max_u64"
  shows "node_good N Obs H D i r r'"
proof -
  note bf = bumped_frame [OF b] and ef = effect_frame [of r1 m r']
  from e obtain ms where ms: "r_msgs r' = r_msgs r1 @ ms" "msgs_ok False (r_nodeID r') (r_term r') ms"
    by (auto simp: calm_def sent_ok_def)
  have sn: "same_node r r'" using bf(1) e same_node_trans by (auto simp: calm_def)
  then have id: "r_nodeID r' = i" using ok by (simp add: same_node_def raft_ok_def)
  have "raft_ok N Obs (cast_vote H r') D r' i"
  proof (rule raft_step_ok [OF ok vt sn vs mx])
    show "r_state r' = observer \<longleftrightarrow> r_state r = observer" using bf(3) ef e by (simp add: effect_def)
    show "r_msgs r' = r_msgs r @ ms" using ms(1) bf(2) by simp
    show "\<forall>x \<in> set ms. queued_ok (cast_vote H r') D i x"
      using msgs_ok_queued [OF ms(2) mx] id by simp
    assume "r_state r' = candidate"
    with e have "r_state r1 = candidate" "r_votes r' = r_votes r1" by (auto simp: calm_def)
    with bf(5) ok e show "r_vote r' = i \<and> tally_ok N D i (r_term r') (r_votes r')"
      by (auto simp: raft_ok_def calm_def)
  qed
  moreover have "r_state r = leader \<and> r_term r = r_term r'" if "r_state r' = leader"
    using that e bf(5) by (auto simp: calm_def)
  ultimately show ?thesis by (simp add: node_good_def)
qed

lemma node_campaigned:
  assumes ok: "raft_ok N Obs H D r i" and vt: "votes_ok H D" and b: "bumped r m r1"
    and e: "campaigned r1 r'" and vs: "vote_step r r'" and mx: "r_term r' \<noteq> max_u64"
    and i: "i \<in> N \<union> Obs" "0 \<notin> N \<union> Obs" "finite N"
  shows "node_good N Obs H D i r r'"
proof -
  note bf = bumped_frame [OF b] and ef = effect_frame [of r1 m r']
  from e obtain ms where ms: "r_msgs r' = r_msgs r1 @ ms" "msgs_ok True (r_nodeID r') (r_term r') ms"
    by (auto simp: campaigned_def sent_ok_def)
  have sn: "same_node r r'" using bf(1) e same_node_trans by (auto simp: campaigned_def)
  then have id: "r_nodeID r' = i" "r_nodeID r1 = i"
    using ok bf(1) by (simp_all add: same_node_def raft_ok_def)
  have inN: "i \<in> N" using e bf(3) ok i(1) by (auto simp: campaigned_def raft_ok_def)
  have self: "(i, r_term r', i) \<in> cast_vote H r'"
    using e id i(1,2) by (auto simp: campaigned_def cast_vote_def)
  have "raft_ok N Obs (cast_vote H r') D r' i"
  proof (rule raft_step_ok [OF ok vt sn vs mx])
    show "r_state r' = observer \<longleftrightarrow> r_state r = observer" using bf(3) ef e by (simp add: effect_def)
    show "r_msgs r' = r_msgs r @ ms" using ms(1) bf(2) by simp
    show "\<forall>x \<in> set ms. queued_ok (cast_vote H r') D i x"
      using msgs_ok_queued [OF ms(2) mx] id self by simp
    assume "r_state r' = candidate"
    with e id inN show "r_vote r' = i \<and> tally_ok N D i (r_term r') (r_votes r')"
      by (auto simp: campaigned_def tally_ok_def)
  qed
  moreover have "elected N D i (r_term r')" if "r_state r' = leader"
  proof -
    have "quorum r1 = 1" using that e by (auto simp: campaigned_def)
    then have "card N div 2 + 1 = 1"
      using raft_ok_quorum [OF ok] same_node_quorum [OF bf(1)] by simp
    moreover have "card N \<noteq> 0" using inN i(3) by auto
    ultimately have "card N = 1" by linarith
    with inN have "N = {i}" by (auto simp: card_1_singleton_iff)
    then show ?thesis by (simp add: elected_def)
  qed
  ultimately show ?thesis by (simp add: node_good_def)
qed

lemma node_granted:
  assumes ok: "raft_ok N Obs H D r i" and vt: "votes_ok H D" and b: "bumped r m r1"
    and e: "granted r1 m r'" and vs: "vote_step r r'" and mx: "r_term r' \<noteq> max_u64"
    and inc: "incoming N Obs D i m" and i: "i \<in> N \<union> Obs" "0 \<notin> N \<union> Obs"
  shows "node_good N Obs H D i r r'"
proof -
  note bf = bumped_frame [OF b] and ef = effect_frame [of r1 m r']
  from e obtain x where x: "r_msgs r' = r_msgs r1 @ [x]" "m_Type x = RequestVoteResp"
    "m_To x = m_From m" "m_From x = r_nodeID r1" "m_Term x = r_term r1"
    and v: "r_vote r' = m_From m" "r_term r' = r_term r1" "m_Type m = RequestVote"
      "r_state r' = r_state r1" "r_votes r' = r_votes r1" "canGrantVote r1 m" "same_node r1 r'"
    by (auto simp: granted_def)
  have sn: "same_node r r'" using bf(1) v(7) by (rule same_node_trans)
  then have id: "r_nodeID r' = i" "r_nodeID r1 = i"
    using ok bf(1) by (simp_all add: same_node_def raft_ok_def)
  have m: "m_From m \<noteq> 0" "m_Term m = r_term r1" "m_Term m \<noteq> 0" "(m_From m, m_Term m, m_From m) \<in> D"
    using inc v(3) bf(4) i(2) by (auto simp: incoming_def queued_ok_def)
  have "raft_ok N Obs (cast_vote H r') D r' i"
  proof (rule raft_step_ok [OF ok vt sn vs mx])
    show "r_state r' = observer \<longleftrightarrow> r_state r = observer" using bf(3) ef e by (simp add: effect_def)
    show "r_msgs r' = r_msgs r @ [x]" using x(1) bf(2) by simp
    show "\<forall>x \<in> set [x]. queued_ok (cast_vote H r') D i x"
      using x v m id mx by (auto simp: queued_ok_def cast_vote_def)
    assume c: "r_state r' = candidate"
    with v(4) bf(5) have r: "r1 = r" by simp
    with c v(4) ok have "r_vote r = i" "tally_ok N D i (r_term r) (r_votes r)"
      by (auto simp: raft_ok_def)
    moreover have "m_From m = i"
      using v(6) r \<open>r_vote r = i\<close> i m(2) by (auto simp: canGrantVote_def NoNode_def)
    ultimately show "r_vote r' = i \<and> tally_ok N D i (r_term r') (r_votes r')"
      using v r by simp
  qed
  moreover have "r_state r = leader \<and> r_term r = r_term r'" if "r_state r' = leader"
    using that v(2,4) bf(5) by simp
  ultimately show ?thesis by (simp add: node_good_def)
qed

lemma node_counted:
  assumes ok: "raft_ok N Obs H D r i" and vt: "votes_ok H D" and b: "bumped r m r1"
    and e: "counted r1 m r'" and vs: "vote_step r r'" and mx: "r_term r' \<noteq> max_u64"
    and inc: "incoming N Obs D i m" and i: "i \<in> N \<union> Obs" "finite N"
  shows "node_good N Obs H D i r r'"
proof -
  note bf = bumped_frame [OF b]
  have r: "r1 = r" using e bf(5) by (simp add: counted_def)
  from e have c: "r_state r = candidate" "m_Type m = RequestVoteResp"
    "map_of (r_observers r) (m_From m) = None" "r_term r' = r_term r" "r_vote r' = r_vote r"
    "same_node r r'"
    unfolding r counted_def by auto
  from e obtain ms where ms: "r_msgs r' = r_msgs r @ ms" "msgs_ok False (r_nodeID r') (r_term r') ms"
    unfolding r by (auto simp: counted_def sent_ok_def)
  have id: "r_nodeID r' = i" using ok c(6) by (simp add: same_node_def raft_ok_def)
  have inN: "i \<in> N" using c(1) ok i(1) by (auto simp: raft_ok_def)
  have "m_From m \<notin> Obs" using c(3) ok by (simp add: map_of_eq_None_keys raft_ok_def)
  then have "m_From m \<in> N \<and> (m_From m, r_term r, i) \<in> D \<and> (i, r_term r, i) \<in> D" if "\<not> m_Reject m"
    using inc c(2) that bf(4) r by (auto simp: incoming_def queued_ok_def)
  moreover have "tally_ok N D i (r_term r) (r_votes r)" using ok c(1) by (simp add: raft_ok_def)
  ultimately have t: "tally_ok N D i (r_term r) (cast (r_votes r) m)" by (intro tally_ok_cast)
  have "raft_ok N Obs (cast_vote H r') D r' i"
  proof (rule raft_step_ok [OF ok vt c(6) vs mx])
    show "r_state r' = observer \<longleftrightarrow> r_state r = observer"
      using e unfolding r counted_def by auto
    show "r_msgs r' = r_msgs r @ ms" by (rule ms(1))
    show "\<forall>x \<in> set ms. queued_ok (cast_vote H r') D i x"
      using msgs_ok_queued [OF ms(2) mx] id by simp
    assume "r_state r' = candidate"
    then have "r_votes r' = cast (r_votes r) m" using e unfolding r counted_def by auto
    with t c ok show "r_vote r' = i \<and> tally_ok N D i (r_term r') (r_votes r')"
      by (simp add: raft_ok_def)
  qed
  moreover have "elected N D i (r_term r')" if "r_state r' = leader"
  proof -
    have "length (filter snd (cast (r_votes r) m)) = card N div 2 + 1"
      using that e raft_ok_quorum [OF ok] unfolding r counted_def by auto
    then show ?thesis using tally_ok_elected [OF t i(2) inN] c(4) by simp
  qed
  ultimately show ?thesis by (simp add: node_good_def)
qed

lemma node_effect:
  assumes ok: "raft_ok N Obs H D r i" and vt: "votes_ok H D" and b: "bumped r m r1"
    and e: "effect r1 m r'" and mx: "r_term r' \<noteq> max_u64"
    and inc: "incoming N Obs D i m" and i: "i \<in> N \<union> Obs" "0 \<notin> N \<union> Obs" "finite N"
  shows "node_good N Obs H D i r r'" and "vote_step r r'"
proof -
  have "r_term r \<noteq> max_u64" "m_Term m \<noteq> max_u64" using ok inc by (auto simp: raft_ok_def incoming_def)
  then have "r_term r1 \<noteq> max_u64" "m_Term m \<in> {0, r_term r1}" using b by (auto simp: bumped_def)
  with e b show vs: "vote_step r r'" using effect_vote_step bumped_vote_step by blast
  from e consider "calm r1 r'" | "granted r1 m r'" | "counted r1 m r'" | "campaigned r1 r'"
    unfolding effect_def by blast
  then show "node_good N Obs H D i r r'"
    using node_calm [OF ok vt b _ vs mx] node_granted [OF ok vt b _ vs mx inc i(1,2)]
      node_counted [OF ok vt b _ vs mx inc i(1,3)] node_campaigned [OF ok vt b _ vs mx i]
    by cases simp_all
qed

lemma bumped_local: "bumped r empty_message r"
  by (simp add: bumped_def empty_message_def)

lemma incoming_local: "incoming N Obs D i empty_message"
  by (simp add: incoming_def empty_message_def)

section \<open>One step of the cluster\<close>

lemma es_inv_change:
  assumes inv: "es_inv N Obs H D s" and "i \<in> N \<union> Obs" and "votes_ok H' D'" and "D \<subseteq> D'"
    and H: "\<And>j t x. j \<noteq> i \<Longrightarrow> (j, t, x) \<in> H' \<longleftrightarrow> (j, t, x) \<in> H"
    and D: "\<And>j t x. j \<noteq> i \<Longrightarrow> (j, t, x) \<in> D' \<longleftrightarrow> (j, t, x) \<in> D"
    and "raft_ok N Obs H' D' (p_raft p') i" and "disk_ok D' d' (p_prevState p') i"
    and M: "\<And>x. x \<in> M \<Longrightarrow> m_From x = i \<and> queued_ok D' D' i x"
    and L: "r_state (p_raft p') = leader \<Longrightarrow> elected N D' i (r_term (p_raft p'))"
  shows "es_inv N Obs H' D' ((cl_set s i p')
    \<lparr>cl_net := cl_net s \<union> M, cl_disk := (cl_disk s)(i := d')\<rparr>)"
proof -
  have net: "m_From x \<in> N \<union> Obs \<and> queued_ok D' D' (m_From x) x" if "x \<in> cl_net s \<union> M" for x
    using that M assms(2,4) inv queued_ok_mono [of D D "m_From x" x D' D'] by (auto simp: es_inv_def)
  have others: "raft_ok N Obs H' D' (cl_raft s j) j \<and> disk_ok D' (cl_disk s j) (p_prevState (cl_peer s j)) j"
    if "j \<in> N \<union> Obs" "j \<noteq> i" for j
    using inv that H D raft_ok_mono [of N Obs H D "cl_raft s j" j H' D']
      disk_ok_mono [of D "cl_disk s j" "p_prevState (cl_peer s j)" j D'] assms(4)
    by (auto simp: es_inv_def)
  have "elected N D' j t" if "(j, t) \<in> cl_leaders s" for j t
    using inv that elected_mono [of N D j t D'] assms(4) by (auto simp: es_inv_def)
  then show ?thesis
    using inv assms(2,3,7,8) net others L unfolding es_inv_def cl_set_def by auto
qed

lemma es_inv_peer:
  assumes "es_inv N Obs H D s" and "i \<in> N \<union> Obs" and "votes_ok H' D"
    and "\<And>j t x. j \<noteq> i \<Longrightarrow> (j, t, x) \<in> H' \<longleftrightarrow> (j, t, x) \<in> H"
    and "raft_ok N Obs H' D (p_raft p') i" and "disk_ok D (cl_disk s i) (p_prevState p') i"
    and "r_state (p_raft p') = leader \<Longrightarrow> elected N D i (r_term (p_raft p'))"
  shows "es_inv N Obs H' D (cl_set s i p')"
proof -
  have "(cl_set s i p')\<lparr>cl_net := cl_net s \<union> {}, cl_disk := (cl_disk s)(i := cl_disk s i)\<rparr> = cl_set s i p'"
    by (simp add: cl_set_def)
  then show ?thesis using es_inv_change [of N Obs H D s i H' D p' "cl_disk s i" "{}"] assms by auto
qed

lemma es_inv_leader:
  assumes "es_inv N Obs H D s" and "i \<in> N \<union> Obs" and "r_state (cl_raft s i) = leader"
  shows "elected N D i (r_term (cl_raft s i))"
proof -
  have "(i, r_term (cl_raft s i)) \<in> cl_leaders s" using assms by (auto simp: es_inv_def)
  with assms(1) show ?thesis by (auto simp: es_inv_def)
qed

lemma es_inv_effect:
  assumes inv: "es_inv N Obs H D s" and i: "i \<in> N \<union> Obs"
    and b: "bumped (cl_raft s i) m r1" and e: "effect r1 m (p_raft p')"
    and inc: "incoming N Obs D i m" and mx: "r_term (p_raft p') \<noteq> max_u64"
    and prev: "p_prevState p' = p_prevState (cl_peer s i)"
  shows "es_inv N Obs (cast_vote H (p_raft p')) D (cl_set s i p')"
proof (rule es_inv_peer [OF inv i])
  have ok: "raft_ok N Obs H D (cl_raft s i) i" and vt: "votes_ok H D" and N: "0 \<notin> N \<union> Obs" "finite N"
    using inv i unfolding es_inv_def by auto
  note ne = node_effect [OF ok vt b e mx inc i N]
  then have ok': "raft_ok N Obs (cast_vote H (p_raft p')) D (p_raft p') i"
    and L: "r_state (p_raft p') = leader \<Longrightarrow> elected N D i (r_term (p_raft p'))
      \<or> r_state (cl_raft s i) = leader \<and> r_term (cl_raft s i) = r_term (p_raft p')"
    unfolding node_good_def by auto
  then have id: "r_nodeID (p_raft p') = i" by (simp add: raft_ok_def)
  show "raft_ok N Obs (cast_vote H (p_raft p')) D (p_raft p') i" by (rule ok')
  have "ballots_ok H i (r_term (cl_raft s i)) (r_vote (cl_raft s i))"
    using ok by (simp add: raft_ok_def)
  then show "votes_ok (cast_vote H (p_raft p')) D"
    by (rule cast_vote_ok(1) [OF vt _ ne(2) id])
  show "(j, t, x) \<in> cast_vote H (p_raft p') \<longleftrightarrow> (j, t, x) \<in> H" if "j \<noteq> i" for j t x
    using that cast_vote_other [of j "p_raft p'"] id by simp
  show "disk_ok D (cl_disk s i) (p_prevState p') i" using inv i prev by (auto simp: es_inv_def)
  show "elected N D i (r_term (p_raft p'))" if "r_state (p_raft p') = leader"
    using L [OF that] es_inv_leader [OF inv i] by auto
qed

lemma es_inv_local:
  assumes inv: "es_inv N Obs H D s" and i: "i \<in> N \<union> Obs" and "peer_local (cl_peer s i) p'"
    and mx: "r_term (p_raft p') \<noteq> max_u64"
  shows "\<exists>H'. es_inv N Obs H' D (cl_set s i p')"
proof -
  have "effect (cl_raft s i) empty_message (p_raft p')"
    using peer_local_effect(2) [OF assms(3)] by (auto simp: effect_def)
  then show ?thesis
    using es_inv_effect [OF inv i bumped_local _ incoming_local mx peer_local_effect(1) [OF assms(3)]]
    by blast
qed

lemma es_inv_deliver:
  assumes inv: "es_inv N Obs H D s" and i: "i \<in> N \<union> Obs" and m: "m \<in> cl_net s" "m_To m = i"
    and h: "Peer_Handle (cl_peer s i) m = Some p'" and mx: "r_term (p_raft p') \<noteq> max_u64"
  shows "\<exists>H'. es_inv N Obs H' D (cl_set s i p')"
proof -
  have inc: "incoming N Obs D i m"
    using inv m unfolding es_inv_def incoming_def queued_ok_def by auto
  note prev = Peer_Handle_effect(1) [OF h]
  from Peer_Handle_effect(2) [OF h] consider "calm (cl_raft s i) (p_raft p')"
    | r1 where "bumped (cl_raft s i) m r1" "effect r1 m (p_raft p')"
    by blast
  then show ?thesis
  proof cases
    case 1
    then have "effect (cl_raft s i) empty_message (p_raft p')" by (simp add: effect_def)
    with es_inv_effect [OF inv i bumped_local _ incoming_local mx prev] show ?thesis by blast
  next
    case 2
    with es_inv_effect [OF inv i _ _ inc mx prev] show ?thesis by blast
  qed
qed

text \<open>Saving the state: the votes of the node become durable before its messages leave.\<close>

lemma Peer_GetUpdate_state:
  assumes "Peer_GetUpdate p b = Some ud"
  shows "ud_Messages ud = r_msgs (p_raft p)"
    and "ud_State ud = (if raftState (p_raft p) = p_prevState p then emptyState else raftState (p_raft p))"
  using assms by (auto simp: Peer_GetUpdate_def getUpdate_def Let_def empty_update_def IsStateEqual_def
      elim!: bind_SomeE split: if_splits option.splits)

lemma Peer_Commit_frame:
  assumes "Peer_Commit p ud = Some p'"
  shows "same_node (p_raft p) (p_raft p')" "r_state (p_raft p') = r_state (p_raft p)"
    "r_term (p_raft p') = r_term (p_raft p)" "r_vote (p_raft p') = r_vote (p_raft p)"
    "r_votes (p_raft p') = r_votes (p_raft p)" "r_msgs (p_raft p') = []"
    "p_prevState p' = (if IsEmptyState (ud_State ud) then p_prevState p else ud_State ud)"
  using assms
  by (auto simp: Peer_Commit_def Let_def clearReadyToRead_def same_node_def elim!: bind_SomeE)

lemma disk_ok_saved:
  assumes vt: "votes_ok H D" and ok: "raft_ok N Obs H D r i" and dk: "disk_ok D st prev i"
    and ud: "ud = (if raftState r = prev then emptyState else raftState r)"
    and D': "D' = D \<union> {v \<in> H. fst v = i}"
  shows "disk_ok D' (if IsEmptyState ud then st else ud) (if IsEmptyState ud then prev else ud) i"
proof -
  have at: "(i, t, x) \<in> D' \<longleftrightarrow> (i, t, x) \<in> H" for t x
    using vt D' by (auto simp: votes_ok_def)
  have b: "ballots_ok D' i (r_term r) (r_vote r)" and mx: "r_term r \<noteq> max_u64"
    using ok ballots_ok_cong [of H i "r_term r" "r_vote r" D'] at by (auto simp: raft_ok_def)
  show ?thesis
  proof (cases "IsEmptyState ud")
    case False
    then have "ud = raftState r" using ud by (auto simp: IsEmptyState_iff)
    with b mx False show ?thesis by (simp add: disk_ok_def raftState_def)
  next
    case True
    show ?thesis
    proof (cases "r_term r = 0 \<and> r_vote r = 0")
      case zero: True
      then have none: "(i, t, x) \<notin> H" for t x
        using ok vt by (fastforce simp: raft_ok_def ballots_ok_def votes_ok_def)
      have "D \<subseteq> H" using vt by (simp add: votes_ok_def)
      with none at have "(i, t, x) \<in> D' \<longleftrightarrow> (i, t, x) \<in> D" for t x by blast
      then have "disk_ok D' st prev i" by (rule disk_ok_mono [OF dk])
      with True show ?thesis by simp
    next
      case nz: False
      then have "raftState r = prev"
        using True ud by (cases "raftState r = prev") (simp_all add: IsEmptyState_iff raftState_def emptyState_def)
      then have "st_Term prev = r_term r" "st_Vote prev = r_vote r" by (auto simp: raftState_def)
      with nz dk have "st_Term st = r_term r" "st_Vote st = r_vote r" by (auto simp: disk_ok_def)
      with b True dk show ?thesis by (simp add: disk_ok_def)
    qed
  qed
qed

lemma es_inv_update:
  assumes inv: "es_inv N Obs H D s" and i: "i \<in> N \<union> Obs"
    and g: "Peer_GetUpdate (cl_peer s i) b = Some ud" and c: "Peer_Commit (cl_peer s i) ud = Some p'"
  shows "\<exists>D'. es_inv N Obs H D' ((cl_set s i p')
      \<lparr>cl_net := cl_net s \<union> set (ud_Messages ud),
       cl_disk := (cl_disk s)(i := if IsEmptyState (ud_State ud) then cl_disk s i else ud_State ud)\<rparr>)"
proof -
  define D' where "D' = D \<union> {v \<in> H. fst v = i}"
  have vt: "votes_ok H D" and ok: "raft_ok N Obs H D (cl_raft s i) i"
    and dk: "disk_ok D (cl_disk s i) (p_prevState (cl_peer s i)) i"
    using inv i by (auto simp: es_inv_def)
  have sub: "D \<subseteq> D'" "(i, t, x) \<in> H \<Longrightarrow> (i, t, x) \<in> D'" for t x by (auto simp: D'_def)
  note f = Peer_Commit_frame [OF c]
  have "es_inv N Obs H D' ((cl_set s i p')\<lparr>cl_net := cl_net s \<union> set (ud_Messages ud),
       cl_disk := (cl_disk s)(i := if IsEmptyState (ud_State ud) then cl_disk s i else ud_State ud)\<rparr>)"
  proof (rule es_inv_change [OF inv i])
    show "votes_ok H D'" using vt by (auto simp: votes_ok_def D'_def)
    have "raft_ok N Obs H D' (cl_raft s i) i" using raft_ok_mono [OF ok _ sub(1)] by simp
    then show "raft_ok N Obs H D' (p_raft p') i"
      using f same_node_keys [OF f(1)] by (simp add: raft_ok_def same_node_def)
    show "disk_ok D' (if IsEmptyState (ud_State ud) then cl_disk s i else ud_State ud) (p_prevState p') i"
      using disk_ok_saved [OF vt ok dk Peer_GetUpdate_state(2) [OF g] D'_def] f(7)
      by simp
    show "m_From x = i \<and> queued_ok D' D' i x" if "x \<in> set (ud_Messages ud)" for x
    proof -
      have "queued_ok H D i x" using ok that Peer_GetUpdate_state(1) [OF g] by (simp add: raft_ok_def)
      then show ?thesis using queued_ok_local [OF _ sub(2,1)] by (auto simp: queued_ok_def)
    qed
    show "elected N D' i (r_term (p_raft p'))" if "r_state (p_raft p') = leader"
      using that es_inv_leader [OF inv i] elected_mono [OF _ sub(1)] by (simp add: f)
  qed (auto simp: D'_def)
  then show ?thesis ..
qed

text \<open>A crash: the votes that were not saved are forgotten.\<close>

lemma es_inv_crash:
  assumes inv: "es_inv N Obs H D s" and i: "i \<in> N \<union> Obs" and l: "launched N Obs i (cl_disk s i) p'"
  shows "\<exists>H'. es_inv N Obs H' D (cl_set s i p')"
proof -
  define H' where "H' = {v \<in> H. fst v \<noteq> i} \<union> {v \<in> D. fst v = i}"
  note f = launched_frame [OF l]
  have vt: "votes_ok H D" and dk: "disk_ok D (cl_disk s i) (p_prevState (cl_peer s i)) i"
    and dj: "N \<inter> Obs = {}"
    using inv i by (auto simp: es_inv_def)
  have "es_inv N Obs H' D (cl_set s i p')"
  proof (rule es_inv_peer [OF inv i])
    have "D \<subseteq> H" using vt by (simp add: votes_ok_def)
    then have "D \<subseteq> H'" "H' \<subseteq> H" by (auto simp: H'_def)
    then show "votes_ok H' D" by (rule votes_ok_subset [OF vt])
    have "ballots_ok D i (st_Term (cl_disk s i)) (st_Vote (cl_disk s i))" "st_Term (cl_disk s i) \<noteq> max_u64"
      using dk by (auto simp: disk_ok_def)
    then show "raft_ok N Obs H' D (p_raft p') i"
      using f ballots_ok_cong [of D i "st_Term (cl_disk s i)" "st_Vote (cl_disk s i)" H']
      by (auto simp: raft_ok_def H'_def split: if_splits)
    show "disk_ok D (cl_disk s i) (p_prevState p') i"
      using dk f(10) by (auto simp: disk_ok_def emptyState_def)
  qed (use f(9) in \<open>auto simp: H'_def split: if_splits\<close>)
  then show ?thesis ..
qed

lemma es_inv_step:
  assumes "cl_step N Obs s s'" and "es_inv N Obs H D s"
  shows "\<exists>H' D'. es_inv N Obs H' D' s'"
  using assms
proof cases
  case (local i p')
  then show ?thesis using es_inv_local [OF assms(2)] by blast
next
  case (deliver i m p')
  then show ?thesis using es_inv_deliver [OF assms(2)] by blast
next
  case (update i b ud p')
  then show ?thesis using es_inv_update [OF assms(2)] by blast
next
  case (crash i p')
  then show ?thesis using es_inv_crash [OF assms(2)] by blast
qed

lemma es_inv_init:
  assumes "cl_init N Obs s"
  shows "\<exists>H D. es_inv N Obs H D s"
proof -
  define D :: ballots where "D = {(i, t, x). i \<in> N \<union> Obs \<and> t = st_Term (cl_disk s i)
     \<and> x = st_Vote (cl_disk s i) \<and> x \<noteq> 0}"
  have "raft_ok N Obs D D (cl_raft s i) i \<and> disk_ok D (cl_disk s i) (p_prevState (cl_peer s i)) i
      \<and> r_state (cl_raft s i) \<noteq> leader" if i: "i \<in> N \<union> Obs" for i
  proof -
    have l: "launched N Obs i (cl_disk s i) (cl_peer s i)" and mx: "st_Term (cl_disk s i) \<noteq> max_u64"
      using assms i by (auto simp: cl_init_def)
    note f = launched_frame [OF l]
    have b: "ballots_ok D i (st_Term (cl_disk s i)) (st_Vote (cl_disk s i))"
      using i by (auto simp: ballots_ok_def D_def)
    then show ?thesis using f mx by (auto simp: raft_ok_def disk_ok_def emptyState_def)
  qed
  moreover have "votes_ok D D" by (auto simp: votes_ok_def D_def)
  ultimately have "es_inv N Obs D D s" using assms by (simp add: es_inv_def cl_init_def)
  then show ?thesis by blast
qed

lemma es_inv_reach: "cl_reach N Obs s \<Longrightarrow> \<exists>H D. es_inv N Obs H D s"
proof (induction rule: cl_reach.induct)
  case (init s)
  then show ?case by (rule es_inv_init)
next
  case (step s s')
  then obtain H D where "es_inv N Obs H D s" by blast
  with step.hyps(2) show ?case by (rule es_inv_step)
qed

lemma elected_unique:
  assumes "elected N D i t" and "elected N D j t" and "votes_ok H D"
  shows "i = j"
proof (cases "N = {i} \<or> N = {j}")
  case True
  with assms(1,2) show ?thesis by (auto simp: elected_def)
next
  case False
  with assms(1,2) obtain Q Q' where q: "majority N Q" "majority N Q'"
    and v: "\<And>k. k \<in> Q \<Longrightarrow> (k, t, i) \<in> D" "\<And>k. k \<in> Q' \<Longrightarrow> (k, t, j) \<in> D"
    by (auto simp: elected_def)
  show ?thesis
  proof (rule maj.single_winner_rel [OF q, where R = "\<lambda>k x. (k, t, x) \<in> D"])
    show "x = y" if "(k, t, x) \<in> D" "(k, t, y) \<in> D" for k x y
      using that assms(3) unfolding votes_ok_def by blast
  qed (use v in auto)
qed

section \<open>Election safety\<close>



end
