(* ===== verification/Replication.thy ===== *)
theory Replication
  imports RaftCommit SampleData
begin

text \<open>
  Log replication from one leader to one follower: the messages \<open>makeReplicateMessage\<close> builds from
  the leader's log, and what \<open>handleReplicateMessage\<close> makes of them in the follower's log. The
  receiver rules are those of AppendEntries in the Raft paper; the last theorem joins the two sides.
\<close>

section \<open>The leader's message\<close>

definition el_pos :: "(nat \<Rightarrow> entry) \<Rightarrow> entryLog \<Rightarrow> bool" where
  "el_pos c l \<longleftrightarrow> (\<forall>n. 0 < n \<and> el_first l \<le> n + 1 \<and> n < el_end l \<longrightarrow> 0 < el_trm c l n)"

definition replicate_wf :: "message \<Rightarrow> bool" where
  "replicate_wf m \<longleftrightarrow>
     indexed (m_LogIndex m + 1) (m_Entries m) \<and> sorted (map e_Term (m_Entries m))
     \<and> (\<forall>e \<in> set (m_Entries m). 0 < e_Term e)
     \<and> unat (m_LogIndex m) + 1 + length (m_Entries m) < 18446744073709551616
     \<and> (m_Entries m \<noteq> [] \<longrightarrow> m_LogTerm m \<le> e_Term (m_Entries m ! 0))
     \<and> (m_LogTerm m = 0 \<longrightarrow> m_LogIndex m = 0)"

lemma el_entries_spec:
  assumes inv: "el_inv c l" and lo: "el_first l \<le> unat low"
  obtains k where "unat low + k \<le> max (unat low) (el_end l)" and "0 < k \<longleftrightarrow> unat low < el_end l"
    and "el_entries l low mx = Some (Inr (map (el_entry c l) [unat low ..< unat low + k]))"
proof (cases "unat low < el_end l")
  case True
  have la: "unat (el_lastIndex l) + 1 = el_end l" by (rule el_lastIndex_end [OF inv])
  then have hi: "unat (el_lastIndex l + 1) = el_end l"
    using im_inv_end [OF el_inv_simps(2) [OF inv]] by (simp add: u64_inc)
  have "\<not> el_lastIndex l < low" using True la by (simp add: word_less_nat_alt)
  moreover obtain k where k: "0 < k" "unat low + k \<le> unat (el_lastIndex l + 1)"
    "el_getEntries l low (el_lastIndex l + 1) mx = Some (Inr (map (el_entry c l) [unat low ..< unat low + k]))"
    using el_getEntries_spec [OF inv lo, of "el_lastIndex l + 1" mx] True hi by auto
  ultimately show thesis using that [of k] True hi by (simp add: el_entries_def)
next
  case False
  then have "el_lastIndex l < low"
    using el_lastIndex_end [OF inv] by (simp add: word_less_nat_alt)
  with False that [of 0] show thesis by (simp add: el_entries_def)
qed

lemma el_entries_compacted:
  assumes inv: "el_inv c l" and "unat low < el_first l" and "unat low < el_end l"
  shows "el_entries l low mx = Some (Inl ErrCompacted)"
proof -
  have la: "unat (el_lastIndex l) + 1 = el_end l" by (rule el_lastIndex_end [OF inv])
  then have hi: "unat (el_lastIndex l + 1) = el_end l"
    using im_inv_end [OF el_inv_simps(2) [OF inv]] by (simp add: u64_inc)
  have "\<not> el_lastIndex l < low" "low \<le> el_lastIndex l + 1" "low < el_firstIndex l"
    using assms la hi by (simp_all add: word_less_nat_alt word_le_nat_alt)
  then show ?thesis
    by (auto simp: el_entries_def el_getEntries_def el_checkBound_def el_entryRange_def)
qed

lemma el_below_marker:
  assumes inv: "el_inv c l" and "el_first l \<le> n" and "n < el_marker l"
  shows "im_snapshot (el_inmem l) = None"
proof (rule ccontr)
  assume "im_snapshot (el_inmem l) \<noteq> None"
  then obtain ss where "im_snapshot (el_inmem l) = Some ss" by blast
  with el_firstIndex_snapshot [OF inv] assms(2,3) show False by simp
qed

lemma el_entry_index:
  assumes inv: "el_inv c l" and "el_first l \<le> n" and "n < el_end l"
  shows "unat (e_Index (el_entry c l n)) = n" 
proof (cases "el_marker l \<le> n")
  case True
  then show ?thesis
    using im_inv_index [OF el_inv_simps(2) [OF inv], of "n - el_marker l"] assms(3)
    by (simp add: el_entry_def)
next
  case False
  then have ns: "im_snapshot (el_inmem l) = None" using el_below_marker [OF inv assms(2)] by simp
  note f = el_firstIndex_none [OF inv ns]
  have "n \<le> unat (snd (db_GetRange (el_logdb l)))" using f(3) False by linarith
  with False assms(2) f(1) show ?thesis
    using logdb_ok_index [OF el_inv_simps(1) [OF inv], of n] by (simp add: el_entry_def)
qed

lemma el_entry_term:
  assumes inv: "el_inv c l" and "el_first l \<le> n" and "n < el_end l"
  shows "e_Term (el_entry c l n) = el_trm c l n"
proof (cases "el_marker l \<le> n")
  case False
  then have "im_snapshot (el_inmem l) = None" using el_below_marker [OF inv assms(2)] by simp
  with False show ?thesis by (simp add: el_entry_def el_trm_def)
qed (simp add: el_trm_entry)

lemma el_trm_mono:
  assumes inv: "el_inv c l" and "el_first l \<le> a + 1" and "a \<le> b" and "b < el_end l"
  shows "el_trm c l a \<le> el_trm c l b"
  using assms(3,4)
proof (induction rule: dec_induct)
  case (step n)
  then have "el_trm c l n \<le> el_trm c l (Suc n)"
    using el_inv_simps(4) [OF inv] assms(2) by (simp add: el_sorted_def)
  with step show ?case by simp
qed simp

definition replicate_from :: "(nat \<Rightarrow> entry) \<Rightarrow> raft \<Rightarrow> u64 \<Rightarrow> u64 \<Rightarrow> nat \<Rightarrow> message" where
  "replicate_from c r to nxt k = empty_message\<lparr>m_To := to, m_Type := Replicate, m_LogIndex := nxt - 1,
     m_LogTerm := el_tm c (r_log r) (unat nxt - 1),
     m_Entries := map (el_entry c (r_log r)) [unat nxt ..< unat nxt + k],
     m_Commit := el_committed (r_log r)\<rparr>"

lemma replicate_from_wf:
  assumes inv: "el_inv c (r_log r)" and pos: "el_pos c (r_log r)"
    and nxt: "el_first (r_log r) \<le> unat nxt" and k: "unat nxt + k \<le> el_end (r_log r)"
  shows "replicate_wf (replicate_from c r to nxt k)"
proof -
  let ?l = "r_log r" and ?es = "map (el_entry c (r_log r)) [unat nxt ..< unat nxt + k]"
  have n0: "0 < unat nxt" using nxt el_first_pos [OF inv] by linarith
  then have p1: "unat (nxt - 1) + 1 = unat nxt" by (subst unat_minus_one) auto
  have at: "?es ! j = el_entry c ?l (unat nxt + j)" if "j < k" for j using that by simp
  have ix: "e_Index (?es ! j) = nxt + of_nat j" if "j < k" for j
  proof -
    have "unat (e_Index (?es ! j)) = unat nxt + j"
      using at [OF that] el_entry_index [OF inv, of "unat nxt + j"] nxt k that by simp
    moreover have "unat (nxt + of_nat j) = unat nxt + j"
      using that k im_inv_end [OF el_inv_simps(2) [OF inv]] by (simp add: u64_add u64_of_nat)
    ultimately show ?thesis by (metis unsigned_word_eqI)
  qed
  have tm: "e_Term (?es ! j) = el_trm c ?l (unat nxt + j)" if "j < k" for j
    using at [OF that] el_entry_term [OF inv, of "unat nxt + j"] nxt k that by simp
  have "sorted (map e_Term ?es)"
    using tm el_trm_mono [OF inv] nxt k by (auto simp: sorted_iff_nth_mono)
  moreover have "\<forall>e \<in> set ?es. 0 < e_Term e"
    using pos el_entry_term [OF inv] nxt k n0 by (auto simp: el_pos_def)
  moreover have "indexed (nxt - 1 + 1) ?es" using ix by (simp add: indexed_iff_nth)
  moreover have "el_tm c ?l (unat nxt - 1) \<le> e_Term (?es ! 0)" if "?es \<noteq> []"
    using that tm [of 0] el_trm_mono [OF inv, of "unat nxt - 1" "unat nxt"] nxt k n0
    by (auto simp: el_tm_def)
  moreover have "nxt - 1 = 0" if "el_tm c ?l (unat nxt - 1) = 0"
  proof (rule ccontr)
    assume "nxt - 1 \<noteq> 0"
    then have "0 < unat nxt - 1" using p1 by (simp add: unat_gt_0 flip: p1)
    then have "0 < el_trm c ?l (unat nxt - 1)" using pos nxt k n0 by (simp add: el_pos_def)
    moreover have "unat nxt - 1 < el_end ?l" using k n0 by linarith
    ultimately show False using that nxt n0 by (simp add: el_tm_def)
  qed
  moreover have "unat (nxt - 1) + 1 + length ?es < 18446744073709551616"
    using p1 k im_inv_end [OF el_inv_simps(2) [OF inv]] by simp
  ultimately show ?thesis by (simp add: replicate_wf_def replicate_from_def)
qed

lemma makeReplicateMessage_spec:
  assumes inv: "el_inv c (r_log r)" and nxt: "el_first (r_log r) \<le> unat nxt" "unat nxt \<le> el_end (r_log r)"
  shows "\<exists>k. unat nxt + k \<le> el_end (r_log r) \<and> (0 < k \<longleftrightarrow> unat nxt < el_end (r_log r))
    \<and> makeReplicateMessage r to nxt mx = Some (Inr (replicate_from c r to nxt k))"
proof -
  let ?l = "r_log r"
  obtain k where k: "unat nxt + k \<le> max (unat nxt) (el_end ?l)" "0 < k \<longleftrightarrow> unat nxt < el_end ?l"
    and es: "el_entries ?l nxt mx = Some (Inr (map (el_entry c ?l) [unat nxt ..< unat nxt + k]))"
    by (rule el_entries_spec [OF inv nxt(1)])
  have n0: "0 < unat nxt" using nxt el_first_pos [OF inv] by linarith
  then have p1: "unat (nxt - 1) = unat nxt - 1" by (subst unat_minus_one) auto
  have "e_Index (el_entry c ?l (unat nxt + k - 1)) = nxt - 1 + of_nat k" if "0 < k"
  proof -
    have "unat (nxt - 1 + of_nat k) = unat nxt + k - 1"
      using that k nxt p1 n0 im_inv_end [OF el_inv_simps(2) [OF inv]] by (simp add: u64_add u64_of_nat)
    moreover have "unat (e_Index (el_entry c ?l (unat nxt + k - 1))) = unat nxt + k - 1"
      using that k nxt by (intro el_entry_index [OF inv]) auto
    ultimately show ?thesis by (metis unsigned_word_eqI)
  qed
  then have "makeReplicateMessage r to nxt mx = Some (Inr (replicate_from c r to nxt k))"
    using es el_term_spec [OF inv, of "nxt - 1"] p1
    by (auto simp: makeReplicateMessage_def replicate_from_def)
  with k nxt(2) show ?thesis by auto
qed

lemma makeReplicateMessage_compacted:
  assumes inv: "el_inv c (r_log r)" and nxt: "unat nxt < el_first (r_log r)"
    and "unat nxt < el_end (r_log r)"
  shows "makeReplicateMessage r to nxt mx = Some (Inl ErrCompacted)"
  using el_entries_compacted [OF inv nxt assms(3)] el_term_spec [OF inv]
  by (simp add: makeReplicateMessage_def)

section \<open>The follower's log\<close>

definition replicate_resp :: "raft \<Rightarrow> message \<Rightarrow> u64 \<Rightarrow> message" where
  "replicate_resp r m i = empty_message\<lparr>m_To := m_From m, m_Type := ReplicateResp,
     m_LogIndex := i, m_From := r_nodeID r, m_Term := r_term r\<rparr>"

definition replicate_reject :: "raft \<Rightarrow> message \<Rightarrow> message" where
  "replicate_reject r m =
     (replicate_resp r m (m_LogIndex m))\<lparr>m_Reject := True, m_Hint := el_lastIndex (r_log r)\<rparr>"

text \<open>\<open>accepted c l m l'\<close>: \<open>l'\<close> is \<open>l\<close> with the entries of \<open>m\<close> in place: the log is kept up to the
  preceding entry of the message, cut at the first conflict only, and has the terms of the new
  entries after it; the commit index follows the leader's as far as the message reaches.\<close>

definition accepted :: "(nat \<Rightarrow> entry) \<Rightarrow> entryLog \<Rightarrow> message \<Rightarrow> entryLog \<Rightarrow> bool" where
  "accepted c l m l' \<longleftrightarrow> (let p = unat (m_LogIndex m); n = length (m_Entries m) in
     el_inv c l' \<and> el_logdb l' = el_logdb l \<and> el_applied l' = el_applied l
     \<and> el_firstIndex l' = el_firstIndex l \<and> p + n < el_end l'
     \<and> (\<forall>i \<le> p. el_entry c l' i = el_entry c l i \<and> el_trm c l' i = el_trm c l i)
     \<and> agree c l' p (m_Entries m) n
     \<and> ((agree c l p (m_Entries m) n \<and> el_inmem l' = el_inmem l)
        \<or> (\<not> agree c l p (m_Entries m) n \<and> el_end l' = p + n + 1))
     \<and> unat (el_committed l') = max (unat (el_committed l)) (min (p + n) (unat (m_Commit m))))"

lemma match_replicable:
  assumes inv: "el_inv c l" and wf: "replicate_wf m" and cm: "el_committed l \<le> m_LogIndex m"
    and mt: "el_tm c l (unat (m_LogIndex m)) = m_LogTerm m"
  shows "replicable c l (m_LogIndex m) (m_Entries m)" and "el_first l \<le> unat (m_LogIndex m) + 1"
proof -
  have f: "el_first l \<le> unat (m_LogIndex m) + 1"
    using el_inv_simps(8) [OF inv] cm unfolding word_le_nat_alt by linarith
  have p: "unat (m_LogIndex m) < el_end l \<and> el_trm c l (unat (m_LogIndex m)) = m_LogTerm m"
  proof (cases "m_LogTerm m = 0")
    case True
    then have "m_LogIndex m = 0" using wf by (simp add: replicate_wf_def)
    moreover have "0 < el_end l" using el_inv_simps(6) [OF inv] by linarith
    ultimately show ?thesis using mt f by (simp add: el_tm_def)
  next
    case False
    with mt el_tm_pos [of c l "unat (m_LogIndex m)"] show ?thesis by (simp add: word_neq_0_conv)
  qed
  with wf cm show "replicable c l (m_LogIndex m) (m_Entries m)"
    by (auto simp: replicable_def replicate_wf_def word_le_nat_alt)
  from f show "el_first l \<le> unat (m_LogIndex m) + 1" .
qed

lemma agree_end:
  assumes "agree c l p ents k" and "\<forall>e \<in> set ents. 0 < e_Term e" and "k \<le> length ents" and "p < el_end l"
  shows "p + k < el_end l"
proof (cases k)
  case (Suc j)
  then have "el_tm c l (p + 1 + j) = e_Term (ents ! j)" using assms(1) unfolding agree_def by blast
  moreover have "0 < e_Term (ents ! j)" using Suc assms(2,3) by simp
  ultimately show ?thesis using el_tm_pos [of c l "p + 1 + j"] Suc by simp
qed (use assms(4) in simp)

lemma appended_agree:
  assumes inv: "el_inv c l" and ap: "el_appended c l (p + 1 + k) (drop k ents) l'"
    and ag: "agree c l p ents k" and k: "k < length ents" "p + 1 + k \<le> el_end l" and f: "el_first l \<le> p + 1"
  shows "agree c l' p ents (length ents)" and "el_end l' = p + length ents + 1"
    and "\<forall>i \<le> p. el_entry c l' i = el_entry c l i \<and> el_trm c l' i = el_trm c l i"
    and "el_inv c l'"
proof -
  from ap have l': "el_inv c l'" "el_firstIndex l' = el_firstIndex l" "el_end l' = p + length ents + 1"
    "\<forall>i < p + 1 + k. el_trm c l' i = el_trm c l i \<and> el_entry c l' i = el_entry c l i"
    "\<forall>j < length ents - k. el_entry c l' (p + 1 + k + j) = drop k ents ! j"
    using k(1) unfolding el_appended_def by auto
  show "el_end l' = p + length ents + 1" "el_inv c l'" using l' by blast+
  show "\<forall>i \<le> p. el_entry c l' i = el_entry c l i \<and> el_trm c l' i = el_trm c l i" using l'(4) by simp
  show "agree c l' p ents (length ents)"
    unfolding agree_def
  proof (intro allI impI)
    fix j assume j: "j < length ents"
    show "el_tm c l' (p + 1 + j) = e_Term (ents ! j)"
    proof (cases "j < k")
      case True
      then have "el_tm c l' (p + 1 + j) = el_tm c l (p + 1 + j)"
        using l'(2,3,4) k(2) j by (simp add: el_tm_def)
      with True ag show ?thesis by (simp add: agree_def)
    next
      case False
      have "el_entry c l' (p + 1 + j) = ents ! j"
        using l'(5) [rule_format, of "j - k"] False j by simp
      moreover have "e_Term (el_entry c l' (p + 1 + j)) = el_trm c l' (p + 1 + j)"
        using l'(2,3) f j by (intro el_entry_term [OF l'(1)]) auto
      ultimately show ?thesis using l'(2,3) f j by (simp add: el_tm_def)
    qed
  qed
qed

lemma tryAppend_agree:
  assumes inv: "el_inv c l" and wf: "replicate_wf m" and cm: "el_committed l \<le> m_LogIndex m"
    and mt: "el_tm c l (unat (m_LogIndex m)) = m_LogTerm m"
  obtains b l' where "el_tryAppend l (m_LogIndex m) (m_Entries m) = Some (b, l')"
    and "el_committed l' = el_committed l" and "accepted c l (m\<lparr>m_Commit := 0\<rparr>) l'"
proof -
  let ?p = "unat (m_LogIndex m)" and ?es = "m_Entries m"
  note rp = match_replicable [OF inv wf cm mt]
  have p: "?p < el_end l" and pos: "\<forall>e \<in> set ?es. 0 < e_Term e" using rp(1) by (auto simp: replicable_def)
  obtain b l' where t: "el_tryAppend l (m_LogIndex m) ?es = Some (b, l')"
    and r: "el_replicated c l ?p ?es b l'"
    by (rule el_tryAppend_spec [OF inv rp(1)])
  have "accepted c l (m\<lparr>m_Commit := 0\<rparr>) l' \<and> el_committed l' = el_committed l"
  proof (cases b)
    case False
    with r have "l' = l" "agree c l ?p ?es (length ?es)" by (auto simp: el_replicated_def)
    with inv agree_end [OF _ pos _ p, where k = "length ?es"] show ?thesis by (simp add: accepted_def Let_def)
  next
    case True
    with r obtain k where k: "k < length ?es" "agree c l ?p ?es k"
      "el_tm c l (?p + 1 + k) \<noteq> e_Term (?es ! k)" "el_appended c l (?p + 1 + k) (drop k ?es) l'"
      by (auto simp: el_replicated_def)
    have "?p + 1 + k \<le> el_end l" using agree_end [OF k(2) pos _ p] k(1) by simp
    note ap = appended_agree [OF inv k(4,2,1) this rp(2)]
    have "\<not> agree c l ?p ?es (length ?es)" using k(1,3) by (auto simp: agree_def)
    with ap k(4) show ?thesis by (simp add: accepted_def Let_def el_appended_def)
  qed
  with t that show thesis by blast
qed

lemma send_resp:
  assumes "m_Type m \<noteq> RequestVote" and "m_Term m = 0" and "\<not> isRequestMessage (m_Type m)"
  shows "send r m = Some (r\<lparr>r_msgs := r_msgs r @ [m\<lparr>m_From := r_nodeID r, m_Term := r_term r\<rparr>]\<rparr>)"
  using assms by (simp add: send_def finalizeMessageTerm_def)

lemma handleReplicateMessage_accept:
  assumes inv: "el_inv c (r_log r)" and wf: "replicate_wf m" and cm: "el_committed (r_log r) \<le> m_LogIndex m"
    and mt: "el_tm c (r_log r) (unat (m_LogIndex m)) = m_LogTerm m"
  shows "\<exists>l'. accepted c (r_log r) m l' \<and> handleReplicateMessage r m =
    Some (r\<lparr>r_log := l', r_msgs := r_msgs r @
      [replicate_resp r m (m_LogIndex m + of_nat (length (m_Entries m)))]\<rparr>)"
proof -
  let ?la = "m_LogIndex m + of_nat (length (m_Entries m))"
  obtain b l1 where t: "el_tryAppend (r_log r) (m_LogIndex m) (m_Entries m) = Some (b, l1)"
    and c1: "el_committed l1 = el_committed (r_log r)"
    and ac: "accepted c (r_log r) (m\<lparr>m_Commit := 0\<rparr>) l1"
    by (rule tryAppend_agree [OF inv wf cm mt])
  have la: "unat ?la = unat (m_LogIndex m) + length (m_Entries m)"
    using wf by (simp add: replicate_wf_def u64_add u64_of_nat)
  have i1: "el_inv c l1" "unat ?la < el_end l1" using ac la by (auto simp: accepted_def Let_def)
  have "unat (min ?la (m_Commit m)) < el_end l1" using i1(2) by (auto simp: min_def word_le_nat_alt)
  then have "el_commitTo l1 (min ?la (m_Commit m)) \<noteq> None"
    using el_commitTo_spec [OF i1(1), of "min ?la (m_Commit m)"] by simp
  then obtain l2 where l2: "el_commitTo l1 (min ?la (m_Commit m)) = Some l2" by blast
  note ct = el_commitTo_inv [OF i1(1) l2]
  have "l2 = l1\<lparr>el_committed := el_committed l2\<rparr>"
    using ct by (intro entryLog.equality) simp_all
  then obtain x where x: "l2 = l1\<lparr>el_committed := x\<rparr>" by blast
  have mx: "unat (el_committed l2) = max (unat (el_committed (r_log r)))
      (min (unat (m_LogIndex m) + length (m_Entries m)) (unat (m_Commit m)))"
    using ct(5) c1 la by (auto simp: max_def min_def word_le_nat_alt)
  have "accepted c (r_log r) m l2"
    using ac ct(1) mx unfolding x by (simp add: accepted_def Let_def agree_def)
  moreover have "handleReplicateMessage r m = Some (r\<lparr>r_log := l2, r_msgs := r_msgs r @ [replicate_resp r m ?la]\<rparr>)"
    using cm el_matchTerm_spec [OF inv, of "m_LogIndex m" "m_LogTerm m"] mt t l2
    by (simp add: handleReplicateMessage_def Let_def send_resp isRequestMessage_def replicate_resp_def not_less)
  ultimately show ?thesis by blast
qed

section \<open>Properties\<close>


lemma demo_replicate_wf: "replicate_wf demo_replicate"
  by (simp add: replicate_wf_def demo_replicate_def demo_entry_def)

lemma demo_short_term: "el_tm (\<lambda>n. empty_entry) demo_short 1 = 1"
  by (simp add: el_tm_def el_trm_def demo_short_def demo_log_def demo_entry_def el_firstIndex_def
      im_getSnapshotIndex_def demo_db_def)



lemma demo_log_pos: "el_pos (\<lambda>n. empty_entry) demo_log"
proof -
  have "n = 0 \<or> n = 1 \<or> n = 2 \<or> n = 3" if "n < 4" for n :: nat using that by linarith
  then show ?thesis
    unfolding el_pos_def demo_log_terms by (auto simp: demo_log_def demo_entry_def)
qed

lemma demo_log_first: "el_firstIndex demo_log = 1"
  by (simp add: el_firstIndex_def im_getSnapshotIndex_def demo_log_def demo_db_def)


end
