(* ===== verification/RaftTheorems.thy ===== *)
theory RaftTheorems
  imports RaftSteps Replication "HOL-Library.Multiset"
begin

text \<open>
  The theorems about one Raft node: the message loop, terms and votes, the commit rule and linearizable
  reads.
\<close>

section \<open>The message loop\<close>


text \<open>C20. A message of an older term has no effect but, from a leader to a node that checks its quorum, a
  NoOP answer that carries the newer term.\<close>

theorem Handle_stale:
  assumes "m_Term m < r_term r" and "m_Term m \<noteq> 0"
  shows "Handle r m = Some (r\<lparr>r_msgs := r_msgs r @
    (if isLeaderMessage (m_Type m) \<and> r_checkQuorum r
     then [empty_message\<lparr>m_To := m_From m, m_Type := NoOP, m_From := r_nodeID r, m_Term := r_term r\<rparr>]
     else [])\<rparr>)"
proof -
  have "\<not> r_term r < m_Term m" "m_Term m \<le> r_term r" "m_Term m \<noteq> r_term r" using assms(1) by auto
  with assms show ?thesis
    by (subst Handle_unfold) (simp add: onMessageTermNotMatched_def
        dropRequestVoteFromHighTermNode_def send_resp isRequestMessage_def)
qed

theorem Handle_stale_witness:
  "Handle (demo_raft 1 demo_log) (empty_message\<lparr>m_Type := Heartbeat, m_Term := 1, m_From := 3\<rparr>)
     = Some (demo_raft 1 demo_log)"
  using Handle_stale [of "empty_message\<lparr>m_Type := Heartbeat, m_Term := 1, m_From := 3\<rparr>" "demo_raft 1 demo_log"]
  by (simp add: demo_raft_def initRaft_def demo_config_def Let_def)

section \<open>Terms and votes\<close>


definition demo_rival :: message where
  "demo_rival = empty_message\<lparr>m_Type := RequestVote, m_Term := 2, m_From := 2, m_LogTerm := 9\<rparr>"

definition demo_voted :: raft where
  "demo_voted = (demo_raft 1 demo_log)\<lparr>r_vote := 3\<rparr>"


text \<open>C12. A vote request of the current term is granted exactly when the node has not voted for
  another candidate in this term and the candidate's log is at least as up to date as its own; a
  granted vote is recorded before the answer is queued, a refused one changes nothing.\<close>

theorem Handle_RequestVote:
  assumes inv: "el_inv c (r_log r)" and m: "m_Type m = RequestVote" "m_Term m = r_term r"
    and st: "r_state r \<noteq> observer"
  shows "Handle r m = Some (let l = r_log r; t = el_tm c l (el_end l - 1);
      resp = empty_message\<lparr>m_To := m_From m, m_Type := RequestVoteResp, m_From := r_nodeID r, m_Term := r_term r\<rparr> in
    if (r_vote r = 0 \<or> r_vote r = m_From m)
       \<and> (t < m_LogTerm m \<or> t = m_LogTerm m \<and> el_end l \<le> unat (m_LogIndex m) + 1)
    then r\<lparr>r_electionTick := 0, r_vote := m_From m, r_msgs := r_msgs r @ [resp]\<rparr>
    else r\<lparr>r_msgs := r_msgs r @ [resp\<lparr>m_Reject := True\<rparr>]\<rparr>)"
proof -
  have "el_first (r_log r) \<le> el_end (r_log r)" "0 < el_end (r_log r)"
    using el_first_le_end [OF inv] el_first_pos [OF inv] by linarith+
  then have t: "el_tm c (r_log r) (el_end (r_log r) - 1) = el_trm c (r_log r) (el_end (r_log r) - 1)"
    by (simp add: el_tm_def)
  have "handlers Handle (r_state r) RequestVote = Some handleNodeRequestVote"
    using st by (cases "r_state r") (simp_all add: handlers_def followerHandlers_def
        leaderHandlers_def candidateHandlers_def)
  then have "Handle r m = handleNodeRequestVote r m"
    using m by (subst Handle_unfold) (simp add: onMessageTermNotMatched_def
        doubleCheckTermMatched_def defaultHandle_def)
  then show ?thesis
    unfolding t Let_def using m el_upToDate_spec [OF inv, of "m_LogIndex m" "m_LogTerm m"]
    by (cases "canGrantVote r m") (simp_all add: handleNodeRequestVote_def canGrantVote_def NoNode_def
        send_resp isRequestMessage_def Let_def cong: if_cong)
qed

theorem Handle_RequestVote_witness:
  "Handle demo_voted demo_rival = Some (demo_voted\<lparr>r_msgs := [empty_message\<lparr>m_To := 2,
     m_Type := RequestVoteResp, m_From := 1, m_Term := 2, m_Reject := True\<rparr>]\<rparr>)"
  using Handle_RequestVote [of "\<lambda>n. empty_entry" demo_voted demo_rival] demo_log_inv
  by (simp add: demo_voted_def demo_rival_def demo_raft_def initRaft_def demo_config_def Let_def)

section \<open>The commit rule\<close>

lemma quorumMatch_last:
  assumes "r_remotes r \<noteq> []" and "\<forall>(i, rp) \<in> set (r_remotes r). rm_match rp \<le> la"
  shows "quorumMatch r \<le> la"
proof -
  have "quorum r \<le> reached (r_remotes r) (quorumMatch r)"
    using quorumMatch_reached [OF assms(1)] by simp
  then have "0 < length (filter (\<lambda>m. quorumMatch r \<le> m) (map (rm_match \<circ> snd) (r_remotes r)))"
    using quorum_bounds(2) [OF assms(1)] unfolding reached_def by linarith
  then obtain i rp where "(i, rp) \<in> set (r_remotes r)" "quorumMatch r \<le> rm_match rp"
    by (auto simp: filter_empty_conv)
  with assms(2) show ?thesis by (auto intro: order_trans)
qed

text \<open>C4. The leader commits by the rule of the Raft paper. \<open>tryCommit\<close> moves the commit index exactly
  when some index beyond it is stored by a quorum and holds an entry of the leader's own term;
  it then moves to the largest index stored by a quorum, and that entry is of the current
  term. Otherwise the log is untouched. The hypotheses are what a leader knows of its log: no entry
  has a larger term, and no follower is ahead of it.\<close>

theorem leader_commit_rule:
  assumes inv: "el_inv c (r_log r)" and t: "r_term r \<noteq> 0" and rem: "r_remotes r \<noteq> []"
    and terms: "\<forall>n. el_tm c (r_log r) n \<le> r_term r"
    and match: "\<forall>(i, rp) \<in> set (r_remotes r). rm_match rp \<le> el_lastIndex (r_log r)"
  shows "\<exists>b r'. raft_tryCommit r = Some (b, r')
    \<and> (b \<longleftrightarrow> (\<exists>q. el_committed (r_log r) < q \<and> quorum r \<le> reached (r_remotes r) q
                 \<and> el_tm c (r_log r) (unat q) = r_term r))
    \<and> (b \<longrightarrow> (let q = el_committed (r_log r') in quorum r \<le> reached (r_remotes r) q
            \<and> (\<forall>i. quorum r \<le> reached (r_remotes r) i \<longrightarrow> i \<le> q)
            \<and> el_tm c (r_log r) (unat q) = r_term r \<and> r_log r' = (r_log r)\<lparr>el_committed := q\<rparr>))
    \<and> (\<not> b \<longrightarrow> r_log r' = r_log r)"
proof -
  let ?l = "r_log r" and ?q = "quorumMatch r"
  note qm = quorumMatch_reached [OF rem]
  have "?q \<le> el_lastIndex ?l" by (rule quorumMatch_last [OF rem match])
  then have lt: "unat ?q < el_end ?l"
    using el_lastIndex_end [OF inv] by (simp add: word_le_nat_alt)
  have up: "el_committed ?l < ?q \<and> el_tm c ?l (unat ?q) = r_term r"
    if q: "el_committed ?l < q" "quorum r \<le> reached (r_remotes r) q" "el_tm c ?l (unat q) = r_term r" for q
  proof -
    have le: "q \<le> ?q" using q(2) qm by simp
    have "el_first ?l \<le> unat q + 1" "el_trm c ?l (unat q) = r_term r"
      using el_tm_pos [of c ?l "unat q"] q(3) t by (simp_all add: word_neq_0_conv)
    then have "r_term r \<le> el_trm c ?l (unat ?q)" "el_first ?l \<le> unat ?q + 1"
      using el_trm_mono [OF inv, of "unat q" "unat ?q"] le lt by (simp_all add: word_le_nat_alt)
    then have "r_term r \<le> el_tm c ?l (unat ?q)" using lt by (simp add: el_tm_def)
    then have "el_tm c ?l (unat ?q) = r_term r" using terms by (simp add: antisym)
    with le q(1) show ?thesis by simp
  qed
  show ?thesis
  proof (cases "el_committed ?l < ?q \<and> el_tm c ?l (unat ?q) = r_term r")
    case True
    then show ?thesis
      using raft_tryCommit_spec [OF inv t rem] qm by (auto simp: Let_def)
  next
    case False
    then have "\<not> (\<exists>q. el_committed ?l < q \<and> quorum r \<le> reached (r_remotes r) q
        \<and> el_tm c ?l (unat q) = r_term r)"
      using up by blast
    moreover have "raft_tryCommit r = Some (False, r\<lparr>r_matched := sort (map (rm_match \<circ> snd) (r_remotes r))\<rparr>)"
      using raft_tryCommit_spec [OF inv t rem] False by auto
    ultimately show ?thesis by (intro exI conjI) auto
  qed
qed

definition demo_leading :: raft where
  "demo_leading = (demo_raft 1 demo_log)\<lparr>r_state := leader, r_remotes :=
     [(1, empty_remote\<lparr>rm_match := 3, rm_next := 4\<rparr>), (2, empty_remote\<lparr>rm_match := 3, rm_next := 4\<rparr>),
      (3, empty_remote\<lparr>rm_match := 1, rm_next := 2\<rparr>)]\<rparr>"

lemma demo_log_tm: "el_tm (\<lambda>n. empty_entry) demo_log n = (if n = 1 \<or> n = 2 then 1 else if n = 3 then 2 else 0)"
proof -
  have "n = 0 \<or> n = 1 \<or> n = 2 \<or> n = 3 \<or> 4 \<le> n" by linarith
  moreover have "el_end demo_log = 4" by (simp add: demo_log_def)
  ultimately show ?thesis
    using demo_log_first demo_log_terms [of n] by (auto simp: el_tm_def demo_entry_def)
qed

theorem leader_commit_rule_witness:
  "\<exists>r'. raft_tryCommit demo_leading = Some (True, r') \<and> el_committed (r_log r') = 3"
proof -
  have d: "r_log demo_leading = demo_log" "r_term demo_leading = 2" "r_remotes demo_leading \<noteq> []"
    "quorum demo_leading = 2" "el_committed demo_log = 1" "reached (r_remotes demo_leading) 3 = 2"
    "el_lastIndex demo_log = 3"
    by (simp_all add: demo_leading_def demo_raft_def quorum_def reached_def empty_remote_def
        demo_log_def el_lastIndex_def im_getLastIndex_def demo_entry_def word_le_nat_alt)
  have m: "\<forall>(i, rp) \<in> set (r_remotes demo_leading). rm_match rp \<le> el_lastIndex (r_log demo_leading)"
    unfolding d by (simp add: demo_leading_def empty_remote_def)
  have "\<forall>n. el_tm (\<lambda>n. empty_entry) demo_log n \<le> 2" by (simp add: demo_log_tm)
  with leader_commit_rule [of "\<lambda>n. empty_entry" demo_leading] demo_log_inv d m obtain b r' where
    r': "raft_tryCommit demo_leading = Some (b, r')"
      "b \<longleftrightarrow> (\<exists>q. 1 < q \<and> 2 \<le> reached (r_remotes demo_leading) q \<and> el_tm (\<lambda>n. empty_entry) demo_log (unat q) = 2)"
      "b \<longrightarrow> 3 \<le> el_committed (r_log r') \<and> el_tm (\<lambda>n. empty_entry) demo_log (unat (el_committed (r_log r'))) = 2"
    by (auto simp: Let_def)
  have "1 < (3 :: u64) \<and> 2 \<le> reached (r_remotes demo_leading) 3 \<and> el_tm (\<lambda>n. empty_entry) demo_log (unat (3 :: u64)) = 2"
    using d by (simp add: demo_log_tm)
  then have b using r'(2) by blast
  then have "unat (el_committed (r_log r')) = 3" using r'(3) by (simp add: demo_log_tm split: if_splits)
  then have "el_committed (r_log r') = 3" by (simp add: word_unat_eq_iff)
  with r'(1) \<open>b\<close> show ?thesis by simp
qed

text \<open>C24. The unrolled bubble sort for clusters of three sorts like the library sort it replaces: for
  every number of members the match values are sorted and none is lost or duplicated.\<close>

theorem sortMatchValues_correct:
  "sorted (r_matched (sortMatchValues r)) \<and> mset (r_matched (sortMatchValues r)) = mset (r_matched r)"
  by (simp add: sortMatchValues_sort)

section \<open>Linearizable reads\<close>

text \<open>C13. Read requests are released in order and only by a quorum. Confirming \<open>ctx\<close> releases nothing
  while the distinct confirmations, with the leader's own, are fewer than a quorum; once they
  are enough it releases \<open>ctx\<close> and every request queued before it, each with the read index of
  \<open>ctx\<close>, which is not smaller than the index recorded when the request came in; later requests stay.
  The bookkeeping never panics and stays consistent.\<close>

theorem readIndex_quorum:
  assumes inv: "ri_inv r" and q: "ri_queue r = a @ ctx # b"
  shows "\<exists>rs r'. ri_confirm r ctx from qrm = Some (rs, r') \<and> ri_inv r'
    \<and> (if card (insert from (set (rs_confirmed (ri_get r ctx)))) + 1 < qrm
       then rs = [] \<and> ri_queue r' = ri_queue r
       else map rs_ctx rs = a @ [ctx] \<and> ri_queue r' = b
         \<and> (\<forall>s \<in> set rs. rs_index s = ri_idx r ctx \<and> ri_idx r (rs_ctx s) \<le> rs_index s))"
proof -
  let ?m = "ri_mark r ctx from"
  have ctx: "ctx \<in> set (ri_queue r)" using q by simp
  note mk = ri_mark_inv [OF inv ctx, of "from"]
  have qm: "ri_queue ?m = (a @ [ctx]) @ b" using mk(3) q by simp
  have "distinct (rs_confirmed (ri_get r ctx))"
    using inv ri_get_pending(1) [OF inv ctx] by (auto simp: ri_inv_def dest: map_of_SomeD)
  then have len: "length (List.insert from (rs_confirmed (ri_get r ctx)))
      = card (insert from (set (rs_confirmed (ri_get r ctx))))"
    by (metis distinct_card distinct_insert set_insert)
  have srt: "sorted (map (ri_idx r) (a @ ctx # b))" using inv q by (simp add: ri_inv_def)
  show ?thesis
  proof (cases "card (insert from (set (rs_confirmed (ri_get r ctx)))) + 1 < qrm")
    case True
    then have "ri_confirm r ctx from qrm = Some ([], ?m)" using ri_confirm_spec [OF inv q] len by simp
    with True mk show ?thesis by simp
  next
    case False
    let ?rs = "map (\<lambda>c. (ri_get ?m c)\<lparr>rs_index := ri_idx r ctx\<rparr>) (a @ [ctx])"
    have "ri_confirm r ctx from qrm = Some (?rs, ri_rest ?m (a @ [ctx]))"
      using ri_confirm_spec [OF inv q] len False by simp
    moreover have "ri_inv (ri_rest ?m (a @ [ctx]))" by (rule ri_rest_inv(1) [OF mk(1) qm])
    moreover have "ri_queue (ri_rest ?m (a @ [ctx])) = b" by (simp add: ri_rest_def mk(3) q)
    moreover have c: "rs_ctx (ri_get ?m x) = x" if "x \<in> set (a @ [ctx])" for x
      using that qm by (intro ri_get_pending(2) [OF mk(1)]) auto
    then have "map rs_ctx ?rs = a @ [ctx]" by (simp add: map_idI)
    moreover have "\<forall>s \<in> set ?rs. rs_index s = ri_idx r ctx \<and> ri_idx r (rs_ctx s) \<le> rs_index s"
      using c srt by (auto simp: sorted_append)
    ultimately show ?thesis using False by simp
  qed
qed

definition demo_ctx :: "nat \<Rightarrow> system_ctx" where
  "demo_ctx n = \<lparr>ctx_Low = of_nat n, ctx_High = 0\<rparr>"

definition demo_reads :: readIndex where
  "demo_reads = \<lparr>ri_pending = map (\<lambda>n. (demo_ctx n,
      \<lparr>rs_index = of_nat n + 5, rs_from = 1, rs_ctx = demo_ctx n, rs_confirmed = []\<rparr>)) [0, 1, 2],
     ri_queue = [demo_ctx 0, demo_ctx 1, demo_ctx 2]\<rparr>"

theorem readIndex_quorum_witness:
  "\<exists>rs r'. ri_confirm demo_reads (demo_ctx 1) 2 2 = Some (rs, r') \<and> map rs_ctx rs = [demo_ctx 0, demo_ctx 1]
     \<and> ri_queue r' = [demo_ctx 2]"
proof -
  have "ri_inv demo_reads"
    by (simp add: ri_inv_def demo_reads_def demo_ctx_def ri_idx_def word_le_nat_alt)
  moreover have "ri_queue demo_reads = [demo_ctx 0] @ demo_ctx 1 # [demo_ctx 2]"
    by (simp add: demo_reads_def)
  moreover have "rs_confirmed (ri_get demo_reads (demo_ctx 1)) = []"
    by (simp add: ri_get_def demo_reads_def demo_ctx_def)
  ultimately show ?thesis
    using readIndex_quorum [of demo_reads "[demo_ctx 0]" "demo_ctx 1" "[demo_ctx 2]" 2 2] by auto
qed

section \<open>Timeouts\<close>

lemma raft_reset_total: "r_electionTimeout r \<noteq> 0 \<Longrightarrow> \<exists>r'. raft_reset r t = Some r'"
  by (cases "r_term r = t") (simp_all add: raft_reset_def setRandomizedElectionTimeout_def Let_def)

text \<open>C25. Every time the election state is reset the randomized timeout is drawn from the configured
  timeout up to, but not including, twice its value, for every random number; no sum
  wraps around while the configured timeout is below \<open>2 ^ 63\<close>.\<close>

theorem electionTimeout_bounds:
  assumes "raft_reset r t = Some r'" and "unat (r_electionTimeout r) < 2 ^ 63"
  shows "unat (r_electionTimeout r) \<le> unat (r_randomizedElectionTimeout r')
    \<and> unat (r_randomizedElectionTimeout r') < 2 * unat (r_electionTimeout r)"
proof -
  from assms(1) have nz: "r_electionTimeout r \<noteq> 0"
    and t: "r_randomizedElectionTimeout r' = r_electionTimeout r + r_rng r (r_rngpos r) mod r_electionTimeout r"
    by (auto simp: raft_reset_def setRandomizedElectionTimeout_def Let_def setLeaderID_def
        clearPendingConfigChange_def abortLeaderTransfer_def resetRemotes_def resetObservers_def
        resetMatchValueArray_def split: if_splits)
  have "unat (r_rng r (r_rngpos r) mod r_electionTimeout r) < unat (r_electionTimeout r)"
    using nz by (simp add: unat_mod_distrib unat_gt_0)
  then show ?thesis using assms(2) unfolding t by (simp add: u64_add)
qed

theorem electionTimeout_bounds_witness:
  "\<exists>r'. raft_reset (demo_raft 1 demo_log) 3 = Some r'
     \<and> 10 \<le> unat (r_randomizedElectionTimeout r') \<and> unat (r_randomizedElectionTimeout r') < 20"
proof -
  have e: "r_electionTimeout (demo_raft 1 demo_log) = 10"
    by (simp add: demo_raft_def initRaft_def demo_config_def Let_def)
  then obtain r' where "raft_reset (demo_raft 1 demo_log) 3 = Some r'"
    using raft_reset_total [of "demo_raft 1 demo_log" 3] by auto
  with electionTimeout_bounds [OF this] e show ?thesis by simp
qed

section \<open>Starting a node\<close>

lemma newRaft_eq:
  assumes "Config_Validate c = None"
  shows "newRaft c db rng = do {
    r \<leftarrow> (if IsEmptyState (fst (db_NodeState db)) then Some (resetMatchValueArray (initRaft c db rng))
         else loadState (resetMatchValueArray (initRaft c db rng)) (fst (db_NodeState db)));
    if cfg_IsObserver c then becomeObserver (r\<lparr>r_state := observer\<rparr>) (r_term r) NoLeader
    else becomeFollower r (r_term r) NoLeader }"
  using assms by (simp add: newRaft_def Let_def checkHandlerMap_passes)

text \<open>C14. A node with a valid configuration starts from any log database that keeps its contract and
  holds a state whose commit index lies inside the log: it starts as follower (or observer) with
  the saved term and vote, the saved commit index and a log that satisfies the log invariant. With
  a commit index outside the log it refuses to start.\<close>

theorem newRaft_recovers:
  assumes c: "Config_Validate c = None" and db: "logdb_ok db cont"
    and srt: "\<And>n. unat (fst (db_GetRange db)) \<le> n + 1 \<Longrightarrow> n + 1 \<le> unat (snd (db_GetRange db)) \<Longrightarrow>
       e_Term (cont n) \<le> e_Term (cont (n + 1))"
    and st: "st = fst (db_NodeState db)" "\<not> IsEmptyState st"
  shows "if unat (fst (db_GetRange db)) \<le> unat (st_Commit st) + 1 \<and> st_Commit st \<le> snd (db_GetRange db)
    then \<exists>r. newRaft c db rng = Some r \<and> r_term r = st_Term st \<and> r_vote r = st_Vote st
        \<and> el_committed (r_log r) = st_Commit st \<and> el_inv cont (r_log r)
        \<and> r_state r = (if cfg_IsObserver c then observer else follower)
    else newRaft c db rng = None"
proof -
  let ?l = "newEntryLog db" and ?r0 = "resetMatchValueArray (initRaft c db rng)"
  have inv: "el_inv cont ?l" by (rule newEntryLog_inv [OF db srt])
  have l: "r_log ?r0 = ?l" "r_electionTimeout ?r0 = cfg_ElectionRTT c" "r_state ?r0 = follower"
    by (simp_all add: resetMatchValueArray_def initRaft_def Let_def)
  have pos: "0 < unat (fst (db_GetRange db))" by (rule logdb_ok_range(1) [OF db])
  then have "fst (db_GetRange db) \<noteq> 0" by auto
  then have cm: "unat (el_committed ?l) + 1 = unat (fst (db_GetRange db))"
    using pos by (simp add: newEntryLog_def unat_minus_one case_prod_unfold Let_def)
  have la: "el_lastIndex ?l = snd (db_GetRange db)"
    by (simp add: newEntryLog_def el_lastIndex_def newInMemory_def im_getLastIndex_def
        im_getSnapshotIndex_def split: prod.splits)
  have out: "st_Commit st < el_committed ?l \<longleftrightarrow> \<not> unat (fst (db_GetRange db)) \<le> unat (st_Commit st) + 1"
    using cm by (auto simp: word_less_nat_alt)
  show ?thesis
  proof (cases "unat (fst (db_GetRange db)) \<le> unat (st_Commit st) + 1 \<and> st_Commit st \<le> snd (db_GetRange db)")
    case True
    let ?r1 = "?r0\<lparr>r_log := ?l\<lparr>el_committed := st_Commit st\<rparr>, r_term := st_Term st, r_vote := st_Vote st\<rparr>"
    have "loadState ?r0 st = Some ?r1" using True out la by (simp add: loadState_def l not_less)
    moreover have "cfg_ElectionRTT c \<noteq> 0" using Config_Validate_ok(2) [OF c] .
    then obtain r2 r3 where r2: "becomeFollower ?r1 (r_term ?r1) NoLeader = Some r2"
      and r3: "becomeObserver (?r1\<lparr>r_state := observer\<rparr>) (r_term ?r1) NoLeader = Some r3"
      using raft_reset_total [of "?r1\<lparr>r_state := follower\<rparr>" "st_Term st"]
        raft_reset_total [of "?r1\<lparr>r_state := observer\<rparr>" "st_Term st"] l(2)
      by (auto simp: becomeFollower_def becomeObserver_def)
    moreover have "el_inv cont (?l\<lparr>el_committed := st_Commit st\<rparr>)"
      using True cm la el_lastIndex_end [OF inv]
      by (intro el_inv_committed [OF inv]) (auto simp: word_le_nat_alt)
    ultimately show ?thesis
      using True st newRaft_eq [OF c, of db rng] becomeFollower_frame [OF r2] becomeObserver_frame [OF r3]
      by (auto simp del: IsEmptyState_iff)
  next
    case False
    then have "loadState ?r0 st = None" using out la by (auto simp: loadState_def l)
    then show ?thesis using False st newRaft_eq [OF c, of db rng] by simp
  qed
qed

definition demo_saved_db :: "u64 \<Rightarrow> ilogdb" where
  "demo_saved_db commit = (demo_db demo_addrs [])
     \<lparr>db_NodeState := (\<lparr>st_Term = 4, st_Vote = 2, st_Commit = commit\<rparr>, empty_membership)\<rparr>"

theorem newRaft_recovers_witness:
  "(\<exists>r. newRaft (demo_config 1) (demo_saved_db 0) demo_rng = Some r \<and> r_term r = 4 \<and> r_vote r = 2)
     \<and> newRaft (demo_config 1) (demo_saved_db 9) demo_rng = None"
proof -
  have v: "Config_Validate (demo_config 1) = None"
    by (simp add: Config_Validate_def demo_config_def word_le_nat_alt)
  have d: "logdb_ok (demo_saved_db k) (\<lambda>n. empty_entry)" for k
    using demo_db_ok [of demo_addrs "[]"] by (simp add: logdb_ok_def demo_saved_db_def)
  have e: "\<not> IsEmptyState (fst (db_NodeState (demo_saved_db k)))" for k
    by (simp add: demo_saved_db_def IsEmptyState_iff emptyState_def)
  show ?thesis
    using newRaft_recovers [OF v d [of 0] _ refl e [of 0], where rng = demo_rng]
      newRaft_recovers [OF v d [of 9] _ refl e [of 9], where rng = demo_rng]
    by (auto simp: demo_saved_db_def demo_db_def word_le_nat_alt)
qed

section \<open>Pending configuration changes\<close>

lemma countConfigChange_append:
  "countConfigChange (xs @ ys) = countConfigChange xs + countConfigChange ys"
  by (induction xs) simp_all

lemma countConfigChange_filter: "countConfigChange es = length (filter IsConfigChange es)"
  by (induction es) (simp_all add: IsConfigChange_def)

lemma countPending_spec:
  assumes inv: "el_inv c l"
  shows "el_first l \<le> unat idx \<Longrightarrow> unat idx \<le> el_end l \<Longrightarrow>
    countPending l idx n = Some (n + countConfigChange (map (el_entry c l) [unat idx ..< el_end l]))"
proof (induction "el_end l - unat idx" arbitrary: idx n rule: less_induct)
  case less
  obtain k where k: "unat idx + k \<le> max (unat idx) (el_end l)" "0 < k \<longleftrightarrow> unat idx < el_end l"
    and es: "el_entries l idx maxEntriesToApplySize = Some (Inr (map (el_entry c l) [unat idx ..< unat idx + k]))"
    by (rule el_entries_spec [OF inv less.prems(1)])
  show ?case
  proof (cases "k = 0")
    case True
    with k es less.prems(2) show ?thesis by (simp add: countPending.simps)
  next
    case False
    let ?e = "e_Index (el_entry c l (unat idx + k - 1))"
    have b: "unat idx + k \<le> el_end l" using k(1) less.prems(2) by simp
    have "unat ?e = unat idx + k - 1"
      using False b less.prems(1) by (intro el_entry_index [OF inv]) auto
    then have e: "unat (?e + 1) = unat idx + k"
      using False b im_inv_end [OF el_inv_simps(2) [OF inv]] by (simp add: u64_inc)
    have "countPending l (?e + 1) (n + countConfigChange (map (el_entry c l) [unat idx ..< unat idx + k]))
      = Some (n + countConfigChange (map (el_entry c l) [unat idx ..< unat idx + k])
          + countConfigChange (map (el_entry c l) [unat idx + k ..< el_end l]))"
      using less.hyps [of "?e + 1"] e False b less.prems(1) by simp
    moreover have "[unat idx ..< el_end l] = [unat idx ..< unat idx + k] @ [unat idx + k ..< el_end l]"
      using b by (metis le_add_diff_inverse upt_add_eq_append le_add1)
    ultimately show ?thesis
      using es False by (subst countPending.simps) (simp add: countConfigChange_append)
  qed
qed

text \<open>C19. The loop by which a new leader counts the configuration changes in the uncommitted part of
  its log ends on every log that satisfies the invariant, whatever pieces the size limit cuts the
  log into, and counts exactly the configuration changes after the commit index.\<close>

theorem countPending_terminates:
  assumes inv: "el_inv c (r_log r)"
  shows "getPendingConfigChangeCount r = Some (length (filter IsConfigChange
    (map (el_entry c (r_log r)) [unat (el_committed (r_log r)) + 1 ..< el_end (r_log r)])))"
proof -
  have "unat (el_committed (r_log r) + 1) = unat (el_committed (r_log r)) + 1"
    using el_inv_simps(6) [OF inv] im_inv_end [OF el_inv_simps(2) [OF inv]] by (simp add: u64_inc)
  then show ?thesis
    using countPending_spec [OF inv, of "el_committed (r_log r) + 1" 0]
      el_inv_simps(6,8) [OF inv]
    by (simp add: getPendingConfigChangeCount_def countConfigChange_filter)
qed

theorem countPending_terminates_witness: "getPendingConfigChangeCount (demo_raft 1 demo_log) = Some 0"
proof -
  have "\<not> IsConfigChange (el_entry (\<lambda>n. empty_entry) demo_log n)" if "n = 2 \<or> n = 3" for n
    using that by (auto simp: el_entry_def demo_log_def demo_entry_def IsConfigChange_def empty_entry_def)
  moreover have "el_end demo_log = 4" "el_committed demo_log = 1" by (simp_all add: demo_log_def)
  ultimately show ?thesis
    using countPending_terminates [of "\<lambda>n. empty_entry" "demo_raft 1 demo_log"] demo_log_inv
    by (simp add: upt_rec)
qed

end
