(* ===== verification/LogProps.thy ===== *)
theory LogProps
  imports SampleData
begin

text \<open>
  The theorems about the Raft log of a node: reads and writes of the two-part log (entries on disk,
  entries in memory) behave as those of a single sequence of entries.
\<close>

section \<open>Reading\<close>

text \<open>C16. Reading the range from \<open>low\<close> to \<open>high\<close> of a log returns a non-empty prefix of the entries of
  the abstract log in this range, wherever the border between the log database and the memory
  lies; the size limit may only shorten it.\<close>

theorem getEntries_abstract:
  assumes "el_inv c l" and "el_first l \<le> unat low" and "unat low < unat high" and "unat high \<le> el_end l"
  shows "\<exists>k. 0 < k \<and> unat low + k \<le> unat high
    \<and> el_getEntries l low high mx = Some (Inr (map (el_entry c l) [unat low ..< unat low + k]))"
  using el_getEntries_spec [OF assms] by metis

lemma demo_log_range: "el_firstIndex demo_log = 1" "el_end demo_log = 4"
  by (simp_all add: el_firstIndex_def im_getSnapshotIndex_def demo_log_def demo_db_def)

theorem getEntries_abstract_witness:
  "\<exists>k. 0 < k \<and> 2 + k \<le> (4 :: nat) \<and> el_getEntries demo_log 2 4 7
      = Some (Inr (map (el_entry (\<lambda>n. empty_entry) demo_log) [2 ..< 2 + k]))"
  using getEntries_abstract [of "\<lambda>n. empty_entry" demo_log 2 4 7] demo_log_inv demo_log_range by simp

text \<open>C21. A read outside the log is an error, not data: below the first index (or when a snapshot
  has replaced all entries) the result is \<open>ErrCompacted\<close>; a range beyond the last index or with its
  ends swapped is a panic.\<close>

theorem getEntries_out_of_range:
  assumes inv: "el_inv c l"
    and gone: "gone \<longleftrightarrow> im_snapshot (el_inmem l) \<noteq> None \<and> im_entries (el_inmem l) = [] \<or> unat low < el_first l"
  shows "(high < low \<longrightarrow> el_getEntries l low high mx = panic)
    \<and> (low \<le> high \<and> gone \<longrightarrow> el_getEntries l low high mx = Some (Inl ErrCompacted))
    \<and> (low \<le> high \<and> \<not> gone \<and> el_end l < unat high \<longrightarrow> el_getEntries l low high mx = panic)"
proof -
  have "unat (el_lastIndex l + 1) = el_end l"
    using el_lastIndex_end [OF inv] im_inv_end [OF el_inv_simps(2) [OF inv]] by (simp add: u64_inc)
  then have "el_lastIndex l + 1 < high \<longleftrightarrow> el_end l < unat high" by (simp add: word_less_nat_alt)
  moreover have "low < el_firstIndex l \<longleftrightarrow> unat low < el_first l" by (simp add: word_less_nat_alt)
  ultimately show ?thesis
    unfolding gone el_getEntries_def el_checkBound_def el_entryRange_def by (auto simp: not_less)
qed

theorem getEntries_out_of_range_witness:
  "el_getEntries demo_log 0 2 7 = Some (Inl ErrCompacted) \<and> el_getEntries demo_log 2 5 7 = panic
     \<and> el_getEntries demo_log 3 2 7 = panic"
proof -
  note r = getEntries_out_of_range [OF demo_log_inv refl]
  have "im_snapshot (el_inmem demo_log) = None" by (simp add: demo_log_def)
  then show ?thesis
    using r [where low = 0 and high = 2 and mx = 7] r [where low = 2 and high = 5 and mx = 7]
      r [where low = 3 and high = 2 and mx = 7] demo_log_range by simp
qed

text \<open>C17. The entries handed to the state machine are the ones right after the last applied index, in
  order and without gaps, and only committed ones; there is at least one whenever something is
  committed and not applied.\<close>

theorem entriesToApply_committed:
  assumes "el_inv c l"
  shows "\<exists>k. el_entriesToApply l =
      Some (map (el_entry c l) [unat (el_applied l) + 1 ..< unat (el_applied l) + 1 + k])
    \<and> unat (el_applied l) + k \<le> unat (el_committed l) \<and> (0 < k \<longleftrightarrow> el_applied l < el_committed l)"
  using el_getEntriesToApply_spec [OF assms, of maxEntriesToApplySize] unfolding el_entriesToApply_def
  by metis

theorem entriesToApply_committed_witness:
  "el_entriesToApply demo_log = Some [demo_entry 1 1]"
proof -
  have d: "el_applied demo_log = 0" "el_committed demo_log = 1" by (simp_all add: demo_log_def)
  have "el_entry (\<lambda>n. empty_entry) demo_log 1 = demo_entry 1 1"
    by (simp add: el_entry_def demo_log_def)
  moreover from entriesToApply_committed [OF demo_log_inv] d obtain k where
    "el_entriesToApply demo_log = Some (map (el_entry (\<lambda>n. empty_entry) demo_log) [1 ..< 1 + k])"
    "k \<le> 1" "0 < k"
    by auto
  moreover have "k = 1" using calculation by linarith
  ultimately show ?thesis by simp
qed

text \<open>C23. The vote restriction compares logs as the Raft paper says: a candidate's log is up to date iff
  its last term is larger, or equal with a last index not smaller.\<close>

theorem upToDate_lexicographic:
  assumes "el_inv c l"
  shows "el_upToDate l i t =
    Some (el_tm c l (el_end l - 1) < t \<or> el_tm c l (el_end l - 1) = t \<and> el_end l \<le> unat i + 1)"
proof -
  have "el_first l \<le> el_end l" "0 < el_end l"
    using el_first_le_end [OF assms] el_first_pos [OF assms] by linarith+
  then show ?thesis using el_upToDate_spec [OF assms] by (simp add: el_tm_def)
qed

theorem upToDate_lexicographic_witness:
  "el_upToDate demo_log 9 1 = Some False \<and> el_upToDate demo_log 3 2 = Some True
     \<and> el_upToDate demo_log 2 2 = Some False \<and> el_upToDate demo_log 1 3 = Some True"
proof -
  have "el_tm (\<lambda>n. empty_entry) demo_log 3 = 2"
    using demo_log_terms [of 3] demo_log_range by (simp add: el_tm_def demo_entry_def)
  then show ?thesis
    using upToDate_lexicographic [OF demo_log_inv] demo_log_range by simp
qed

section \<open>Writing\<close>

text \<open>C15. Appending entries at the index \<open>i\<close> (beyond the commit index, with consecutive indexes and no
  smaller terms) keeps the log invariant and gives the log that agrees with the old one below
  \<open>i\<close>, continues with the new entries and ends there; nothing that is committed is lost.\<close>

theorem append_correct:
  assumes "el_inv c l" and "appendable c l i ents"
  shows "\<exists>l'. el_append l ents = Some l' \<and> el_inv c l' \<and> el_end l' = i + length ents
    \<and> (\<forall>n < i. el_entry c l' n = el_entry c l n)
    \<and> (\<forall>k < length ents. el_entry c l' (i + k) = ents ! k)
    \<and> el_committed l' = el_committed l \<and> unat (el_committed l) < i"
proof -
  obtain l' where "el_append l ents = Some l'" "el_appended c l i ents l'"
    by (rule el_append_spec [OF assms])
  with assms(2) show ?thesis by (auto simp: el_appended_def appendable_def)
qed

theorem append_correct_witness:
  "\<exists>l'. el_append demo_log [demo_entry 3 3, demo_entry 3 4] = Some l'
     \<and> el_inv (\<lambda>n. empty_entry) l' \<and> el_end l' = 5"
proof -
  have "appendable (\<lambda>n. empty_entry) demo_log 3 [demo_entry 3 3, demo_entry 3 4]"
    unfolding appendable_def demo_log_terms by (simp add: demo_entry_def demo_log_def)
  from append_correct [OF demo_log_inv this] show ?thesis by auto
qed

text \<open>C22. The in-memory log accepts consecutive entries exactly when they leave no hole after the
  entries it has and do not go back to a smaller term; otherwise it panics rather than
  corrupt the log. What it accepts replaces everything from the first new index on, and those
  entries count as unsaved.\<close>

theorem merge_panics:
  assumes "im_inv im" and "ents \<noteq> []" and "0 < unat (e_Index (ents ! 0))"
    and "indexed (e_Index (ents ! 0)) ents"
  shows "im_merge im ents = (let first = e_Index (ents ! 0); n = unat first - unat (im_markerIndex im) in
    if unat first \<le> im_end im
       \<and> (unat (im_markerIndex im) < unat first \<longrightarrow> e_Term (im_entries im ! (n - 1)) \<le> e_Term (ents ! 0))
    then Some (im\<lparr>im_entries := take n (im_entries im) @ ents,
                  im_markerIndex := min first (im_markerIndex im),
                  im_savedTo := min (im_savedTo im) (first - 1)\<rparr>)
    else panic)"
  using im_merge_eq [OF assms] by (simp add: im_merge_ok_def im_merge_result_def Let_def)

theorem merge_panics_witness:
  "im_merge (el_inmem demo_log) [demo_entry 2 5] = panic
     \<and> im_merge (el_inmem demo_log) [demo_entry 1 4] = panic
     \<and> im_merge (el_inmem demo_log) [demo_entry 3 2] =
         Some ((el_inmem demo_log)\<lparr>im_entries := [demo_entry 1 1, demo_entry 3 2], im_savedTo := 1\<rparr>)"
proof -
  have inv: "im_inv (el_inmem demo_log)" by (rule el_inv_simps(2) [OF demo_log_inv])
  show ?thesis
    using merge_panics [OF inv, of "[demo_entry 2 5]"] merge_panics [OF inv, of "[demo_entry 1 4]"]
      merge_panics [OF inv, of "[demo_entry 3 2]"]
    by (simp add: demo_entry_def demo_log_def min_def word_le_nat_alt)
qed

end
