(* ===== verification/EntryBatch.thy ===== *)
theory EntryBatch
  imports EntryUtils
begin

text \<open>
  \<open>internal/logdb/batch.go\<close>: entries are stored in batches of \<open>batchSize\<close> consecutive indexes. In a
  batch of consecutive entries of one term only the first entry keeps its term and index; the others
  are stored with zeros and restored on reading.
\<close>

section \<open>Definitions\<close>

text \<open>\<open>settings.Hard.LogDBEntryBatchSize\<close>.\<close>

definition batchSize :: u64 where
  "batchSize = 48"

definition getBatchID :: "u64 \<Rightarrow> u64" where
  "getBatchID index = index div batchSize"

definition entriesSize :: "entry list \<Rightarrow> u64" where
  "entriesSize ents = foldl (\<lambda>sz e. sz + of_nat (SizeUpperLimit e)) 0 ents"

definition getBatchIDRange :: "u64 \<Rightarrow> u64 \<Rightarrow> u64 \<times> u64" where
  "getBatchIDRange low high =
     (if high mod batchSize = 0 then (getBatchID low, getBatchID high)
      else (getBatchID low, getBatchID high + 1))"

text \<open>The loops that write the fields of all entries but the first.\<close>

primrec restoreFields :: "u64 \<Rightarrow> u64 \<Rightarrow> entry list \<Rightarrow> entry list" where
  "restoreFields trm idx [] = []"
| "restoreFields trm idx (e # es) = e\<lparr>e_Term := trm, e_Index := idx\<rparr> # restoreFields trm (idx + 1) es"

definition clearFields :: "entry list \<Rightarrow> entry list" where
  "clearFields es = map (\<lambda>e. e\<lparr>e_Term := 0, e_Index := 0\<rparr>) es"

definition restoreBatchFields :: "entry list \<Rightarrow> entry list option" where
  "restoreBatchFields eb =
     (if length eb \<le> 1 then panic
      else if e_Term (eb ! (length eb - 1)) = 0
      then Some (hd eb # restoreFields (e_Term (eb ! 0)) (e_Index (eb ! 0) + 1) (tl eb))
      else Some eb)"

definition compactBatchFields :: "entry list \<Rightarrow> entry list option" where
  "compactBatchFields eb =
     (if length eb \<le> 1 then panic
      else
        let expLastIdx = e_Index (eb ! 0) + of_nat (length eb - 1) in
        if e_Term (eb ! 0) = e_Term (eb ! (length eb - 1)) \<and> expLastIdx = e_Index (eb ! (length eb - 1))
        then Some (hd eb # clearFields (tl eb))
        else Some eb)"

definition getMergedFirstBatch :: "entry list \<Rightarrow> entry list \<Rightarrow> entry list option" where
  "getMergedFirstBatch eb lb =
     (if length eb = 0 \<or> length lb = 0 then panic
      else
        let batchID = getBatchID (e_Index (eb ! 0)) in
        if batchID < getBatchID (e_Index (lb ! 0)) then panic
        else if batchID > getBatchID (e_Index (lb ! 0)) then Some eb
        else if e_Index (eb ! 0) > e_Index (lb ! 0) then
          if e_Index (eb ! 0) \<le> e_Index (lb ! (length lb - 1))
          then Some (takeWhile (\<lambda>e. \<not> e_Index e \<ge> e_Index (eb ! 0)) lb @ eb)
          else Some (lb @ eb)
        else Some eb)"

section \<open>Restoring a compacted batch\<close>

text \<open>A batch as the log database holds it: indexes increase, terms do not decrease and are not zero.\<close>

definition batch_wf :: "entry list \<Rightarrow> bool" where
  "batch_wf eb \<longleftrightarrow> eb \<noteq> [] \<and> sorted_wrt (<) (map (unat \<circ> e_Index) eb) \<and> sorted (map e_Term eb)
     \<and> (\<forall>e \<in> set eb. 0 < e_Term e)"

lemma length_restoreFields [simp]: "length (restoreFields t i es) = length es"
  by (induction es arbitrary: i) simp_all

lemma restoreFields_clear:
  assumes "\<forall>k < length es. e_Term (es ! k) = t \<and> e_Index (es ! k) = i + of_nat k"
  shows "restoreFields t i (clearFields es) = es"
  using assms
proof (induction es arbitrary: i)
  case (Cons e es)
  have "e_Term e = t" "e_Index e = i" using Cons.prems [rule_format, of 0] by simp_all
  moreover have "\<forall>k < length es. e_Term (es ! k) = t \<and> e_Index (es ! k) = i + 1 + of_nat k"
  proof (intro allI impI)
    fix k assume "k < length es"
    then show "e_Term (es ! k) = t \<and> e_Index (es ! k) = i + 1 + of_nat k"
      using Cons.prems [rule_format, of "Suc k"] by (simp add: add.assoc)
  qed
  ultimately show ?case using Cons.IH [of "i + 1"] by (simp add: clearFields_def)
qed (simp add: clearFields_def)

text \<open>Increasing indexes that span exactly their number are consecutive.\<close>

lemma increasing_consecutive:
  fixes f :: "nat \<Rightarrow> nat"
  assumes "\<And>i j. i < j \<Longrightarrow> j \<le> n \<Longrightarrow> f i < f j" and "f n = f 0 + n" and "k \<le> n"
  shows "f k = f 0 + k"
proof -
  have up: "f 0 + k \<le> f k" if "k \<le> n" for k
    using that
  proof (induction k)
    case (Suc k)
    then show ?case using assms(1) [of k "Suc k"] by simp
  qed simp
  have down: "f k + d \<le> f (k + d)" if "k + d \<le> n" for d
    using that
  proof (induction d)
    case (Suc d)
    then show ?case using assms(1) [of "k + d" "Suc (k + d)"] by simp
  qed simp
  from up [OF assms(3)] down [of "n - k"] assms(2,3) show ?thesis by simp
qed

lemma compact_consecutive:
  assumes wf: "batch_wf eb" and t: "e_Term (eb ! 0) = e_Term (eb ! (length eb - 1))"
    and i: "e_Index (eb ! 0) + of_nat (length eb - 1) = e_Index (eb ! (length eb - 1))"
    and b: "length eb \<le> 48" and k: "k < length eb"
  shows "e_Term (eb ! k) = e_Term (eb ! 0)" and "e_Index (eb ! k) = e_Index (eb ! 0) + of_nat k"
proof -
  let ?n = "length eb - 1" and ?f = "\<lambda>k. unat (e_Index (eb ! k))"
  have n: "k \<le> ?n" "?n < length eb" using k by auto
  have "sorted (map e_Term eb)" using wf by (simp add: batch_wf_def)
  then have "e_Term (eb ! 0) \<le> e_Term (eb ! k)" "e_Term (eb ! k) \<le> e_Term (eb ! ?n)"
    using n by (simp_all add: sorted_iff_nth_mono)
  with t show "e_Term (eb ! k) = e_Term (eb ! 0)" by simp
  have mono: "?f a < ?f c" if "a < c" "c \<le> ?n" for a c
    using wf that n(2) by (auto simp: batch_wf_def sorted_wrt_iff_nth_less)
  have "?f 0 \<le> ?f ?n" using mono [of 0 ?n] by (cases "?n = 0") auto
  moreover have "unat (of_nat ?n :: u64) = ?n" using b by (intro u64_of_nat) simp
  ultimately have "?f ?n = ?f 0 + ?n"
    using i [symmetric] unat_plus_if' [of "e_Index (eb ! 0)" "of_nat ?n"] b
    by (auto split: if_splits)
  then have "?f k = ?f 0 + k"
    using increasing_consecutive [where f = ?f and n = ?n and k = k] mono n(1) by blast
  then show "e_Index (eb ! k) = e_Index (eb ! 0) + of_nat k"
    using b k unat_u64_bound [of "e_Index (eb ! k)"]
    by (simp add: word_unat_eq_iff u64_add u64_of_nat)
qed

text \<open>What is written for a batch and what is read back from it.\<close>

definition packed :: "entry list \<Rightarrow> entry list option" where
  "packed eb = (if length eb > 1 then compactBatchFields eb else Some eb)"

definition unpacked :: "entry list \<Rightarrow> entry list option" where
  "unpacked eb = (if length eb > 1 then restoreBatchFields eb else Some eb)"

lemma unpacked_packed:
  assumes wf: "batch_wf eb" and b: "length eb \<le> 48"
  obtains raw where "packed eb = Some raw" and "unpacked raw = Some eb" and "raw \<noteq> []"
    and "e_Index (raw ! 0) = e_Index (eb ! 0)"
proof (cases "1 < length eb \<and> e_Term (eb ! 0) = e_Term (eb ! (length eb - 1))
    \<and> e_Index (eb ! 0) + of_nat (length eb - 1) = e_Index (eb ! (length eb - 1))")
  case True
  then obtain e es where eb: "eb = e # es" "es \<noteq> []" by (cases eb) auto
  let ?raw = "e # clearFields es"
  have "\<forall>k < length es. e_Term (es ! k) = e_Term e \<and> e_Index (es ! k) = e_Index e + 1 + of_nat k"
  proof (intro allI impI)
    fix k assume "k < length es"
    then show "e_Term (es ! k) = e_Term e \<and> e_Index (es ! k) = e_Index e + 1 + of_nat k"
      using compact_consecutive [OF wf _ _ b, of "Suc k"] True eb by (simp add: add.assoc)
  qed
  then have "restoreFields (e_Term e) (e_Index e + 1) (clearFields es) = es"
    by (rule restoreFields_clear)
  moreover have "e_Term (?raw ! (length ?raw - 1)) = 0"
    using eb by (simp add: clearFields_def nth_Cons')
  ultimately have "unpacked ?raw = Some eb"
    using eb by (simp add: unpacked_def restoreBatchFields_def clearFields_def)
  moreover have "packed eb = Some ?raw" using True eb by (simp add: packed_def compactBatchFields_def)
  ultimately show thesis using that eb by simp
next
  case False
  have "0 < e_Term (eb ! (length eb - 1))" if "1 < length eb" using wf that by (simp add: batch_wf_def)
  then have "unpacked eb = Some eb" by (auto simp: unpacked_def restoreBatchFields_def)
  moreover have "packed eb = Some eb" using False by (auto simp: packed_def compactBatchFields_def)
  ultimately show thesis using that wf by (simp add: batch_wf_def)
qed

lemma unpacked_wf:
  assumes "batch_wf eb"
  shows "unpacked eb = Some eb"
proof -
  have "0 < e_Term (eb ! (length eb - 1))" using assms by (simp add: batch_wf_def)
  then show ?thesis by (auto simp: unpacked_def restoreBatchFields_def)
qed

end
