(* ===== verification/LogReader.thy ===== *)
theory LogReader
  imports EntryLogSpec
begin

text \<open>
  \<open>internal/logdb/logreader.go\<close>: the view of the persistent log that the Raft node reads. The reader
  keeps the range of available indexes; the entries themselves come from the log database.
  \<open>it\<close> is the database's \<open>IterateEntries\<close> for the node, called with an empty slice, as \<open>LogReader\<close>
  always does; an error other than the three the Raft package knows is \<open>ErrOther\<close>.

  What the reader needs of the database is the locale \<open>entry_store\<close>; its lemmas show that a reader in
  front of such a store keeps the contract \<open>logdb_ok\<close> that the Raft log relies on.
\<close>

section \<open>Definitions\<close>

type_synonym iterator = "u64 \<Rightarrow> u64 \<Rightarrow> u64 \<Rightarrow> raft_err + entry list \<times> u64"

record logReader =
  lr_clusterID :: u64
  lr_nodeID :: u64
  lr_state :: pb_state
  lr_snapshot :: snapshot
  lr_markerIndex :: u64
  lr_markerTerm :: u64
  lr_length :: u64

definition NewLogReader :: "u64 \<Rightarrow> u64 \<Rightarrow> logReader" where
  "NewLogReader clusterID nodeID =
     \<lparr>lr_clusterID = clusterID, lr_nodeID = nodeID, lr_state = emptyState,
      lr_snapshot = empty_snapshot, lr_markerIndex = 0, lr_markerTerm = 0, lr_length = 1\<rparr>"

definition lr_NodeState :: "logReader \<Rightarrow> pb_state \<times> membership" where
  "lr_NodeState lr = (lr_state lr, ss_Membership (lr_snapshot lr))"

definition lr_firstIndex :: "logReader \<Rightarrow> u64" where
  "lr_firstIndex lr = lr_markerIndex lr + 1"

definition lr_lastIndex :: "logReader \<Rightarrow> u64" where
  "lr_lastIndex lr = lr_markerIndex lr + lr_length lr - 1"

definition lr_GetRange :: "logReader \<Rightarrow> u64 \<times> u64" where
  "lr_GetRange lr = (lr_firstIndex lr, lr_lastIndex lr)"

definition lr_entriesLocked ::
    "iterator \<Rightarrow> logReader \<Rightarrow> u64 \<Rightarrow> u64 \<Rightarrow> u64 \<Rightarrow> raft_err + entry list \<times> u64" where
  "lr_entriesLocked it lr low high maxSize =
     (if low > high then Inl ErrOther
      else if low \<le> lr_markerIndex lr then Inl ErrCompacted
      else if high > lr_lastIndex lr + 1 then Inl ErrUnavailable
      else case it low high maxSize of
        Inl err \<Rightarrow> Inl err
      | Inr (ents, sz) \<Rightarrow>
          if of_nat (length ents) = high - low \<or> sz > maxSize then Inr (ents, sz)
          else if length ents > 0 then
            if e_Index (ents ! 0) > low then Inl ErrCompacted
            else
              let expected = e_Index (ents ! (length ents - 1)) + 1 in
              if lr_lastIndex lr \<le> expected then Inl ErrUnavailable else Inl ErrOther
          else Inl ErrUnavailable)"

definition lr_entries ::
    "iterator \<Rightarrow> logReader \<Rightarrow> u64 \<Rightarrow> u64 \<Rightarrow> u64 \<Rightarrow> raft_err + entry list \<times> u64" where
  "lr_entries it lr low high maxSize = lr_entriesLocked it lr low high maxSize"

definition lr_Entries :: "iterator \<Rightarrow> logReader \<Rightarrow> u64 \<Rightarrow> u64 \<Rightarrow> u64 \<Rightarrow> raft_err + entry list" where
  "lr_Entries it lr low high maxSize =
     (case lr_entries it lr low high maxSize of
        Inl err \<Rightarrow> Inl err
      | Inr (ents, sz) \<Rightarrow>
          if maxSize > 0 \<and> sz > maxSize \<and> length ents > 1 then Inr (take (length ents - 1) ents)
          else if maxSize = 0 \<and> sz > maxSize \<and> length ents > 1 then Inr (take 1 ents)
          else Inr ents)"

definition lr_termLocked :: "iterator \<Rightarrow> logReader \<Rightarrow> u64 \<Rightarrow> raft_err + u64" where
  "lr_termLocked it lr index =
     (if index = lr_markerIndex lr then Inr (lr_markerTerm lr)
      else case lr_entriesLocked it lr index (index + 1) 0 of
        Inl err \<Rightarrow> Inl err
      | Inr (ents, _) \<Rightarrow> if length ents = 0 then Inr 0 else Inr (e_Term (ents ! 0)))"

definition lr_Term :: "iterator \<Rightarrow> logReader \<Rightarrow> u64 \<Rightarrow> raft_err + u64" where
  "lr_Term it lr index = lr_termLocked it lr index"

definition lr_Snapshot :: "logReader \<Rightarrow> snapshot" where
  "lr_Snapshot lr = lr_snapshot lr"

definition lr_ApplySnapshot :: "logReader \<Rightarrow> snapshot \<Rightarrow> raft_err + logReader" where
  "lr_ApplySnapshot lr snapshot =
     (if ss_Index (lr_snapshot lr) \<ge> ss_Index snapshot then Inl ErrSnapshotOutOfDate
      else Inr (lr\<lparr>lr_snapshot := snapshot, lr_markerIndex := ss_Index snapshot,
                   lr_markerTerm := ss_Term snapshot, lr_length := 1\<rparr>))"

definition lr_CreateSnapshot :: "logReader \<Rightarrow> snapshot \<Rightarrow> raft_err + logReader" where
  "lr_CreateSnapshot lr snapshot =
     (if ss_Index (lr_snapshot lr) \<ge> ss_Index snapshot then Inl ErrSnapshotOutOfDate
      else Inr (lr\<lparr>lr_snapshot := snapshot\<rparr>))"

definition lr_SetRange :: "logReader \<Rightarrow> u64 \<Rightarrow> u64 \<Rightarrow> logReader option" where
  "lr_SetRange lr firstIndex len =
     (if len = 0 then Some lr
      else
        let first = lr_firstIndex lr; lst = firstIndex + len - 1 in
        if lst < first then Some lr
        else
          let (firstIndex, len) = (if first > firstIndex then (first, len - (first - firstIndex))
                                   else (firstIndex, len));
              offset = firstIndex - lr_markerIndex lr in
          if lr_length lr > offset then Some (lr\<lparr>lr_length := offset + len\<rparr>)
          else if lr_length lr = offset then Some (lr\<lparr>lr_length := lr_length lr + len\<rparr>)
          else panic)"

definition lr_Append :: "logReader \<Rightarrow> entry list \<Rightarrow> logReader option" where
  "lr_Append lr entries =
     (if length entries = 0 then Some lr
      else if e_Index (entries ! 0) + of_nat (length entries) - 1 \<noteq> e_Index (entries ! (length entries - 1))
      then panic
      else lr_SetRange lr (e_Index (entries ! 0)) (of_nat (length entries)))"

definition lr_SetState :: "logReader \<Rightarrow> pb_state \<Rightarrow> logReader" where
  "lr_SetState lr s = lr\<lparr>lr_state := s\<rparr>"

definition lr_Compact :: "iterator \<Rightarrow> logReader \<Rightarrow> u64 \<Rightarrow> raft_err + logReader" where
  "lr_Compact it lr index =
     (if index < lr_markerIndex lr then Inl ErrCompacted
      else if index > lr_lastIndex lr then Inl ErrUnavailable
      else case lr_termLocked it lr index of
        Inl err \<Rightarrow> Inl err
      | Inr trm \<Rightarrow>
          Inr (lr\<lparr>lr_length := lr_length lr - (index - lr_markerIndex lr), lr_markerIndex := index,
                  lr_markerTerm := trm\<rparr>))"

text \<open>The reader as the \<open>ILogDB\<close> of the Raft package.\<close>

definition lr_ILogDB :: "iterator \<Rightarrow> logReader \<Rightarrow> ilogdb" where
  "lr_ILogDB it lr = \<lparr>db_GetRange = lr_GetRange lr, db_NodeState = lr_NodeState lr,
     db_Term = lr_Term it lr, db_Entries = lr_Entries it lr, db_Snapshot = lr_Snapshot lr\<rparr>"

section \<open>Contract\<close>

text \<open>\<open>it_ok it c lo hi\<close>: the iterator serves the entries \<open>c n\<close> for \<open>lo \<le> n < hi\<close>. It may stop early, but not
  before the first entry and only when the size limit is exceeded.\<close>

definition it_ok :: "iterator \<Rightarrow> (nat \<Rightarrow> entry) \<Rightarrow> nat \<Rightarrow> nat \<Rightarrow> bool" where
  "it_ok it c lo hi \<longleftrightarrow>
     (\<forall>low high mx. lo \<le> unat low \<and> unat low < unat high \<and> unat high \<le> hi \<longrightarrow>
        (\<exists>k sz. 0 < k \<and> unat low + k \<le> unat high \<and> (unat low + k = unat high \<or> mx < sz)
           \<and> it low high mx = Inr (map c [unat low ..< unat low + k], sz)))"

text \<open>The range of the reader lies inside that of the store, and ends where it ends.\<close>

definition lr_inv :: "(nat \<Rightarrow> entry) \<Rightarrow> nat \<Rightarrow> nat \<Rightarrow> logReader \<Rightarrow> bool" where
  "lr_inv c lo hi lr \<longleftrightarrow> lo \<le> unat (lr_markerIndex lr) + 1 \<and> 0 < unat (lr_length lr)
     \<and> unat (lr_markerIndex lr) + unat (lr_length lr) = hi \<and> hi < 18446744073709551616
     \<and> lr_markerTerm lr = e_Term (c (unat (lr_markerIndex lr)))"

lemma lr_inv_range:
  assumes "lr_inv c lo hi lr"
  shows "unat (lr_firstIndex lr) = unat (lr_markerIndex lr) + 1" and "unat (lr_lastIndex lr) + 1 = hi"
    and "unat (lr_lastIndex lr + 1) = hi"
proof -
  note lr = assms [unfolded lr_inv_def]
  have s: "unat (lr_markerIndex lr + lr_length lr) = hi" using lr by (simp add: u64_add)
  then have "lr_markerIndex lr + lr_length lr \<noteq> 0" using lr by auto
  then show la: "unat (lr_lastIndex lr) + 1 = hi"
    using s lr by (simp add: lr_lastIndex_def unat_minus_one)
  then show "unat (lr_lastIndex lr + 1) = hi" using lr by (simp add: u64_inc)
  show "unat (lr_firstIndex lr) = unat (lr_markerIndex lr) + 1"
    using lr by (simp add: lr_firstIndex_def u64_inc)
qed

lemma lr_entriesLocked_spec:
  assumes it: "it_ok it c lo hi" and inv: "lr_inv c lo hi lr"
    and r: "unat (lr_markerIndex lr) < unat low" "unat low < unat high" "unat high \<le> hi"
  obtains k sz where "0 < k" and "unat low + k \<le> unat high" and "unat low + k = unat high \<or> mx < sz"
    and "lr_entriesLocked it lr low high mx = Inr (map c [unat low ..< unat low + k], sz)"
proof -
  have "lo \<le> unat low" using inv r(1) unfolding lr_inv_def by linarith
  with it r(2,3) obtain k sz where k: "0 < k" "unat low + k \<le> unat high" "unat low + k = unat high \<or> mx < sz"
    and i: "it low high mx = Inr (map c [unat low ..< unat low + k], sz)"
    unfolding it_ok_def by blast
  have "of_nat k = high - low" if "unat low + k = unat high"
  proof -
    have "k = unat (high - low)" using that r(2) by (simp add: unat_sub_if')
    then show ?thesis by simp
  qed
  then have "of_nat k = high - low \<or> mx < sz" using k(3) by blast
  then have "lr_entriesLocked it lr low high mx = Inr (map c [unat low ..< unat low + k], sz)"
    using i r lr_inv_range(3) [OF inv]
    by (simp add: lr_entriesLocked_def word_less_nat_alt word_le_nat_alt)
  with k that show thesis by blast
qed

lemma lr_Term_spec:
  assumes it: "it_ok it c lo hi" and inv: "lr_inv c lo hi lr"
    and r: "unat (lr_markerIndex lr) \<le> unat i" "unat i < hi"
  shows "lr_Term it lr i = Inr (e_Term (c (unat i)))"
proof (cases "i = lr_markerIndex lr")
  case True
  then show ?thesis using inv by (simp add: lr_Term_def lr_termLocked_def lr_inv_def)
next
  case False
  then have lt: "unat (lr_markerIndex lr) < unat i" using r(1) by (simp add: le_less word_unat_eq_iff)
  have i1: "unat (i + 1) = unat i + 1" using r(2) inv by (simp add: lr_inv_def u64_inc)
  obtain k sz where k: "0 < k" "unat i + k \<le> unat (i + 1)"
    and e: "lr_entriesLocked it lr i (i + 1) 0 = Inr (map c [unat i ..< unat i + k], sz)"
    by (rule lr_entriesLocked_spec [OF it inv lt, of "i + 1" 0]) (use i1 r(2) in auto)
  have "k = 1" using k i1 by linarith
  with e False show ?thesis by (simp add: lr_Term_def lr_termLocked_def)
qed

lemma lr_Entries_spec:
  assumes it: "it_ok it c lo hi" and inv: "lr_inv c lo hi lr"
    and r: "unat (lr_markerIndex lr) < unat low" "unat low < unat high" "unat high \<le> hi"
  shows "\<exists>k. 0 < k \<and> unat low + k \<le> unat high \<and> lr_Entries it lr low high mx = Inr (map c [unat low ..< unat low + k])"
proof -
  obtain k sz where k: "0 < k" "unat low + k \<le> unat high"
    and e: "lr_entriesLocked it lr low high mx = Inr (map c [unat low ..< unat low + k], sz)"
    by (rule lr_entriesLocked_spec [OF it inv r])
  have t: "take j (map c [unat low ..< unat low + k]) = map c [unat low ..< unat low + j]" if "j \<le> k" for j
    using that by (simp add: take_map)
  show ?thesis
    using k e t [of "k - 1"] t [of 1]
    by (auto simp: lr_Entries_def lr_entries_def intro: exI [of _ k] exI [of _ "k - 1"] exI [of _ 1])
qed

lemma lr_ILogDB_ok:
  assumes it: "it_ok it c lo hi" and inv: "lr_inv c lo hi lr"
    and idx: "\<And>n. lo \<le> n \<Longrightarrow> n < hi \<Longrightarrow> unat (e_Index (c n)) = n"
  shows "logdb_ok (lr_ILogDB it lr) c"
proof -
  note rg = lr_inv_range [OF inv]
  have "lo \<le> unat (lr_markerIndex lr) + 1" "unat (lr_markerIndex lr) < hi" "hi < 18446744073709551616"
    using inv by (auto simp: lr_inv_def)
  then show ?thesis
    using lr_Term_spec [OF it inv] lr_Entries_spec [OF it inv] idx rg(2)
    unfolding logdb_ok_def Let_def lr_ILogDB_def lr_GetRange_def
    by (simp add: rg(1))
qed

section \<open>Writing\<close>

text \<open>The content of the log once \<open>ents\<close> are written over it.\<close>

definition overwrite :: "(nat \<Rightarrow> entry) \<Rightarrow> entry list \<Rightarrow> nat \<Rightarrow> entry" where
  "overwrite c ents n = (let f = unat (e_Index (ents ! 0)) in
     if f \<le> n \<and> n < f + length ents then ents ! (n - f) else c n)"

text \<open>Entries that continue or replace the log from one of its indexes on.\<close>

definition storable :: "(nat \<Rightarrow> entry) \<Rightarrow> nat \<Rightarrow> nat \<Rightarrow> entry list \<Rightarrow> bool" where
  "storable c lo hi ents \<longleftrightarrow> (let f = unat (e_Index (ents ! 0)) in
     ents \<noteq> [] \<and> indexed (e_Index (ents ! 0)) ents \<and> 0 < f \<and> lo \<le> f \<and> f \<le> hi
     \<and> f + length ents < 18446744073709551616
     \<and> sorted (map e_Term ents) \<and> (\<forall>e \<in> set ents. 0 < e_Term e) \<and> e_Term (c (f - 1)) \<le> e_Term (ents ! 0))"

lemma storableD:
  assumes "storable c lo hi ents"
  shows "ents \<noteq> []" "indexed (e_Index (ents ! 0)) ents" "0 < unat (e_Index (ents ! 0))"
    "lo \<le> unat (e_Index (ents ! 0))" "unat (e_Index (ents ! 0)) \<le> hi"
    "unat (e_Index (ents ! 0)) + length ents < 18446744073709551616"
    "sorted (map e_Term ents)" "\<And>e. e \<in> set ents \<Longrightarrow> 0 < e_Term e"
    "e_Term (c (unat (e_Index (ents ! 0)) - 1)) \<le> e_Term (ents ! 0)"
  using assms by (simp_all add: storable_def Let_def)

lemma storable_index:
  assumes "storable c lo hi ents" and "k < length ents"
  shows "unat (e_Index (ents ! k)) = unat (e_Index (ents ! 0)) + k"
proof -
  have "e_Index (ents ! k) = e_Index (ents ! 0) + of_nat k"
    by (rule indexed_nth [OF storableD(2) [OF assms(1)] assms(2)])
  then show ?thesis using storableD(6) [OF assms(1)] assms(2) by (simp add: u64_add u64_of_nat)
qed

lemma overwrite_below: "n < unat (e_Index (ents ! 0)) \<Longrightarrow> overwrite c ents n = c n"
  by (simp add: overwrite_def Let_def)

lemma overwrite_index:
  assumes "storable c lo hi ents" and "\<And>n. lo \<le> n \<Longrightarrow> n < hi \<Longrightarrow> unat (e_Index (c n)) = n"
    and "lo \<le> n" and "n < unat (e_Index (ents ! 0)) + length ents"
  shows "unat (e_Index (overwrite c ents n)) = n"
proof (cases "n < unat (e_Index (ents ! 0))")
  case True
  then show ?thesis using assms(2,3) storableD(5) [OF assms(1)] by (simp add: overwrite_below)
next
  case False
  then show ?thesis
    using storable_index [OF assms(1), of "n - unat (e_Index (ents ! 0))"] assms(4)
    by (simp add: overwrite_def Let_def)
qed

lemma lr_Append_spec:
  assumes inv: "lr_inv c lo hi lr" and st: "storable c lo hi ents"
    and mk: "unat (lr_markerIndex lr) < unat (e_Index (ents ! 0))"
  obtains lr' where "lr_Append lr ents = Some lr'"
    and "lr_inv (overwrite c ents) lo (unat (e_Index (ents ! 0)) + length ents) lr'"
    and "lr_markerIndex lr' = lr_markerIndex lr"
proof -
  let ?f = "e_Index (ents ! 0)" and ?n = "of_nat (length ents) :: u64" and ?m = "lr_markerIndex lr"
  note sd = storableD [OF st] and iv = inv [unfolded lr_inv_def]
  have n: "unat ?n = length ents" using sd(6) by (simp add: u64_of_nat)
  have fn: "unat (?f + ?n) = unat ?f + length ents" using sd(6) n by (simp add: u64_add)
  moreover have nz: "?f + ?n \<noteq> 0" using fn sd(3) by auto
  ultimately have la: "unat (?f + ?n - 1) + 1 = unat ?f + length ents"
    using sd(3) by (simp add: unat_minus_one)
  have "unat (e_Index (ents ! (length ents - 1))) + 1 = unat ?f + length ents"
    using storable_index [OF st, of "length ents - 1"] sd(1) by (cases ents) simp_all
  with la have g: "?f + ?n - 1 = e_Index (ents ! (length ents - 1))" by (simp add: word_unat_eq_iff)
  have off: "unat (?f - ?m) = unat ?f - unat ?m" using mk by (simp add: unat_sub_if')
  have len: "unat (?f - ?m + ?n) = unat ?f + length ents - unat ?m"
    using off n mk sd(6) by (simp add: u64_add)
  have l1: "1 \<le> length ents" using sd(1) by (cases ents) simp_all
  have "\<not> ?f + ?n - 1 < lr_firstIndex lr" "\<not> ?f < lr_firstIndex lr"
    unfolding word_less_nat_alt using la lr_inv_range(1) [OF inv] mk l1 by linarith+
  moreover have "?n \<noteq> 0" using n l1 by auto
  moreover have "unat (?f - ?m) \<le> unat (lr_length lr)" using off iv sd(5) by linarith
  then have "?f - ?m \<le> lr_length lr" by (simp add: word_le_nat_alt)
  ultimately have "lr_Append lr ents = Some (lr\<lparr>lr_length := ?f - ?m + ?n\<rparr>)"
    using g sd(1) by (auto simp: lr_Append_def lr_SetRange_def Let_def le_less)
  moreover have "lr_inv (overwrite c ents) lo (unat ?f + length ents) (lr\<lparr>lr_length := ?f - ?m + ?n\<rparr>)"
    using iv len mk sd(6) overwrite_below [OF mk] by (auto simp: lr_inv_def)
  ultimately show thesis using that by simp
qed

lemma lr_Compact_spec:
  assumes it: "it_ok it c lo hi" and inv: "lr_inv c lo hi lr"
    and i: "unat (lr_markerIndex lr) \<le> unat i" "unat i < hi"
  obtains lr' where "lr_Compact it lr i = Inr lr'" and "lr_inv c lo hi lr'" and "lr_markerIndex lr' = i"
proof -
  have "\<not> i < lr_markerIndex lr" "\<not> lr_lastIndex lr < i"
    using i lr_inv_range(2) [OF inv] by (auto simp: word_less_nat_alt)
  moreover have "lr_termLocked it lr i = Inr (e_Term (c (unat i)))"
    using lr_Term_spec [OF it inv i] by (simp add: lr_Term_def)
  ultimately have "lr_Compact it lr i = Inr (lr\<lparr>lr_length := lr_length lr - (i - lr_markerIndex lr),
      lr_markerIndex := i, lr_markerTerm := e_Term (c (unat i))\<rparr>)"
    by (simp add: lr_Compact_def)
  moreover have "unat (lr_length lr - (i - lr_markerIndex lr)) = hi - unat i"
    using i inv by (auto simp: lr_inv_def unat_sub_if')
  ultimately show thesis using that i inv by (simp add: lr_inv_def)
qed

section \<open>The interface of the store\<close>

locale entry_store =
  fixes holds :: "'s \<Rightarrow> (nat \<Rightarrow> entry) \<Rightarrow> nat \<Rightarrow> nat \<Rightarrow> bool"
    and iterate :: "'s \<Rightarrow> iterator"
    and save :: "'s \<Rightarrow> entry list \<Rightarrow> 's option"
  assumes holds_index: "holds s c lo hi \<Longrightarrow> lo \<le> n \<Longrightarrow> n < hi \<Longrightarrow> unat (e_Index (c n)) = n"
    and holds_iterate: "holds s c lo hi \<Longrightarrow> it_ok (iterate s) c lo hi"
    and holds_save: "holds s c lo hi \<Longrightarrow> storable c lo hi ents \<Longrightarrow>
      \<exists>s'. save s ents = Some s' \<and> holds s' (overwrite c ents) lo (unat (e_Index (ents ! 0)) + length ents)"
begin

text \<open>A reader in front of the store keeps the contract of the Raft log, before and after a write.\<close>

lemma reader_ok:
  assumes "holds s c lo hi" and "lr_inv c lo hi lr"
  shows "logdb_ok (lr_ILogDB (iterate s) lr) c"
  using lr_ILogDB_ok [OF holds_iterate [OF assms(1)] assms(2)] holds_index [OF assms(1)] by blast

lemma save_and_append:
  assumes h: "holds s c lo hi" and inv: "lr_inv c lo hi lr" and st: "storable c lo hi ents"
    and mk: "unat (lr_markerIndex lr) < unat (e_Index (ents ! 0))"
  obtains s' lr' where "save s ents = Some s'" and "lr_Append lr ents = Some lr'"
    and "holds s' (overwrite c ents) lo (unat (e_Index (ents ! 0)) + length ents)"
    and "lr_inv (overwrite c ents) lo (unat (e_Index (ents ! 0)) + length ents) lr'"
    and "logdb_ok (lr_ILogDB (iterate s') lr') (overwrite c ents)"
proof -
  from holds_save [OF h st] obtain s' where s': "save s ents = Some s'"
    "holds s' (overwrite c ents) lo (unat (e_Index (ents ! 0)) + length ents)" by blast
  obtain lr' where lr': "lr_Append lr ents = Some lr'"
    "lr_inv (overwrite c ents) lo (unat (e_Index (ents ! 0)) + length ents) lr'"
    by (rule lr_Append_spec [OF inv st mk])
  show thesis by (rule that [OF s'(1) lr'(1) s'(2) lr'(2) reader_ok [OF s'(2) lr'(2)]])
qed

end

end
