(* ===== verification/RDB.thy ===== *)
theory RDB
  imports EntryBatch LogReader
begin

text \<open>
  \<open>internal/logdb/rdb.go\<close> and \<open>rdbcache.go\<close>: the persistent store of the Raft nodes of a host on a
  key-value store.

  The key-value store (RocksDB) is a parameter: a record of its operations on a state of any type
  \<open>'s\<close>, and \<open>kv_ok\<close> says what the code relies on. Keys are the values of \<open>kv_key\<close>, one constructor
  for each \<open>Set...Key\<close> method; values are those that \<open>Marshal\<close> writes and \<open>Unmarshal\<close> reads back. The
  scratch buffers of \<open>IContext\<close> carry no information between calls and do not appear.
\<close>

section \<open>The key-value store\<close>

datatype kv_key =
    EntryBatchKey u64 u64 u64
  | StateKey u64 u64
  | MaxIndexKey u64 u64
  | SnapshotKey u64 u64 u64
  | BootstrapKey u64 u64

datatype kv_value =
    BatchValue "entry list"
  | StateValue pb_state
  | IndexValue u64
  | SnapshotValue snapshot
  | BootstrapValue bootstrap

type_synonym write_batch = "(kv_key \<times> kv_value) list"

record 's kvstore =
  kv_GetValue :: "'s \<Rightarrow> kv_key \<Rightarrow> kv_value option"
  kv_IterateBatches :: "'s \<Rightarrow> u64 \<Rightarrow> u64 \<Rightarrow> u64 \<Rightarrow> u64 \<Rightarrow> (u64 \<times> entry list) list"
  kv_IterateSnapshots :: "'s \<Rightarrow> u64 \<Rightarrow> u64 \<Rightarrow> snapshot list"
  kv_IterateBootstraps :: "'s \<Rightarrow> (u64 \<times> u64) list"
  kv_CommitWriteBatch :: "'s \<Rightarrow> write_batch \<Rightarrow> 's"
  kv_DeleteValue :: "'s \<Rightarrow> kv_key \<Rightarrow> 's"
  kv_RemoveEntries :: "'s \<Rightarrow> kv_key \<Rightarrow> kv_key \<Rightarrow> 's"
  kv_Compaction :: "'s \<Rightarrow> kv_key \<Rightarrow> kv_key \<Rightarrow> 's"

text \<open>The value of a key after a write batch: that of its last write.\<close>

definition put_all :: "(kv_key \<Rightarrow> kv_value option) \<Rightarrow> write_batch \<Rightarrow> kv_key \<Rightarrow> kv_value option" where
  "put_all m wb = foldl (\<lambda>m (k, v). m(k \<mapsto> v)) m wb"

definition batches_in :: "(u64 \<Rightarrow> entry list option) \<Rightarrow> u64 \<Rightarrow> u64 \<Rightarrow> (u64 \<times> entry list) list" where
  "batches_in m low high = List.map_filter (\<lambda>i. map_option (Pair (of_nat i)) (m (of_nat i)))
     [unat low ..< unat high]"

definition batch_at :: "'s kvstore \<Rightarrow> 's \<Rightarrow> u64 \<Rightarrow> u64 \<Rightarrow> u64 \<Rightarrow> entry list option" where
  "batch_at kv s ci ni b =
     (case kv_GetValue kv s (EntryBatchKey ci ni b) of Some (BatchValue eb) \<Rightarrow> Some eb | _ \<Rightarrow> None)"

definition snapshot_at :: "'s kvstore \<Rightarrow> 's \<Rightarrow> u64 \<Rightarrow> u64 \<Rightarrow> u64 \<Rightarrow> snapshot option" where
  "snapshot_at kv s ci ni i =
     (case kv_GetValue kv s (SnapshotKey ci ni i) of Some (SnapshotValue ss) \<Rightarrow> Some ss | _ \<Rightarrow> None)"

text \<open>\<open>[firstKey, lastKey)\<close> for the keys \<open>removeEntriesTo\<close> and \<open>compaction\<close> use.\<close>

fun key_between :: "kv_key \<Rightarrow> kv_key \<Rightarrow> kv_key \<Rightarrow> bool" where
  "key_between (EntryBatchKey ci ni a) (EntryBatchKey ci' ni' b) (EntryBatchKey c n k) \<longleftrightarrow>
     c = ci \<and> n = ni \<and> ci' = ci \<and> ni' = ni \<and> a \<le> k \<and> k < b"
| "key_between _ _ _ \<longleftrightarrow> False"

text \<open>Committed writes can be read; an iteration visits the keys in its range in their order; a removal
  touches at most the keys in its range, and a compaction changes no value.\<close>

definition kv_ok :: "'s kvstore \<Rightarrow> bool" where
  "kv_ok kv \<longleftrightarrow>
     (\<forall>s wb. kv_GetValue kv (kv_CommitWriteBatch kv s wb) = put_all (kv_GetValue kv s) wb)
     \<and> (\<forall>s ci ni low high. kv_IterateBatches kv s ci ni low high
          = batches_in (batch_at kv s ci ni) low high)
     \<and> (\<forall>s ci ni. \<exists>is. sorted_wrt (<) is \<and> set is = {i. snapshot_at kv s ci ni i \<noteq> None}
          \<and> kv_IterateSnapshots kv s ci ni = map (the \<circ> snapshot_at kv s ci ni) is)
     \<and> (\<forall>s. set (kv_IterateBootstraps kv s) = {(ci, ni). kv_GetValue kv s (BootstrapKey ci ni) \<noteq> None})
     \<and> (\<forall>s k. kv_GetValue kv (kv_DeleteValue kv s k) = (kv_GetValue kv s)(k := None))
     \<and> (\<forall>s a b ci ni i j. a = EntryBatchKey ci ni i \<and> b = EntryBatchKey ci ni j \<longrightarrow>
          (\<forall>k. \<not> key_between a b k \<longrightarrow> kv_GetValue kv (kv_RemoveEntries kv s a b) k = kv_GetValue kv s k))
     \<and> (\<forall>s a b. kv_GetValue kv (kv_Compaction kv s a b) = kv_GetValue kv s)"

section \<open>The cache\<close>

record rdbcache =
  cs_nodeInfo :: "(u64 \<times> u64, unit) gomap"
  cs_ps :: "(u64 \<times> u64, pb_state) gomap"
  cs_lastEntryBatch :: "(u64 \<times> u64, entry list) gomap"
  cs_maxIndex :: "(u64 \<times> u64, u64) gomap"

definition newRDBCache :: rdbcache where
  "newRDBCache = \<lparr>cs_nodeInfo = [], cs_ps = [], cs_lastEntryBatch = [], cs_maxIndex = []\<rparr>"

definition cs_setNodeInfo :: "rdbcache \<Rightarrow> u64 \<Rightarrow> u64 \<Rightarrow> bool \<times> rdbcache" where
  "cs_setNodeInfo r clusterID nodeID =
     (if map_of (cs_nodeInfo r) (clusterID, nodeID) = None
      then (True, r\<lparr>cs_nodeInfo := AList.update (clusterID, nodeID) () (cs_nodeInfo r)\<rparr>)
      else (False, r))"

definition cs_setState :: "rdbcache \<Rightarrow> u64 \<Rightarrow> u64 \<Rightarrow> pb_state \<Rightarrow> bool \<times> rdbcache" where
  "cs_setState r clusterID nodeID st =
     (case map_of (cs_ps r) (clusterID, nodeID) of
        None \<Rightarrow> (True, r\<lparr>cs_ps := AList.update (clusterID, nodeID) st (cs_ps r)\<rparr>)
      | Some v \<Rightarrow>
          if IsStateEqual v st then (False, r)
          else (True, r\<lparr>cs_ps := AList.update (clusterID, nodeID) st (cs_ps r)\<rparr>))"

definition cs_setMaxIndex :: "rdbcache \<Rightarrow> u64 \<Rightarrow> u64 \<Rightarrow> u64 \<Rightarrow> rdbcache" where
  "cs_setMaxIndex r clusterID nodeID maxIndex =
     r\<lparr>cs_maxIndex := AList.update (clusterID, nodeID) maxIndex (cs_maxIndex r)\<rparr>"

definition cs_getMaxIndex :: "rdbcache \<Rightarrow> u64 \<Rightarrow> u64 \<Rightarrow> u64 option" where
  "cs_getMaxIndex r clusterID nodeID = map_of (cs_maxIndex r) (clusterID, nodeID)"

definition cs_setLastEntryBatch :: "rdbcache \<Rightarrow> u64 \<Rightarrow> u64 \<Rightarrow> entry list \<Rightarrow> rdbcache" where
  "cs_setLastEntryBatch r clusterID nodeID eb =
     r\<lparr>cs_lastEntryBatch := AList.update (clusterID, nodeID) eb (cs_lastEntryBatch r)\<rparr>"

definition cs_getLastEntryBatch :: "rdbcache \<Rightarrow> u64 \<Rightarrow> u64 \<Rightarrow> entry list option" where
  "cs_getLastEntryBatch r clusterID nodeID = map_of (cs_lastEntryBatch r) (clusterID, nodeID)"

section \<open>Writing\<close>

record 's rdb =
  rdb_kv :: "'s kvstore"
  rdb_kvs :: 's
  rdb_cs :: rdbcache

text \<open>\<open>openRDB\<close> on a store that was opened.\<close>

definition openRDB :: "'s kvstore \<Rightarrow> 's \<Rightarrow> 's rdb" where
  "openRDB kv s = \<lparr>rdb_kv = kv, rdb_kvs = s, rdb_cs = newRDBCache\<rparr>"

definition rdb_readMaxIndex :: "'s rdb \<Rightarrow> u64 \<Rightarrow> u64 \<Rightarrow> u64 option" where
  "rdb_readMaxIndex r clusterID nodeID =
     (case cs_getMaxIndex (rdb_cs r) clusterID nodeID of
        Some v \<Rightarrow> Some v
      | None \<Rightarrow>
          (case kv_GetValue (rdb_kv r) (rdb_kvs r) (MaxIndexKey clusterID nodeID) of
             Some (IndexValue i) \<Rightarrow> Some i | _ \<Rightarrow> None))"

definition rdb_recordMaxIndex :: "write_batch \<Rightarrow> u64 \<Rightarrow> u64 \<Rightarrow> u64 \<Rightarrow> write_batch" where
  "rdb_recordMaxIndex wb clusterID nodeID index = wb @ [(MaxIndexKey clusterID nodeID, IndexValue index)]"

definition rdb_setMaxIndex :: "'s rdb \<Rightarrow> write_batch \<Rightarrow> update \<Rightarrow> u64 \<Rightarrow> 's rdb \<times> write_batch" where
  "rdb_setMaxIndex r wb ud maxIndex =
     (r\<lparr>rdb_cs := cs_setMaxIndex (rdb_cs r) (ud_ClusterID ud) (ud_NodeID ud) maxIndex\<rparr>,
      rdb_recordMaxIndex wb (ud_ClusterID ud) (ud_NodeID ud) maxIndex)"

definition rdb_recordSnapshot :: "write_batch \<Rightarrow> update \<Rightarrow> write_batch" where
  "rdb_recordSnapshot wb ud =
     (if IsEmptySnapshot (ud_Snapshot ud) then wb
      else wb @ [(SnapshotKey (ud_ClusterID ud) (ud_NodeID ud) (ss_Index (ud_Snapshot ud)),
                  SnapshotValue (ud_Snapshot ud))])"

definition rdb_recordState ::
    "'s rdb \<Rightarrow> u64 \<Rightarrow> u64 \<Rightarrow> pb_state \<Rightarrow> write_batch \<Rightarrow> 's rdb \<times> write_batch" where
  "rdb_recordState r clusterID nodeID st wb =
     (if IsEmptyState st then (r, wb)
      else
        let (b, cs) = cs_setState (rdb_cs r) clusterID nodeID st; r = r\<lparr>rdb_cs := cs\<rparr> in
        if \<not> b then (r, wb) else (r, wb @ [(StateKey clusterID nodeID, StateValue st)]))"

definition rdb_getEntryBatchFromDB :: "'s rdb \<Rightarrow> u64 \<Rightarrow> u64 \<Rightarrow> u64 \<Rightarrow> entry list option option" where
  "rdb_getEntryBatchFromDB r clusterID nodeID batchID =
     (case kv_GetValue (rdb_kv r) (rdb_kvs r) (EntryBatchKey clusterID nodeID batchID) of
        Some (BatchValue e) \<Rightarrow>
          if length e > 1 then do { e \<leftarrow> restoreBatchFields e; Some (Some e) } else Some (Some e)
      | _ \<Rightarrow> Some None)"

definition rdb_getLastBatch :: "'s rdb \<Rightarrow> u64 \<Rightarrow> u64 \<Rightarrow> u64 \<Rightarrow> entry list option option" where
  "rdb_getLastBatch r clusterID nodeID firstIndex =
     (case cs_getLastEntryBatch (rdb_cs r) clusterID nodeID of
        None \<Rightarrow> rdb_getEntryBatchFromDB r clusterID nodeID (getBatchID firstIndex)
      | Some lb \<Rightarrow> do {
          e \<leftarrow> go_index lb 0;
          if getBatchID firstIndex < getBatchID (e_Index e)
          then rdb_getEntryBatchFromDB r clusterID nodeID (getBatchID firstIndex)
          else Some (Some lb) })"

definition rdb_getMergedFirstBatch :: "'s rdb \<Rightarrow> u64 \<Rightarrow> u64 \<Rightarrow> entry list \<Rightarrow> entry list option" where
  "rdb_getMergedFirstBatch r clusterID nodeID eb = do {
     e \<leftarrow> go_index eb 0;
     if e_Index e mod batchSize = 0 then Some eb
     else do {
       lb \<leftarrow> rdb_getLastBatch r clusterID nodeID (e_Index e);
       case lb of None \<Rightarrow> Some eb | Some lb \<Rightarrow> getMergedFirstBatch eb lb } }"

definition rdb_recordEntryBatch ::
    "'s rdb \<Rightarrow> write_batch \<Rightarrow> u64 \<Rightarrow> u64 \<Rightarrow> entry list \<Rightarrow> u64 \<Rightarrow> u64 \<Rightarrow> ('s rdb \<times> write_batch) option" where
  "rdb_recordEntryBatch r wb clusterID nodeID eb firstBatchID lastBatchID =
     (if length eb = 0 then Some (r, wb)
      else do {
        let batchID = getBatchID (e_Index (eb ! 0));
        meb \<leftarrow> (if firstBatchID = batchID then rdb_getMergedFirstBatch r clusterID nodeID eb else Some eb);
        let r = (if lastBatchID = batchID
                 then r\<lparr>rdb_cs := cs_setLastEntryBatch (rdb_cs r) clusterID nodeID meb\<rparr> else r);
        meb \<leftarrow> (if length meb > 1 then compactBatchFields meb else Some meb);
        Some (r, wb @ [(EntryBatchKey clusterID nodeID batchID, BatchValue meb)]) })"

text \<open>The loop of \<open>recordEntries\<close>: \<open>eb\<close> is the batch being filled, \<open>cur\<close> its id.\<close>

primrec rdb_recordEntries_loop ::
    "u64 \<Rightarrow> u64 \<Rightarrow> u64 \<Rightarrow> u64 \<Rightarrow> entry list \<Rightarrow> 's rdb \<Rightarrow> write_batch \<Rightarrow> entry list \<Rightarrow> u64 \<Rightarrow> u64
     \<Rightarrow> ('s rdb \<times> write_batch \<times> u64) option" where
  "rdb_recordEntries_loop ci ni fb lb [] r wb eb cur mi =
     (if length eb > 0 then do {
        (r, wb) \<leftarrow> rdb_recordEntryBatch r wb ci ni eb fb lb;
        Some (r, wb, mi) }
      else Some (r, wb, mi))"
| "rdb_recordEntries_loop ci ni fb lb (ent # ents) r wb eb cur mi = do {
     let mi = (if e_Index ent > mi then e_Index ent else mi);
     let batchID = getBatchID (e_Index ent);
     if batchID \<noteq> cur then do {
       (r, wb) \<leftarrow> rdb_recordEntryBatch r wb ci ni eb fb lb;
       rdb_recordEntries_loop ci ni fb lb ents r wb [ent] batchID mi }
     else rdb_recordEntries_loop ci ni fb lb ents r wb (eb @ [ent]) cur mi }"

definition rdb_recordEntries ::
    "'s rdb \<Rightarrow> write_batch \<Rightarrow> u64 \<Rightarrow> u64 \<Rightarrow> entry list \<Rightarrow> ('s rdb \<times> write_batch \<times> u64) option" where
  "rdb_recordEntries r wb clusterID nodeID entries =
     (if length entries = 0 then panic
      else rdb_recordEntries_loop clusterID nodeID (getBatchID (e_Index (entries ! 0)))
        (getBatchID (e_Index (entries ! (length entries - 1)))) entries r wb [] max_u64 0)"

definition rdb_saveEntries :: "'s rdb \<Rightarrow> update list \<Rightarrow> write_batch \<Rightarrow> ('s rdb \<times> write_batch) option" where
  "rdb_saveEntries r updates wb = go_fold (\<lambda>ud (r, wb).
     if length (ud_EntriesToSave ud) > 0 then do {
       (r, wb, mi) \<leftarrow> rdb_recordEntries r wb (ud_ClusterID ud) (ud_NodeID ud) (ud_EntriesToSave ud);
       Some (if mi > 0 then rdb_setMaxIndex r wb ud mi else (r, wb)) }
     else Some (r, wb)) updates (r, wb)"

text \<open>The first loop of \<open>saveRaftState\<close> records the hard state and the snapshot of each update.\<close>

definition rdb_saveStates :: "'s rdb \<Rightarrow> update list \<Rightarrow> write_batch \<Rightarrow> ('s rdb \<times> write_batch) option" where
  "rdb_saveStates r updates wb = go_fold (\<lambda>ud (r, wb). do {
     let (r, wb) = rdb_recordState r (ud_ClusterID ud) (ud_NodeID ud) (ud_State ud) wb;
     if \<not> IsEmptySnapshot (ud_Snapshot ud) then
       if length (ud_EntriesToSave ud) > 0
          \<and> ss_Index (ud_Snapshot ud) > e_Index (ud_EntriesToSave ud ! (length (ud_EntriesToSave ud) - 1))
       then panic
       else Some (rdb_setMaxIndex r (rdb_recordSnapshot wb ud) ud (ss_Index (ud_Snapshot ud)))
     else Some (r, wb) }) updates (r, wb)"

definition rdb_saveRaftState :: "'s rdb \<Rightarrow> update list \<Rightarrow> 's rdb option" where
  "rdb_saveRaftState r updates = do {
     (r, wb) \<leftarrow> rdb_saveStates r updates [];
     (r, wb) \<leftarrow> rdb_saveEntries r updates wb;
     Some (if length wb > 0 then r\<lparr>rdb_kvs := kv_CommitWriteBatch (rdb_kv r) (rdb_kvs r) wb\<rparr> else r) }"

definition rdb_saveSnapshots :: "'s rdb \<Rightarrow> update list \<Rightarrow> 's rdb" where
  "rdb_saveSnapshots r updates =
     (let wb = foldl (\<lambda>wb ud. if ss_Index (ud_Snapshot ud) > 0 then rdb_recordSnapshot wb ud else wb) [] updates;
          toSave = (\<exists>ud \<in> set updates. ss_Index (ud_Snapshot ud) > 0) in
      if toSave then r\<lparr>rdb_kvs := kv_CommitWriteBatch (rdb_kv r) (rdb_kvs r) wb\<rparr> else r)"

definition rdb_saveBootstrapInfo :: "'s rdb \<Rightarrow> u64 \<Rightarrow> u64 \<Rightarrow> bootstrap \<Rightarrow> 's rdb" where
  "rdb_saveBootstrapInfo r clusterID nodeID b =
     r\<lparr>rdb_kvs := kv_CommitWriteBatch (rdb_kv r) (rdb_kvs r) [(BootstrapKey clusterID nodeID, BootstrapValue b)]\<rparr>"

definition rdb_deleteSnapshot :: "'s rdb \<Rightarrow> u64 \<Rightarrow> u64 \<Rightarrow> u64 \<Rightarrow> 's rdb" where
  "rdb_deleteSnapshot r clusterID nodeID snapshotIndex =
     r\<lparr>rdb_kvs := kv_DeleteValue (rdb_kv r) (rdb_kvs r) (SnapshotKey clusterID nodeID snapshotIndex)\<rparr>"

definition rdb_rangedEntryOp ::
    "'s rdb \<Rightarrow> u64 \<Rightarrow> u64 \<Rightarrow> u64 \<Rightarrow> ('s rdb \<Rightarrow> kv_key \<Rightarrow> kv_key \<Rightarrow> 's rdb) \<Rightarrow> 's rdb" where
  "rdb_rangedEntryOp r clusterID nodeID index op =
     (let batchID = getBatchID index in
      if batchID = 0 \<or> batchID = 1 then r
      else op r (EntryBatchKey clusterID nodeID 0) (EntryBatchKey clusterID nodeID (batchID - 1)))"

definition rdb_removeEntriesTo :: "'s rdb \<Rightarrow> u64 \<Rightarrow> u64 \<Rightarrow> u64 \<Rightarrow> 's rdb" where
  "rdb_removeEntriesTo r clusterID nodeID index = rdb_rangedEntryOp r clusterID nodeID index
     (\<lambda>r firstKey lastKey. r\<lparr>rdb_kvs := kv_RemoveEntries (rdb_kv r) (rdb_kvs r) firstKey lastKey\<rparr>)"

definition rdb_compaction :: "'s rdb \<Rightarrow> u64 \<Rightarrow> u64 \<Rightarrow> u64 \<Rightarrow> 's rdb" where
  "rdb_compaction r clusterID nodeID index = rdb_rangedEntryOp r clusterID nodeID index
     (\<lambda>r firstKey lastKey. r\<lparr>rdb_kvs := kv_Compaction (rdb_kv r) (rdb_kvs r) firstKey lastKey\<rparr>)"

section \<open>Reading\<close>

definition rdb_getBootstrapInfo :: "'s rdb \<Rightarrow> u64 \<Rightarrow> u64 \<Rightarrow> bootstrap option" where
  "rdb_getBootstrapInfo r clusterID nodeID =
     (case kv_GetValue (rdb_kv r) (rdb_kvs r) (BootstrapKey clusterID nodeID) of
        Some (BootstrapValue b) \<Rightarrow> Some b | _ \<Rightarrow> None)"

definition rdb_listSnapshots :: "'s rdb \<Rightarrow> u64 \<Rightarrow> u64 \<Rightarrow> snapshot list" where
  "rdb_listSnapshots r clusterID nodeID = kv_IterateSnapshots (rdb_kv r) (rdb_kvs r) clusterID nodeID"

definition rdb_listNodeInfo :: "'s rdb \<Rightarrow> (u64 \<times> u64) list" where
  "rdb_listNodeInfo r = kv_IterateBootstraps (rdb_kv r) (rdb_kvs r)"

definition rdb_readState :: "'s rdb \<Rightarrow> u64 \<Rightarrow> u64 \<Rightarrow> pb_state option" where
  "rdb_readState r clusterID nodeID =
     (case kv_GetValue (rdb_kv r) (rdb_kvs r) (StateKey clusterID nodeID) of
        Some (StateValue st) \<Rightarrow> Some st | _ \<Rightarrow> None)"

text \<open>The callback of \<open>iterateEntryBatches\<close>: it stops at the first batch that is not the expected one.\<close>

primrec rdb_collectBatches :: "u64 \<Rightarrow> (u64 \<times> entry list) list \<Rightarrow> entry list list option" where
  "rdb_collectBatches expectedID [] = Some []"
| "rdb_collectBatches expectedID (b # bs) = do {
     e \<leftarrow> go_index (snd b) 0;
     if getBatchID (e_Index e) \<noteq> expectedID then Some []
     else do { ebs \<leftarrow> rdb_collectBatches (expectedID + 1) bs; Some (snd b # ebs) } }"

definition rdb_iterateEntryBatches :: "'s rdb \<Rightarrow> u64 \<Rightarrow> u64 \<Rightarrow> u64 \<Rightarrow> u64 \<Rightarrow> entry list list option" where
  "rdb_iterateEntryBatches r clusterID nodeID low high =
     (if low + 1 = high then do {
        e \<leftarrow> rdb_getEntryBatchFromDB r clusterID nodeID low;
        Some (case e of None \<Rightarrow> [] | Some e \<Rightarrow> [e]) }
      else rdb_collectBatches low (kv_IterateBatches (rdb_kv r) (rdb_kvs r) clusterID nodeID low high))"

text \<open>The inner and the outer loop of \<open>iterateEntries\<close>; a result with \<open>True\<close> is an early return.\<close>

primrec rdb_scanBatch ::
    "u64 \<Rightarrow> u64 \<Rightarrow> u64 \<Rightarrow> entry list \<Rightarrow> u64 \<Rightarrow> entry list \<Rightarrow> u64 \<Rightarrow> bool \<times> u64 \<times> entry list \<times> u64" where
  "rdb_scanBatch low high maxSize [] exp ents sz = (False, exp, ents, sz)"
| "rdb_scanBatch low high maxSize (e # es) exp ents sz =
     (if e_Index e \<ge> low \<and> e_Index e < high then
        if e_Index e \<noteq> exp then (True, exp, ents, sz)
        else
          let exp = e_Index e + 1; sz = sz + of_nat (SizeUpperLimit e); ents = ents @ [e] in
          if sz > maxSize then (True, exp, ents, sz)
          else rdb_scanBatch low high maxSize es exp ents sz
      else rdb_scanBatch low high maxSize es exp ents sz)"

primrec rdb_scanBatches ::
    "u64 \<Rightarrow> u64 \<Rightarrow> u64 \<Rightarrow> entry list list \<Rightarrow> u64 \<Rightarrow> entry list \<Rightarrow> u64 \<Rightarrow> (entry list \<times> u64) option" where
  "rdb_scanBatches low high maxSize [] exp ents sz = Some (ents, entriesSize ents)"
| "rdb_scanBatches low high maxSize (eb # ebs) exp ents sz = do {
     eb \<leftarrow> (if length eb > 1 then restoreBatchFields eb else Some eb);
     let (stop, exp, ents, sz) = rdb_scanBatch low high maxSize eb exp ents sz;
     if stop then Some (ents, sz) else rdb_scanBatches low high maxSize ebs exp ents sz }"

definition rdb_iterateEntries :: "'s rdb \<Rightarrow> u64 \<Rightarrow> u64 \<Rightarrow> u64 \<Rightarrow> u64 \<Rightarrow> u64 \<Rightarrow> (entry list \<times> u64) option" where
  "rdb_iterateEntries r clusterID nodeID low high maxSize =
     (case rdb_readMaxIndex r clusterID nodeID of
        None \<Rightarrow> Some ([], 0)
      | Some maxIndex \<Rightarrow> do {
          let high = (if high > maxIndex + 1 then maxIndex + 1 else high);
          let (lowID, highID) = getBatchIDRange low high;
          ebs \<leftarrow> rdb_iterateEntryBatches r clusterID nodeID lowID highID;
          if length ebs = 0 then Some ([], 0)
          else rdb_scanBatches low high maxSize ebs low [] 0 })"

text \<open>The callback of \<open>getEntryRange\<close> counts the entries of a batch inside the range.\<close>

definition rdb_countEntry :: "u64 \<Rightarrow> u64 \<Rightarrow> u64 \<times> u64 \<Rightarrow> entry \<Rightarrow> u64 \<times> u64" where
  "rdb_countEntry lastIndex maxIndex = (\<lambda>(firstIndex, len) e.
     if e_Index e \<ge> lastIndex \<and> e_Index e \<le> maxIndex
     then (if firstIndex = 0 then e_Index e else firstIndex, len + 1) else (firstIndex, len))"

definition rdb_countRange ::
    "u64 \<Rightarrow> u64 \<Rightarrow> (u64 \<times> entry list) list \<Rightarrow> u64 \<times> u64 \<Rightarrow> (u64 \<times> u64) option" where
  "rdb_countRange lastIndex maxIndex bs = go_fold (\<lambda>b acc.
     if length (snd b) = 0 then panic
     else do {
       eb \<leftarrow> (if length (snd b) > 1 then restoreBatchFields (snd b) else Some (snd b));
       Some (foldl (rdb_countEntry lastIndex maxIndex) acc eb) }) bs"

definition rdb_getEntryRange :: "'s rdb \<Rightarrow> u64 \<Rightarrow> u64 \<Rightarrow> u64 \<Rightarrow> (u64 \<times> u64) option" where
  "rdb_getEntryRange r clusterID nodeID lastIndex =
     (case rdb_readMaxIndex r clusterID nodeID of
        None \<Rightarrow> Some (lastIndex, 0)
      | Some maxIndex \<Rightarrow>
          let (low, high) = getBatchIDRange lastIndex (maxIndex + 1) in
          rdb_countRange lastIndex maxIndex
            (kv_IterateBatches (rdb_kv r) (rdb_kvs r) clusterID nodeID low high) (0, 0))"

text \<open>The result is \<open>None\<close> for \<open>ErrNoSavedLog\<close>.\<close>

definition rdb_readRaftState :: "'s rdb \<Rightarrow> u64 \<Rightarrow> u64 \<Rightarrow> u64 \<Rightarrow> (pb_state \<times> u64 \<times> u64) option option" where
  "rdb_readRaftState r clusterID nodeID lastIndex = do {
     (firstIndex, len) \<leftarrow> rdb_getEntryRange r clusterID nodeID lastIndex;
     Some (map_option (\<lambda>st. (st, firstIndex, len)) (rdb_readState r clusterID nodeID)) }"

end
