(* ===== verification/RDBSpec.thy ===== *)
theory RDBSpec
  imports RDB
begin

text \<open>
  Entries that were saved are read back. \<open>rdb_holds ci ni r c lo hi\<close> says that the database \<open>r\<close> holds,
  for the node, the entries \<open>c n\<close> with \<open>lo \<le> n < hi\<close>, spread over batches; saving entries and
  iterating over them keep and use exactly this, which makes the database an \<open>entry_store\<close>.
\<close>

section \<open>Invariant\<close>

text \<open>The content of batch \<open>k\<close>.\<close>

definition visible :: "(nat \<Rightarrow> entry) \<Rightarrow> nat \<Rightarrow> nat \<Rightarrow> nat \<Rightarrow> entry list" where
  "visible c lo hi k = map c [max lo (48 * k) ..< min (48 * k + 48) hi]"

definition stored :: "'s rdb \<Rightarrow> u64 \<Rightarrow> u64 \<Rightarrow> nat \<Rightarrow> entry list \<Rightarrow> bool" where
  "stored r ci ni k eb \<longleftrightarrow> (\<exists>raw. batch_at (rdb_kv r) (rdb_kvs r) ci ni (of_nat k) = Some raw
     \<and> raw \<noteq> [] \<and> e_Index (raw ! 0) = e_Index (eb ! 0) \<and> unpacked raw = Some eb)"

definition content_ok :: "(nat \<Rightarrow> entry) \<Rightarrow> nat \<Rightarrow> nat \<Rightarrow> bool" where
  "content_ok c lo hi \<longleftrightarrow> 0 < lo \<and> lo \<le> hi \<and> hi < 18446744073709551616
     \<and> (\<forall>n. lo \<le> n \<and> n < hi \<longrightarrow> unat (e_Index (c n)) = n \<and> 0 < e_Term (c n)
          \<and> e_Term (c (n - 1)) \<le> e_Term (c n))"

definition rdb_holds :: "u64 \<Rightarrow> u64 \<Rightarrow> 's rdb \<Rightarrow> (nat \<Rightarrow> entry) \<Rightarrow> nat \<Rightarrow> nat \<Rightarrow> bool" where
  "rdb_holds ci ni r c lo hi \<longleftrightarrow> kv_ok (rdb_kv r) \<and> content_ok c lo hi
     \<and> (if lo = hi
        then batch_at (rdb_kv r) (rdb_kvs r) ci ni (of_nat (lo div 48)) = None
          \<and> (\<forall>lb. cs_getLastEntryBatch (rdb_cs r) ci ni = Some lb \<longrightarrow>
               lb \<noteq> [] \<and> unat (e_Index (lb ! 0)) div 48 < lo div 48)
        else kv_GetValue (rdb_kv r) (rdb_kvs r) (MaxIndexKey ci ni) = Some (IndexValue (of_nat (hi - 1)))
          \<and> (\<forall>v. cs_getMaxIndex (rdb_cs r) ci ni = Some v \<longrightarrow> v = of_nat (hi - 1))
          \<and> (\<forall>k. lo div 48 \<le> k \<and> k \<le> (hi - 1) div 48 \<longrightarrow> stored r ci ni k (visible c lo hi k))
          \<and> (\<forall>lb. cs_getLastEntryBatch (rdb_cs r) ci ni = Some lb \<longrightarrow>
               lb = visible c lo hi ((hi - 1) div 48)))"

section \<open>Batches\<close>

lemma unat_getBatchID [simp]: "unat (getBatchID i) = unat i div 48"
  by (simp add: getBatchID_def batchSize_def unat_div_distrib)

lemma getBatchID_eq: "getBatchID i = of_nat (unat i div 48)"
proof -
  have "unat i div 48 < 18446744073709551616" using unat_u64_bound [of i] by linarith
  then show ?thesis by (simp add: word_unat_eq_iff u64_of_nat)
qed

lemma content_okD:
  assumes "content_ok c lo hi" and "lo \<le> n" and "n < hi"
  shows "unat (e_Index (c n)) = n" "0 < e_Term (c n)" "e_Term (c (n - 1)) \<le> e_Term (c n)"
  using assms by (auto simp: content_ok_def)

lemma content_mono:
  assumes "content_ok c lo hi" and "lo \<le> a" and "a \<le> b" and "b < hi"
  shows "e_Term (c a) \<le> e_Term (c b)"
  using assms(3,4)
proof (induction rule: dec_induct)
  case (step n)
  then have "e_Term (c n) \<le> e_Term (c (Suc n))"
    using content_okD(3) [OF assms(1), of "Suc n"] assms(2) by simp
  with step show ?case by (meson Suc_lessD order_trans)
qed simp

lemma nth_map_upt_off: "j < length (map c [a ..< b]) \<Longrightarrow> map c [a ..< b] ! j = c (a + j)"
  by simp

lemma map_upt_nonempty: "map c [a ..< b] \<noteq> [] \<Longrightarrow> a < b"
  by (cases "a < b") auto

lemma visible_nth:
  "j < length (visible c lo hi k) \<Longrightarrow> visible c lo hi k ! j = c (max lo (48 * k) + j)"
  unfolding visible_def by (rule nth_map_upt_off)

lemma visible_range: "j < length (visible c lo hi k) \<Longrightarrow> lo \<le> max lo (48 * k) + j \<and> max lo (48 * k) + j < hi"
  by (auto simp: visible_def)

lemma visible_nonempty: "lo < hi \<Longrightarrow> lo div 48 \<le> k \<Longrightarrow> k \<le> (hi - 1) div 48 \<Longrightarrow> visible c lo hi k \<noteq> []"
proof -
  assume a: "lo < hi" "lo div 48 \<le> k" "k \<le> (hi - 1) div 48"
  then have "lo < 48 * k + 48" "48 * k < hi" by linarith+
  with a(1) show ?thesis by (simp add: visible_def)
qed

lemma visible_wf:
  assumes c: "content_ok c lo hi" and ne: "visible c lo hi k \<noteq> []"
  shows "batch_wf (visible c lo hi k)" and "length (visible c lo hi k) \<le> 48"
proof -
  let ?a = "max lo (48 * k)" and ?b = "min (48 * k + 48) hi"
  have "sorted_wrt (<) (map (unat \<circ> e_Index) (visible c lo hi k))"
    unfolding sorted_wrt_iff_nth_less
    using content_okD(1) [OF c] visible_range [of _ c lo hi k] visible_nth [of _ c lo hi k] by auto
  moreover have "sorted (map e_Term (visible c lo hi k))"
    unfolding sorted_iff_nth_mono
    using content_mono [OF c] visible_range [of _ c lo hi k] visible_nth [of _ c lo hi k] by auto
  moreover have "\<forall>e \<in> set (visible c lo hi k). 0 < e_Term e"
  proof
    fix e assume "e \<in> set (visible c lo hi k)"
    then obtain j where j: "j < length (visible c lo hi k)" "e = visible c lo hi k ! j"
      by (auto simp: in_set_conv_nth)
    then show "0 < e_Term e"
      using content_okD(2) [OF c] visible_range [OF j(1)] visible_nth [OF j(1)] by simp
  qed
  ultimately show "batch_wf (visible c lo hi k)" using ne by (simp add: batch_wf_def)
  show "length (visible c lo hi k) \<le> 48" by (simp add: visible_def)
qed

lemma visible_first:
  assumes "content_ok c lo hi" and "visible c lo hi k \<noteq> []"
  shows "unat (e_Index (visible c lo hi k ! 0)) = max lo (48 * k)"
    and "unat (e_Index (visible c lo hi k ! 0)) div 48 = k"
proof -
  have r: "max lo (48 * k) < min (48 * k + 48) hi"
    by (rule map_upt_nonempty [OF assms(2) [unfolded visible_def]])
  then show i: "unat (e_Index (visible c lo hi k ! 0)) = max lo (48 * k)"
    using visible_nth [of 0 c lo hi k] content_okD(1) [OF assms(1), of "max lo (48 * k)"] assms(2)
    by simp
  show "unat (e_Index (visible c lo hi k ! 0)) div 48 = k"
    unfolding i using r by (intro div_nat_eqI) auto
qed

lemma stored_packed:
  assumes "content_ok c lo hi" and "visible c lo hi k \<noteq> []"
  obtains raw where "packed (visible c lo hi k) = Some raw"
    and "batch_at (rdb_kv r) (rdb_kvs r) ci ni (of_nat k) = Some raw \<Longrightarrow> stored r ci ni k (visible c lo hi k)"
  using unpacked_packed [OF visible_wf [OF assms]] unfolding stored_def by metis

section \<open>Reading\<close>

lemma scanBatch_spec:
  assumes c: "content_ok c lo hi" and r: "lo \<le> unat low" "unat low < unat high" "unat high \<le> hi"
    and "lo \<le> a" and "b \<le> hi" and "p = min (max (unat low) a) (unat high)"
  shows "\<exists>stop p' sz'. rdb_scanBatch low high mx (map c [a ..< b]) (of_nat p) (map c [unat low ..< p]) sz
      = (stop, of_nat p', map c [unat low ..< p'], sz')
    \<and> (if stop then unat low < p' \<and> p' \<le> unat high \<and> mx < sz'
       else p' = min (max (unat low) (max a b)) (unat high))"
  using assms(5-7)
proof (induction "b - a" arbitrary: a p sz)
  case 0
  then have "[a ..< b] = []" "max a b = a" by simp_all
  with "0.prems"(3) show ?case by (intro exI [of _ False] exI [of _ p] exI [of _ sz]) simp
next
  case (Suc n)
  then have ab: "a < b" and upt: "[a ..< b] = a # [Suc a ..< b]" by (simp_all add: upt_rec)
  have i: "unat (e_Index (c a)) = a" using content_okD(1) [OF c, of a] Suc.prems ab by simp
  have n: "n = b - Suc a" and lo: "lo \<le> Suc a" and m: "max (Suc a) b = max a b"
    using Suc.hyps(2) Suc.prems(1) ab by simp_all
  have IH: "\<exists>stop p' sz'. rdb_scanBatch low high mx (map c [Suc a ..< b]) (of_nat q) (map c [unat low ..< q]) s
      = (stop, of_nat p', map c [unat low ..< p'], sz')
    \<and> (if stop then unat low < p' \<and> p' \<le> unat high \<and> mx < sz'
       else p' = min (max (unat low) (max a b)) (unat high))"
    if "q = min (max (unat low) (Suc a)) (unat high)" for q s
    by (rule Suc.hyps(1) [OF n lo Suc.prems(2) that, unfolded m])
  show ?case
  proof (cases "unat low \<le> a \<and> a < unat high")
    case True
    then have p: "p = a" using Suc.prems(3) by simp
    let ?sz = "sz + of_nat (SizeUpperLimit (c a))"
    have "e_Index (c a) = of_nat a" using i by (metis of_nat_unat ucast_id)
    moreover have "e_Index (c a) + 1 = of_nat (Suc a)" using calculation by simp
    moreover have "map c [unat low ..< a] @ [c a] = map c [unat low ..< Suc a]" using True by simp
    moreover have "low \<le> e_Index (c a)" "e_Index (c a) < high"
      using True i by (simp_all add: word_le_nat_alt word_less_nat_alt)
    moreover have "Suc a = min (max (unat low) (Suc a)) (unat high)" using True by simp
    then obtain stop p' sz' where rest: "rdb_scanBatch low high mx (map c [Suc a ..< b]) (of_nat (Suc a))
        (map c [unat low ..< Suc a]) ?sz = (stop, of_nat p', map c [unat low ..< p'], sz')"
      "if stop then unat low < p' \<and> p' \<le> unat high \<and> mx < sz'
       else p' = min (max (unat low) (max a b)) (unat high)"
      using IH by blast
    ultimately have *: "rdb_scanBatch low high mx (map c [a ..< b]) (of_nat p) (map c [unat low ..< p]) sz =
      (if mx < ?sz then (True, of_nat (Suc a), map c [unat low ..< Suc a], ?sz)
       else (stop, of_nat p', map c [unat low ..< p'], sz'))"
      using True unfolding upt p by (simp add: Let_def del: of_nat_Suc upt_Suc)
    show ?thesis
    proof (cases "mx < ?sz")
      case big: True
      with * True show ?thesis
        by (intro exI [of _ True] exI [of _ "Suc a"] exI [of _ ?sz]) (simp del: of_nat_Suc upt_Suc)
    next
      case False
      with * rest(2) show ?thesis by (intro exI [of _ stop] exI [of _ p'] exI [of _ sz']) simp
    qed
  next
    case False
    then have q: "p = min (max (unat low) (Suc a)) (unat high)" using Suc.prems(3) r(2) by auto
    have "\<not> (low \<le> e_Index (c a) \<and> e_Index (c a) < high)"
      using False i by (simp add: word_le_nat_alt word_less_nat_alt)
    then show ?thesis using IH [OF q, of sz] unfolding upt by auto
  qed
qed

lemma next_position:
  fixes lo hi low high k :: nat
  assumes "lo < 48 * k + 48" and "48 * k < high" and "low < high" and "high \<le> hi" and "lo < hi"
  shows "min (max low (max (max lo (48 * k)) (min (48 * k + 48) hi))) high = min (max low (max lo (48 * (k + 1)))) high"
  using assms by (auto simp: min_def max_def)

lemma scanBatches_spec:
  assumes c: "content_ok c lo hi" and r: "lo \<le> unat low" "unat low < unat high" "unat high \<le> hi"
    and "\<forall>j < length rs. unpacked (rs ! j) = Some (visible c lo hi (k + j))"
    and "lo < 48 * k + 48" and "unat high \<le> 48 * (k + length rs)"
    and "rs \<noteq> [] \<Longrightarrow> 48 * (k + length rs) < unat high + 48"
    and "p = min (max (unat low) (max lo (48 * k))) (unat high)"
  shows "\<exists>p' sz'. rdb_scanBatches low high mx rs (of_nat p) (map c [unat low ..< p]) sz
      = Some (map c [unat low ..< p'], sz')
    \<and> unat low < p' \<and> p' \<le> unat high \<and> (p' = unat high \<or> mx < sz')"
  using assms(5-9)
proof (induction rs arbitrary: k p sz)
  case Nil
  then have "p = unat high" using r(2) by (simp add: min_def max_def)
  then show ?case using r(2) by (intro exI [of _ p] exI) simp
next
  case (Cons eb rs)
  let ?a = "max lo (48 * k)" and ?b = "min (48 * k + 48) hi"
  have eb: "unpacked eb = Some (map c [?a ..< ?b])" using Cons.prems(1) [rule_format, of 0] by (simp add: visible_def)
  have kh: "48 * k < unat high" using Cons.prems(4) by simp
  obtain stop p' sz' where sc: "rdb_scanBatch low high mx (map c [?a ..< ?b]) (of_nat p) (map c [unat low ..< p]) sz
      = (stop, of_nat p', map c [unat low ..< p'], sz')"
    and st: "if stop then unat low < p' \<and> p' \<le> unat high \<and> mx < sz'
       else p' = min (max (unat low) (max ?a ?b)) (unat high)"
    using scanBatch_spec [OF c r max.cobounded1 min.cobounded2 Cons.prems(5)] by blast
  have step: "rdb_scanBatches low high mx (eb # rs) (of_nat p) (map c [unat low ..< p]) sz =
      (if stop then Some (map c [unat low ..< p'], sz')
       else rdb_scanBatches low high mx rs (of_nat p') (map c [unat low ..< p']) sz')"
    using eb sc by (simp add: unpacked_def)
  show ?case
  proof (cases stop)
    case True
    then show ?thesis using st step by (intro exI [of _ p'] exI [of _ sz']) simp
  next
    case False
    have lohi: "lo < hi" using r by linarith
    have "p' = min (max (unat low) (max ?a ?b)) (unat high)" using st False by (simp only: if_False)
    also have "\<dots> = min (max (unat low) (max lo (48 * (k + 1)))) (unat high)"
      by (rule next_position [OF Cons.prems(2) kh r(2,3) lohi])
    finally have p': "p' = min (max (unat low) (max lo (48 * (k + 1)))) (unat high)" .
    have "\<exists>p'' sz''. rdb_scanBatches low high mx rs (of_nat p') (map c [unat low ..< p']) sz'
        = Some (map c [unat low ..< p''], sz'')
      \<and> unat low < p'' \<and> p'' \<le> unat high \<and> (p'' = unat high \<or> mx < sz'')"
    proof (rule Cons.IH [OF _ _ _ _ p'])
      show "\<forall>j < length rs. unpacked (rs ! j) = Some (visible c lo hi (k + 1 + j))"
        using Cons.prems(1) by (metis Suc_eq_plus1 Suc_less_eq add.assoc add.commute length_Cons nth_Cons_Suc plus_1_eq_Suc)
    qed (use Cons.prems(2-4) in simp_all)
    with step False show ?thesis by simp
  qed
qed

lemma unat_div_48_less: "unat (i :: u64) div 48 + 1 < 18446744073709551616"
  using unat_u64_bound [of i] by linarith

lemma getBatchIDRange_spec:
  assumes "0 < unat high"
  shows "getBatchIDRange low high = (of_nat (unat low div 48), of_nat ((unat high - 1) div 48 + 1))"
proof -
  have m: "high mod batchSize = 0 \<longleftrightarrow> unat high mod 48 = 0"
    by (simp add: batchSize_def word_unat_eq_iff unat_mod_distrib)
  have "(unat high - 1) div 48 + 1 = (if unat high mod 48 = 0 then unat high div 48 else unat high div 48 + 1)"
    using assms by (cases "unat high") (simp_all add: div_Suc)
  then show ?thesis by (simp add: getBatchIDRange_def m getBatchID_eq)
qed

lemma batches_in_present:
  assumes "\<forall>k. a \<le> k \<and> k < b \<longrightarrow> m (of_nat k) = Some (f k)" and "b < 18446744073709551616" and "a \<le> b"
  shows "batches_in m (of_nat a) (of_nat b) = map (\<lambda>k. (of_nat k, f k)) [a ..< b]"
proof -
  have "List.map_filter (\<lambda>i. map_option (Pair (of_nat i :: u64)) (m (of_nat i))) is = map (\<lambda>k. (of_nat k, f k)) is"
    if "\<forall>k \<in> set is. a \<le> k \<and> k < b" for "is"
    using that by (induction "is") (use assms(1) in \<open>simp_all add: map_filter_simps\<close>)
  moreover have "unat (of_nat a :: u64) = a" "unat (of_nat b :: u64) = b"
    using assms(2,3) by (simp_all add: u64_of_nat)
  ultimately show ?thesis by (simp add: batches_in_def)
qed

lemma collectBatches_all:
  assumes "\<forall>k. a \<le> k \<and> k < b \<longrightarrow> f k \<noteq> [] \<and> getBatchID (e_Index (f k ! 0)) = of_nat k"
  shows "rdb_collectBatches (of_nat a) (map (\<lambda>k. (of_nat k, f k)) [a ..< b]) = Some (map f [a ..< b])"
  using assms
proof (induction "b - a" arbitrary: a)
  case (Suc n)
  then have ab: "[a ..< b] = a # [Suc a ..< b]" "n = b - Suc a" by (simp_all add: upt_rec)
  have "rdb_collectBatches (of_nat (Suc a)) (map (\<lambda>k. (of_nat k, f k)) [Suc a ..< b]) = Some (map f [Suc a ..< b])"
    using Suc.prems by (intro Suc.hyps(1) ab) auto
  moreover have "f a \<noteq> [] \<and> getBatchID (e_Index (f a ! 0)) = of_nat a" using Suc by simp
  ultimately show ?case using ab(1) by (simp add: add.commute)
qed simp

lemma iterateEntryBatches_spec:
  assumes kv: "kv_ok (rdb_kv r)" and c: "content_ok c lo hi" and "a < b" and "b < 18446744073709551616"
    and st: "\<forall>k. a \<le> k \<and> k < b \<longrightarrow> stored r ci ni k (visible c lo hi k) \<and> visible c lo hi k \<noteq> []"
  obtains rs where "rdb_iterateEntryBatches r ci ni (of_nat a) (of_nat b) = Some rs"
    and "length rs = b - a" and "\<forall>j < length rs. unpacked (rs ! j) = Some (visible c lo hi (a + j))"
proof -
  define f where "f k = the (batch_at (rdb_kv r) (rdb_kvs r) ci ni (of_nat k))" for k
  have f: "batch_at (rdb_kv r) (rdb_kvs r) ci ni (of_nat k) = Some (f k)" "f k \<noteq> []"
    "unpacked (f k) = Some (visible c lo hi k)" "getBatchID (e_Index (f k ! 0)) = of_nat k"
    if k: "a \<le> k" "k < b" for k
  proof -
    from st k have ne: "visible c lo hi k \<noteq> []" and "stored r ci ni k (visible c lo hi k)" by auto
    then obtain raw where raw: "batch_at (rdb_kv r) (rdb_kvs r) ci ni (of_nat k) = Some raw" "raw \<noteq> []"
      "e_Index (raw ! 0) = e_Index (visible c lo hi k ! 0)" "unpacked raw = Some (visible c lo hi k)"
      unfolding stored_def by blast
    then show "batch_at (rdb_kv r) (rdb_kvs r) ci ni (of_nat k) = Some (f k)" "f k \<noteq> []"
      "unpacked (f k) = Some (visible c lo hi k)" by (simp_all add: f_def)
    show "getBatchID (e_Index (f k ! 0)) = of_nat k"
      using raw visible_first(2) [OF c ne] by (simp add: f_def getBatchID_eq)
  qed
  show thesis
  proof (cases "b = Suc a")
    case True
    have "rdb_getEntryBatchFromDB r ci ni (of_nat a) = Some (Some (visible c lo hi a))"
      using f(1,3) [of a] True
      by (auto simp: rdb_getEntryBatchFromDB_def batch_at_def unpacked_def split: option.splits kv_value.splits if_splits)
    then have "rdb_iterateEntryBatches r ci ni (of_nat a) (of_nat b) = Some [visible c lo hi a]"
      using True by (simp add: rdb_iterateEntryBatches_def add.commute)
    moreover have "unpacked (visible c lo hi a) = Some (visible c lo hi a)"
      using st assms(3) visible_wf(1) [OF c] by (intro unpacked_wf) auto
    ultimately show thesis using that True by simp
  next
    case False
    have "(of_nat a :: u64) + 1 \<noteq> of_nat b"
    proof
      assume "(of_nat a :: u64) + 1 = of_nat b"
      then have "(of_nat (Suc a) :: u64) = of_nat b" by (simp add: add.commute)
      then have "unat (of_nat (Suc a) :: u64) = unat (of_nat b :: u64)" by simp
      then have "Suc a = b"
        using assms(3,4) u64_of_nat [of "Suc a"] u64_of_nat [of b] by linarith
      with False show False by simp
    qed
    moreover have "kv_IterateBatches (rdb_kv r) (rdb_kvs r) ci ni (of_nat a) (of_nat b)
        = map (\<lambda>k. (of_nat k, f k)) [a ..< b]"
      using kv batches_in_present [of a b _ f] f(1) assms(3,4) by (simp add: kv_ok_def)
    ultimately have "rdb_iterateEntryBatches r ci ni (of_nat a) (of_nat b) = Some (map f [a ..< b])"
      using collectBatches_all [of a b f] f(2,4) by (simp add: rdb_iterateEntryBatches_def)
    then show thesis using that f(3) by simp
  qed
qed

lemma ceiling_48:
  assumes "0 < (n :: nat)"
  shows "n \<le> 48 * ((n - 1) div 48 + 1)" and "48 * ((n - 1) div 48 + 1) < n + 48"
proof -
  from assms obtain m where n: "n - 1 = m" "n = m + 1" by (cases n) auto
  have "m = 48 * (m div 48) + m mod 48" "m mod 48 < 48" by simp_all
  then show "n \<le> 48 * ((n - 1) div 48 + 1)" "48 * ((n - 1) div 48 + 1) < n + 48"
    unfolding n(1) using n(2) by (simp_all del: mult_div_mod_eq)
qed

lemma rdb_holdsD:
  assumes "rdb_holds ci ni r c lo hi" and "lo < hi"
  shows "kv_ok (rdb_kv r)" "content_ok c lo hi" "rdb_readMaxIndex r ci ni = Some (of_nat (hi - 1))"
    "\<And>k. lo div 48 \<le> k \<Longrightarrow> k \<le> (hi - 1) div 48 \<Longrightarrow> stored r ci ni k (visible c lo hi k)"
    "\<And>lb. cs_getLastEntryBatch (rdb_cs r) ci ni = Some lb \<Longrightarrow> lb = visible c lo hi ((hi - 1) div 48)"
  using assms by (auto simp: rdb_holds_def rdb_readMaxIndex_def split: option.splits)

lemma rdb_iterateEntries_spec:
  assumes h: "rdb_holds ci ni r c lo hi" and r: "lo \<le> unat low" "unat low < unat high" "unat high \<le> hi"
  obtains k sz where "0 < k" and "unat low + k \<le> unat high" and "unat low + k = unat high \<or> mx < sz"
    and "rdb_iterateEntries r ci ni low high mx = Some (map c [unat low ..< unat low + k], sz)"
proof -
  have lohi: "lo < hi" using r by linarith
  note hd = rdb_holdsD [OF h lohi]
  let ?a = "unat low div 48" and ?b = "(unat high - 1) div 48 + 1"
  have hi: "hi < 18446744073709551616" using hd(2) by (simp add: content_ok_def)
  have mi: "(of_nat (hi - 1) :: u64) + 1 = of_nat hi"
    using lohi by (cases hi) (simp_all add: add.commute)
  have nh: "\<not> (of_nat (hi - 1) :: u64) + 1 < high"
    unfolding mi using r(3) hi by (simp add: word_less_nat_alt u64_of_nat)
  have ab: "?a < ?b" using r(2) by (simp add: less_Suc_eq_le div_le_mono)
  have rng: "lo div 48 \<le> k" "k \<le> (hi - 1) div 48" if "?a \<le> k" "k < ?b" for k
  proof -
    show "lo div 48 \<le> k" using div_le_mono [OF r(1), of 48] that(1) by linarith
    have "(unat high - 1) div 48 \<le> (hi - 1) div 48" using r(3) by (intro div_le_mono) simp
    with that(2) show "k \<le> (hi - 1) div 48" by linarith
  qed
  obtain rs where rs: "rdb_iterateEntryBatches r ci ni (of_nat ?a) (of_nat ?b) = Some rs" "length rs = ?b - ?a"
    "\<forall>j < length rs. unpacked (rs ! j) = Some (visible c lo hi (?a + j))"
  proof (rule iterateEntryBatches_spec [OF hd(1,2) ab])
    show "?b < 18446744073709551616" using unat_u64_bound [of high] by linarith
    show "\<forall>k. ?a \<le> k \<and> k < ?b \<longrightarrow> stored r ci ni k (visible c lo hi k) \<and> visible c lo hi k \<noteq> []"
      using hd(4) visible_nonempty [OF lohi] rng by blast
  qed
  have p: "unat low = min (max (unat low) (max lo (48 * ?a))) (unat high)"
  proof -
    have "max lo (48 * ?a) \<le> unat low" using r(1) by simp
    then show ?thesis using r(2) by (simp add: max_absorb1 min_absorb1)
  qed
  have "\<exists>p' sz'. rdb_scanBatches low high mx rs (of_nat (unat low)) (map c [unat low ..< unat low]) 0
      = Some (map c [unat low ..< p'], sz')
    \<and> unat low < p' \<and> p' \<le> unat high \<and> (p' = unat high \<or> mx < sz')"
  proof (rule scanBatches_spec [OF hd(2) r rs(3) _ _ _ p])
    show "lo < 48 * ?a + 48" using r(1) by linarith
    have e: "?a + length rs = ?b" using rs(2) ab by simp
    show "unat high \<le> 48 * (?a + length rs)" "48 * (?a + length rs) < unat high + 48"
      unfolding e using ceiling_48 [of "unat high"] r(2) by simp_all
  qed
  then obtain p' sz' where p': "rdb_scanBatches low high mx rs low [] 0 = Some (map c [unat low ..< p'], sz')"
    "unat low < p'" "p' \<le> unat high" "p' = unat high \<or> mx < sz'"
    by auto
  have "rs \<noteq> []" using rs(2) ab by auto
  then have "rdb_iterateEntries r ci ni low high mx = Some (map c [unat low ..< p'], sz')"
    using hd(3) nh rs(1) p'(1) r(2) getBatchIDRange_spec [of high low]
    by (simp add: rdb_iterateEntries_def)
  with that [of "p' - unat low" sz'] p' show thesis by simp
qed

text \<open>The iterator the reader is given; a panic of the database stands for any other error.\<close>

definition rdb_iterator :: "u64 \<Rightarrow> u64 \<Rightarrow> 's rdb \<Rightarrow> iterator" where
  "rdb_iterator ci ni r low high mx =
     (case rdb_iterateEntries r ci ni low high mx of Some res \<Rightarrow> Inr res | None \<Rightarrow> Inl ErrOther)"

lemma rdb_iterator_ok:
  assumes "rdb_holds ci ni r c lo hi"
  shows "it_ok (rdb_iterator ci ni r) c lo hi"
  unfolding it_ok_def
proof (intro allI impI, elim conjE)
  fix low high mx :: u64 assume r: "lo \<le> unat low" "unat low < unat high" "unat high \<le> hi"
  obtain k sz where "0 < k" "unat low + k \<le> unat high" "unat low + k = unat high \<or> mx < sz"
    "rdb_iterateEntries r ci ni low high mx = Some (map c [unat low ..< unat low + k], sz)"
    by (rule rdb_iterateEntries_spec [OF assms r])
  then show "\<exists>k sz. 0 < k \<and> unat low + k \<le> unat high \<and> (unat low + k = unat high \<or> mx < sz)
      \<and> rdb_iterator ci ni r low high mx = Inr (map c [unat low ..< unat low + k], sz)"
    by (intro exI [of _ k] exI [of _ sz]) (simp add: rdb_iterator_def)
qed

end
