(* ===== verification/RDBWrite.thy ===== *)
theory RDBWrite
  imports RDBSpec
begin

text \<open>
  The write side of the log database: \<open>recordEntries\<close> cuts the entries into batches, merges the first
  with what the database has of it, and the committed write batch makes the database hold the
  overwritten log.
\<close>

section \<open>The overwritten log\<close>

abbreviation first_index :: "entry list \<Rightarrow> nat" where
  "first_index ents \<equiv> unat (e_Index (ents ! 0))"

abbreviation end_index :: "entry list \<Rightarrow> nat" where
  "end_index ents \<equiv> first_index ents + length ents"

lemma overwrite_new: "i < length ents \<Longrightarrow> overwrite c ents (first_index ents + i) = ents ! i"
  by (simp add: overwrite_def Let_def)

lemma content_overwrite:
  assumes c: "content_ok c lo hi" and st: "storable c lo hi ents"
  shows "content_ok (overwrite c ents) lo (end_index ents)"
proof -
  note sd = storableD [OF st]
  let ?f = "first_index ents"
  have old: "unat (e_Index (overwrite c ents n)) = n \<and> 0 < e_Term (overwrite c ents n)
      \<and> e_Term (overwrite c ents (n - 1)) \<le> e_Term (overwrite c ents n)" if "lo \<le> n" "n < ?f" for n
    using content_okD [OF c that(1)] that sd(5) by (simp add: overwrite_below)
  have new: "unat (e_Index (overwrite c ents (?f + i))) = ?f + i \<and> 0 < e_Term (overwrite c ents (?f + i))
      \<and> e_Term (overwrite c ents (?f + i - 1)) \<le> e_Term (overwrite c ents (?f + i))" if i: "i < length ents" for i
  proof -
    have "unat (e_Index (overwrite c ents (?f + i))) = ?f + i" "0 < e_Term (overwrite c ents (?f + i))"
      using storable_index [OF st i] sd(8) i by (simp_all add: overwrite_new)
    moreover have "e_Term (overwrite c ents (?f + i - 1)) \<le> e_Term (overwrite c ents (?f + i))"
    proof (cases i)
      case 0
      then show ?thesis using sd(3,9) i overwrite_new [of 0 ents c] by (simp add: overwrite_below)
    next
      case (Suc j)
      then show ?thesis
        using sd(7) i overwrite_new [of j ents c] overwrite_new [of i ents c]
        by (simp add: sorted_iff_nth_mono)
    qed
    ultimately show ?thesis by simp
  qed
  have "unat (e_Index (overwrite c ents n)) = n \<and> 0 < e_Term (overwrite c ents n)
      \<and> e_Term (overwrite c ents (n - 1)) \<le> e_Term (overwrite c ents n)"
    if "lo \<le> n" "n < end_index ents" for n
  proof (cases "n < ?f")
    case False
    then show ?thesis using new [of "n - ?f"] that by simp
  qed (use old that in simp)
  then show ?thesis using c sd(4,6) by (simp add: content_ok_def)
qed

lemma map_overwrite_below: "b \<le> first_index ents \<Longrightarrow> map (overwrite c ents) [a ..< b] = map c [a ..< b]"
  by (simp add: overwrite_below)

section \<open>The first batch\<close>

lemma takeWhile_upt:
  assumes "\<forall>n. a \<le> n \<and> n < b \<longrightarrow> unat (e_Index (c n)) = n" and "a \<le> f" and "f \<le> b" and "unat i = f"
  shows "takeWhile (\<lambda>e. \<not> i \<le> e_Index e) (map c [a ..< b]) = map c [a ..< f]"
proof -
  have split: "[a ..< b] = [a ..< f] @ [f ..< b]"
    using assms(2,3) by (metis le_add_diff_inverse upt_add_eq_append)
  have lt: "\<forall>e \<in> set (map c [a ..< f]). \<not> i \<le> e_Index e"
    using assms(1,3,4) by (auto simp: word_le_nat_alt)
  have ge: "takeWhile (\<lambda>e. \<not> i \<le> e_Index e) (map c [f ..< b]) = []"
    using assms by (cases "f < b") (simp_all add: upt_rec word_le_nat_alt)
  have "takeWhile (\<lambda>e. \<not> i \<le> e_Index e) (map c [a ..< f] @ map c [f ..< b])
      = map c [a ..< f] @ takeWhile (\<lambda>e. \<not> i \<le> e_Index e) (map c [f ..< b])"
    using lt by (intro takeWhile_append2) blast
  then show ?thesis unfolding split map_append ge by simp
qed

lemma getMergedFirstBatch_spec:
  assumes c: "content_ok c lo hi" and st: "storable c lo hi ents" and k: "k = first_index ents div 48"
    and ne: "visible c lo hi k \<noteq> []" and un: "first_index ents mod 48 \<noteq> 0"
    and eb: "eb \<noteq> []" "e_Index (eb ! 0) = e_Index (ents ! 0)"
  shows "getMergedFirstBatch eb (visible c lo hi k) = Some (map c [max lo (48 * k) ..< first_index ents] @ eb)"
proof -
  let ?f = "first_index ents" and ?m = "max lo (48 * k)" and ?M = "min (48 * k + 48) hi"
  let ?lb = "visible c lo hi k"
  note sd = storableD [OF st]
  have kf: "48 * k \<le> ?f" "?f < 48 * k + 48" unfolding k by linarith+
  have mM: "?m < ?M" by (rule map_upt_nonempty [OF ne [unfolded visible_def]])
  have len: "length ?lb = ?M - ?m" by (simp add: visible_def)
  have first: "unat (e_Index (?lb ! 0)) = ?m" by (rule visible_first(1) [OF c ne])
  have last: "unat (e_Index (?lb ! (length ?lb - 1))) = ?M - 1"
    using visible_nth [of "length ?lb - 1" c lo hi k] len mM content_okD(1) [OF c, of "?M - 1"] by auto
  have id: "getBatchID (e_Index (?lb ! 0)) = getBatchID (e_Index (eb ! 0))"
    using visible_first(2) [OF c ne] k by (simp add: eb(2) getBatchID_eq)
  show ?thesis
  proof (cases "?m < ?f")
    case False
    have "?m \<le> ?f" using kf sd(4) by simp
    with False have "?m = ?f" by linarith
    then show ?thesis
      using id first eb ne by (simp add: getMergedFirstBatch_def Let_def word_less_nat_alt)
  next
    case True
    have "(if ?f \<le> ?M - 1 then takeWhile (\<lambda>e. \<not> e_Index (ents ! 0) \<le> e_Index e) ?lb else ?lb) = map c [?m ..< ?f]"
    proof (cases "?f \<le> ?M - 1")
      case t: True
      have "takeWhile (\<lambda>e. \<not> e_Index (ents ! 0) \<le> e_Index e) (map c [?m ..< ?M]) = map c [?m ..< ?f]"
        using content_okD(1) [OF c] True t by (intro takeWhile_upt) auto
      with t show ?thesis by (simp add: visible_def)
    next
      case False
      then have "?M = ?f" using kf sd(5) by (simp add: min_def split: if_splits)
      with False show ?thesis by (simp add: visible_def)
    qed
    then show ?thesis
      using id first last True eb ne
      by (simp add: getMergedFirstBatch_def Let_def word_less_nat_alt word_le_nat_alt split: if_splits)
  qed
qed

text \<open>The entries of batch \<open>k\<close> among those to be saved.\<close>

definition chunk :: "(nat \<Rightarrow> entry) \<Rightarrow> entry list \<Rightarrow> nat \<Rightarrow> entry list" where
  "chunk c ents k = map (overwrite c ents) [max (first_index ents) (48 * k) ..< min (48 * k + 48) (end_index ents)]"

abbreviation new_visible :: "(nat \<Rightarrow> entry) \<Rightarrow> nat \<Rightarrow> entry list \<Rightarrow> nat \<Rightarrow> entry list" where
  "new_visible c lo ents k \<equiv> visible (overwrite c ents) lo (end_index ents) k"

definition in_batches :: "entry list \<Rightarrow> nat \<Rightarrow> bool" where
  "in_batches ents k \<longleftrightarrow> first_index ents div 48 \<le> k \<and> k \<le> (end_index ents - 1) div 48"

lemma chunk_nonempty: "ents \<noteq> [] \<Longrightarrow> in_batches ents k \<Longrightarrow> chunk c ents k \<noteq> []"
  using visible_nonempty [of "first_index ents" "end_index ents" k "overwrite c ents"]
  by (simp add: in_batches_def chunk_def visible_def)

lemma chunk_first:
  assumes c: "content_ok c lo hi" and st: "storable c lo hi ents" and k: "in_batches ents k"
  shows "unat (e_Index (chunk c ents k ! 0)) = max (first_index ents) (48 * k)"
    and "getBatchID (e_Index (chunk c ents k ! 0)) = of_nat k"
proof -
  have ne: "chunk c ents k \<noteq> []" using chunk_nonempty storableD(1) [OF st] k by blast
  have eq: "chunk c ents k = visible (overwrite c ents) (first_index ents) (end_index ents) k"
    by (simp add: chunk_def visible_def)
  have "content_ok (overwrite c ents) (first_index ents) (end_index ents)"
    using content_overwrite [OF c st] storableD(3,4) [OF st] by (simp add: content_ok_def)
  from visible_first [OF this, of k] ne
  show "unat (e_Index (chunk c ents k ! 0)) = max (first_index ents) (48 * k)"
    and "getBatchID (e_Index (chunk c ents k ! 0)) = of_nat k"
    unfolding eq by (simp_all add: getBatchID_eq)
qed

lemma chunk_later:
  assumes st: "storable c lo hi ents" and "first_index ents div 48 < k"
  shows "chunk c ents k = new_visible c lo ents k"
proof -
  have "first_index ents \<le> 48 * k" "lo \<le> 48 * k"
    using assms(2) storableD(4) [OF st] by linarith+
  then show ?thesis by (simp add: chunk_def visible_def max_absorb2)
qed

lemma chunk_prefix:
  assumes st: "storable c lo hi ents" and k: "k = first_index ents div 48"
  shows "map c [max lo (48 * k) ..< first_index ents] @ chunk c ents k = new_visible c lo ents k"
proof -
  let ?f = "first_index ents"
  have kf: "48 * k \<le> ?f" "?f < 48 * k + 48" unfolding k by linarith+
  have "0 < length ents" using storableD(1) [OF st] by simp
  then have le: "max lo (48 * k) \<le> ?f" "?f \<le> min (48 * k + 48) (end_index ents)"
    using kf storableD(4) [OF st] by auto
  have "[max lo (48 * k) ..< min (48 * k + 48) (end_index ents)]
      = [max lo (48 * k) ..< ?f] @ [?f ..< min (48 * k + 48) (end_index ents)]"
    using le by (metis le_add_diff_inverse upt_add_eq_append)
  moreover have "max ?f (48 * k) = ?f" using kf(1) by simp
  ultimately show ?thesis
    using map_overwrite_below [of ?f ents c "max lo (48 * k)"] by (simp add: chunk_def visible_def)
qed

lemma first_in_batches: "ents \<noteq> [] \<Longrightarrow> in_batches ents (first_index ents div 48)"
proof -
  assume "ents \<noteq> []"
  then have "first_index ents \<le> end_index ents - 1" by (cases ents) simp_all
  then show ?thesis by (simp add: in_batches_def div_le_mono)
qed

text \<open>The batch that the new entries start in, as the cache or the database has it: none when
  the log is empty, and the stored one otherwise.\<close>

lemma rdb_getLastBatch_empty:
  assumes h: "rdb_holds ci ni r c lo lo" and "unat i = lo"
  shows "rdb_getLastBatch r ci ni i = Some None
    \<or> (\<exists>lb. rdb_getLastBatch r ci ni i = Some (Some lb) \<and> lb \<noteq> [] \<and> unat (e_Index (lb ! 0)) div 48 < lo div 48)"
proof -
  have "getBatchID i = of_nat (lo div 48)" using assms(2) by (simp add: getBatchID_eq)
  then show ?thesis
    using h by (auto simp: rdb_holds_def rdb_getLastBatch_def rdb_getEntryBatchFromDB_def batch_at_def
        word_less_nat_alt split: option.splits kv_value.splits)
qed

lemma rdb_getLastBatch_full:
  assumes h: "rdb_holds ci ni r c lo hi" and lohi: "lo < hi" and k: "k = unat i div 48"
    and kl: "lo div 48 \<le> k" and kh: "k \<le> (hi - 1) div 48"
  shows "rdb_getLastBatch r ci ni i = Some (Some (visible c lo hi k))"
proof -
  let ?K = "(hi - 1) div 48"
  note hd = rdb_holdsD [OF h lohi]
  have bid: "getBatchID i = of_nat k" by (simp add: getBatchID_eq k)
  have db: "rdb_getEntryBatchFromDB r ci ni (of_nat k) = Some (Some (visible c lo hi k))"
    using hd(4) [OF kl kh]
    by (auto simp: stored_def rdb_getEntryBatchFromDB_def batch_at_def unpacked_def
        split: option.splits kv_value.splits if_splits)
  show ?thesis
  proof (cases "cs_getLastEntryBatch (rdb_cs r) ci ni")
    case None
    then show ?thesis using db bid by (simp add: rdb_getLastBatch_def)
  next
    case (Some lb)
    have K: "lo div 48 \<le> ?K" using kl kh by linarith
    have lb: "lb = visible c lo hi ?K" "lb \<noteq> []"
      using hd(5) [OF Some] visible_nonempty [OF lohi K order.refl] by simp_all
    then have "unat (e_Index (lb ! 0)) div 48 = ?K" using visible_first(2) [OF hd(2), of ?K] by simp
    then have "getBatchID i < getBatchID (e_Index (lb ! 0)) \<longleftrightarrow> k < ?K"
      using k by (simp add: word_less_nat_alt)
    then show ?thesis
      using Some db bid lb kh by (cases "k = ?K") (auto simp: rdb_getLastBatch_def)
  qed
qed

lemma unaligned_before:
  assumes "f mod 48 \<noteq> 0" and "f \<le> hi"
  shows "f div 48 \<le> (hi - 1) div (48 :: nat)"
proof -
  have "48 * (f div 48) + f mod 48 = f" by simp
  then have "48 * (f div 48) \<le> hi - 1" using assms by linarith
  then show ?thesis by (simp add: less_eq_div_iff_mult_less_eq mult.commute)
qed

lemma rdb_getMergedFirstBatch_spec:
  assumes h: "rdb_holds ci ni r c lo hi" and st: "storable c lo hi ents" and k: "k = first_index ents div 48"
  shows "rdb_getMergedFirstBatch r ci ni (chunk c ents k) = Some (new_visible c lo ents k)"
proof -
  let ?f = "first_index ents" and ?eb = "chunk c ents k"
  have c: "content_ok c lo hi" using h by (simp add: rdb_holds_def)
  note sd = storableD [OF st] and pre = chunk_prefix [OF st k]
  have kf: "48 * k \<le> ?f" unfolding k by linarith
  have ib: "in_batches ents k" using first_in_batches [OF sd(1)] k by simp
  have ne: "?eb \<noteq> []" by (rule chunk_nonempty [OF sd(1) ib])
  have i: "e_Index (?eb ! 0) = e_Index (ents ! 0)"
    using chunk_first(1) [OF c st ib] kf by (simp add: word_unat_eq_iff max_absorb1)
  have m: "e_Index (ents ! 0) mod batchSize = 0 \<longleftrightarrow> ?f mod 48 = 0"
    by (simp add: batchSize_def word_unat_eq_iff unat_mod_distrib)
  have get: "rdb_getMergedFirstBatch r ci ni ?eb =
    (if ?f mod 48 = 0 then Some ?eb
     else do { lb \<leftarrow> rdb_getLastBatch r ci ni (e_Index (ents ! 0));
               case lb of None \<Rightarrow> Some ?eb | Some lb \<Rightarrow> getMergedFirstBatch ?eb lb })"
    using ne i m by (simp add: rdb_getMergedFirstBatch_def)
  consider "?f mod 48 = 0" | "?f mod 48 \<noteq> 0" "lo = hi" | "?f mod 48 \<noteq> 0" "lo < hi"
    using sd(4,5) by linarith
  then show ?thesis
  proof cases
    case 1
    then have "48 * k = ?f" using mult_div_mod_eq [of 48 ?f] k by simp
    then have "max lo (48 * k) = ?f" using sd(4) by (simp add: max_absorb2)
    with pre 1 get show ?thesis by simp
  next
    case 2
    then have f: "?f = lo" using sd(4,5) by simp
    have "getMergedFirstBatch ?eb lb = Some ?eb" if "lb \<noteq> []" "unat (e_Index (lb ! 0)) div 48 < k" for lb
      using that ne i k by (simp add: getMergedFirstBatch_def Let_def word_less_nat_alt)
    moreover have "max lo (48 * k) = ?f" using f kf by (simp add: max_absorb1)
    ultimately show ?thesis
      using get 2 pre rdb_getLastBatch_empty [of ci ni r c lo "e_Index (ents ! 0)"] h f k by auto
  next
    case 3
    have kl: "lo div 48 \<le> k" using sd(4) by (simp add: k div_le_mono)
    have kh: "k \<le> (hi - 1) div 48" unfolding k by (rule unaligned_before [OF 3(1) sd(5)])
    show ?thesis
      using get 3(1) rdb_getLastBatch_full [OF h 3(2) k kl kh] pre
        getMergedFirstBatch_spec [OF c st k visible_nonempty [OF 3(2) kl kh] 3(1) ne i] by simp
  qed
qed

section \<open>Recording entries\<close>

definition put_batch :: "u64 \<Rightarrow> u64 \<Rightarrow> (nat \<Rightarrow> entry) \<Rightarrow> nat \<Rightarrow> entry list \<Rightarrow> nat \<Rightarrow> kv_key \<times> kv_value" where
  "put_batch ci ni c lo ents k =
     (EntryBatchKey ci ni (of_nat k), BatchValue (the (packed (new_visible c lo ents k))))"

definition cache_last :: "u64 \<Rightarrow> u64 \<Rightarrow> (nat \<Rightarrow> entry) \<Rightarrow> nat \<Rightarrow> entry list \<Rightarrow> 's rdb \<Rightarrow> 's rdb" where
  "cache_last ci ni c lo ents r = r\<lparr>rdb_cs := cs_setLastEntryBatch (rdb_cs r) ci ni
     (new_visible c lo ents ((end_index ents - 1) div 48))\<rparr>"

lemma batch_no_inj:
  "in_batches ents a \<Longrightarrow> storable c lo hi ents \<Longrightarrow> b \<le> (end_index ents - 1) div 48 \<Longrightarrow>
   (of_nat a :: u64) = of_nat b \<longleftrightarrow> a = b"
proof -
  assume "in_batches ents a" "storable c lo hi ents" "b \<le> (end_index ents - 1) div 48"
  then have "a < 18446744073709551616" "b < 18446744073709551616"
    using storableD(6) [of c lo hi ents] unfolding in_batches_def by linarith+
  then show ?thesis by (metis u64_of_nat)
qed

lemma rdb_recordEntryBatch_spec:
  assumes h: "rdb_holds ci ni r c lo hi" and st: "storable c lo hi ents" and ib: "in_batches ents k"
  shows "rdb_recordEntryBatch r wb ci ni (chunk c ents k) (of_nat (first_index ents div 48))
      (of_nat ((end_index ents - 1) div 48))
    = Some (if k = (end_index ents - 1) div 48 then cache_last ci ni c lo ents r else r,
            wb @ [put_batch ci ni c lo ents k])"
proof -
  have c: "content_ok c lo hi" using h by (simp add: rdb_holds_def)
  have ne: "chunk c ents k \<noteq> []" using chunk_nonempty storableD(1) [OF st] ib by blast
  have id: "getBatchID (e_Index (chunk c ents k ! 0)) = of_nat k" by (rule chunk_first(2) [OF c st ib])
  have first: "(of_nat (first_index ents div 48) :: u64) = of_nat k \<longleftrightarrow> first_index ents div 48 = k"
    using batch_no_inj [OF first_in_batches [OF storableD(1) [OF st]] st] ib by (simp add: in_batches_def)
  have lst: "(of_nat ((end_index ents - 1) div 48) :: u64) = of_nat k \<longleftrightarrow> k = (end_index ents - 1) div 48"
    using batch_no_inj [OF ib st order.refl] by metis
  have mrg: "(if first_index ents div 48 = k then rdb_getMergedFirstBatch r ci ni (chunk c ents k)
      else Some (chunk c ents k)) = Some (new_visible c lo ents k)"
    using rdb_getMergedFirstBatch_spec [OF h st, of k] chunk_later [OF st, of k] ib
    by (auto simp: in_batches_def le_less)
  have "lo < end_index ents" "lo div 48 \<le> k"
    using storableD(1,4) [OF st] ib div_le_mono [of lo "first_index ents" 48]
    by (auto simp: in_batches_def intro: le_less_trans)
  then have "new_visible c lo ents k \<noteq> []" using visible_nonempty ib by (simp add: in_batches_def)
  from unpacked_packed [OF visible_wf [OF content_overwrite [OF c st] this]] obtain raw where
    "packed (new_visible c lo ents k) = Some raw" by blast
  then show ?thesis
    using ne id first lst mrg
    by (auto simp: rdb_recordEntryBatch_def Let_def packed_def cache_last_def put_batch_def)
qed

lemma rdb_recordEntries_loop_spec:
  assumes h: "rdb_holds ci ni r c lo hi" and st: "storable c lo hi ents"
    and f: "f = first_index ents" and n: "n = length ents"
    and i: "0 < i" "i \<le> n" and cur: "cur = (f + i - 1) div 48"
  shows "rdb_recordEntries_loop ci ni (of_nat (f div 48)) (of_nat ((f + n - 1) div 48)) (drop i ents) r
      (wb @ map (put_batch ci ni c lo ents) [f div 48 ..< cur])
      (map (overwrite c ents) [max f (48 * cur) ..< f + i]) (of_nat cur) (of_nat (f + i - 1))
    = Some (cache_last ci ni c lo ents r,
        wb @ map (put_batch ci ni c lo ents) [f div 48 ..< Suc ((f + n - 1) div 48)], of_nat (f + n - 1))"
  using i cur
proof (induction "n - i" arbitrary: i cur)
  case 0
  then have i: "i = n" by simp
  have fc: "f div 48 \<le> cur" unfolding 0 using i 0 by (intro div_le_mono) simp
  then have ib: "in_batches ents cur" using 0 i f n by (simp add: in_batches_def)
  have "map (overwrite c ents) [max f (48 * cur) ..< f + n] = chunk c ents cur"
  proof -
    have "f + n \<le> 48 * cur + 48" using 0 i ceiling_48(1) [of "f + n"] by simp
    then show ?thesis by (simp add: chunk_def f n min_absorb2)
  qed
  then show ?case
    using rdb_recordEntryBatch_spec [OF h st ib] chunk_nonempty [OF storableD(1) [OF st] ib] i fc 0 f n
    by simp
next
  case (Suc m)
  then have lt: "i < n" by simp
  let ?c' = "overwrite c ents" and ?e = "ents ! i"
  have e: "ents ! i = ?c' (f + i)" using overwrite_new [of i ents c] lt f n by simp
  have ix: "unat (e_Index ?e) = f + i" using storable_index [OF st, of i] lt f n by simp
  have dr: "drop i ents = ?e # drop (Suc i) ents" using lt n by (simp add: Cons_nth_drop_Suc)
  have bnd: "f + n < 18446744073709551616" using storableD(6) [OF st] f n by simp
  have mi: "e_Index ?e > of_nat (f + i - 1)" "e_Index ?e = of_nat (f + Suc i - 1)"
    using ix u64_of_nat [of "f + i - 1"] u64_of_nat [of "f + i"] bnd lt Suc.prems(1)
    by (simp_all add: word_less_nat_alt word_unat_eq_iff del: of_nat_add of_nat_diff)
  have fc: "f div 48 \<le> cur" unfolding Suc.prems(3) using Suc.prems(1) by (intro div_le_mono) simp
  have bid: "getBatchID (e_Index ?e) = of_nat ((f + i) div 48)" by (simp add: getBatchID_eq ix)
  have inj: "(of_nat ((f + i) div 48) :: u64) = of_nat cur \<longleftrightarrow> (f + i) div 48 = cur"
  proof -
    have "(f + i) div 48 < 18446744073709551616" "cur < 18446744073709551616"
      using bnd lt Suc.prems(3) by linarith+
    then show ?thesis by (metis u64_of_nat)
  qed
  note IH = Suc.hyps(1) [of "Suc i" "(f + i) div 48"]
  show ?case
  proof (cases "(f + i) div 48 = cur")
    case True
    have "max f (48 * cur) \<le> f + i" using True by auto
    then have "map ?c' [max f (48 * cur) ..< f + i] @ [?e] = map ?c' [max f (48 * cur) ..< f + Suc i]"
      using e by simp
    then show ?thesis
      using IH Suc.hyps(2) lt True dr mi bid inj by (simp add: Let_def del: upt_Suc)
  next
    case False
    have step: "(f + i) div 48 = Suc cur" "f + i = 48 * Suc cur"
      using False Suc.prems(1,3) div_Suc [of "f + i - 1" 48] by (auto split: if_splits)
    have "cur \<le> (f + n - 1) div 48" unfolding Suc.prems(3) using lt by (intro div_le_mono) simp
    then have ib: "in_batches ents cur" using fc f n by (simp add: in_batches_def)
    have ch: "map ?c' [max f (48 * cur) ..< f + i] = chunk c ents cur"
      using step lt by (simp add: chunk_def f n min_absorb1 add.commute)
    have nl: "cur \<noteq> (f + n - 1) div 48"
    proof -
      have "Suc cur \<le> (f + n - 1) div 48" unfolding step(1) [symmetric] using lt by (intro div_le_mono) simp
      then show ?thesis by simp
    qed
    have "max f (48 * Suc cur) = f + i" using step(2) by simp
    then have "map ?c' [max f (48 * Suc cur) ..< f + Suc i] = [?e]"
      using e by (simp only: add_Suc_right upt_Suc) simp
    moreover have "[f div 48 ..< Suc cur] = [f div 48 ..< cur] @ [cur]" using fc by simp
    ultimately show ?thesis
      using IH Suc.hyps(2) lt False dr mi bid inj ch step(1) nl rdb_recordEntryBatch_spec [OF h st ib] f n
      by (simp add: Let_def del: upt_Suc)
  qed
qed

lemma rdb_recordEntries_spec:
  assumes h: "rdb_holds ci ni r c lo hi" and st: "storable c lo hi ents"
  shows "rdb_recordEntries r wb ci ni ents = Some (cache_last ci ni c lo ents r,
    wb @ map (put_batch ci ni c lo ents) [first_index ents div 48 ..< Suc ((end_index ents - 1) div 48)],
    of_nat (end_index ents - 1))"
proof -
  let ?f = "first_index ents" and ?n = "length ents"
  note sd = storableD [OF st]
  obtain e es where ents: "ents = e # es" using sd(1) by (cases ents) auto
  have ix: "unat (e_Index e) = ?f" using ents by simp
  have "unat (e_Index (ents ! (?n - 1))) = ?f + ?n - 1"
    using storable_index [OF st, of "?n - 1"] ents by simp
  then have lb: "getBatchID (e_Index (ents ! (?n - 1))) = of_nat ((?f + ?n - 1) div 48)"
    by (simp add: getBatchID_eq)
  have fb: "getBatchID (e_Index e) = of_nat (?f div 48)" by (simp add: getBatchID_eq ix)
  have ne: "getBatchID (e_Index e) \<noteq> max_u64"
  proof -
    have "unat (getBatchID (e_Index e)) < unat max_u64"
      using unat_div_48_less [of "e_Index e"] by simp
    then show ?thesis by (metis less_irrefl)
  qed
  have mi: "(if 0 < e_Index e then e_Index e else 0) = of_nat (?f + 1 - 1)"
    using ents sd(3) by (auto simp: word_less_nat_alt)
  have eb: "[e] = map (overwrite c ents) [max ?f (48 * (?f div 48)) ..< ?f + 1]"
    using overwrite_new [of 0 ents c] ents by (simp add: max_absorb1)
  have "rdb_recordEntries_loop ci ni (of_nat (?f div 48)) (of_nat ((?f + ?n - 1) div 48)) ents r wb [] max_u64 0
      = rdb_recordEntries_loop ci ni (of_nat (?f div 48)) (of_nat ((?f + ?n - 1) div 48)) es r wb [e]
          (of_nat (?f div 48)) (of_nat (?f + 1 - 1))"
    using ne mi fb ents by (simp add: rdb_recordEntryBatch_def Let_def)
  also have "\<dots> = Some (cache_last ci ni c lo ents r,
      wb @ map (put_batch ci ni c lo ents) [?f div 48 ..< Suc ((?f + ?n - 1) div 48)], of_nat (?f + ?n - 1))"
    using rdb_recordEntries_loop_spec [OF h st refl refl, of 1 "?f div 48" wb] ents eb by simp
  finally show ?thesis using lb fb ents by (simp add: rdb_recordEntries_def)
qed

section \<open>The committed write batch\<close>

lemma put_all_append: "put_all m (wb @ wb') = put_all (put_all m wb) wb'"
  by (simp add: put_all_def)

lemma put_all_other: "k \<notin> fst ` set wb \<Longrightarrow> put_all m wb k = m k"
  by (induction wb rule: rev_induct) (auto simp: put_all_def)

lemma put_all_distinct: "distinct (map fst wb) \<Longrightarrow> (k, v) \<in> set wb \<Longrightarrow> put_all m wb k = Some v"
  by (induction wb rule: rev_induct) (auto simp: put_all_def rev_image_eqI)

lemma put_batches:
  assumes st: "storable c lo hi ents" and k: "k \<le> (end_index ents - 1) div 48"
  shows "put_all m (map (put_batch ci ni c lo ents) [first_index ents div 48 ..< Suc ((end_index ents - 1) div 48)])
      (EntryBatchKey ci ni (of_nat k))
    = (if first_index ents div 48 \<le> k then Some (BatchValue (the (packed (new_visible c lo ents k))))
       else m (EntryBatchKey ci ni (of_nat k)))"
proof -
  let ?ks = "[first_index ents div 48 ..< Suc ((end_index ents - 1) div 48)]"
  have inj: "(of_nat a :: u64) = of_nat b \<longleftrightarrow> a = b" if "a \<in> set ?ks" "b \<le> (end_index ents - 1) div 48" for a b
    using batch_no_inj [OF _ st that(2), of a] that(1) by (auto simp: in_batches_def)
  show ?thesis
  proof (cases "first_index ents div 48 \<le> k")
    case True
    have "inj_on (EntryBatchKey ci ni \<circ> of_nat) (set ?ks)"
      using inj by (auto simp: inj_on_def)
    then have "distinct (map fst (map (put_batch ci ni c lo ents) ?ks))"
      by (simp add: distinct_map put_batch_def comp_def del: upt_Suc)
    moreover have "put_batch ci ni c lo ents k \<in> set (map (put_batch ci ni c lo ents) ?ks)"
      using True k by (simp del: upt_Suc)
    ultimately show ?thesis using True put_all_distinct by (simp add: put_batch_def del: upt_Suc)
  next
    case False
    have "(of_nat k :: u64) \<noteq> of_nat x" if "x \<in> set ?ks" for x
      using inj [OF that k] that False by auto
    then have "EntryBatchKey ci ni (of_nat k) \<notin> (\<lambda>x. EntryBatchKey ci ni (of_nat x)) ` set ?ks" by blast
    then have "EntryBatchKey ci ni (of_nat k) \<notin> fst ` set (map (put_batch ci ni c lo ents) ?ks)"
      unfolding set_map image_image put_batch_def fst_conv .
    then show ?thesis using False by (simp add: put_all_other del: upt_Suc)
  qed
qed

definition committed :: "'s rdb \<Rightarrow> write_batch \<Rightarrow> 's rdb" where
  "committed r wb = r\<lparr>rdb_kvs := kv_CommitWriteBatch (rdb_kv r) (rdb_kvs r) wb\<rparr>"

lemma committed_simps [simp]:
  "rdb_kv (committed r wb) = rdb_kv r" "rdb_cs (committed r wb) = rdb_cs r"
  by (simp_all add: committed_def)

lemma committed_value:
  "kv_ok (rdb_kv r) \<Longrightarrow>
   kv_GetValue (rdb_kv r) (rdb_kvs (committed r wb)) = put_all (kv_GetValue (rdb_kv r) (rdb_kvs r)) wb"
  by (simp add: committed_def kv_ok_def)

text \<open>What the database holds for a node depends only on the keys and the cache of that node.\<close>

lemma rdb_holds_cong:
  assumes "rdb_kv r' = rdb_kv r"
    and "\<And>b. kv_GetValue (rdb_kv r) (rdb_kvs r') (EntryBatchKey ci ni b) = kv_GetValue (rdb_kv r) (rdb_kvs r) (EntryBatchKey ci ni b)"
    and "kv_GetValue (rdb_kv r) (rdb_kvs r') (MaxIndexKey ci ni) = kv_GetValue (rdb_kv r) (rdb_kvs r) (MaxIndexKey ci ni)"
    and "cs_getMaxIndex (rdb_cs r') ci ni = cs_getMaxIndex (rdb_cs r) ci ni"
    and "cs_getLastEntryBatch (rdb_cs r') ci ni = cs_getLastEntryBatch (rdb_cs r) ci ni"
  shows "rdb_holds ci ni r' c lo hi \<longleftrightarrow> rdb_holds ci ni r c lo hi"
proof -
  have b: "batch_at (rdb_kv r) (rdb_kvs r') ci ni = batch_at (rdb_kv r) (rdb_kvs r) ci ni"
    using assms(1,2) by (simp add: batch_at_def fun_eq_iff)
  show ?thesis by (simp add: rdb_holds_def stored_def b assms(1,3-5))
qed

definition recorded :: "u64 \<Rightarrow> u64 \<Rightarrow> (nat \<Rightarrow> entry) \<Rightarrow> nat \<Rightarrow> entry list \<Rightarrow> 's rdb \<Rightarrow> 's rdb" where
  "recorded ci ni c lo ents r = (cache_last ci ni c lo ents r)
     \<lparr>rdb_cs := cs_setMaxIndex (rdb_cs (cache_last ci ni c lo ents r)) ci ni (of_nat (end_index ents - 1))\<rparr>"

definition record_puts :: "u64 \<Rightarrow> u64 \<Rightarrow> (nat \<Rightarrow> entry) \<Rightarrow> nat \<Rightarrow> entry list \<Rightarrow> write_batch" where
  "record_puts ci ni c lo ents =
     map (put_batch ci ni c lo ents) [first_index ents div 48 ..< Suc ((end_index ents - 1) div 48)]
     @ [(MaxIndexKey ci ni, IndexValue (of_nat (end_index ents - 1)))]"

lemma recorded_simps [simp]:
  "rdb_kv (recorded ci ni c lo ents r) = rdb_kv r" "rdb_kvs (recorded ci ni c lo ents r) = rdb_kvs r"
  "cs_getLastEntryBatch (rdb_cs (recorded ci ni c lo ents r)) ci' ni'
     = (if (ci', ni') = (ci, ni) then Some (new_visible c lo ents ((end_index ents - 1) div 48))
        else cs_getLastEntryBatch (rdb_cs r) ci' ni')"
  "cs_getMaxIndex (rdb_cs (recorded ci ni c lo ents r)) ci' ni'
     = (if (ci', ni') = (ci, ni) then Some (of_nat (end_index ents - 1)) else cs_getMaxIndex (rdb_cs r) ci' ni')"
  "cs_ps (rdb_cs (recorded ci ni c lo ents r)) = cs_ps (rdb_cs r)"
  by (auto simp: recorded_def cache_last_def cs_setMaxIndex_def cs_setLastEntryBatch_def
      cs_getLastEntryBatch_def cs_getMaxIndex_def update_conv')

lemma unchanged_batch:
  assumes st: "storable c lo hi ents" and k: "lo div 48 \<le> k" "k < first_index ents div 48"
  shows "new_visible c lo ents k = visible c lo hi k" and "lo < hi" and "k \<le> (hi - 1) div 48"
proof -
  note sd = storableD [OF st]
  have f: "48 * k + 48 \<le> first_index ents" using k(2) by linarith
  then have "min (48 * k + 48) (end_index ents) = 48 * k + 48" "min (48 * k + 48) hi = 48 * k + 48"
    using sd(5) by simp_all
  then show "new_visible c lo ents k = visible c lo hi k"
    unfolding visible_def using map_overwrite_below [OF f] by simp
  show "lo < hi" using k f sd(5) by linarith
  show "k \<le> (hi - 1) div 48" using f sd(5) by linarith
qed

lemma recorded_holds:
  assumes h: "rdb_holds ci ni r c lo hi" and st: "storable c lo hi ents"
    and wb: "\<And>b. EntryBatchKey ci ni b \<notin> fst ` set wb"
  shows "rdb_holds ci ni (committed (recorded ci ni c lo ents r) (wb @ record_puts ci ni c lo ents))
    (overwrite c ents) lo (end_index ents)"
proof -
  let ?r = "committed (recorded ci ni c lo ents r) (wb @ record_puts ci ni c lo ents)"
  let ?L = "(end_index ents - 1) div 48"
  note sd = storableD [OF st]
  have c: "content_ok c lo hi" and kv: "kv_ok (rdb_kv r)" using h by (simp_all add: rdb_holds_def)
  have c': "content_ok (overwrite c ents) lo (end_index ents)" by (rule content_overwrite [OF c st])
  have lt: "lo < end_index ents" using sd(1,4) by (cases ents) auto
  have get: "kv_GetValue (rdb_kv r) (rdb_kvs ?r) (EntryBatchKey ci ni (of_nat k))
      = (if first_index ents div 48 \<le> k then Some (BatchValue (the (packed (new_visible c lo ents k))))
         else kv_GetValue (rdb_kv r) (rdb_kvs r) (EntryBatchKey ci ni (of_nat k)))" if "k \<le> ?L" for k
    using committed_value [of "recorded ci ni c lo ents r" "wb @ record_puts ci ni c lo ents"] kv
      put_batches [OF st that] put_all_other [OF wb]
      put_all_other [of "EntryBatchKey ci ni (of_nat k)" "[(MaxIndexKey ci ni, IndexValue (of_nat (end_index ents - 1)))]"]
    by (simp add: record_puts_def put_all_append del: upt_Suc)
  have "stored ?r ci ni k (new_visible c lo ents k)" if k: "lo div 48 \<le> k" "k \<le> ?L" for k
  proof (cases "first_index ents div 48 \<le> k")
    case True
    show ?thesis
      by (rule stored_packed [OF c' visible_nonempty [OF lt k], of ?r ci ni]) (use get [OF k(2)] True in \<open>simp add: batch_at_def\<close>)
  next
    case False
    then have f: "k < first_index ents div 48" by simp
    note u = unchanged_batch [OF st k(1) f]
    have "stored r ci ni k (visible c lo hi k)" by (rule rdb_holdsD(4) [OF h u(2) k(1) u(3)])
    then show ?thesis using get [OF k(2)] False by (simp add: stored_def batch_at_def u(1))
  qed
  moreover have "kv_GetValue (rdb_kv r) (rdb_kvs ?r) (MaxIndexKey ci ni) = Some (IndexValue (of_nat (end_index ents - 1)))"
    using committed_value [of "recorded ci ni c lo ents r" "wb @ record_puts ci ni c lo ents"] kv
    by (simp add: record_puts_def put_all_def del: upt_Suc)
  ultimately show ?thesis using kv c' lt by (simp add: rdb_holds_def)
qed

end
