(* ===== verification/RDBSave.thy ===== *)
theory RDBSave
  imports RDBWrite
begin

text \<open>
  \<open>saveRaftState\<close> for a batch of updates of different nodes: one committed write batch makes the
  database hold the new entries and the new hard state of every node in it, and what it holds for any
  other node stays. The last section makes the database an \<open>entry_store\<close>.
\<close>

section \<open>Steps of the two loops\<close>

fun key_node :: "kv_key \<Rightarrow> u64 \<times> u64" where
  "key_node (EntryBatchKey ci ni b) = (ci, ni)"
| "key_node (StateKey ci ni) = (ci, ni)"
| "key_node (MaxIndexKey ci ni) = (ci, ni)"
| "key_node (SnapshotKey ci ni i) = (ci, ni)"
| "key_node (BootstrapKey ci ni) = (ci, ni)"

definition ud_node :: "update \<Rightarrow> u64 \<times> u64" where
  "ud_node ud = (ud_ClusterID ud, ud_NodeID ud)"

text \<open>A pair of a database and a write batch not committed yet, as the loops pass it on; \<open>keeps n\<close> says
  that a step leaves alone what belongs to node \<open>n\<close>, apart from its hard state.\<close>

type_synonym 's pending = "'s rdb \<times> write_batch"

definition keeps :: "u64 \<times> u64 \<Rightarrow> 's pending \<Rightarrow> 's pending \<Rightarrow> bool" where
  "keeps n p p' \<longleftrightarrow> rdb_kv (fst p') = rdb_kv (fst p) \<and> rdb_kvs (fst p') = rdb_kvs (fst p)
     \<and> cs_getLastEntryBatch (rdb_cs (fst p')) (fst n) (snd n) = cs_getLastEntryBatch (rdb_cs (fst p)) (fst n) (snd n)
     \<and> cs_getMaxIndex (rdb_cs (fst p')) (fst n) (snd n) = cs_getMaxIndex (rdb_cs (fst p)) (fst n) (snd n)
     \<and> (\<forall>m k. key_node k = n \<and> k \<noteq> StateKey (fst n) (snd n) \<longrightarrow> put_all m (snd p') k = put_all m (snd p) k)"

lemma keeps_refl [simp]: "keeps n p p"
  by (simp add: keeps_def)

lemma keeps_trans: "keeps n p q \<Longrightarrow> keeps n q s \<Longrightarrow> keeps n p s"
  by (simp add: keeps_def)

lemma keeps_holds:
  assumes "keeps (ci, ni) (r, wb) (r', wb')" and "kv_ok (rdb_kv r)"
  shows "rdb_holds ci ni (committed r' wb') c lo hi \<longleftrightarrow> rdb_holds ci ni (committed r wb) c lo hi"
    and "rdb_holds ci ni r' c lo hi \<longleftrightarrow> rdb_holds ci ni r c lo hi"
  using assms committed_value [of r wb] committed_value [of r' wb']
  by (intro rdb_holds_cong; simp add: keeps_def)+

lemma put_all_dom: "k \<in> fst ` set wb \<Longrightarrow> put_all m wb k \<noteq> None"
  by (induction wb rule: rev_induct) (auto simp: put_all_def rev_image_eqI)

lemma keeps_keys:
  assumes "keeps (ci, ni) (r, []) (r', wb')" and "k \<in> fst ` set wb'" and "key_node k = (ci, ni)"
  shows "k = StateKey ci ni"
proof (rule ccontr)
  assume "k \<noteq> StateKey ci ni"
  then have "put_all (\<lambda>_. None) wb' k = put_all (\<lambda>_. None) [] k" using assms(1,3) by (simp add: keeps_def)
  then show False using put_all_dom [OF assms(2), of "\<lambda>_. None"] by (simp add: put_all_def)
qed

lemma committed_nil: "kv_ok (rdb_kv r) \<Longrightarrow> rdb_holds ci ni (committed r []) c lo hi \<longleftrightarrow> rdb_holds ci ni r c lo hi"
  using committed_value [of r "[]"] by (intro rdb_holds_cong) (simp_all add: put_all_def)

section \<open>Hard state\<close>

text \<open>The cached hard states are those in the store.\<close>

definition states_synced :: "'s rdb \<Rightarrow> bool" where
  "states_synced r \<longleftrightarrow> (\<forall>ci ni st. map_of (cs_ps (rdb_cs r)) (ci, ni) = Some st \<longrightarrow>
     kv_GetValue (rdb_kv r) (rdb_kvs r) (StateKey ci ni) = Some (StateValue st))"

lemma recordState_keeps:
  assumes "rdb_recordState r ci ni st wb = (r', wb')"
  shows "keeps n (r, wb) (r', wb')"
proof (cases n)
  case (Pair a b)
  have "put_all m (wb @ [(StateKey ci ni, v)]) k = put_all m wb k" if "key_node k = n" "k \<noteq> StateKey a b" for m k v
    using that Pair by (auto simp: put_all_def)
  then show ?thesis
    using assms Pair
    by (auto simp: keeps_def rdb_recordState_def cs_setState_def cs_getLastEntryBatch_def cs_getMaxIndex_def
        Let_def split: if_splits option.splits)
qed

lemma recordState_state:
  assumes "rdb_recordState r ci ni st wb = (r', wb')" and kv: "kv_ok (rdb_kv r)" and sy: "states_synced (committed r wb)"
  shows "states_synced (committed r' wb')"
    and "rdb_readState (committed r' wb') ci' ni' =
      (if (ci', ni') = (ci, ni) \<and> \<not> IsEmptyState st then Some st else rdb_readState (committed r wb) ci' ni')"
proof -
  let ?put = "(StateKey ci ni, StateValue st)"
  have cached: "kv_GetValue (rdb_kv r) (rdb_kvs (committed r wb)) (StateKey ci ni) = Some (StateValue st)"
    if "map_of (cs_ps (rdb_cs r)) (ci, ni) = Some v" "IsStateEqual v st" for v
    using that sy by (auto simp: states_synced_def IsStateEqual_def)
  have new: "kv_GetValue (rdb_kv r) (rdb_kvs (committed (r\<lparr>rdb_cs := cs\<rparr>) (wb @ [?put])))
      = (kv_GetValue (rdb_kv r) (rdb_kvs (committed r wb)))(StateKey ci ni \<mapsto> StateValue st)" for cs
    using committed_value [of "r\<lparr>rdb_cs := cs\<rparr>" "wb @ [?put]"] committed_value [of r wb] kv
    by (simp add: put_all_def)
  have up: "map_of (AList.update (ci, ni) st ps) = (map_of ps)((ci, ni) \<mapsto> st)" for ps by (rule update_conv')
  consider "r' = r" "wb' = wb"
      "IsEmptyState st \<or> kv_GetValue (rdb_kv r) (rdb_kvs (committed r wb)) (StateKey ci ni) = Some (StateValue st)"
    | "r' = r\<lparr>rdb_cs := rdb_cs r\<lparr>cs_ps := AList.update (ci, ni) st (cs_ps (rdb_cs r))\<rparr>\<rparr>" "wb' = wb @ [?put]"
      "\<not> IsEmptyState st"
    using assms(1) cached
    by (auto simp: rdb_recordState_def cs_setState_def Let_def split: if_splits option.splits)
  note cs = this
  from cs show "states_synced (committed r' wb')"
  proof cases
    case 2
    then show ?thesis using sy new by (auto simp: states_synced_def up)
  qed (use sy in simp)
  from cs show "rdb_readState (committed r' wb') ci' ni' =
      (if (ci', ni') = (ci, ni) \<and> \<not> IsEmptyState st then Some st else rdb_readState (committed r wb) ci' ni')"
    by cases (auto simp: rdb_readState_def new)
qed

abbreviation state_after :: "'s rdb \<Rightarrow> update list \<Rightarrow> u64 \<Rightarrow> u64 \<Rightarrow> pb_state option" where
  "state_after r uds ci ni \<equiv> (case find (\<lambda>ud. ud_node ud = (ci, ni) \<and> \<not> IsEmptyState (ud_State ud)) uds of
     Some ud \<Rightarrow> Some (ud_State ud) | None \<Rightarrow> rdb_readState r ci ni)"

lemma state_after_notin:
  assumes "(ci, ni) \<notin> ud_node ` set uds" shows "state_after r uds ci ni = rdb_readState r ci ni"
proof -
  have "find (\<lambda>ud. ud_node ud = (ci, ni) \<and> \<not> IsEmptyState (ud_State ud)) uds = None"
    using assms unfolding find_None_iff by force
  then show ?thesis by simp
qed

lemma state_after_in:
  assumes "distinct (map ud_node uds)" and "ud \<in> set uds"
  shows "state_after r uds (fst (ud_node ud)) (snd (ud_node ud)) =
    (if IsEmptyState (ud_State ud) then rdb_readState r (fst (ud_node ud)) (snd (ud_node ud)) else Some (ud_State ud))"
  using assms
proof (induction uds)
  case (Cons x uds)
  show ?case
  proof (cases "x = ud")
    case True
    then have "(fst (ud_node ud), snd (ud_node ud)) \<notin> ud_node ` set uds" using Cons.prems(1) by simp
    from state_after_notin [OF this, of r] True show ?thesis by simp
  next
    case False
    then have "ud \<in> set uds" using Cons.prems(2) by simp
    moreover from this have "ud_node x \<noteq> ud_node ud" using Cons.prems(1) by (metis distinct.simps(2) image_eqI list.simps(9) list.set_map)
    ultimately show ?thesis using Cons.IH Cons.prems(1) by simp
  qed
qed simp

lemma save_states:
  fixes r :: "'s rdb"
  assumes "\<forall>ud \<in> set uds. IsEmptySnapshot (ud_Snapshot ud)" and "distinct (map ud_node uds)" and "kv_ok (rdb_kv r)"
  obtains r' wb' where "rdb_saveStates r uds wb = Some (r', wb')" and "\<And>n. keeps n (r, wb) (r', wb')"
    and "states_synced (committed r wb) \<Longrightarrow> states_synced (committed r' wb')"
    and "\<And>ci ni. states_synced (committed r wb) \<Longrightarrow>
      rdb_readState (committed r' wb') ci ni = state_after (committed r wb) uds ci ni"
  using assms
proof (induction uds arbitrary: r wb thesis)
  case (Cons ud uds)
  obtain r1 wb1 where rec: "rdb_recordState r (ud_ClusterID ud) (ud_NodeID ud) (ud_State ud) wb = (r1, wb1)"
    by (cases "rdb_recordState r (ud_ClusterID ud) (ud_NodeID ud) (ud_State ud) wb")
  note k = recordState_keeps [OF rec] and st = recordState_state [OF rec Cons.prems(4)]
  have kv1: "kv_ok (rdb_kv r1)" using k Cons.prems(4) by (simp add: keeps_def)
  have ss: "\<forall>ud \<in> set uds. IsEmptySnapshot (ud_Snapshot ud)" "distinct (map ud_node uds)"
    using Cons.prems(2,3) by simp_all
  obtain r' wb' where f: "rdb_saveStates r1 uds wb1 = Some (r', wb')"
    and k': "\<And>n. keeps n (r1, wb1) (r', wb')"
    and sy: "states_synced (committed r1 wb1) \<Longrightarrow> states_synced (committed r' wb')"
    and rd: "\<And>ci ni. states_synced (committed r1 wb1) \<Longrightarrow>
      rdb_readState (committed r' wb') ci ni = state_after (committed r1 wb1) uds ci ni"
    by (rule Cons.IH [OF _ ss kv1]) blast
  show thesis
  proof (rule Cons.prems(1) [OF _ keeps_trans [OF k k']])
    show "rdb_saveStates r (ud # uds) wb = Some (r', wb')"
      using f rec Cons.prems(2) by (simp add: rdb_saveStates_def)
    assume s: "states_synced (committed r wb)"
    then show "states_synced (committed r' wb')" using st(1) sy by blast
    fix ci ni
    have "find (\<lambda>ud. ud_node ud = (ci, ni) \<and> \<not> IsEmptyState (ud_State ud)) uds = None" if "ud_node ud = (ci, ni)"
    proof -
      have "ud_node x \<noteq> (ci, ni)" if "x \<in> set uds" for x
        using that Cons.prems(3) \<open>ud_node ud = (ci, ni)\<close> by force
      then show ?thesis by (auto simp: find_None_iff)
    qed
    then show "rdb_readState (committed r' wb') ci ni = state_after (committed r wb) (ud # uds) ci ni"
      using rd [OF st(1) [OF s], of ci ni] st(2) [OF s, of ci ni]
      by (auto simp: ud_node_def split: option.splits)
  qed
qed (simp add: rdb_saveStates_def)

section \<open>Entries\<close>

lemma record_puts_other:
  "key_node k \<noteq> (ci, ni) \<or> (\<exists>a b. k = StateKey a b) \<Longrightarrow> put_all m (wb @ record_puts ci ni c lo ents) k = put_all m wb k"
  unfolding put_all_append by (intro put_all_other) (auto simp: record_puts_def put_batch_def simp del: upt_Suc)

lemma recorded_keeps: "n \<noteq> (ci, ni) \<Longrightarrow> keeps n (r, wb) (recorded ci ni c lo ents r, wb @ record_puts ci ni c lo ents)"
  by (cases n) (auto simp: keeps_def record_puts_other)

text \<open>What belongs to the node of an update before and after it is saved; \<open>C\<close>, \<open>LO\<close> and \<open>HI\<close> describe what the
  database holds for each node.\<close>

definition saved_content :: "(u64 \<times> u64 \<Rightarrow> nat \<Rightarrow> entry) \<Rightarrow> update \<Rightarrow> nat \<Rightarrow> entry" where
  "saved_content C ud = (if ud_EntriesToSave ud = [] then C (ud_node ud)
     else overwrite (C (ud_node ud)) (ud_EntriesToSave ud))"

definition saved_end :: "(u64 \<times> u64 \<Rightarrow> nat) \<Rightarrow> update \<Rightarrow> nat" where
  "saved_end HI ud = (if ud_EntriesToSave ud = [] then HI (ud_node ud) else end_index (ud_EntriesToSave ud))"

definition savable :: "(u64 \<times> u64 \<Rightarrow> nat \<Rightarrow> entry) \<Rightarrow> (u64 \<times> u64 \<Rightarrow> nat) \<Rightarrow> (u64 \<times> u64 \<Rightarrow> nat) \<Rightarrow> update \<Rightarrow> bool" where
  "savable C LO HI ud \<longleftrightarrow> ud_EntriesToSave ud \<noteq> [] \<longrightarrow>
     storable (C (ud_node ud)) (LO (ud_node ud)) (HI (ud_node ud)) (ud_EntriesToSave ud)"

lemma saveEntries_step:
  assumes h: "rdb_holds ci ni r c lo hi" and st: "storable c lo hi (ud_EntriesToSave ud)" and n: "ud_node ud = (ci, ni)"
  shows "rdb_saveEntries r (ud # uds) wb = rdb_saveEntries (recorded ci ni c lo (ud_EntriesToSave ud) r) uds
    (wb @ record_puts ci ni c lo (ud_EntriesToSave ud))"
proof -
  let ?ents = "ud_EntriesToSave ud"
  note sd = storableD [OF st]
  have "0 < end_index ?ents - 1" "end_index ?ents - 1 < 18446744073709551616"
    using sd(1,3,6) by (cases ?ents; simp)+
  then have "(0 :: u64) < of_nat (end_index ?ents - 1)"
    by (simp add: word_less_nat_alt u64_of_nat del: of_nat_diff)
  then show ?thesis
    using rdb_recordEntries_spec [OF h st, of wb] sd(1) n
    by (simp add: rdb_saveEntries_def rdb_setMaxIndex_def rdb_recordMaxIndex_def recorded_def record_puts_def
        ud_node_def Let_def del: upt_Suc of_nat_diff)
qed

lemma save_entries:
  fixes r :: "'s rdb"
  assumes "\<forall>ud \<in> set uds. rdb_holds (ud_ClusterID ud) (ud_NodeID ud) r (C (ud_node ud)) (LO (ud_node ud)) (HI (ud_node ud))"
    and "\<forall>ud \<in> set uds. savable C LO HI ud" and "distinct (map ud_node uds)" and kv: "kv_ok (rdb_kv r)"
    and "\<forall>ud \<in> set uds. \<forall>k \<in> fst ` set wb. key_node k = ud_node ud \<longrightarrow> k = StateKey (ud_ClusterID ud) (ud_NodeID ud)"
  obtains r' wb' where "rdb_saveEntries r uds wb = Some (r', wb')"
    and "\<And>n. n \<notin> ud_node ` set uds \<Longrightarrow> keeps n (r, wb) (r', wb')"
    and "rdb_kv r' = rdb_kv r" and "rdb_kvs r' = rdb_kvs r" and "cs_ps (rdb_cs r') = cs_ps (rdb_cs r)"
    and "\<And>m a b. put_all m wb' (StateKey a b) = put_all m wb (StateKey a b)"
    and "\<And>ud. ud \<in> set uds \<Longrightarrow> rdb_holds (ud_ClusterID ud) (ud_NodeID ud) (committed r' wb')
           (saved_content C ud) (LO (ud_node ud)) (saved_end HI ud)"
  using assms
proof (induction uds arbitrary: r wb thesis)
  case Nil
  show thesis by (rule Nil.prems(1) [of r wb]) (simp_all add: rdb_saveEntries_def)
next
  case (Cons ud uds)
  let ?ci = "ud_ClusterID ud" and ?ni = "ud_NodeID ud" and ?ents = "ud_EntriesToSave ud" and ?n = "ud_node ud"
  have n: "?n = (?ci, ?ni)" by (simp add: ud_node_def)
  have h: "rdb_holds ?ci ?ni r (C ?n) (LO ?n) (HI ?n)" using Cons.prems(2) by simp
  obtain r1 wb1 where step: "rdb_saveEntries r (ud # uds) wb = rdb_saveEntries r1 uds wb1"
    and k: "\<And>n. n \<noteq> ?n \<Longrightarrow> keeps n (r, wb) (r1, wb1)"
    and same: "rdb_kv r1 = rdb_kv r" "rdb_kvs r1 = rdb_kvs r" "cs_ps (rdb_cs r1) = cs_ps (rdb_cs r)"
    and ps: "\<And>m a b. put_all m wb1 (StateKey a b) = put_all m wb (StateKey a b)"
    and h1: "rdb_holds ?ci ?ni (committed r1 wb1) (saved_content C ud) (LO ?n) (saved_end HI ud)"
    and wb1: "\<And>x. x \<in> fst ` set wb1 \<Longrightarrow> key_node x \<noteq> ?n \<Longrightarrow> x \<in> fst ` set wb"
  proof (cases "?ents = []")
    case True
    have "put_all m wb x = put_all m [] x" if "key_node x = ?n" "x \<noteq> StateKey ?ci ?ni" for m x
    proof -
      have "x \<notin> fst ` set wb" using Cons.prems(6) that by (metis list.set_intros(1))
      then show ?thesis by (simp add: put_all_other)
    qed
    then have "keeps ?n (r, []) (r, wb)" by (simp add: keeps_def n)
    then have "rdb_holds ?ci ?ni (committed r wb) (C ?n) (LO ?n) (HI ?n)"
      using keeps_holds(1) [of ?ci ?ni r "[]" r wb] committed_nil [OF Cons.prems(5)] h Cons.prems(5) n by simp
    with True show thesis
      by (intro that [of r wb]) (simp_all add: rdb_saveEntries_def saved_content_def saved_end_def)
  next
    case False
    have st: "storable (C ?n) (LO ?n) (HI ?n) ?ents" using Cons.prems(3) False by (simp add: savable_def)
    have "EntryBatchKey ?ci ?ni b \<notin> fst ` set wb" for b using Cons.prems(6) n by fastforce
    note rh = recorded_holds [OF h st this]
    show thesis
    proof (rule that [OF saveEntries_step [OF h st n] recorded_keeps])
      fix x assume x: "x \<in> fst ` set (wb @ record_puts ?ci ?ni (C ?n) (LO ?n) ?ents)" "key_node x \<noteq> ?n"
      then show "x \<in> fst ` set wb" using n by (auto simp: record_puts_def put_batch_def simp del: upt_Suc)
    qed (use False rh n in \<open>simp_all add: record_puts_other saved_content_def saved_end_def\<close>)
  qed
  have d: "?n \<notin> ud_node ` set uds" "distinct (map ud_node uds)" using Cons.prems(4) by simp_all
  have "\<forall>x \<in> set uds. rdb_holds (ud_ClusterID x) (ud_NodeID x) r1 (C (ud_node x)) (LO (ud_node x)) (HI (ud_node x))"
  proof
    fix x assume x: "x \<in> set uds"
    then have "ud_node x \<noteq> ?n" using d(1) by (metis image_eqI)
    from k [OF this] have "keeps (ud_ClusterID x, ud_NodeID x) (r, wb) (r1, wb1)" by (simp add: ud_node_def)
    from keeps_holds(2) [OF this Cons.prems(5)]
    show "rdb_holds (ud_ClusterID x) (ud_NodeID x) r1 (C (ud_node x)) (LO (ud_node x)) (HI (ud_node x))"
      using Cons.prems(2) x by simp
  qed
  moreover have "\<forall>x \<in> set uds. \<forall>k \<in> fst ` set wb1. key_node k = ud_node x \<longrightarrow> k = StateKey (ud_ClusterID x) (ud_NodeID x)"
    using Cons.prems(6) wb1 d(1) by (metis image_eqI list.set_intros(2))
  moreover have "\<forall>x \<in> set uds. savable C LO HI x" "kv_ok (rdb_kv r1)" using Cons.prems(3,5) same by simp_all
  ultimately obtain r' wb' where f: "rdb_saveEntries r1 uds wb1 = Some (r', wb')"
    and k': "\<And>n. n \<notin> ud_node ` set uds \<Longrightarrow> keeps n (r1, wb1) (r', wb')"
    and same': "rdb_kv r' = rdb_kv r1" "rdb_kvs r' = rdb_kvs r1" "cs_ps (rdb_cs r') = cs_ps (rdb_cs r1)"
    and ps': "\<And>m a b. put_all m wb' (StateKey a b) = put_all m wb1 (StateKey a b)"
    and h': "\<And>x. x \<in> set uds \<Longrightarrow> rdb_holds (ud_ClusterID x) (ud_NodeID x) (committed r' wb')
           (saved_content C x) (LO (ud_node x)) (saved_end HI x)"
    using Cons.IH [of r1 wb1] d(2) by blast
  have hd: "rdb_holds ?ci ?ni (committed r' wb') (saved_content C ud) (LO ?n) (saved_end HI ud)"
    using keeps_holds(1) [of ?ci ?ni r1 wb1 r' wb'] k' [OF d(1)] h1 same Cons.prems(5) n by simp
  show thesis
  proof (rule Cons.prems(1) [of r' wb'])
    show "keeps n (r, wb) (r', wb')" if "n \<notin> ud_node ` set (ud # uds)" for n
      using keeps_trans [OF k k'] that by simp
  qed (use step f same same' ps ps' h' hd in auto)
qed

section \<open>Saving\<close>

text \<open>What a call of \<open>saveRaftState\<close> must find, for each update, in the database.\<close>

definition updates_ok :: "(u64 \<times> u64 \<Rightarrow> nat \<Rightarrow> entry) \<Rightarrow> (u64 \<times> u64 \<Rightarrow> nat) \<Rightarrow> (u64 \<times> u64 \<Rightarrow> nat) \<Rightarrow> 's rdb \<Rightarrow> update list \<Rightarrow> bool" where
  "updates_ok C LO HI r uds \<longleftrightarrow> kv_ok (rdb_kv r) \<and> distinct (map ud_node uds)
     \<and> (\<forall>ud \<in> set uds. IsEmptySnapshot (ud_Snapshot ud) \<and> savable C LO HI ud
          \<and> rdb_holds (ud_ClusterID ud) (ud_NodeID ud) r (C (ud_node ud)) (LO (ud_node ud)) (HI (ud_node ud)))"

lemma rdb_saveRaftState_spec:
  fixes r :: "'s rdb"
  assumes "updates_ok C LO HI r uds"
  obtains r' where "rdb_saveRaftState r uds = Some r'"
    and "\<And>ud. ud \<in> set uds \<Longrightarrow> rdb_holds (ud_ClusterID ud) (ud_NodeID ud) r'
           (saved_content C ud) (LO (ud_node ud)) (saved_end HI ud)"
    and "\<And>ci ni c lo hi. (ci, ni) \<notin> ud_node ` set uds \<Longrightarrow> rdb_holds ci ni r c lo hi \<Longrightarrow> rdb_holds ci ni r' c lo hi"
    and "states_synced r \<Longrightarrow> states_synced r'"
    and "\<And>ci ni. states_synced r \<Longrightarrow> rdb_readState r' ci ni = state_after r uds ci ni"
    and "rdb_kv r' = rdb_kv r"
proof -
  have kv: "kv_ok (rdb_kv r)" and d: "distinct (map ud_node uds)"
    and ss: "\<forall>ud \<in> set uds. IsEmptySnapshot (ud_Snapshot ud)" and sv: "\<forall>ud \<in> set uds. savable C LO HI ud"
    and h: "\<forall>ud \<in> set uds. rdb_holds (ud_ClusterID ud) (ud_NodeID ud) r (C (ud_node ud)) (LO (ud_node ud)) (HI (ud_node ud))"
    using assms by (simp_all add: updates_ok_def)
  obtain r1 wb1 where s1: "rdb_saveStates r uds [] = Some (r1, wb1)"
    and k1: "\<And>n. keeps n (r, []) (r1, wb1)"
    and y1: "states_synced (committed r []) \<Longrightarrow> states_synced (committed r1 wb1)"
    and v1: "\<And>ci ni. states_synced (committed r []) \<Longrightarrow>
      rdb_readState (committed r1 wb1) ci ni = state_after (committed r []) uds ci ni"
    by (rule save_states [OF ss d kv, of "[]"]) blast
  have kv1: "kv_ok (rdb_kv r1)" and kvs1: "rdb_kvs r1 = rdb_kvs r" "rdb_kv r1 = rdb_kv r"
    using kv k1 by (simp_all add: keeps_def)
  have h1: "rdb_holds ci ni r1 c lo hi" if "rdb_holds ci ni r c lo hi" for ci ni c lo hi
    using keeps_holds(2) [OF k1 kv] that by blast
  have ky: "\<forall>ud \<in> set uds. \<forall>k \<in> fst ` set wb1. key_node k = ud_node ud \<longrightarrow> k = StateKey (ud_ClusterID ud) (ud_NodeID ud)"
    using keeps_keys [OF k1] by (simp add: ud_node_def)
  obtain r2 wb2 where s2: "rdb_saveEntries r1 uds wb1 = Some (r2, wb2)"
    and k2: "\<And>n. n \<notin> ud_node ` set uds \<Longrightarrow> keeps n (r1, wb1) (r2, wb2)"
    and same: "rdb_kv r2 = rdb_kv r1" "rdb_kvs r2 = rdb_kvs r1" "cs_ps (rdb_cs r2) = cs_ps (rdb_cs r1)"
    and st: "\<And>m a b. put_all m wb2 (StateKey a b) = put_all m wb1 (StateKey a b)"
    and h2: "\<And>ud. ud \<in> set uds \<Longrightarrow> rdb_holds (ud_ClusterID ud) (ud_NodeID ud) (committed r2 wb2)
           (saved_content C ud) (LO (ud_node ud)) (saved_end HI ud)"
    by (rule save_entries [OF _ sv d kv1 ky]) (use h h1 in blast)+
  have val: "kv_GetValue (rdb_kv r) (rdb_kvs (committed r2 wb2)) (StateKey a b)
      = kv_GetValue (rdb_kv r) (rdb_kvs (committed r1 wb1)) (StateKey a b)" for a b
    using committed_value [of r1 wb1] committed_value [of r2 wb2] kv same kvs1 st by simp
  have nil: "states_synced (committed r []) \<longleftrightarrow> states_synced r" "rdb_readState (committed r []) = rdb_readState r"
    using committed_value [OF kv, of "[]"] by (simp_all add: states_synced_def rdb_readState_def put_all_def fun_eq_iff)
  have res: "rdb_saveRaftState r uds = Some (if wb2 \<noteq> [] then committed r2 wb2 else r2)"
    using s1 s2 by (simp add: rdb_saveRaftState_def committed_def)
  have "kv_ok (rdb_kv r2)" using same kv1 by simp
  note nil2 = committed_nil [OF this] committed_value [OF this, of "[]"]
  let ?r = "if wb2 \<noteq> [] then committed r2 wb2 else r2"
  have hc: "rdb_holds ci ni ?r c lo hi \<longleftrightarrow> rdb_holds ci ni (committed r2 wb2) c lo hi" for ci ni c lo hi
    using nil2(1) by simp
  have rc: "rdb_readState ?r ci ni = rdb_readState (committed r1 wb1) ci ni" for ci ni
    using val nil2(2) same kvs1 by (auto simp: rdb_readState_def put_all_def)
  have sc: "states_synced ?r \<longleftrightarrow> states_synced (committed r1 wb1)"
    using val nil2(2) same kvs1 by (auto simp: states_synced_def put_all_def)
  show thesis
  proof (rule that [OF res])
    fix ci ni c lo hi assume n: "(ci, ni) \<notin> ud_node ` set uds" and "rdb_holds ci ni r c lo hi"
    then have "rdb_holds ci ni (committed r []) c lo hi" using committed_nil [OF kv] by blast
    then show "rdb_holds ci ni ?r c lo hi"
      unfolding hc keeps_holds(1) [OF k2 [OF n] kv1] keeps_holds(1) [OF k1 kv] .
  qed (use h2 hc rc sc y1 v1 [unfolded nil] nil same kvs1 in auto)
qed

section \<open>The database as a store of entries\<close>

definition rdb_save :: "u64 \<Rightarrow> u64 \<Rightarrow> 's rdb \<Rightarrow> entry list \<Rightarrow> 's rdb option" where
  "rdb_save ci ni r ents =
     rdb_saveRaftState r [empty_update\<lparr>ud_ClusterID := ci, ud_NodeID := ni, ud_EntriesToSave := ents\<rparr>]"

lemma rdb_holds_kv: "rdb_holds ci ni r c lo hi \<Longrightarrow> kv_ok (rdb_kv r)"
  by (simp add: rdb_holds_def)

lemma rdb_holds_index: "rdb_holds ci ni r c lo hi \<Longrightarrow> lo \<le> n \<Longrightarrow> n < hi \<Longrightarrow> unat (e_Index (c n)) = n"
  by (auto simp: rdb_holds_def content_ok_def)

lemma rdb_save_holds:
  assumes "rdb_holds ci ni r c lo hi" and "storable c lo hi ents"
  shows "\<exists>r'. rdb_save ci ni r ents = Some r' \<and> rdb_holds ci ni r' (overwrite c ents) lo (end_index ents)"
proof -
  let ?ud = "empty_update\<lparr>ud_ClusterID := ci, ud_NodeID := ni, ud_EntriesToSave := ents\<rparr>"
  have "updates_ok (\<lambda>_. c) (\<lambda>_. lo) (\<lambda>_. hi) r [?ud]"
    using assms rdb_holds_kv [OF assms(1)]
    by (simp add: updates_ok_def savable_def empty_update_def IsEmptySnapshot_def empty_snapshot_def)
  then show ?thesis
  proof (rule rdb_saveRaftState_spec)
    fix r' assume "rdb_saveRaftState r [?ud] = Some r'"
      and "\<And>ud. ud \<in> set [?ud] \<Longrightarrow> rdb_holds (ud_ClusterID ud) (ud_NodeID ud) r' (saved_content (\<lambda>_. c) ud) lo (saved_end (\<lambda>_. hi) ud)"
    from this(1) this(2) [of ?ud] show ?thesis
      using storableD(1) [OF assms(2)] by (simp add: rdb_save_def saved_content_def saved_end_def)
  qed
qed

interpretation rdbs: entry_store "rdb_holds ci ni" "rdb_iterator ci ni" "rdb_save ci ni" for ci ni
  by unfold_locales (rule rdb_holds_index rdb_iterator_ok rdb_save_holds; assumption)+

end
