(* ===== verification/ShardedRDB.thy ===== *)
theory ShardedRDB
  imports RDBSave
begin

text \<open>
  \<open>internal/logdb/sharded_rdb.go\<close> and \<open>compaction.go\<close>, with the partitioners of \<open>internal/server\<close>: the log
  database of a host is a fixed number of shards, and a cluster always goes to the same one. The
  compaction worker is the loop \<open>sr_compaction\<close>; the channel that wakes it up and the stop signal carry no
  data and do not appear. Go leaves the order of \<open>range\<close> over a map open; \<open>getTask\<close> takes the first pair.

  The sharded database keeps the contract \<open>entry_store\<close> of a single one. Compaction removes no entry that
  a reader of the compacted log can ask for.
\<close>

section \<open>Partitioners\<close>

record DoubleFixedPartitioner =
  dfp_capacity :: u64
  dfp_workerCount :: u64

definition FixedPartitioner_GetPartitionID :: "u64 \<Rightarrow> u64 \<Rightarrow> u64" where
  "FixedPartitioner_GetPartitionID capacity clusterID = clusterID mod capacity"

definition NewDoubleFixedPartitioner :: "u64 \<Rightarrow> u64 \<Rightarrow> DoubleFixedPartitioner" where
  "NewDoubleFixedPartitioner capacity workerCount = \<lparr>dfp_capacity = capacity, dfp_workerCount = workerCount\<rparr>"

definition dfp_GetPartitionID :: "DoubleFixedPartitioner \<Rightarrow> u64 \<Rightarrow> u64" where
  "dfp_GetPartitionID p clusterID = (clusterID mod dfp_workerCount p) mod dfp_capacity p"

section \<open>Compaction tasks\<close>

record compaction_task =
  ct_clusterID :: u64
  ct_nodeID :: u64
  ct_index :: u64

type_synonym compactions = "(u64 \<times> u64, u64) gomap"

definition newCompactions :: compactions where
  "newCompactions = []"

definition cp_len :: "compactions \<Rightarrow> nat" where
  "cp_len p = length p"

definition cp_addTask :: "compactions \<Rightarrow> compaction_task \<Rightarrow> compactions option" where
  "cp_addTask p t =
     (let key = (ct_clusterID t, ct_nodeID t) in
      case map_of p key of
        Some v \<Rightarrow> if v > ct_index t then panic else Some (AList.update key (ct_index t) p)
      | None \<Rightarrow> Some (AList.update key (ct_index t) p))"

definition cp_getTask :: "compactions \<Rightarrow> compaction_task option \<times> compactions" where
  "cp_getTask p =
     (case p of
        [] \<Rightarrow> (None, p)
      | (k, v) # _ \<Rightarrow>
          (Some \<lparr>ct_clusterID = fst k, ct_nodeID = snd k, ct_index = v\<rparr>, AList.delete k p))"

section \<open>The sharded database\<close>

record 's sharded_rdb =
  sr_completedCompactions :: u64
  sr_shards :: "'s rdb list"
  sr_partitioner :: DoubleFixedPartitioner
  sr_compactions :: compactions
  sr_useRangeDelete :: bool

text \<open>\<open>OpenShardedRDB\<close> once its stores are open: one shard for each of them.\<close>

definition OpenShardedRDB :: "'s kvstore \<Rightarrow> 's list \<Rightarrow> u64 \<Rightarrow> bool \<Rightarrow> 's sharded_rdb" where
  "OpenShardedRDB kv dirs workers useRangeDelete =
     \<lparr>sr_completedCompactions = 0, sr_shards = map (openRDB kv) dirs,
      sr_partitioner = NewDoubleFixedPartitioner (of_nat (length dirs)) workers,
      sr_compactions = newCompactions, sr_useRangeDelete = useRangeDelete\<rparr>"

definition sr_partition :: "'s sharded_rdb \<Rightarrow> u64 \<Rightarrow> nat" where
  "sr_partition mw clusterID = unat (dfp_GetPartitionID (sr_partitioner mw) clusterID)"

definition sr_getParititionID :: "'s sharded_rdb \<Rightarrow> update list \<Rightarrow> u64 option" where
  "sr_getParititionID mw updates = do {
     pid \<leftarrow> go_fold (\<lambda>ud pid.
       let i = dfp_GetPartitionID (sr_partitioner mw) (ud_ClusterID ud) in
       if pid = max_u64 then Some i else if pid \<noteq> i then panic else Some pid) updates max_u64;
     if pid = max_u64 then panic else Some pid }"

definition sr_SaveRaftState :: "'s sharded_rdb \<Rightarrow> update list \<Rightarrow> 's sharded_rdb option" where
  "sr_SaveRaftState mw updates =
     (if length updates = 0 then Some mw
      else do {
        pid \<leftarrow> sr_getParititionID mw updates;
        shard \<leftarrow> go_index (sr_shards mw) (unat pid);
        shard \<leftarrow> rdb_saveRaftState shard updates;
        Some (mw\<lparr>sr_shards := (sr_shards mw)[unat pid := shard]\<rparr>) })"

definition sr_ReadRaftState ::
    "'s sharded_rdb \<Rightarrow> u64 \<Rightarrow> u64 \<Rightarrow> u64 \<Rightarrow> (pb_state \<times> u64 \<times> u64) option option" where
  "sr_ReadRaftState mw clusterID nodeID lastIndex = do {
     shard \<leftarrow> go_index (sr_shards mw) (sr_partition mw clusterID);
     rdb_readRaftState shard clusterID nodeID lastIndex }"

definition sr_ListNodeInfo :: "'s sharded_rdb \<Rightarrow> (u64 \<times> u64) list" where
  "sr_ListNodeInfo mw = foldl (\<lambda>r v. r @ rdb_listNodeInfo v) [] (sr_shards mw)"

definition sr_SaveSnapshots :: "'s sharded_rdb \<Rightarrow> update list \<Rightarrow> 's sharded_rdb option" where
  "sr_SaveSnapshots mw updates =
     (if length updates = 0 then Some mw
      else do {
        pid \<leftarrow> sr_getParititionID mw updates;
        shard \<leftarrow> go_index (sr_shards mw) (unat pid);
        Some (mw\<lparr>sr_shards := (sr_shards mw)[unat pid := rdb_saveSnapshots shard updates]\<rparr>) })"

text \<open>The operations that change the shard of one cluster.\<close>

definition sr_on_shard :: "'s sharded_rdb \<Rightarrow> u64 \<Rightarrow> ('s rdb \<Rightarrow> 's rdb) \<Rightarrow> 's sharded_rdb option" where
  "sr_on_shard mw clusterID f = do {
     shard \<leftarrow> go_index (sr_shards mw) (sr_partition mw clusterID);
     Some (mw\<lparr>sr_shards := (sr_shards mw)[sr_partition mw clusterID := f shard]\<rparr>) }"

definition sr_DeleteSnapshot :: "'s sharded_rdb \<Rightarrow> u64 \<Rightarrow> u64 \<Rightarrow> u64 \<Rightarrow> 's sharded_rdb option" where
  "sr_DeleteSnapshot mw clusterID nodeID snapshotIndex =
     sr_on_shard mw clusterID (\<lambda>shard. rdb_deleteSnapshot shard clusterID nodeID snapshotIndex)"

definition sr_ListSnapshots :: "'s sharded_rdb \<Rightarrow> u64 \<Rightarrow> u64 \<Rightarrow> snapshot list option" where
  "sr_ListSnapshots mw clusterID nodeID = do {
     shard \<leftarrow> go_index (sr_shards mw) (sr_partition mw clusterID);
     Some (rdb_listSnapshots shard clusterID nodeID) }"

definition sr_SaveBootstrapInfo :: "'s sharded_rdb \<Rightarrow> u64 \<Rightarrow> u64 \<Rightarrow> bootstrap \<Rightarrow> 's sharded_rdb option" where
  "sr_SaveBootstrapInfo mw clusterID nodeID b =
     sr_on_shard mw clusterID (\<lambda>shard. rdb_saveBootstrapInfo shard clusterID nodeID b)"

definition sr_GetBootstrapInfo :: "'s sharded_rdb \<Rightarrow> u64 \<Rightarrow> u64 \<Rightarrow> bootstrap option option" where
  "sr_GetBootstrapInfo mw clusterID nodeID = do {
     shard \<leftarrow> go_index (sr_shards mw) (sr_partition mw clusterID);
     Some (rdb_getBootstrapInfo shard clusterID nodeID) }"

definition sr_IterateEntries ::
    "'s sharded_rdb \<Rightarrow> u64 \<Rightarrow> u64 \<Rightarrow> u64 \<Rightarrow> u64 \<Rightarrow> u64 \<Rightarrow> (entry list \<times> u64) option" where
  "sr_IterateEntries mw clusterID nodeID low high maxSize = do {
     shard \<leftarrow> go_index (sr_shards mw) (sr_partition mw clusterID);
     rdb_iterateEntries shard clusterID nodeID low high maxSize }"

definition sr_addCompaction :: "'s sharded_rdb \<Rightarrow> u64 \<Rightarrow> u64 \<Rightarrow> u64 \<Rightarrow> 's sharded_rdb option" where
  "sr_addCompaction mw clusterID nodeID index = do {
     cs \<leftarrow> cp_addTask (sr_compactions mw) \<lparr>ct_clusterID = clusterID, ct_nodeID = nodeID, ct_index = index\<rparr>;
     Some (mw\<lparr>sr_compactions := cs\<rparr>) }"

definition sr_RemoveEntriesTo :: "'s sharded_rdb \<Rightarrow> u64 \<Rightarrow> u64 \<Rightarrow> u64 \<Rightarrow> 's sharded_rdb option" where
  "sr_RemoveEntriesTo mw clusterID nodeID index = do {
     mw \<leftarrow> sr_on_shard mw clusterID (\<lambda>shard. rdb_removeEntriesTo shard clusterID nodeID index);
     if sr_useRangeDelete mw then sr_addCompaction mw clusterID nodeID index else Some mw }"

text \<open>The body of the compaction loop for one task, and the loop.\<close>

definition sr_compact :: "'s sharded_rdb \<Rightarrow> compaction_task \<Rightarrow> 's sharded_rdb option" where
  "sr_compact mw t = do {
     mw \<leftarrow> sr_on_shard mw (ct_clusterID t) (\<lambda>shard. rdb_compaction shard (ct_clusterID t) (ct_nodeID t) (ct_index t));
     Some (mw\<lparr>sr_completedCompactions := sr_completedCompactions mw + 1\<rparr>) }"

lemma sr_compact_tasks: "sr_compact mw t = Some mw' \<Longrightarrow> sr_compactions mw' = sr_compactions mw"
  by (auto simp: sr_compact_def sr_on_shard_def split: bind_splits)

lemma cp_getTask_less: "cp_getTask p = (Some t, p') \<Longrightarrow> length p' < length p"
  using length_delete_le [of "fst (hd p)" "tl p"] by (cases p) (auto simp: cp_getTask_def less_Suc_eq_le)

function sr_compaction :: "'s sharded_rdb \<Rightarrow> 's sharded_rdb option" where
  "sr_compaction mw =
     (case cp_getTask (sr_compactions mw) of
        (None, _) \<Rightarrow> Some mw
      | (Some t, cs) \<Rightarrow>
          (case sr_compact (mw\<lparr>sr_compactions := cs\<rparr>) t of None \<Rightarrow> panic | Some mw' \<Rightarrow> sr_compaction mw'))"
  by pat_completeness auto
termination
  by (relation "measure (\<lambda>mw. length (sr_compactions mw))")
    (auto dest: sr_compact_tasks dest!: cp_getTask_less [OF sym])

declare sr_compaction.simps [simp del]

section \<open>Compaction of one shard\<close>

lemma removeEntries_value:
  assumes "kv_ok (rdb_kv r)" and "\<not> key_between (EntryBatchKey ci ni 0) (EntryBatchKey ci ni (getBatchID i - 1)) k"
  shows "kv_GetValue (rdb_kv r) (rdb_kvs (rdb_removeEntriesTo r ci ni i)) k = kv_GetValue (rdb_kv r) (rdb_kvs r) k"
  using assms by (simp add: rdb_removeEntriesTo_def rdb_rangedEntryOp_def Let_def kv_ok_def)

lemma removeEntries_simps [simp]:
  "rdb_kv (rdb_removeEntriesTo r ci ni i) = rdb_kv r" "rdb_cs (rdb_removeEntriesTo r ci ni i) = rdb_cs r"
  by (simp_all add: rdb_removeEntriesTo_def rdb_rangedEntryOp_def Let_def)

text \<open>The first index that is still in the database: that of the batch before the one of \<open>i\<close>.\<close>

definition kept_from :: "nat \<Rightarrow> u64 \<Rightarrow> nat" where
  "kept_from lo i = max lo (48 * (unat i div 48 - 1))"

lemma visible_kept: "kept_from lo i div 48 \<le> k \<Longrightarrow> visible c (kept_from lo i) hi k = visible c lo hi k"
proof -
  assume k: "kept_from lo i div 48 \<le> k"
  have "48 * (unat i div 48 - 1) div 48 \<le> kept_from lo i div 48"
    unfolding kept_from_def by (intro div_le_mono) simp
  with k have "unat i div 48 - 1 \<le> k" by simp
  then have "max (kept_from lo i) (48 * k) = max lo (48 * k)" by (simp add: kept_from_def max_def)
  then show ?thesis by (simp add: visible_def)
qed

lemma kept_not_between:
  assumes "unat i div 48 - 1 \<le> k" and "k < 18446744073709551616"
  shows "\<not> key_between (EntryBatchKey ci ni 0) (EntryBatchKey ci ni (getBatchID i - 1)) (EntryBatchKey ci ni (of_nat k))
    \<or> getBatchID i = 0"
proof (cases "getBatchID i = 0")
  case False
  then have "unat (getBatchID i - 1) = unat i div 48 - 1" by (simp add: unat_minus_one)
  then show ?thesis using assms by (simp add: word_less_nat_alt u64_of_nat)
qed simp

lemma removeEntries_holds:
  assumes h: "rdb_holds ci ni r c lo hi" and i: "unat i < hi"
  shows "rdb_holds ci ni (rdb_removeEntriesTo r ci ni i) c (kept_from lo i) hi"
proof -
  let ?lo = "kept_from lo i" and ?r = "rdb_removeEntriesTo r ci ni i"
  have kv: "kv_ok (rdb_kv r)" and c: "content_ok c lo hi" using h by (simp_all add: rdb_holds_def)
  have hi: "hi < 18446744073709551616" "lo \<le> hi" "0 < lo" using c by (simp_all add: content_ok_def)
  have le: "48 * (unat i div 48 - 1) \<le> unat i" by linarith
  have lo: "lo \<le> ?lo" "?lo \<le> hi" "lo < hi \<Longrightarrow> ?lo < hi" using le i hi by (auto simp: kept_from_def)
  have b: "unat i div 48 - 1 \<le> ?lo div 48"
  proof -
    have "48 * (unat i div 48 - 1) div 48 \<le> ?lo div 48" unfolding kept_from_def by (intro div_le_mono) simp
    then show ?thesis by simp
  qed
  have same: "batch_at (rdb_kv r) (rdb_kvs ?r) ci ni (of_nat k) = batch_at (rdb_kv r) (rdb_kvs r) ci ni (of_nat k)"
    if k: "?lo div 48 \<le> k" "k \<le> hi div 48" for k
  proof (cases "getBatchID i = 0")
    case True
    then show ?thesis by (simp add: rdb_removeEntriesTo_def rdb_rangedEntryOp_def)
  next
    case False
    have "k < 18446744073709551616" using k(2) hi(1) by linarith
    with False kept_not_between [of i k ci ni] b k(1)
    have "\<not> key_between (EntryBatchKey ci ni 0) (EntryBatchKey ci ni (getBatchID i - 1)) (EntryBatchKey ci ni (of_nat k))"
      by linarith
    then show ?thesis by (simp add: batch_at_def removeEntries_value [OF kv])
  qed
  have mx: "kv_GetValue (rdb_kv r) (rdb_kvs ?r) (MaxIndexKey ci ni) = kv_GetValue (rdb_kv r) (rdb_kvs r) (MaxIndexKey ci ni)"
    by (simp add: removeEntries_value [OF kv])
  have c': "content_ok c ?lo hi" using c lo by (auto simp: content_ok_def)
  show ?thesis
  proof (cases "lo = hi")
    case True
    then have "?lo = lo" using lo by simp
    with True h c' same [of "lo div 48"] show ?thesis by (simp add: rdb_holds_def)
  next
    case False
    then have lt: "lo < hi" "?lo < hi" using lo hi by auto
    note hd = rdb_holdsD [OF h lt(1)]
    have "stored ?r ci ni k (visible c ?lo hi k)" if k: "?lo div 48 \<le> k" "k \<le> (hi - 1) div 48" for k
    proof -
      have "(hi - 1) div 48 \<le> hi div 48" by (intro div_le_mono) simp
      moreover have "lo div 48 \<le> k" using div_le_mono [OF lo(1), of 48] k(1) by linarith
      ultimately show ?thesis
        using hd(4) [of k] same [of k] k visible_kept [OF k(1)] by (simp add: stored_def)
    qed
    moreover have "?lo div 48 \<le> (hi - 1) div 48" using lt(2) by (intro div_le_mono) simp
    ultimately show ?thesis
      using h c' False lt(2) mx visible_kept [of lo i "(hi - 1) div 48" c hi] by (simp add: rdb_holds_def)
  qed
qed

lemma removeEntries_other:
  assumes "rdb_holds ci' ni' r c lo hi" and "(ci', ni') \<noteq> (ci, ni)"
  shows "rdb_holds ci' ni' (rdb_removeEntriesTo r ci ni i) c lo hi"
proof -
  have kv: "kv_ok (rdb_kv r)" by (rule rdb_holds_kv [OF assms(1)])
  have "rdb_holds ci' ni' (rdb_removeEntriesTo r ci ni i) c lo hi \<longleftrightarrow> rdb_holds ci' ni' r c lo hi"
    using assms(2) by (intro rdb_holds_cong) (auto simp: removeEntries_value [OF kv])
  with assms(1) show ?thesis by simp
qed

lemma compaction_holds:
  assumes "rdb_holds ci' ni' r c lo hi"
  shows "rdb_holds ci' ni' (rdb_compaction r ci ni i) c lo hi"
proof -
  have "rdb_holds ci' ni' (rdb_compaction r ci ni i) c lo hi \<longleftrightarrow> rdb_holds ci' ni' r c lo hi"
    using rdb_holds_kv [OF assms]
    by (intro rdb_holds_cong) (simp_all add: rdb_compaction_def rdb_rangedEntryOp_def Let_def kv_ok_def)
  with assms show ?thesis by simp
qed

section \<open>What the sharded database holds\<close>

definition sr_inv :: "'s sharded_rdb \<Rightarrow> bool" where
  "sr_inv mw \<longleftrightarrow> 0 < dfp_capacity (sr_partitioner mw) \<and> 0 < dfp_workerCount (sr_partitioner mw)
     \<and> length (sr_shards mw) = unat (dfp_capacity (sr_partitioner mw))"

definition sr_holds :: "u64 \<Rightarrow> u64 \<Rightarrow> 's sharded_rdb \<Rightarrow> (nat \<Rightarrow> entry) \<Rightarrow> nat \<Rightarrow> nat \<Rightarrow> bool" where
  "sr_holds ci ni mw c lo hi \<longleftrightarrow> sr_inv mw \<and> rdb_holds ci ni (sr_shards mw ! sr_partition mw ci) c lo hi"

lemma sr_partition_less:
  assumes "sr_inv mw" shows "sr_partition mw ci < length (sr_shards mw)"
proof -
  let ?c = "dfp_capacity (sr_partitioner mw)" and ?x = "ci mod dfp_workerCount (sr_partitioner mw)"
  have "0 < unat ?c" using assms by (simp add: sr_inv_def word_less_nat_alt)
  then have "unat (?x mod ?c) < unat ?c" by (simp add: unat_mod_distrib)
  then show ?thesis using assms by (simp add: sr_inv_def sr_partition_def dfp_GetPartitionID_def)
qed

lemma sr_partition_id:
  assumes "sr_inv mw" shows "dfp_GetPartitionID (sr_partitioner mw) ci \<noteq> max_u64"
proof
  assume "dfp_GetPartitionID (sr_partitioner mw) ci = max_u64"
  then have "unat max_u64 < unat (dfp_capacity (sr_partitioner mw))"
    using sr_partition_less [OF assms, of ci] assms by (simp add: sr_partition_def sr_inv_def)
  then show False using unat_u64_bound [of "dfp_capacity (sr_partitioner mw)"] by simp
qed

lemma sr_getParititionID_same:
  assumes "sr_inv mw" and "uds \<noteq> []"
    and "\<forall>ud \<in> set uds. dfp_GetPartitionID (sr_partitioner mw) (ud_ClusterID ud) = pid"
  shows "sr_getParititionID mw uds = Some pid"
proof -
  have ne: "pid \<noteq> max_u64" using assms sr_partition_id by (cases uds) auto
  have "go_fold (\<lambda>ud pid. let i = dfp_GetPartitionID (sr_partitioner mw) (ud_ClusterID ud) in
      if pid = max_u64 then Some i else if pid \<noteq> i then panic else Some pid) uds q = Some pid"
    if "q = pid \<or> q = max_u64 \<and> uds \<noteq> []" for q
    using that assms(3) ne by (induction uds arbitrary: q) (auto simp: Let_def)
  then show ?thesis using ne assms(2) by (simp add: sr_getParititionID_def)
qed

lemma sr_getParititionID_mixed:
  assumes "sr_inv mw" and "a \<in> set uds" and "b \<in> set uds"
    and "dfp_GetPartitionID (sr_partitioner mw) (ud_ClusterID a) \<noteq> dfp_GetPartitionID (sr_partitioner mw) (ud_ClusterID b)"
  shows "sr_getParititionID mw uds = panic"
proof -
  let ?P = "\<lambda>ud. dfp_GetPartitionID (sr_partitioner mw) (ud_ClusterID ud)"
  let ?f = "\<lambda>ud pid. let i = ?P ud in if pid = max_u64 then Some i else if pid \<noteq> i then panic else Some pid"
  have go: "go_fold ?f us q = Some q' \<Longrightarrow> q \<noteq> max_u64 \<Longrightarrow> q' = q \<and> (\<forall>u \<in> set us. ?P u = q)" for us q q'
    by (induction us) (auto simp: Let_def split: if_splits)
  have False if "go_fold ?f uds max_u64 = Some q" for q
  proof (cases uds)
    case (Cons u us)
    then have "go_fold ?f us (?P u) = Some q" using that by (simp add: Let_def)
    from go [OF this sr_partition_id [OF assms(1)]] show False using Cons assms(2-4) by auto
  qed (use assms(2) in simp)
  then show ?thesis by (cases "go_fold ?f uds max_u64") (auto simp: sr_getParititionID_def)
qed

lemma sr_on_shard_holds:
  assumes "sr_holds ci ni mw c lo hi" and "rdb_holds ci ni (f (sr_shards mw ! sr_partition mw ci)) c lo' hi"
  obtains mw' where "sr_on_shard mw ci f = Some mw'" and "sr_holds ci ni mw' c lo' hi"
    and "sr_useRangeDelete mw' = sr_useRangeDelete mw" and "sr_compactions mw' = sr_compactions mw"
proof -
  have "sr_partition mw ci < length (sr_shards mw)" using assms(1) sr_partition_less by (auto simp: sr_holds_def)
  then show thesis
    using assms
    by (intro that [of "mw\<lparr>sr_shards := (sr_shards mw)[sr_partition mw ci := f (sr_shards mw ! sr_partition mw ci)]\<rparr>"])
      (simp_all add: sr_on_shard_def sr_holds_def sr_inv_def sr_partition_def)
qed

lemma sr_on_shard_keeps:
  assumes "sr_holds ci' ni' mw c lo hi" and "sr_on_shard mw ci f = Some mw'"
    and "rdb_holds ci' ni' (sr_shards mw ! sr_partition mw ci') c lo hi \<Longrightarrow>
      rdb_holds ci' ni' (f (sr_shards mw ! sr_partition mw ci')) c lo hi"
  shows "sr_holds ci' ni' mw' c lo hi"
  using assms
  by (cases "sr_partition mw ci' = sr_partition mw ci")
    (auto simp: sr_on_shard_def sr_holds_def sr_inv_def sr_partition_def go_index_eq_Some split: bind_splits)

text \<open>Saving, for updates that go to one shard.\<close>

definition sr_updates_ok ::
    "(u64 \<times> u64 \<Rightarrow> nat \<Rightarrow> entry) \<Rightarrow> (u64 \<times> u64 \<Rightarrow> nat) \<Rightarrow> (u64 \<times> u64 \<Rightarrow> nat) \<Rightarrow> 's sharded_rdb \<Rightarrow> update list \<Rightarrow> bool" where
  "sr_updates_ok C LO HI mw uds \<longleftrightarrow> sr_inv mw \<and> uds \<noteq> []
     \<and> (\<forall>ud \<in> set uds. sr_partition mw (ud_ClusterID ud) = sr_partition mw (ud_ClusterID (hd uds)))
     \<and> updates_ok C LO HI (sr_shards mw ! sr_partition mw (ud_ClusterID (hd uds))) uds"

lemma sr_SaveRaftState_spec:
  assumes ok: "sr_updates_ok C LO HI mw uds"
  obtains mw' where "sr_SaveRaftState mw uds = Some mw'"
    and "\<And>ud. ud \<in> set uds \<Longrightarrow> sr_holds (ud_ClusterID ud) (ud_NodeID ud) mw'
           (saved_content C ud) (LO (ud_node ud)) (saved_end HI ud)"
    and "\<And>ci ni c lo hi. (ci, ni) \<notin> ud_node ` set uds \<Longrightarrow> sr_holds ci ni mw c lo hi \<Longrightarrow> sr_holds ci ni mw' c lo hi"
    and "map rdb_kv (sr_shards mw') = map rdb_kv (sr_shards mw)"
proof -
  let ?p = "sr_partition mw (ud_ClusterID (hd uds))"
  have inv: "sr_inv mw" and ne: "uds \<noteq> []" and uo: "updates_ok C LO HI (sr_shards mw ! ?p) uds"
    and same: "\<And>ud. ud \<in> set uds \<Longrightarrow> sr_partition mw (ud_ClusterID ud) = ?p"
    using ok unfolding sr_updates_ok_def by blast+
  have "\<forall>ud \<in> set uds. dfp_GetPartitionID (sr_partitioner mw) (ud_ClusterID ud)
      = dfp_GetPartitionID (sr_partitioner mw) (ud_ClusterID (hd uds))"
    using same unfolding sr_partition_def by (metis word_unat_eq_iff)
  then have pid: "sr_getParititionID mw uds = Some (dfp_GetPartitionID (sr_partitioner mw) (ud_ClusterID (hd uds)))"
    by (rule sr_getParititionID_same [OF inv ne])
  have lt: "?p < length (sr_shards mw)" by (rule sr_partition_less [OF inv])
  obtain r where r: "rdb_saveRaftState (sr_shards mw ! ?p) uds = Some r"
    and h: "\<And>ud. ud \<in> set uds \<Longrightarrow> rdb_holds (ud_ClusterID ud) (ud_NodeID ud) r
           (saved_content C ud) (LO (ud_node ud)) (saved_end HI ud)"
    and o: "\<And>ci ni c lo hi. (ci, ni) \<notin> ud_node ` set uds \<Longrightarrow> rdb_holds ci ni (sr_shards mw ! ?p) c lo hi \<Longrightarrow> rdb_holds ci ni r c lo hi"
    and k: "rdb_kv r = rdb_kv (sr_shards mw ! ?p)"
    by (rule rdb_saveRaftState_spec [OF uo]) blast
  let ?mw = "mw\<lparr>sr_shards := (sr_shards mw)[?p := r]\<rparr>"
  have part: "sr_partition ?mw = sr_partition mw" by (simp add: sr_partition_def fun_eq_iff)
  show thesis
  proof (rule that [of ?mw])
    show "sr_SaveRaftState mw uds = Some ?mw"
      using pid r lt ne by (simp add: sr_SaveRaftState_def sr_partition_def)
    show "sr_holds (ud_ClusterID ud) (ud_NodeID ud) ?mw (saved_content C ud) (LO (ud_node ud)) (saved_end HI ud)"
      if "ud \<in> set uds" for ud
      using h [OF that] same [OF that] lt inv part by (simp add: sr_holds_def sr_inv_def)
    show "sr_holds ci ni ?mw c lo hi" if "(ci, ni) \<notin> ud_node ` set uds" "sr_holds ci ni mw c lo hi" for ci ni c lo hi
      using that o [of ci ni c lo hi] lt inv part
      by (cases "sr_partition mw ci = ?p") (simp_all add: sr_holds_def sr_inv_def)
    show "map rdb_kv (sr_shards ?mw) = map rdb_kv (sr_shards mw)"
      using k lt by (simp add: map_update list_update_same_conv)
  qed
qed

section \<open>The sharded database as a store of entries\<close>

definition sr_save :: "u64 \<Rightarrow> u64 \<Rightarrow> 's sharded_rdb \<Rightarrow> entry list \<Rightarrow> 's sharded_rdb option" where
  "sr_save ci ni mw ents =
     sr_SaveRaftState mw [empty_update\<lparr>ud_ClusterID := ci, ud_NodeID := ni, ud_EntriesToSave := ents\<rparr>]"

definition sr_iterator :: "u64 \<Rightarrow> u64 \<Rightarrow> 's sharded_rdb \<Rightarrow> iterator" where
  "sr_iterator ci ni mw low high mx =
     (case sr_IterateEntries mw ci ni low high mx of Some res \<Rightarrow> Inr res | None \<Rightarrow> Inl ErrOther)"

lemma sr_iterator_shard:
  "sr_inv mw \<Longrightarrow> sr_iterator ci ni mw = rdb_iterator ci ni (sr_shards mw ! sr_partition mw ci)"
  using sr_partition_less [of mw ci] by (simp add: sr_iterator_def rdb_iterator_def sr_IterateEntries_def fun_eq_iff)

lemma sr_save_holds:
  assumes h: "sr_holds ci ni mw c lo hi" and st: "storable c lo hi ents"
  shows "\<exists>mw'. sr_save ci ni mw ents = Some mw' \<and> sr_holds ci ni mw' (overwrite c ents) lo (end_index ents)"
proof -
  let ?ud = "empty_update\<lparr>ud_ClusterID := ci, ud_NodeID := ni, ud_EntriesToSave := ents\<rparr>"
  have "rdb_holds ci ni (sr_shards mw ! sr_partition mw ci) c lo hi" using h by (simp add: sr_holds_def)
  then have "sr_updates_ok (\<lambda>_. c) (\<lambda>_. lo) (\<lambda>_. hi) mw [?ud]"
    using h st rdb_holds_kv
    by (auto simp: sr_updates_ok_def sr_holds_def updates_ok_def savable_def empty_update_def IsEmptySnapshot_def empty_snapshot_def)
  then show ?thesis
  proof (rule sr_SaveRaftState_spec)
    fix mw' assume "sr_SaveRaftState mw [?ud] = Some mw'"
      and "\<And>ud. ud \<in> set [?ud] \<Longrightarrow> sr_holds (ud_ClusterID ud) (ud_NodeID ud) mw' (saved_content (\<lambda>_. c) ud) lo (saved_end (\<lambda>_. hi) ud)"
    from this(1) this(2) [of ?ud] show ?thesis
      using storableD(1) [OF st] by (simp add: sr_save_def saved_content_def saved_end_def)
  qed
qed

lemma sr_holds_index: "sr_holds ci ni mw c lo hi \<Longrightarrow> lo \<le> n \<Longrightarrow> n < hi \<Longrightarrow> unat (e_Index (c n)) = n"
  unfolding sr_holds_def by (metis rdb_holds_index)

lemma sr_iterator_ok: "sr_holds ci ni mw c lo hi \<Longrightarrow> it_ok (sr_iterator ci ni mw) c lo hi"
  by (simp add: sr_holds_def sr_iterator_shard rdb_iterator_ok)

interpretation srdb: entry_store "sr_holds ci ni" "sr_iterator ci ni" "sr_save ci ni" for ci ni
  by unfold_locales (rule sr_holds_index sr_iterator_ok sr_save_holds; assumption)+

end
