(* ===== verification/Recovery.thy ===== *)
theory Recovery
  imports ShardedRDB
begin

text \<open>
  What a node does with its log when it starts and when it drops a prefix: \<open>GetSnapshot\<close>,
  \<open>GetMostRecentSnapshot\<close> and \<open>Compaction\<close> of \<open>snapshotter.go\<close>, \<open>replayLog\<close> and \<open>compactLog\<close> of \<open>node.go\<close>. The
  directories of the snapshots are on the file system and are left out.

  After a restart, with empty caches and a new reader, \<open>replayLog\<close> makes the reader serve the log that
  was saved. \<open>compactLog\<close> leaves the reader with the same log from the compacted index on.
\<close>

section \<open>Snapshots\<close>

definition snapshotsToKeep :: nat where
  "snapshotsToKeep = 3"

text \<open>\<open>None\<close> inside the result is \<open>ErrNoSnapshot\<close>.\<close>

definition snapshotter_GetSnapshot :: "'s sharded_rdb \<Rightarrow> u64 \<Rightarrow> u64 \<Rightarrow> u64 \<Rightarrow> snapshot option option" where
  "snapshotter_GetSnapshot logdb clusterID nodeID index = do {
     snaps \<leftarrow> sr_ListSnapshots logdb clusterID nodeID;
     Some (find (\<lambda>snap. ss_Index snap = index) snaps) }"

definition snapshotter_GetMostRecentSnapshot :: "'s sharded_rdb \<Rightarrow> u64 \<Rightarrow> u64 \<Rightarrow> snapshot option option" where
  "snapshotter_GetMostRecentSnapshot logdb clusterID nodeID = do {
     snaps \<leftarrow> sr_ListSnapshots logdb clusterID nodeID;
     Some (if length snaps > 0 then Some (snaps ! (length snaps - 1)) else None) }"

definition snapshotter_Compaction :: "'s sharded_rdb \<Rightarrow> u64 \<Rightarrow> u64 \<Rightarrow> u64 \<Rightarrow> 's sharded_rdb option" where
  "snapshotter_Compaction logdb clusterID nodeID removeUpTo = do {
     snapshots \<leftarrow> sr_ListSnapshots logdb clusterID nodeID;
     if length snapshots \<le> snapshotsToKeep then Some logdb
     else go_fold (\<lambda>snap logdb.
       if ss_Index snap < removeUpTo then sr_DeleteSnapshot logdb clusterID nodeID (ss_Index snap) else Some logdb)
       (take (length snapshots - snapshotsToKeep) snapshots) logdb }"

definition snapshotter_saveToLogDB :: "'s sharded_rdb \<Rightarrow> u64 \<Rightarrow> u64 \<Rightarrow> snapshot \<Rightarrow> 's sharded_rdb option" where
  "snapshotter_saveToLogDB logdb clusterID nodeID snapshot =
     sr_SaveSnapshots logdb [empty_update\<lparr>ud_ClusterID := clusterID, ud_NodeID := nodeID, ud_Snapshot := snapshot\<rparr>]"

section \<open>The node\<close>

text \<open>The first component of the result is \<open>newNode\<close>.\<close>

definition node_replayLog :: "'s sharded_rdb \<Rightarrow> logReader \<Rightarrow> u64 \<Rightarrow> u64 \<Rightarrow> (bool \<times> logReader) option" where
  "node_replayLog logdb logreader clusterID nodeID = do {
     ss \<leftarrow> snapshotter_GetMostRecentSnapshot logdb clusterID nodeID;
     let snapshot = (case ss of Some s \<Rightarrow> s | None \<Rightarrow> empty_snapshot);
     logreader \<leftarrow> (if ss_Index snapshot > 0
       then (case lr_ApplySnapshot logreader snapshot of Inl err \<Rightarrow> panic | Inr lr \<Rightarrow> Some lr)
       else Some logreader);
     rs \<leftarrow> sr_ReadRaftState logdb clusterID nodeID (ss_Index snapshot);
     case rs of
       None \<Rightarrow> Some (True, logreader)
     | Some (st, firstIndex, entryCount) \<Rightarrow> do {
         logreader \<leftarrow> lr_SetRange (lr_SetState logreader st) firstIndex entryCount;
         Some (False, logreader) } }"

text \<open>The result is an error of the log reader, if there is one, with the reader and the database.\<close>

definition node_compactLog ::
    "bool \<Rightarrow> 's sharded_rdb \<Rightarrow> logReader \<Rightarrow> u64 \<Rightarrow> u64 \<Rightarrow> u64 \<Rightarrow> (raft_err option \<times> logReader \<times> 's sharded_rdb) option" where
  "node_compactLog tryLock logdb logreader clusterID nodeID compactTo =
     (if compactTo = 0 \<or> \<not> tryLock then Some (None, logreader, logdb)
      else
        case (case lr_Compact (sr_iterator clusterID nodeID logdb) logreader compactTo of
                Inl err \<Rightarrow> if err \<noteq> ErrCompacted then Inl err else Inr logreader
              | Inr lr \<Rightarrow> Inr lr) of
          Inl err \<Rightarrow> Some (Some err, logreader, logdb)
        | Inr logreader \<Rightarrow> do {
            logdb \<leftarrow> snapshotter_Compaction logdb clusterID nodeID compactTo;
            logdb \<leftarrow> sr_RemoveEntriesTo logdb clusterID nodeID compactTo;
            Some (None, logreader, logdb) })"

section \<open>The range of saved entries\<close>

text \<open>The accumulator of the count over the entries below \<open>p\<close>: those from \<open>s\<close> on are counted.\<close>

definition counted_to :: "nat \<Rightarrow> nat \<Rightarrow> u64 \<times> u64" where
  "counted_to s p = (if s < p then of_nat s else 0, of_nat (p - s))"

lemma counted_to_le: "p \<le> s \<Longrightarrow> counted_to s p = (0, 0)"
  by (simp add: counted_to_def)

lemma countRange_Cons:
  assumes "eb \<noteq> []" and "unpacked eb = Some v"
  shows "rdb_countRange lst mx ((k, eb) # bs) acc = rdb_countRange lst mx bs (foldl (rdb_countEntry lst mx) acc v)"
  using assms by (auto simp: rdb_countRange_def unpacked_def split: if_splits)

lemma countEntry_step:
  assumes "unat (e_Index e) = p" and "0 < s" and "s = max lo (unat lst)" and "lo \<le> p" and "p < hi" and "hi < 18446744073709551616"
  shows "rdb_countEntry lst (of_nat (hi - 1)) (counted_to s p) e = counted_to s (Suc p)"
proof -
  have e: "e_Index e = of_nat p" using assms(1) by (metis of_nat_unat ucast_id)
  have mx: "e_Index e \<le> of_nat (hi - 1)"
    using assms(1,5,6) u64_of_nat [of "hi - 1"] by (simp add: word_le_nat_alt del: of_nat_diff)
  have ge: "lst \<le> e_Index e \<longleftrightarrow> s \<le> p" using assms(1,3,4) by (simp add: word_le_nat_alt)
  have nz: "(of_nat s :: u64) \<noteq> 0" if "s < 18446744073709551616"
    using that assms(2) u64_of_nat [OF that] by auto
  show ?thesis
  proof (cases "s \<le> p")
    case True
    then have "s < 18446744073709551616" using assms(5,6) by simp
    then show ?thesis
      using True mx ge nz e by (auto simp: rdb_countEntry_def counted_to_def Suc_diff_le add.commute)
  next
    case False
    then show ?thesis using ge by (auto simp: rdb_countEntry_def counted_to_def)
  qed
qed

lemma countEntry_fold:
  assumes c: "content_ok c lo hi" and "0 < s" and "s = max lo (unat lst)" and "lo \<le> a" and "b \<le> hi" and "a \<le> b"
  shows "foldl (rdb_countEntry lst (of_nat (hi - 1))) (counted_to s a) (map c [a ..< b]) = counted_to s b"
  using assms(6,5)
proof (induction b rule: dec_induct)
  case (step b)
  have "unat (e_Index (c b)) = b" using content_okD(1) [OF c, of b] step assms(4) by simp
  moreover have "hi < 18446744073709551616" using c by (simp add: content_ok_def)
  ultimately show ?case using step countEntry_step [of "c b" b s lo lst hi] assms by simp
qed simp

lemma countRange_spec:
  assumes c: "content_ok c lo hi" and s: "0 < s" "s = max lo (unat lst)"
    and f: "\<forall>k. a \<le> k \<and> k < b \<longrightarrow> f k \<noteq> [] \<and> unpacked (f k) = Some (visible c lo hi k)"
    and a: "a \<le> b" "lo < 48 * a + 48" and b: "hi \<le> 48 * b" "48 * b < hi + 48"
  shows "rdb_countRange lst (of_nat (hi - 1)) (map (\<lambda>k. (of_nat k, f k)) [a ..< b]) (counted_to s (min (max lo (48 * a)) hi))
    = Some (counted_to s hi)"
  using a f
proof (induction "b - a" arbitrary: a)
  case 0
  then have "a = b" by simp
  then show ?case using b by (simp add: rdb_countRange_def min_def max_def)
next
  case (Suc n)
  then have ab: "a < b" and upt: "[a ..< b] = a # [Suc a ..< b]" by (simp_all add: upt_rec)
  have hi: "48 * a < hi" using ab b(2) by linarith
  have lo: "lo \<le> hi" using c by (simp add: content_ok_def)
  let ?x = "max lo (48 * a)" and ?y = "min (48 * a + 48) hi"
  have "?x \<le> ?y" using hi lo Suc.prems(2) by simp
  then have "foldl (rdb_countEntry lst (of_nat (hi - 1))) (counted_to s ?x) (visible c lo hi a) = counted_to s ?y"
    unfolding visible_def by (intro countEntry_fold [OF c s]) simp_all
  moreover have "min ?x hi = ?x" "min (max lo (48 * Suc a)) hi = ?y" using hi lo Suc.prems(2) by (simp_all add: max_absorb2)
  moreover have "rdb_countRange lst (of_nat (hi - 1)) (map (\<lambda>k. (of_nat k, f k)) [Suc a ..< b])
      (counted_to s (min (max lo (48 * Suc a)) hi)) = Some (counted_to s hi)"
    using Suc.prems Suc.hyps(2) ab by (intro Suc.hyps(1)) auto
  ultimately show ?case
    using countRange_Cons [of "f a" "visible c lo hi a"] Suc.prems(3) [rule_format, of a] ab unfolding upt
    by (simp add: add.commute [of 48])
qed

lemma rdb_getEntryRange_spec:
  assumes h: "rdb_holds ci ni r c lo hi" and r: "lo \<le> max 1 (unat lst)" "unat lst < hi" "lo < hi"
  shows "rdb_getEntryRange r ci ni lst = Some (of_nat (max 1 (unat lst)), of_nat (hi - max 1 (unat lst)))"
proof -
  note hd = rdb_holdsD [OF h r(3)]
  let ?a = "unat lst div 48" and ?b = "(hi - 1) div 48 + 1" and ?s = "max lo (unat lst)"
  have hi: "hi < 18446744073709551616" "0 < lo" using hd(2) by (simp_all add: content_ok_def)
  have s: "0 < ?s" "?s = max 1 (unat lst)" "?s < hi" using hi(2) r by auto
  have mi: "unat ((of_nat (hi - 1) :: u64) + 1) = hi"
    using r(3) hi(1) u64_of_nat [of hi] by (cases hi) (simp_all add: add.commute)
  then have rg: "getBatchIDRange lst (of_nat (hi - 1) + 1) = (of_nat ?a, of_nat ?b)"
    using getBatchIDRange_spec [of "of_nat (hi - 1) + 1" lst] r(3) by simp
  have ab: "?a \<le> ?b" "lo < 48 * ?a + 48"
  proof -
    have "?a \<le> (hi - 1) div 48" using r(2) by (intro div_le_mono) simp
    then show "?a \<le> ?b" by simp
    show "lo < 48 * ?a + 48" using r(1) by (simp add: max_def split: if_splits)
  qed
  define f where "f k = the (batch_at (rdb_kv r) (rdb_kvs r) ci ni (of_nat k))" for k
  have f: "batch_at (rdb_kv r) (rdb_kvs r) ci ni (of_nat k) = Some (f k) \<and> f k \<noteq> [] \<and> unpacked (f k) = Some (visible c lo hi k)"
    if "?a \<le> k" "k < ?b" for k
  proof -
    have "lo div 48 \<le> k" using ab(2) that(1) by linarith
    then show ?thesis using hd(4) [of k] that by (auto simp: stored_def f_def)
  qed
  have "?b < 18446744073709551616" using hi(1) by linarith
  then have it: "kv_IterateBatches (rdb_kv r) (rdb_kvs r) ci ni (of_nat ?a) (of_nat ?b) = map (\<lambda>k. (of_nat k, f k)) [?a ..< ?b]"
    using hd(1) batches_in_present [of ?a ?b _ f] f ab(1) by (simp add: kv_ok_def)
  have "counted_to ?s (min (max lo (48 * ?a)) hi) = (0, 0)"
  proof -
    have "min (max lo (48 * ?a)) hi \<le> ?s" by (auto simp: max_def)
    then show ?thesis by (rule counted_to_le)
  qed
  then have "rdb_countRange lst (of_nat (hi - 1)) (map (\<lambda>k. (of_nat k, f k)) [?a ..< ?b]) (0, 0) = Some (counted_to ?s hi)"
    using countRange_spec [OF hd(2) s(1) refl _ ab, of f] f ceiling_48 [of hi] r(3) by simp
  then show ?thesis
    using hd(3) rg it s by (simp add: rdb_getEntryRange_def counted_to_def)
qed

section \<open>Restart\<close>

text \<open>What a node finds when it starts. \<open>lo\<close> is the first index of the log, \<open>hi\<close> the one after the last; a log that
  was compacted comes with a snapshot inside it.\<close>

definition restartable ::
    "'s sharded_rdb \<Rightarrow> u64 \<Rightarrow> u64 \<Rightarrow> (nat \<Rightarrow> entry) \<Rightarrow> nat \<Rightarrow> nat \<Rightarrow> snapshot option \<Rightarrow> pb_state \<Rightarrow> bool" where
  "restartable logdb ci ni c lo hi ss st \<longleftrightarrow> sr_holds ci ni logdb c lo hi \<and> lo < hi
     \<and> snapshotter_GetMostRecentSnapshot logdb ci ni = Some ss
     \<and> (case ss of None \<Rightarrow> lo = 1 \<and> e_Term (c 0) = 0
        | Some s \<Rightarrow> lo \<le> unat (ss_Index s) \<and> unat (ss_Index s) < hi \<and> ss_Term s = e_Term (c (unat (ss_Index s))))
     \<and> rdb_readState (sr_shards logdb ! sr_partition logdb ci) ci ni = Some st"

text \<open>The database opened again on the same stores; what was cached is lost.\<close>

definition sr_reopen :: "'s kvstore \<Rightarrow> 's sharded_rdb \<Rightarrow> 's sharded_rdb" where
  "sr_reopen kv logdb = OpenShardedRDB kv (map rdb_kvs (sr_shards logdb))
     (dfp_workerCount (sr_partitioner logdb)) (sr_useRangeDelete logdb)"

lemma openRDB_holds:
  "rdb_holds ci ni r c lo hi \<Longrightarrow> rdb_holds ci ni (openRDB (rdb_kv r) (rdb_kvs r)) c lo hi"
  by (cases "lo = hi")
    (simp_all add: rdb_holds_def openRDB_def stored_def newRDBCache_def cs_getLastEntryBatch_def cs_getMaxIndex_def)

lemma restartable_reopen:
  assumes "restartable logdb ci ni c lo hi ss st" and kv: "\<forall>r \<in> set (sr_shards logdb). rdb_kv r = kv"
  shows "restartable (sr_reopen kv logdb) ci ni c lo hi ss st"
proof -
  let ?db = "sr_reopen kv logdb" and ?p = "sr_partition logdb ci"
  have inv: "sr_inv logdb" and h: "rdb_holds ci ni (sr_shards logdb ! ?p) c lo hi"
    using assms(1) by (simp_all add: restartable_def sr_holds_def)
  have p: "?p < length (sr_shards logdb)" by (rule sr_partition_less [OF inv])
  have part: "sr_partitioner ?db = sr_partitioner logdb"
    using inv by (simp add: sr_reopen_def OpenShardedRDB_def NewDoubleFixedPartitioner_def sr_inv_def)
  then have inv': "sr_inv ?db" and p': "sr_partition ?db ci = ?p"
    using inv by (simp_all add: sr_inv_def sr_partition_def) (simp add: sr_reopen_def OpenShardedRDB_def)
  have sh: "sr_shards ?db ! ?p = openRDB (rdb_kv (sr_shards logdb ! ?p)) (rdb_kvs (sr_shards logdb ! ?p))"
    using p kv by (simp add: sr_reopen_def OpenShardedRDB_def)
  have len: "length (sr_shards ?db) = length (sr_shards logdb)" by (simp add: sr_reopen_def OpenShardedRDB_def)
  have ls: "sr_ListSnapshots ?db ci ni = sr_ListSnapshots logdb ci ni"
    using p p' sh len by (simp add: sr_ListSnapshots_def rdb_listSnapshots_def openRDB_def)
  show ?thesis
    using assms(1) inv' p' sh openRDB_holds [OF h] ls
    by (simp add: restartable_def sr_holds_def snapshotter_GetMostRecentSnapshot_def rdb_readState_def openRDB_def)
qed

lemma lr_SetRange_replay:
  assumes "lr_length lr = 1" and "hi < 18446744073709551616" and "unat (lr_markerIndex lr) < hi"
    and "lo \<le> unat (lr_markerIndex lr) + 1" and "lr_markerTerm lr = e_Term (c (unat (lr_markerIndex lr)))"
    and s: "s = max 1 (unat (lr_markerIndex lr))" and "s < hi"
  obtains lr' where "lr_SetRange lr (of_nat s) (of_nat (hi - s)) = Some lr'" and "lr_inv c lo hi lr'"
    and "lr_state lr' = lr_state lr" and "lr_snapshot lr' = lr_snapshot lr" and "lr_markerIndex lr' = lr_markerIndex lr"
proof -
  let ?m = "lr_markerIndex lr" and ?f = "of_nat s :: u64" and ?n = "of_nat (hi - s) :: u64"
  have un: "unat ?f = s" "unat ?n = hi - s" using assms(2,7) by (simp_all add: u64_of_nat del: of_nat_diff)
  have first: "unat (lr_firstIndex lr) = unat ?m + 1"
    using assms(2,3) by (simp add: lr_firstIndex_def u64_inc)
  have fn: "unat (?f + ?n) = hi" using un assms(2,7) by (simp add: u64_add u64_of_nat)
  then have "?f + ?n \<noteq> 0" using assms(7) by auto
  then have lst: "unat (?f + ?n - 1) = hi - 1" using fn by (simp add: unat_minus_one)
  have nz: "?n \<noteq> 0" using un assms(7) by auto
  show thesis
  proof (cases "unat ?m + 1 = hi")
    case True
    then have m: "s = unat ?m" using s assms(7) by auto
    have "?f + ?n - 1 < lr_firstIndex lr" using lst first True assms(7) by (simp add: word_less_nat_alt)
    then have "lr_SetRange lr ?f ?n = Some lr" using nz by (simp add: lr_SetRange_def Let_def)
    moreover have "lr_inv c lo hi lr" using assms True by (simp add: lr_inv_def)
    ultimately show thesis using that by simp
  next
    case False
    then have lt: "unat ?m + 1 < hi" using assms(3) by linarith
    have ge: "\<not> ?f + ?n - 1 < lr_firstIndex lr" using lst first lt by (simp add: word_less_nat_alt)
    have adj: "(if lr_firstIndex lr > ?f then (lr_firstIndex lr, ?n - (lr_firstIndex lr - ?f)) else (?f, ?n))
        = (?m + 1, of_nat (hi - (unat ?m + 1)))"
    proof (cases "?m = 0")
      case True
      then show ?thesis using s by (simp add: lr_firstIndex_def)
    next
      case False
      then have f: "?f = ?m" using s unat_gt_0 [of ?m] by (simp add: max_absorb2)
      have "lr_firstIndex lr > ?f" using first f un by (simp add: word_less_nat_alt)
      moreover have "?n - 1 = of_nat (hi - (unat ?m + 1))"
        using lt s f un(1) by (simp add: of_nat_diff)
      ultimately show ?thesis by (simp add: f lr_firstIndex_def)
    qed
    have "lr_SetRange lr ?f ?n = Some (lr\<lparr>lr_length := 1 + of_nat (hi - (unat ?m + 1))\<rparr>)"
      using nz ge adj assms(1) by (simp add: lr_SetRange_def Let_def)
    moreover have "unat (1 + of_nat (hi - (unat ?m + 1)) :: u64) = hi - unat ?m"
      using u64_of_nat [of "Suc (hi - (unat ?m + 1))"] assms(2) lt by simp
    ultimately show thesis using that assms lt by (simp add: lr_inv_def)
  qed
qed

lemma node_replayLog_spec:
  assumes "restartable logdb ci ni c lo hi ss st"
  obtains lr where "node_replayLog logdb (NewLogReader ci ni) ci ni = Some (False, lr)" and "lr_inv c lo hi lr"
    and "lr_state lr = st" and "lr_snapshot lr = (case ss of Some s \<Rightarrow> s | None \<Rightarrow> empty_snapshot)"
    and "lr_markerIndex lr = ss_Index (lr_snapshot lr)"
proof -
  let ?ss = "case ss of Some s \<Rightarrow> s | None \<Rightarrow> empty_snapshot" and ?shard = "sr_shards logdb ! sr_partition logdb ci"
  let ?i = "unat (ss_Index ?ss)"
  have h: "rdb_holds ci ni ?shard c lo hi" and inv: "sr_inv logdb" and lt: "lo < hi"
    and sn: "snapshotter_GetMostRecentSnapshot logdb ci ni = Some ss"
    and rs: "rdb_readState ?shard ci ni = Some st"
    using assms by (simp_all add: restartable_def sr_holds_def)
  have "content_ok c lo hi" using h by (simp add: rdb_holds_def)
  then have hi: "hi < 18446744073709551616" "0 < lo" by (simp_all add: content_ok_def)
  have i: "lo \<le> max 1 ?i" "?i < hi" "ss_Term ?ss = e_Term (c ?i)"
    using assms lt by (auto simp: restartable_def empty_snapshot_def split: option.splits)
  define lr where "lr = (NewLogReader ci ni)\<lparr>lr_snapshot := ?ss, lr_markerIndex := ss_Index ?ss, lr_markerTerm := ss_Term ?ss, lr_length := 1, lr_state := st\<rparr>"
  have ap: "(if ss_Index ?ss > 0 then (case lr_ApplySnapshot (NewLogReader ci ni) ?ss of Inl err \<Rightarrow> panic | Inr lr \<Rightarrow> Some lr)
      else Some (NewLogReader ci ni)) = Some (lr\<lparr>lr_state := emptyState\<rparr>)"
    using assms hi(2)
    by (auto simp: lr_def lr_ApplySnapshot_def NewLogReader_def empty_snapshot_def restartable_def
        word_gt_0 split: option.splits)
  have rd: "sr_ReadRaftState logdb ci ni (ss_Index ?ss) = Some (Some (st, of_nat (max 1 ?i), of_nat (hi - max 1 ?i)))"
    using rdb_getEntryRange_spec [OF h i(1,2) lt] rs sr_partition_less [OF inv, of ci]
    by (simp add: sr_ReadRaftState_def rdb_readRaftState_def)
  obtain lr' where lr': "lr_SetRange lr (of_nat (max 1 ?i)) (of_nat (hi - max 1 ?i)) = Some lr'" "lr_inv c lo hi lr'"
    "lr_state lr' = lr_state lr" "lr_snapshot lr' = lr_snapshot lr" "lr_markerIndex lr' = lr_markerIndex lr"
    by (rule lr_SetRange_replay [of lr hi lo c "max 1 ?i"]) (use hi i lt in \<open>auto simp: lr_def\<close>)
  have st: "lr_SetState (lr\<lparr>lr_state := emptyState\<rparr>) st = lr" by (simp add: lr_SetState_def lr_def)
  have "node_replayLog logdb (NewLogReader ci ni) ci ni = Some (False, lr')"
    using sn ap rd lr'(1) st by (simp add: node_replayLog_def Let_def del: of_nat_diff)
  then show thesis using that lr' by (simp add: lr_def)
qed

section \<open>Compaction\<close>

lemma deleteSnapshot_holds:
  assumes "rdb_holds ci' ni' r c lo hi"
  shows "rdb_holds ci' ni' (rdb_deleteSnapshot r ci ni i) c lo hi"
proof -
  have "rdb_holds ci' ni' (rdb_deleteSnapshot r ci ni i) c lo hi \<longleftrightarrow> rdb_holds ci' ni' r c lo hi"
    using rdb_holds_kv [OF assms] by (intro rdb_holds_cong) (simp_all add: rdb_deleteSnapshot_def kv_ok_def)
  with assms show ?thesis by simp
qed

lemma snapshotter_Compaction_holds:
  assumes "sr_holds ci ni logdb c lo hi"
  obtains logdb' where "snapshotter_Compaction logdb ci ni i = Some logdb'" and "sr_holds ci ni logdb' c lo hi"
    and "sr_compactions logdb' = sr_compactions logdb"
proof -
  have "\<exists>logdb'. go_fold (\<lambda>snap logdb. if ss_Index snap < i then sr_DeleteSnapshot logdb ci ni (ss_Index snap) else Some logdb)
      ss logdb = Some logdb' \<and> sr_holds ci ni logdb' c lo hi \<and> sr_compactions logdb' = sr_compactions logdb" for ss
    using assms
  proof (induction ss arbitrary: logdb)
    case (Cons s ss)
    have "rdb_holds ci ni (rdb_deleteSnapshot (sr_shards logdb ! sr_partition logdb ci) ci ni (ss_Index s)) c lo hi"
      using Cons.prems by (intro deleteSnapshot_holds) (simp add: sr_holds_def)
    then obtain l where "sr_DeleteSnapshot logdb ci ni (ss_Index s) = Some l" "sr_holds ci ni l c lo hi"
      "sr_compactions l = sr_compactions logdb"
      unfolding sr_DeleteSnapshot_def
      by (rule sr_on_shard_holds [OF Cons.prems, where f = "\<lambda>shard. rdb_deleteSnapshot shard ci ni (ss_Index s)"])
    then show ?case using Cons.IH [of l] Cons.IH [OF Cons.prems] by simp
  qed simp
  moreover have "sr_partition logdb ci < length (sr_shards logdb)"
    using assms sr_partition_less by (auto simp: sr_holds_def)
  ultimately show thesis
    using that assms by (cases "length (rdb_listSnapshots (sr_shards logdb ! sr_partition logdb ci) ci ni) \<le> snapshotsToKeep")
      (auto simp: snapshotter_Compaction_def sr_ListSnapshots_def)
qed

lemma kept_from_le: "lo \<le> n \<Longrightarrow> unat i \<le> n \<Longrightarrow> kept_from lo i \<le> n"
  by (auto simp: kept_from_def)

lemma node_compactLog_spec:
  assumes h: "sr_holds ci ni logdb c lo hi" and inv: "lr_inv c lo hi lr"
    and i: "unat (lr_markerIndex lr) \<le> unat i" "unat i < hi" "i \<noteq> 0"
    and t: "\<forall>v. map_of (sr_compactions logdb) (ci, ni) = Some v \<longrightarrow> v \<le> i"
  obtains lr' logdb' where "node_compactLog True logdb lr ci ni i = Some (None, lr', logdb')"
    and "lr_markerIndex lr' = i" and "sr_holds ci ni logdb' c (kept_from lo i) hi" and "lr_inv c (kept_from lo i) hi lr'"
proof -
  obtain lr' where lr': "lr_Compact (sr_iterator ci ni logdb) lr i = Inr lr'" "lr_inv c lo hi lr'" "lr_markerIndex lr' = i"
    by (rule lr_Compact_spec [OF sr_iterator_ok [OF h] inv i(1,2)])
  obtain l1 where l1: "snapshotter_Compaction logdb ci ni i = Some l1" "sr_holds ci ni l1 c lo hi"
    "sr_compactions l1 = sr_compactions logdb"
    by (rule snapshotter_Compaction_holds [OF h])
  have "rdb_holds ci ni (rdb_removeEntriesTo (sr_shards l1 ! sr_partition l1 ci) ci ni i) c (kept_from lo i) hi"
    using l1(2) by (intro removeEntries_holds [OF _ i(2)]) (simp add: sr_holds_def)
  then obtain l2 where l2: "sr_on_shard l1 ci (\<lambda>shard. rdb_removeEntriesTo shard ci ni i) = Some l2"
    "sr_holds ci ni l2 c (kept_from lo i) hi" "sr_compactions l2 = sr_compactions l1"
    by (rule sr_on_shard_holds [OF l1(2), where f = "\<lambda>shard. rdb_removeEntriesTo shard ci ni i"])
  have add: "\<exists>cs. cp_addTask (sr_compactions l2) \<lparr>ct_clusterID = ci, ct_nodeID = ni, ct_index = i\<rparr> = Some cs"
    using t l1(3) l2(3) by (auto simp: cp_addTask_def Let_def not_less split: option.splits)
  have "\<exists>l3. sr_RemoveEntriesTo l1 ci ni i = Some l3 \<and> sr_holds ci ni l3 c (kept_from lo i) hi"
  proof (cases "sr_useRangeDelete l2")
    case True
    then show ?thesis
      using add l2 by (auto simp: sr_RemoveEntriesTo_def sr_addCompaction_def sr_holds_def sr_inv_def sr_partition_def)
  qed (use l2 in \<open>simp add: sr_RemoveEntriesTo_def\<close>)
  then obtain l3 where l3: "sr_RemoveEntriesTo l1 ci ni i = Some l3" "sr_holds ci ni l3 c (kept_from lo i) hi" by blast
  have "kept_from lo i \<le> unat (lr_markerIndex lr') + 1"
    using lr'(2,3) by (intro kept_from_le) (simp_all add: lr_inv_def)
  then have "lr_inv c (kept_from lo i) hi lr'" using lr'(2) by (simp add: lr_inv_def)
  moreover have "node_compactLog True logdb lr ci ni i = Some (None, lr', l3)"
    using i(3) lr'(1) l1(1) l3(1) by (simp add: node_compactLog_def)
  ultimately show thesis using that l3(2) lr'(3) by blast
qed

end
