(* ===== verification/MemStore.thy ===== *)
theory MemStore
  imports Recovery SampleData
begin

text \<open>
  A key-value store in memory, an association list, that keeps the contract \<open>kv_ok\<close>; a database on it
  is the concrete input of the theorems about the log database.
\<close>

type_synonym mem_state = "(kv_key, kv_value) gomap"

primrec snapshot_ids :: "u64 \<Rightarrow> u64 \<Rightarrow> mem_state \<Rightarrow> u64 list" where
  "snapshot_ids ci ni [] = []"
| "snapshot_ids ci ni (p # s) =
     (case fst p of SnapshotKey c n i \<Rightarrow> if c = ci \<and> n = ni then i # snapshot_ids ci ni s else snapshot_ids ci ni s
      | _ \<Rightarrow> snapshot_ids ci ni s)"

primrec bootstrap_ids :: "mem_state \<Rightarrow> (u64 \<times> u64) list" where
  "bootstrap_ids [] = []"
| "bootstrap_ids (p # s) = (case fst p of BootstrapKey c n \<Rightarrow> (c, n) # bootstrap_ids s | _ \<Rightarrow> bootstrap_ids s)"

definition mem_snapshot :: "mem_state \<Rightarrow> u64 \<Rightarrow> u64 \<Rightarrow> u64 \<Rightarrow> snapshot option" where
  "mem_snapshot s ci ni i = (case map_of s (SnapshotKey ci ni i) of Some (SnapshotValue ss) \<Rightarrow> Some ss | _ \<Rightarrow> None)"

definition mem_batch :: "mem_state \<Rightarrow> u64 \<Rightarrow> u64 \<Rightarrow> u64 \<Rightarrow> entry list option" where
  "mem_batch s ci ni b = (case map_of s (EntryBatchKey ci ni b) of Some (BatchValue eb) \<Rightarrow> Some eb | _ \<Rightarrow> None)"

definition mem_kv :: "mem_state kvstore" where
  "mem_kv = \<lparr>kv_GetValue = map_of,
     kv_IterateBatches = (\<lambda>s ci ni. batches_in (mem_batch s ci ni)),
     kv_IterateSnapshots = (\<lambda>s ci ni. map (the \<circ> mem_snapshot s ci ni)
       (sort (remdups (filter (\<lambda>i. mem_snapshot s ci ni i \<noteq> None) (snapshot_ids ci ni s))))),
     kv_IterateBootstraps = bootstrap_ids,
     kv_CommitWriteBatch = foldl (\<lambda>s (k, v). AList.update k v s),
     kv_DeleteValue = (\<lambda>s k. AList.delete k s),
     kv_RemoveEntries = (\<lambda>s a b. filter (\<lambda>(k, v). \<not> key_between a b k) s),
     kv_Compaction = (\<lambda>s a b. s)\<rparr>"

lemma mem_commit: "map_of (foldl (\<lambda>s (k, v). AList.update k v s) s wb) = put_all (map_of s) wb"
  by (induction wb arbitrary: s) (auto simp: put_all_def update_conv')

lemma mem_snapshot_ids: "mem_snapshot s ci ni i \<noteq> None \<Longrightarrow> i \<in> set (snapshot_ids ci ni s)"
proof -
  have "map_of s (SnapshotKey ci ni i) = Some v \<Longrightarrow> i \<in> set (snapshot_ids ci ni s)" for v
    by (induction s) (auto split: if_splits kv_key.splits)
  then show "mem_snapshot s ci ni i \<noteq> None \<Longrightarrow> i \<in> set (snapshot_ids ci ni s)"
    by (auto simp: mem_snapshot_def split: option.splits kv_value.splits)
qed

lemma mem_bootstrap_ids: "(ci, ni) \<in> set (bootstrap_ids s) \<longleftrightarrow> map_of s (BootstrapKey ci ni) \<noteq> None"
  by (induction s) (auto split: kv_key.splits)

lemma mem_remove: "\<not> key_between a b k \<Longrightarrow> map_of (filter (\<lambda>(k, v). \<not> key_between a b k) s) k = map_of s k"
  by (induction s) auto

lemma mem_kv_ok: "kv_ok mem_kv"
proof -
  have sn: "snapshot_at mem_kv s = mem_snapshot s" and ba: "batch_at mem_kv s = mem_batch s" for s
    by (simp_all add: fun_eq_iff snapshot_at_def mem_snapshot_def batch_at_def mem_batch_def mem_kv_def)
  have "\<exists>is. sorted_wrt (<) is \<and> set is = {i. mem_snapshot s ci ni i \<noteq> None}
      \<and> kv_IterateSnapshots mem_kv s ci ni = map (the \<circ> mem_snapshot s ci ni) is" for s ci ni
    using mem_snapshot_ids [of s ci ni]
    by (intro exI [of _ "sort (remdups (filter (\<lambda>i. mem_snapshot s ci ni i \<noteq> None) (snapshot_ids ci ni s)))"])
      (auto simp: mem_kv_def strict_sorted_iff)
  moreover have "set (kv_IterateBootstraps mem_kv s) = {(ci, ni). kv_GetValue mem_kv s (BootstrapKey ci ni) \<noteq> None}" for s
    using mem_bootstrap_ids [of _ _ s] by (auto simp: mem_kv_def)
  ultimately show ?thesis
    unfolding kv_ok_def sn ba
    by (simp add: mem_kv_def mem_commit mem_remove delete_conv')
qed

section \<open>A database with one node\<close>

definition demo_ents :: "entry list" where
  "demo_ents = [demo_entry 1 1, demo_entry 1 2, demo_entry 2 3]"

definition demo_sr :: "mem_state sharded_rdb" where
  "demo_sr = OpenShardedRDB mem_kv [[], []] 16 True"

definition demo_save :: "entry list \<Rightarrow> update" where
  "demo_save ents = empty_update\<lparr>ud_ClusterID := 1, ud_NodeID := 1, ud_EntriesToSave := ents,
     ud_State := \<lparr>st_Term = 2, st_Vote = 1, st_Commit = 1\<rparr>\<rparr>"

lemma demo_sr_holds: "sr_holds 1 1 demo_sr (\<lambda>n. empty_entry) 1 1"
proof -
  have "rdb_holds 1 1 (openRDB mem_kv []) (\<lambda>n. empty_entry) 1 1"
    using mem_kv_ok
    by (simp add: rdb_holds_def openRDB_def content_ok_def batch_at_def mem_kv_def newRDBCache_def cs_getLastEntryBatch_def)
  moreover have "sr_inv demo_sr"
    by (simp add: sr_inv_def demo_sr_def OpenShardedRDB_def NewDoubleFixedPartitioner_def word_less_nat_alt)
  moreover have "sr_partition demo_sr 1 = 1"
    unfolding sr_partition_def demo_sr_def by code_simp
  ultimately show ?thesis by (simp add: sr_holds_def) (simp add: demo_sr_def OpenShardedRDB_def)
qed

lemma demo_storable: "storable (\<lambda>n. empty_entry) 1 1 demo_ents"
  by (simp add: storable_def Let_def demo_ents_def demo_entry_def empty_entry_def indexed_def)

end
