(* ===== verification/DBProps.thy ===== *)
theory DBProps
  imports MemStore
begin

text \<open>
  Properties of the log database: what is saved is read back, by the running node and after a restart,
  saving for one node leaves the others alone, and compaction loses nothing that is still needed.
\<close>

section \<open>Saving and reading back\<close>

text \<open>C{DBProps.saved_log_readable}: a node saves entries and appends them to its log reader, as the node
  host does for every update of a Raft node. If the entries continue or replace the log from one of its
  indexes on, neither call panics, and the reader in front of the sharded database then keeps the contract
  the Raft log relies on, for the log with the new entries written over it.\<close>

theorem saved_log_readable:
  assumes "sr_holds ci ni mw c lo hi" and "lr_inv c lo hi lr" and "storable c lo hi ents"
    and "unat (lr_markerIndex lr) < unat (e_Index (ents ! 0))"
  shows "\<exists>mw' lr'.
    sr_SaveRaftState mw [empty_update\<lparr>ud_ClusterID := ci, ud_NodeID := ni, ud_EntriesToSave := ents\<rparr>] = Some mw'
    \<and> lr_Append lr ents = Some lr'
    \<and> sr_holds ci ni mw' (overwrite c ents) lo (unat (e_Index (ents ! 0)) + length ents)
    \<and> lr_inv (overwrite c ents) lo (unat (e_Index (ents ! 0)) + length ents) lr'
    \<and> logdb_ok (lr_ILogDB (sr_iterator ci ni mw') lr') (overwrite c ents)"
  by (rule srdb.save_and_append [OF assms]) (auto simp: sr_save_def)

lemma demo_reader_inv: "lr_inv (\<lambda>n. empty_entry) 1 1 (NewLogReader 1 1)"
  by (simp add: lr_inv_def NewLogReader_def empty_entry_def)

theorem saved_log_readable_witness:
  "\<exists>mw' lr'.
    sr_SaveRaftState demo_sr [empty_update\<lparr>ud_ClusterID := 1, ud_NodeID := 1, ud_EntriesToSave := demo_ents\<rparr>] = Some mw'
    \<and> lr_Append (NewLogReader 1 1) demo_ents = Some lr'
    \<and> logdb_ok (lr_ILogDB (sr_iterator 1 1 mw') lr') (overwrite (\<lambda>n. empty_entry) demo_ents)"
proof -
  have "unat (lr_markerIndex (NewLogReader 1 1)) < unat (e_Index (demo_ents ! 0))"
    by (simp add: NewLogReader_def demo_ents_def demo_entry_def)
  from saved_log_readable [OF demo_sr_holds demo_reader_inv demo_storable this] show ?thesis by blast
qed

text \<open>C{DBProps.saveRaftState_correct}: a call of \<open>saveRaftState\<close> for updates of different nodes, without
  snapshots, does not panic. The database then holds the new entries and the new hard state of each of these
  nodes, also where the hard state is not written because the cache has it already, and holds for every
  other node what it held before.\<close>

theorem saveRaftState_correct:
  assumes "updates_ok C LO HI r uds" and "states_synced r"
  shows "\<exists>r'. rdb_saveRaftState r uds = Some r' \<and> states_synced r'
    \<and> (\<forall>ud \<in> set uds.
         rdb_holds (ud_ClusterID ud) (ud_NodeID ud) r' (saved_content C ud) (LO (ud_node ud)) (saved_end HI ud)
         \<and> rdb_readState r' (ud_ClusterID ud) (ud_NodeID ud) =
             (if IsEmptyState (ud_State ud) then rdb_readState r (ud_ClusterID ud) (ud_NodeID ud) else Some (ud_State ud)))
    \<and> (\<forall>ci ni. (ci, ni) \<notin> ud_node ` set uds \<longrightarrow> rdb_readState r' ci ni = rdb_readState r ci ni
         \<and> (\<forall>c lo hi. rdb_holds ci ni r c lo hi \<longrightarrow> rdb_holds ci ni r' c lo hi))"
proof (rule rdb_saveRaftState_spec [OF assms(1)])
  fix r' assume r': "rdb_saveRaftState r uds = Some r'"
    and h: "\<And>ud. ud \<in> set uds \<Longrightarrow> rdb_holds (ud_ClusterID ud) (ud_NodeID ud) r' (saved_content C ud) (LO (ud_node ud)) (saved_end HI ud)"
    and o: "\<And>ci ni c lo hi. (ci, ni) \<notin> ud_node ` set uds \<Longrightarrow> rdb_holds ci ni r c lo hi \<Longrightarrow> rdb_holds ci ni r' c lo hi"
    and y: "states_synced r \<Longrightarrow> states_synced r'"
    and v: "\<And>ci ni. states_synced r \<Longrightarrow> rdb_readState r' ci ni = state_after r uds ci ni"
  have d: "distinct (map ud_node uds)" using assms(1) by (simp add: updates_ok_def)
  have in_uds: "rdb_readState r' (ud_ClusterID ud) (ud_NodeID ud) =
      (if IsEmptyState (ud_State ud) then rdb_readState r (ud_ClusterID ud) (ud_NodeID ud) else Some (ud_State ud))"
    if "ud \<in> set uds" for ud
    using v [OF assms(2), of "ud_ClusterID ud" "ud_NodeID ud"] state_after_in [OF d that, of r]
    unfolding ud_node_def fst_conv snd_conv by simp
  have "rdb_readState r' ci ni = rdb_readState r ci ni" if "(ci, ni) \<notin> ud_node ` set uds" for ci ni
    using v [OF assms(2), of ci ni] state_after_notin [OF that] by simp
  then show ?thesis using r' h o y [OF assms(2)] in_uds by blast
qed

lemma demo_updates_ok: "updates_ok (\<lambda>_ n. empty_entry) (\<lambda>_. 1) (\<lambda>_. 1) (openRDB mem_kv []) [demo_save demo_ents]"
proof -
  have "rdb_holds 1 1 (openRDB mem_kv []) (\<lambda>n. empty_entry) 1 1"
    using demo_sr_holds unfolding sr_holds_def demo_sr_def
    by (simp add: OpenShardedRDB_def sr_partition_def dfp_GetPartitionID_def NewDoubleFixedPartitioner_def)
  then show ?thesis
    using demo_storable mem_kv_ok
    by (simp add: updates_ok_def savable_def demo_save_def empty_update_def IsEmptySnapshot_def empty_snapshot_def openRDB_def)
qed

theorem saveRaftState_correct_witness:
  "\<exists>r'. rdb_saveRaftState (openRDB mem_kv []) [demo_save demo_ents] = Some r'
    \<and> rdb_readState r' 1 1 = Some \<lparr>st_Term = 2, st_Vote = 1, st_Commit = 1\<rparr> \<and> rdb_readState r' 1 2 = None"
proof -
  have "states_synced (openRDB mem_kv [])" by (simp add: states_synced_def openRDB_def newRDBCache_def)
  from saveRaftState_correct [OF demo_updates_ok this] obtain r' where
    "rdb_saveRaftState (openRDB mem_kv []) [demo_save demo_ents] = Some r'"
    and s1: "\<forall>ud \<in> set [demo_save demo_ents]. rdb_readState r' (ud_ClusterID ud) (ud_NodeID ud) =
      (if IsEmptyState (ud_State ud) then rdb_readState (openRDB mem_kv []) (ud_ClusterID ud) (ud_NodeID ud) else Some (ud_State ud))"
    and s2: "\<forall>ci ni. (ci, ni) \<notin> ud_node ` set [demo_save demo_ents] \<longrightarrow> rdb_readState r' ci ni = rdb_readState (openRDB mem_kv []) ci ni"
    by blast
  moreover from s1 have "rdb_readState r' 1 1 = Some \<lparr>st_Term = 2, st_Vote = 1, st_Commit = 1\<rparr>"
    by (simp add: demo_save_def IsEmptyState_def emptyState_def)
  moreover have "rdb_readState r' 1 2 = None"
    using s2 [rule_format, of 1 2] by (simp add: demo_save_def ud_node_def) (simp add: rdb_readState_def openRDB_def mem_kv_def)
  ultimately show ?thesis by blast
qed

text \<open>C{DBProps.batch_roundtrip}: the compact form of a batch is restored to the batch it was made from. A
  batch has at most 48 entries; their indexes increase and their terms, none of them zero, do not decrease.\<close>

theorem batch_roundtrip:
  assumes "batch_wf eb" and "1 < length eb" and "length eb \<le> 48"
  shows "\<exists>raw. compactBatchFields eb = Some raw \<and> restoreBatchFields raw = Some eb"
proof (rule unpacked_packed [OF assms(1,3)])
  fix raw assume "packed eb = Some raw" and u: "unpacked raw = Some eb"
  then have "compactBatchFields eb = Some raw" using assms(2) by (simp add: packed_def)
  then have "length raw = length eb"
    by (auto simp: compactBatchFields_def Let_def clearFields_def split: if_splits)
  with u \<open>compactBatchFields eb = Some raw\<close> assms(2) show ?thesis by (simp add: unpacked_def)
qed

theorem batch_roundtrip_witness:
  "\<exists>raw. compactBatchFields [demo_entry 1 1, demo_entry 1 2] = Some raw
    \<and> restoreBatchFields raw = Some [demo_entry 1 1, demo_entry 1 2]"
proof -
  have "batch_wf [demo_entry 1 1, demo_entry 1 2]"
    by (simp add: batch_wf_def demo_entry_def empty_entry_def)
  from batch_roundtrip [OF this] show ?thesis by simp
qed

section \<open>Restart and compaction\<close>

text \<open>C{DBProps.restart_recovers}: a node that starts again on what was saved, with all caches lost, gets its
  log back: \<open>replayLog\<close> does not panic, reports that the node is not new, and leaves a reader that serves the
  whole log behind the most recent snapshot, with the hard state and the membership that were saved.\<close>

theorem restart_recovers:
  assumes "restartable logdb ci ni c lo hi ss st" and "\<forall>r \<in> set (sr_shards logdb). rdb_kv r = kv"
  shows "\<exists>lr. node_replayLog (sr_reopen kv logdb) (NewLogReader ci ni) ci ni = Some (False, lr)
    \<and> logdb_ok (lr_ILogDB (sr_iterator ci ni (sr_reopen kv logdb)) lr) c
    \<and> lr_NodeState lr = (st, ss_Membership (case ss of Some s \<Rightarrow> s | None \<Rightarrow> empty_snapshot))
    \<and> lr_firstIndex lr = ss_Index (case ss of Some s \<Rightarrow> s | None \<Rightarrow> empty_snapshot) + 1
    \<and> unat (lr_lastIndex lr) + 1 = hi"
proof -
  have r: "restartable (sr_reopen kv logdb) ci ni c lo hi ss st" by (rule restartable_reopen [OF assms])
  then have h: "sr_holds ci ni (sr_reopen kv logdb) c lo hi" by (simp add: restartable_def)
  from r show ?thesis
  proof (rule node_replayLog_spec)
    fix lr assume lr: "node_replayLog (sr_reopen kv logdb) (NewLogReader ci ni) ci ni = Some (False, lr)"
      "lr_inv c lo hi lr" "lr_state lr = st" "lr_snapshot lr = (case ss of Some s \<Rightarrow> s | None \<Rightarrow> empty_snapshot)"
      "lr_markerIndex lr = ss_Index (lr_snapshot lr)"
    then show ?thesis
      using srdb.reader_ok [OF h lr(2)] lr_inv_range(2) [OF lr(2)]
      by (intro exI [of _ lr]) (simp add: lr_NodeState_def lr_firstIndex_def)
  qed
qed

definition demo_saved :: "mem_state sharded_rdb" where
  "demo_saved = the (sr_SaveRaftState demo_sr [demo_save demo_ents])"

lemma demo_saved_holds:
  "sr_holds 1 1 demo_saved (overwrite (\<lambda>n. empty_entry) demo_ents) 1 4" "\<forall>r \<in> set (sr_shards demo_saved). rdb_kv r = mem_kv"
proof -
  have "sr_updates_ok (\<lambda>_ n. empty_entry) (\<lambda>_. 1) (\<lambda>_. 1) demo_sr [demo_save demo_ents]"
    using demo_sr_holds demo_updates_ok
    by (simp add: sr_updates_ok_def sr_holds_def demo_save_def)
      (simp add: demo_sr_def OpenShardedRDB_def sr_partition_def dfp_GetPartitionID_def NewDoubleFixedPartitioner_def)
  then obtain mw where mw: "sr_SaveRaftState demo_sr [demo_save demo_ents] = Some mw"
      and h: "\<And>ud. ud \<in> set [demo_save demo_ents] \<Longrightarrow> sr_holds (ud_ClusterID ud) (ud_NodeID ud) mw
        (saved_content (\<lambda>_ n. empty_entry) ud) 1 (saved_end (\<lambda>_. 1) ud)"
      and k: "map rdb_kv (sr_shards mw) = map rdb_kv (sr_shards demo_sr)"
    by (rule sr_SaveRaftState_spec) blast
  have d: "demo_saved = mw" using mw by (simp add: demo_saved_def)
  show "sr_holds 1 1 demo_saved (overwrite (\<lambda>n. empty_entry) demo_ents) 1 4"
    using h [of "demo_save demo_ents"]
    by (simp add: d demo_save_def saved_content_def saved_end_def demo_ents_def demo_entry_def eval_nat_numeral)
  have "set (map rdb_kv (sr_shards mw)) = {mem_kv}"
    unfolding k by (simp add: demo_sr_def OpenShardedRDB_def openRDB_def)
  then show "\<forall>r \<in> set (sr_shards demo_saved). rdb_kv r = mem_kv" unfolding d by auto
qed

lemma demo_restartable:
  "restartable demo_saved 1 1 (overwrite (\<lambda>n. empty_entry) demo_ents) 1 4 None \<lparr>st_Term = 2, st_Vote = 1, st_Commit = 1\<rparr>"
proof -
  have "snapshotter_GetMostRecentSnapshot demo_saved 1 1 = Some None"
    "rdb_readState (sr_shards demo_saved ! sr_partition demo_saved 1) 1 1 = Some \<lparr>st_Term = 2, st_Vote = 1, st_Commit = 1\<rparr>"
    by code_simp+
  then show ?thesis
    using demo_saved_holds(1)
    by (simp add: restartable_def overwrite_def demo_ents_def demo_entry_def empty_entry_def)
qed

theorem restart_recovers_witness:
  "\<exists>lr. node_replayLog (sr_reopen mem_kv demo_saved) (NewLogReader 1 1) 1 1 = Some (False, lr)
    \<and> logdb_ok (lr_ILogDB (sr_iterator 1 1 (sr_reopen mem_kv demo_saved)) lr) (overwrite (\<lambda>n. empty_entry) demo_ents)
    \<and> unat (lr_lastIndex lr) + 1 = 4"
  using restart_recovers [OF demo_restartable demo_saved_holds(2)] by blast

text \<open>C{DBProps.compactLog_keeps}: \<open>compactLog\<close> up to an index of the log does not fail. The reader then starts
  behind that index and still serves the rest of the log, and the database keeps everything from the batch
  before that of the index on.\<close>

theorem compactLog_keeps:
  assumes "sr_holds ci ni logdb c lo hi" and "lr_inv c lo hi lr"
    and "unat (lr_markerIndex lr) \<le> unat i" and "unat i < hi" and "i \<noteq> 0"
    and "\<forall>v. map_of (sr_compactions logdb) (ci, ni) = Some v \<longrightarrow> v \<le> i"
  shows "\<exists>lr' logdb'. node_compactLog True logdb lr ci ni i = Some (None, lr', logdb')
    \<and> lr_firstIndex lr' = i + 1 \<and> lr_lastIndex lr' = lr_lastIndex lr
    \<and> sr_holds ci ni logdb' c (max lo (48 * (unat i div 48 - 1))) hi
    \<and> logdb_ok (lr_ILogDB (sr_iterator ci ni logdb') lr') c"
proof (rule node_compactLog_spec [OF assms])
  fix lr' logdb' assume a: "node_compactLog True logdb lr ci ni i = Some (None, lr', logdb')" "lr_markerIndex lr' = i"
    "sr_holds ci ni logdb' c (kept_from lo i) hi" "lr_inv c (kept_from lo i) hi lr'"
  have "lr_lastIndex lr' = lr_lastIndex lr"
    using lr_inv_range(2) [OF a(4)] lr_inv_range(2) [OF assms(2)] by (simp add: word_unat_eq_iff)
  with a srdb.reader_ok [OF a(3,4)] show ?thesis
    by (intro exI [of _ lr'] exI [of _ logdb']) (simp add: lr_firstIndex_def kept_from_def)
qed

theorem compactLog_keeps_witness:
  "\<exists>lr' logdb'. node_compactLog True demo_saved ((NewLogReader 1 1)\<lparr>lr_length := 4\<rparr>) 1 1 2 = Some (None, lr', logdb')
    \<and> lr_firstIndex lr' = 3 \<and> lr_lastIndex lr' = 3"
proof -
  have inv: "lr_inv (overwrite (\<lambda>n. empty_entry) demo_ents) 1 4 ((NewLogReader 1 1)\<lparr>lr_length := 4\<rparr>)"
    by (simp add: lr_inv_def NewLogReader_def overwrite_def demo_ents_def demo_entry_def empty_entry_def)
  have "sr_compactions demo_saved = []" by code_simp
  with compactLog_keeps [OF demo_saved_holds(1) inv, of 2] show ?thesis
    by (auto simp: NewLogReader_def lr_lastIndex_def)
qed

end
