(* ===== verification/LLRB.thy ===== *)
theory LLRB
  imports Prelude
begin

text \<open>
  \<open>internal/utils/cache/biogo/store/llrb/llrb.go\<close>: left-leaning red-black trees, the store behind the ordered
  cache of client sessions. A node pointer is a value of \<open>node\<close>, \<open>nil\<close> is \<open>Nil\<close>; an access through a nil
  pointer panics. Elements are compared through \<open>Compare\<close>, here the order of the type of elements. No tree
  has a node without element, so the branch of \<open>insert\<close> for such a node does not appear. \<open>Mode\<close>
  is the constant \<open>BU23\<close>, and the branches for \<open>TD234\<close> are left out. A traversal is modelled by the list of the
  elements it visits, up to the first one at which the operation reports that it is done.
\<close>

section \<open>Definitions\<close>

datatype llrb_color = Red | Black

datatype 'a node = Nil | Node (elem: 'a) (lft: "'a node") (rgt: "'a node") (col: llrb_color)

record 'a llrb_tree =
  t_Root :: "'a node"
  t_Count :: int

fun color :: "'a node \<Rightarrow> llrb_color" where
  "color Nil = Black"
| "color (Node e l r c) = c"

fun opposite :: "llrb_color \<Rightarrow> llrb_color" where
  "opposite Red = Black"
| "opposite Black = Red"

fun rotateLeft :: "'a node \<Rightarrow> 'a node option" where
  "rotateLeft (Node e l (Node re rl rr rc) c) = Some (Node re (Node e l rl Red) rr c)"
| "rotateLeft _ = panic"

fun rotateRight :: "'a node \<Rightarrow> 'a node option" where
  "rotateRight (Node e (Node le ll lr lc) r c) = Some (Node le ll (Node e lr r Red) c)"
| "rotateRight _ = panic"

fun flipColors :: "'a node \<Rightarrow> 'a node option" where
  "flipColors (Node e (Node le ll lr lc) (Node re rl rr rc) c) =
     Some (Node e (Node le ll lr (opposite lc)) (Node re rl rr (opposite rc)) (opposite c))"
| "flipColors _ = panic"

fun set_left :: "'a node \<Rightarrow> 'a node \<Rightarrow> 'a node" where
  "set_left (Node e l r c) l' = Node e l' r c"
| "set_left Nil l' = Nil"

fun set_right :: "'a node \<Rightarrow> 'a node \<Rightarrow> 'a node" where
  "set_right (Node e l r c) r' = Node e l r' c"
| "set_right Nil r' = Nil"

fun fixUp :: "'a node \<Rightarrow> 'a node option" where
  "fixUp Nil = panic"
| "fixUp (Node e l r c) = do {
     n \<leftarrow> (if color r = Red then rotateLeft (Node e l r c) else Some (Node e l r c));
     n \<leftarrow> (if color (lft n) = Red \<and> color (lft (lft n)) = Red then rotateRight n else Some n);
     if color (lft n) = Red \<and> color (rgt n) = Red then flipColors n else Some n }"

definition moveRedLeft :: "'a node \<Rightarrow> 'a node option" where
  "moveRedLeft n = do {
     n \<leftarrow> flipColors n;
     if color (lft (rgt n)) = Red then do {
       r \<leftarrow> rotateRight (rgt n);
       n \<leftarrow> rotateLeft (set_right n r);
       flipColors n }
     else Some n }"

definition moveRedRight :: "'a node \<Rightarrow> 'a node option" where
  "moveRedRight n = do {
     n \<leftarrow> flipColors n;
     if color (lft (lft n)) = Red then do {
       n \<leftarrow> rotateRight n;
       flipColors n }
     else Some n }"

definition tree_Len :: "'a llrb_tree \<Rightarrow> int" where
  "tree_Len t = t_Count t"

primrec node_search :: "'a::linorder \<Rightarrow> 'a node \<Rightarrow> 'a option" where
  "node_search q Nil = None"
| "node_search q (Node e l r c) = (if q = e then Some e else if q < e then node_search q l else node_search q r)"

definition tree_Get :: "'a::linorder llrb_tree \<Rightarrow> 'a \<Rightarrow> 'a option" where
  "tree_Get t q = node_search q (t_Root t)"

text \<open>The end of \<open>insert\<close>, after the element has gone into the node or one of its subtrees.\<close>

definition insert_fix :: "'a node \<Rightarrow> 'a node option" where
  "insert_fix n = do {
     n \<leftarrow> (if color (rgt n) = Red \<and> color (lft n) = Black then rotateLeft n else Some n);
     n \<leftarrow> (if color (lft n) = Red \<and> color (lft (lft n)) = Red then rotateRight n else Some n);
     if color (lft n) = Red \<and> color (rgt n) = Red then flipColors n else Some n }"

primrec node_insert :: "'a::linorder \<Rightarrow> 'a node \<Rightarrow> ('a node \<times> int) option" where
  "node_insert e Nil = Some (Node e Nil Nil Red, 1)"
| "node_insert e (Node x l r c) = do {
     (n, d) \<leftarrow> (if e = x then Some (Node e l r c, 0)
               else if e < x then do { (l', d) \<leftarrow> node_insert e l; Some (Node x l' r c, d) }
               else do { (r', d) \<leftarrow> node_insert e r; Some (Node x l r' c, d) });
     n \<leftarrow> insert_fix n;
     Some (n, d) }"

fun paint_black :: "'a node \<Rightarrow> 'a node" where
  "paint_black Nil = Nil"
| "paint_black (Node e l r c) = Node e l r Black"

definition tree_Insert :: "'a::linorder llrb_tree \<Rightarrow> 'a \<Rightarrow> 'a llrb_tree option" where
  "tree_Insert t e = do {
     (root, d) \<leftarrow> node_insert e (t_Root t);
     Some \<lparr>t_Root = paint_black root, t_Count = t_Count t + d\<rparr> }"

fun node_size :: "'a node \<Rightarrow> nat" where
  "node_size Nil = 0"
| "node_size (Node e l r c) = Suc (node_size l + node_size r)"

lemma rotateLeft_size: "rotateLeft n = Some m \<Longrightarrow> node_size m = node_size n"
  by (cases n rule: rotateLeft.cases) auto

lemma rotateRight_size: "rotateRight n = Some m \<Longrightarrow> node_size m = node_size n"
  by (cases n rule: rotateRight.cases) auto

lemma flipColors_size: "flipColors n = Some m \<Longrightarrow> node_size m = node_size n"
  by (cases n rule: flipColors.cases) auto

lemma set_right_size: "n \<noteq> Nil \<Longrightarrow> node_size r = node_size (rgt n) \<Longrightarrow> node_size (set_right n r) = node_size n"
  by (cases n) auto

lemma moveRedLeft_size: "moveRedLeft n = Some m \<Longrightarrow> node_size m = node_size n"
  by (cases n rule: flipColors.cases)
    (auto simp: moveRedLeft_def split: bind_splits if_splits dest!: rotateLeft_size rotateRight_size flipColors_size)

lemma moveRedRight_size: "moveRedRight n = Some m \<Longrightarrow> node_size m = node_size n"
  by (auto simp: moveRedRight_def split: bind_splits if_splits dest!: rotateRight_size flipColors_size)

lemma child_size: "0 < node_size n \<Longrightarrow> node_size (lft n) < node_size n" "0 < node_size n \<Longrightarrow> node_size (rgt n) < node_size n"
  by (cases n; simp)+

lemma child_size': "node_size n = Suc k \<Longrightarrow> node_size (lft n) < Suc k" "node_size n = Suc k \<Longrightarrow> node_size (rgt n) < Suc k"
  using child_size [of n] by simp_all

function node_deleteMin :: "'a node \<Rightarrow> ('a node \<times> int) option" where
  "node_deleteMin Nil = panic"
| "node_deleteMin (Node e l r c) =
     (if l = Nil then Some (Nil, -1)
      else do {
        n \<leftarrow> (if color l = Black \<and> color (lft l) = Black then moveRedLeft (Node e l r c) else Some (Node e l r c));
        (l, d) \<leftarrow> node_deleteMin (lft n);
        n \<leftarrow> fixUp (set_left n l);
        Some (n, d) })"
  by pat_completeness auto
termination
  by (relation "measure node_size") (auto split: if_splits dest!: moveRedLeft_size intro!: child_size')

definition tree_DeleteMin :: "'a llrb_tree \<Rightarrow> 'a llrb_tree option" where
  "tree_DeleteMin t =
     (if t_Root t = Nil then Some t
      else do {
        (root, d) \<leftarrow> node_deleteMin (t_Root t);
        Some \<lparr>t_Root = paint_black root, t_Count = t_Count t + d\<rparr> })"

function node_deleteMax :: "'a node \<Rightarrow> ('a node \<times> int) option" where
  "node_deleteMax Nil = panic"
| "node_deleteMax (Node e l r c) = do {
     n \<leftarrow> (if l \<noteq> Nil \<and> color l = Red then rotateRight (Node e l r c) else Some (Node e l r c));
     if rgt n = Nil then Some (Nil, -1)
     else do {
       n \<leftarrow> (if color (rgt n) = Black \<and> color (lft (rgt n)) = Black then moveRedRight n else Some n);
       (r, d) \<leftarrow> node_deleteMax (rgt n);
       n \<leftarrow> fixUp (set_right n r);
       Some (n, d) } }"
  by pat_completeness auto
termination
  by (relation "measure node_size")
    (auto split: if_splits dest!: moveRedRight_size rotateRight_size intro!: child_size')

definition tree_DeleteMax :: "'a llrb_tree \<Rightarrow> 'a llrb_tree option" where
  "tree_DeleteMax t =
     (if t_Root t = Nil then Some t
      else do {
        (root, d) \<leftarrow> node_deleteMax (t_Root t);
        Some \<lparr>t_Root = paint_black root, t_Count = t_Count t + d\<rparr> })"

fun node_min :: "'a node \<Rightarrow> 'a node option" where
  "node_min Nil = panic"
| "node_min (Node e Nil r c) = Some (Node e Nil r c)"
| "node_min (Node e l r c) = node_min l"

fun node_max :: "'a node \<Rightarrow> 'a node option" where
  "node_max Nil = panic"
| "node_max (Node e l Nil c) = Some (Node e l Nil c)"
| "node_max (Node e l r c) = node_max r"

function node_delete :: "'a::linorder \<Rightarrow> 'a node \<Rightarrow> ('a node \<times> int) option" where
  "node_delete e Nil = panic"
| "node_delete e (Node x l r c) =
     (if e < x then
        if l \<noteq> Nil then do {
          n \<leftarrow> (if color l = Black \<and> color (lft l) = Black then moveRedLeft (Node x l r c) else Some (Node x l r c));
          (l, d) \<leftarrow> node_delete e (lft n);
          n \<leftarrow> fixUp (set_left n l);
          Some (n, d) }
        else do { n \<leftarrow> fixUp (Node x l r c); Some (n, 0) }
      else do {
        n \<leftarrow> (if color l = Red then rotateRight (Node x l r c) else Some (Node x l r c));
        if rgt n = Nil \<and> e = elem n then Some (Nil, -1)
        else if rgt n \<noteq> Nil then do {
          n \<leftarrow> (if color (rgt n) = Black \<and> color (lft (rgt n)) = Black then moveRedRight n else Some n);
          (n, d) \<leftarrow> (if e = elem n then do {
                      m \<leftarrow> node_min (rgt n);
                      (r, d) \<leftarrow> node_deleteMin (rgt n);
                      Some (Node (elem m) (lft n) r (col n), d) }
                    else do {
                      (r, d) \<leftarrow> node_delete e (rgt n);
                      Some (set_right n r, d) });
          n \<leftarrow> fixUp n;
          Some (n, d) }
        else do { n \<leftarrow> fixUp n; Some (n, 0) } })"
  by pat_completeness auto
termination
  by (relation "measure (node_size \<circ> snd)")
    (auto split: if_splits dest!: moveRedLeft_size moveRedRight_size rotateRight_size intro!: child_size')

definition tree_Delete :: "'a::linorder llrb_tree \<Rightarrow> 'a \<Rightarrow> 'a llrb_tree option" where
  "tree_Delete t e =
     (if t_Root t = Nil then Some t
      else do {
        (root, d) \<leftarrow> node_delete e (t_Root t);
        Some \<lparr>t_Root = paint_black root, t_Count = t_Count t + d\<rparr> })"

definition tree_Min :: "'a llrb_tree \<Rightarrow> 'a option option" where
  "tree_Min t = (if t_Root t = Nil then Some None else do { n \<leftarrow> node_min (t_Root t); Some (Some (elem n)) })"

definition tree_Max :: "'a llrb_tree \<Rightarrow> 'a option option" where
  "tree_Max t = (if t_Root t = Nil then Some None else do { n \<leftarrow> node_max (t_Root t); Some (Some (elem n)) })"

primrec node_floor :: "'a::linorder \<Rightarrow> 'a node \<Rightarrow> 'a option" where
  "node_floor q Nil = None"
| "node_floor q (Node e l r c) =
     (if q = e then Some e
      else if q < e then node_floor q l
      else case node_floor q r of Some x \<Rightarrow> Some x | None \<Rightarrow> Some e)"

definition tree_Floor :: "'a::linorder llrb_tree \<Rightarrow> 'a \<Rightarrow> 'a option" where
  "tree_Floor t q = node_floor q (t_Root t)"

primrec node_ceil :: "'a::linorder \<Rightarrow> 'a node \<Rightarrow> 'a option" where
  "node_ceil q Nil = None"
| "node_ceil q (Node e l r c) =
     (if q = e then Some e
      else if q > e then node_ceil q r
      else case node_ceil q l of Some x \<Rightarrow> Some x | None \<Rightarrow> Some e)"

definition tree_Ceil :: "'a::linorder llrb_tree \<Rightarrow> 'a \<Rightarrow> 'a option" where
  "tree_Ceil t q = node_ceil q (t_Root t)"

text \<open>The traversals: \<open>(done, visited)\<close>.\<close>

primrec node_do :: "('a \<Rightarrow> bool) \<Rightarrow> 'a node \<Rightarrow> bool \<times> 'a list" where
  "node_do fn Nil = (False, [])"
| "node_do fn (Node e l r c) =
     (let (fin, xs) = node_do fn l in
      if fin then (True, xs)
      else if fn e then (True, xs @ [e])
      else let (fin, ys) = node_do fn r in (fin, xs @ e # ys))"

definition tree_Do :: "('a \<Rightarrow> bool) \<Rightarrow> 'a llrb_tree \<Rightarrow> bool \<times> 'a list" where
  "tree_Do fn t = node_do fn (t_Root t)"

primrec node_doReverse :: "('a \<Rightarrow> bool) \<Rightarrow> 'a node \<Rightarrow> bool \<times> 'a list" where
  "node_doReverse fn Nil = (False, [])"
| "node_doReverse fn (Node e l r c) =
     (let (fin, xs) = node_doReverse fn r in
      if fin then (True, xs)
      else if fn e then (True, xs @ [e])
      else let (fin, ys) = node_doReverse fn l in (fin, xs @ e # ys))"

definition tree_DoReverse :: "('a \<Rightarrow> bool) \<Rightarrow> 'a llrb_tree \<Rightarrow> bool \<times> 'a list" where
  "tree_DoReverse fn t = node_doReverse fn (t_Root t)"

primrec node_doRange :: "('a::linorder \<Rightarrow> bool) \<Rightarrow> 'a \<Rightarrow> 'a \<Rightarrow> 'a node \<Rightarrow> bool \<times> 'a list" where
  "node_doRange fn lo hi Nil = (False, [])"
| "node_doRange fn lo hi (Node e l r c) =
     (let (fin, xs) = (if lo \<le> e then node_doRange fn lo hi l else (False, [])) in
      if fin then (True, xs)
      else
        let hit = lo \<le> e \<and> hi > e in
        if hit \<and> fn e then (True, xs @ [e])
        else
          let xs = (if hit then xs @ [e] else xs);
              (fin, ys) = (if hi > e then node_doRange fn lo hi r else (False, [])) in
          (fin, xs @ ys))"

definition tree_DoRange :: "('a::linorder \<Rightarrow> bool) \<Rightarrow> 'a \<Rightarrow> 'a \<Rightarrow> 'a llrb_tree \<Rightarrow> (bool \<times> 'a list) option" where
  "tree_DoRange fn from to t =
     (if t_Root t = Nil then Some (False, [])
      else if from > to then panic
      else Some (node_doRange fn from to (t_Root t)))"

primrec node_doRangeReverse :: "('a::linorder \<Rightarrow> bool) \<Rightarrow> 'a \<Rightarrow> 'a \<Rightarrow> 'a node \<Rightarrow> bool \<times> 'a list" where
  "node_doRangeReverse fn hi lo Nil = (False, [])"
| "node_doRangeReverse fn hi lo (Node e l r c) =
     (let (fin, xs) = (if hi > e then node_doRangeReverse fn hi lo r else (False, [])) in
      if fin then (True, xs)
      else
        let hit = lo \<le> e \<and> hi > e in
        if hit \<and> fn e then (True, xs @ [e])
        else
          let xs = (if hit then xs @ [e] else xs);
              (fin, ys) = (if lo \<le> e then node_doRangeReverse fn hi lo l else (False, [])) in
          (fin, xs @ ys))"

definition tree_DoRangeReverse :: "('a::linorder \<Rightarrow> bool) \<Rightarrow> 'a \<Rightarrow> 'a \<Rightarrow> 'a llrb_tree \<Rightarrow> (bool \<times> 'a list) option" where
  "tree_DoRangeReverse fn from to t =
     (if t_Root t = Nil then Some (False, [])
      else if from < to then panic
      else Some (node_doRangeReverse fn from to (t_Root t)))"

primrec node_doMatch :: "('a::linorder \<Rightarrow> bool) \<Rightarrow> 'a \<Rightarrow> 'a node \<Rightarrow> bool \<times> 'a list" where
  "node_doMatch fn q Nil = (False, [])"
| "node_doMatch fn q (Node e l r c) =
     (let (fin, xs) = (if q \<le> e then node_doMatch fn q l else (False, [])) in
      if fin then (True, xs)
      else
        let hit = (q = e) in
        if hit \<and> fn e then (True, xs @ [e])
        else
          let xs = (if hit then xs @ [e] else xs);
              (fin, ys) = (if q \<ge> e then node_doMatch fn q r else (False, [])) in
          (fin, xs @ ys))"

definition tree_DoMatching :: "('a::linorder \<Rightarrow> bool) \<Rightarrow> 'a \<Rightarrow> 'a llrb_tree \<Rightarrow> bool \<times> 'a list" where
  "tree_DoMatching fn q t = node_doMatch fn q (t_Root t)"

end
