(* ===== verification/LLRBSpec.thy ===== *)
theory LLRBSpec
  imports LLRB
begin

text \<open>
  The tree operations on the set of elements. \<open>lean\<close> is the invariant of left-leaning 2-3 trees: no red
  node is a right child, no red node has a red left child, and all paths have the same number of black
  nodes. The operations keep it, never follow a nil pointer and implement a sorted list of elements.
\<close>

section \<open>Invariant\<close>

primrec inorder :: "'a node \<Rightarrow> 'a list" where
  "inorder Nil = []"
| "inorder (Node e l r c) = inorder l @ e # inorder r"

primrec bheight :: "'a node \<Rightarrow> nat" where
  "bheight Nil = 0"
| "bheight (Node e l r c) = bheight l + (if c = Black then 1 else 0)"

primrec lean :: "'a node \<Rightarrow> bool" where
  "lean Nil \<longleftrightarrow> True"
| "lean (Node e l r c) \<longleftrightarrow> lean l \<and> lean r \<and> bheight l = bheight r \<and> color r = Black \<and> (c = Red \<longrightarrow> color l = Black)"

lemma not_color [simp]: "c \<noteq> Black \<longleftrightarrow> c = Red" "c \<noteq> Red \<longleftrightarrow> c = Black"
  by (cases c; simp)+

lemma opposite_simps [simp]: "opposite (opposite c) = c" "opposite c = Red \<longleftrightarrow> c = Black" "opposite c = Black \<longleftrightarrow> c = Red"
  by (cases c; simp)+

lemma color_Red: "color n = Red \<Longrightarrow> \<exists>e l r. n = Node e l r Red"
  by (cases n) auto

lemma bheight_0: "lean n \<Longrightarrow> bheight n = 0 \<Longrightarrow> color n = Black \<Longrightarrow> n = Nil"
  by (cases n) auto

text \<open>Two subtrees of the same height under an element.\<close>

definition balanced :: "'a node \<Rightarrow> bool" where
  "balanced n \<longleftrightarrow> n \<noteq> Nil \<and> lean (lft n) \<and> lean (rgt n) \<and> bheight (lft n) = bheight (rgt n)"

lemma balanced_Node [simp]: "balanced (Node e l r c) \<longleftrightarrow> lean l \<and> lean r \<and> bheight l = bheight r"
  by (simp add: balanced_def)

section \<open>Repair\<close>

lemma fixUp_spec:
  assumes "balanced n" and "color (lft n) = Red \<or> color (rgt n) = Red \<Longrightarrow> col n = Black"
  obtains m where "fixUp n = Some m" and "lean m" and "bheight m = bheight n" and "inorder m = inorder n"
    and "color (lft n) = Black \<or> color (rgt n) = Black \<Longrightarrow> color m = col n" and "m \<noteq> Nil"
proof -
  obtain e l r c where n: "n = Node e l r c" using assms(1) by (cases n) (auto simp: balanced_def)
  show thesis
  proof (cases r rule: color.cases)
    case 1
    then show thesis using that assms n by (cases l rule: color.cases) (auto split: if_splits)
  next
    case (2 re rl rr rc)
    then show thesis
      using that assms n by (cases rc; cases l rule: color.cases) (auto split: if_splits dest: color_Red)
  qed
qed

lemma moveRedLeft_spec:
  assumes "lean (Node e l r Red)" and "l \<noteq> Nil" and "color (lft l) = Black"
  obtains m where "moveRedLeft (Node e l r Red) = Some m" and "balanced m" and "inorder m = inorder (Node e l r Red)"
    and "bheight m = bheight (Node e l r Red)"
    and "color (lft m) = Red \<and> col m = Black \<or> color (lft m) = Black \<and> color (lft (lft m)) = Red \<and> color (rgt m) = Black"
    and "lft m \<noteq> Nil" and "e \<in> set (elem m # inorder (lft m))"
proof -
  obtain le ll lr where l: "l = Node le ll lr Black" using assms by (cases l) auto
  obtain re rl rr where r: "r = Node re rl rr Black" using assms l by (cases r) auto
  show thesis
  proof (cases rl)
    case Nil
    then show thesis using that assms l r by (simp add: moveRedLeft_def)
  next
    case (Node x a b c)
    then show thesis using that assms l r by (cases c) (simp_all add: moveRedLeft_def)
  qed
qed

lemma moveRedRight_spec:
  assumes "lean (Node e l r Red)" and "r \<noteq> Nil" and "color (lft r) = Black"
  obtains m where "moveRedRight (Node e l r Red) = Some m" and "inorder m = inorder (Node e l r Red)"
    and "bheight m = bheight (Node e l r Red)" and "lean (lft m)" and "bheight (lft m) = bheight (rgt m)"
    and "m = Node e (lft m) (rgt m) Black \<and> color (rgt m) = Red \<and> lean (rgt m) \<and> inorder (rgt m) = inorder r
       \<or> (\<exists>le lr rr. m = Node le (lft m) (Node e lr rr Black) Red \<and> color (lft m) = Black \<and> color lr = Black
            \<and> color rr = Red \<and> lean rr \<and> inorder rr = inorder r \<and> balanced (Node e lr rr Black))"
proof -
  obtain re rl rr where r: "r = Node re rl rr Black" using assms by (cases r) auto
  obtain le ll lr where l: "l = Node le ll lr Black" using assms r by (cases l) auto
  show thesis
  proof (cases ll)
    case Nil
    then show thesis using that assms l r by (simp add: moveRedRight_def)
  next
    case (Node x a b c)
    then show thesis using that assms l r by (cases c) (simp_all add: moveRedRight_def)
  qed
qed

section \<open>Insertion\<close>

primrec ins_list :: "'a::linorder \<Rightarrow> 'a list \<Rightarrow> 'a list" where
  "ins_list e [] = [e]"
| "ins_list e (x # xs) = (if e < x then e # x # xs else if e = x then e # xs else x # ins_list e xs)"

abbreviation ascending :: "'a::linorder list \<Rightarrow> bool" where
  "ascending \<equiv> sorted_wrt (<)"

lemma ins_list_left: "e < x \<Longrightarrow> ascending (xs @ x # ys) \<Longrightarrow> ins_list e (xs @ x # ys) = ins_list e xs @ x # ys"
  by (induction xs) auto

lemma ins_list_mid: "ascending (xs @ e # ys) \<Longrightarrow> ins_list e (xs @ e # ys) = xs @ e # ys"
  by (induction xs) auto

lemma ins_list_right: "x < e \<Longrightarrow> ascending (xs @ x # ys) \<Longrightarrow> ins_list e (xs @ x # ys) = xs @ x # ins_list e ys"
proof (induction xs)
  case (Cons a xs)
  then have "a < e" by auto
  with Cons show ?case by auto
qed auto

lemma set_ins_list: "set (ins_list e xs) = insert e (set xs)"
  by (induction xs) auto

lemma ascending_ins_list: "ascending xs \<Longrightarrow> ascending (ins_list e xs)"
  by (induction xs) (auto simp: set_ins_list)

lemma length_ins_list: "length (ins_list e xs) = length xs + (if e \<in> set xs then 0 else 1)" if "ascending xs"
  using that by (induction xs) auto

lemma search_spec: "ascending (inorder n) \<Longrightarrow> node_search q n = (if q \<in> set (inorder n) then Some q else None)"
  by (induction n) (auto simp: sorted_wrt_append)

text \<open>The result of an insertion below a red node may be red with a red left child; the caller repairs it.\<close>

definition grown :: "'a node \<Rightarrow> 'a node \<Rightarrow> bool" where
  "grown n m \<longleftrightarrow> bheight m = bheight n \<and> balanced m \<and> color (rgt m) = Black
     \<and> (if color n = Black then lean m else color m = Red)"

lemma insert_fix_left:
  assumes "lean r" and "bheight l = bheight r" and "color r = Black"
    and "lean l \<or> color l = Red \<and> c = Black \<and> balanced l \<and> color (rgt l) = Black"
  shows "\<exists>m. insert_fix (Node x l r c) = Some m \<and> inorder m = inorder l @ x # inorder r \<and> grown (Node x l r c) m"
proof (cases l)
  case Nil
  then show ?thesis using assms by (simp add: insert_fix_def grown_def)
next
  case (Node le ll lr lc)
  then show ?thesis
    using assms by (cases ll; cases lc; cases c) (auto simp: insert_fix_def grown_def)
qed

lemma insert_fix_right:
  assumes "lean l" and "lean r" and "bheight l = bheight r" and "c = Red \<Longrightarrow> color l = Black"
  shows "\<exists>m. insert_fix (Node x l r c) = Some m \<and> inorder m = inorder l @ x # inorder r \<and> grown (Node x l r c) m"
proof (cases r)
  case Nil
  then show ?thesis using assms by (cases l) (auto simp: insert_fix_def grown_def split: if_splits)
next
  case (Node re rl rr rc)
  then show ?thesis
    using assms by (cases l; cases rc; cases c) (auto simp: insert_fix_def grown_def)
qed

lemma insert_spec:
  assumes "lean n" and "ascending (inorder n)"
  shows "\<exists>m. node_insert e n = Some (m, if e \<in> set (inorder n) then 0 else 1)
    \<and> inorder m = ins_list e (inorder n) \<and> grown n m"
  using assms
proof (induction n)
  case Nil
  then show ?case by (simp add: grown_def)
next
  case (Node x l r c)
  have asc: "ascending (inorder l)" "ascending (inorder r)" and len: "lean l" "lean r"
    using Node.prems by (auto simp: sorted_wrt_append)
  consider "e = x" | "e < x" | "x < e" by force
  then show ?case
  proof cases
    case 1
    obtain m where "insert_fix (Node x l r c) = Some m" "inorder m = inorder l @ x # inorder r" "grown (Node x l r c) m"
      using insert_fix_left [of r l c x] Node.prems(1) by auto
    then show ?thesis using 1 Node.prems by (simp add: ins_list_mid)
  next
    case 2
    obtain m where m: "node_insert e l = Some (m, if e \<in> set (inorder l) then 0 else 1)"
      "inorder m = ins_list e (inorder l)" "grown l m"
      using Node.IH(1) [OF len(1) asc(1)] by blast
    have "lean m \<or> color m = Red \<and> c = Black \<and> balanced m \<and> color (rgt m) = Black"
      using m(3) Node.prems(1) by (auto simp: grown_def split: if_splits)
    then obtain k where k: "insert_fix (Node x m r c) = Some k" "inorder k = inorder m @ x # inorder r" "grown (Node x m r c) k"
      using insert_fix_left [of r m c x] m(3) Node.prems(1) by (auto simp: grown_def)
    have "e \<notin> set (inorder r)" using Node.prems(2) 2 by (auto simp: sorted_wrt_append)
    moreover have "grown (Node x l r c) k" using k(3) m(3) by (simp add: grown_def)
    ultimately show ?thesis using 2 m k Node.prems(2) by (auto simp: ins_list_left)
  next
    case 3
    obtain m where m: "node_insert e r = Some (m, if e \<in> set (inorder r) then 0 else 1)"
      "inorder m = ins_list e (inorder r)" "grown r m"
      using Node.IH(2) [OF len(2) asc(2)] by blast
    have "lean m" using m(3) Node.prems(1) by (simp add: grown_def)
    then obtain k where k: "insert_fix (Node x l m c) = Some k" "inorder k = inorder l @ x # inorder m" "grown (Node x l m c) k"
      using insert_fix_right [of l m c x] m(3) Node.prems(1) by (auto simp: grown_def)
    have "e \<notin> set (inorder l)" using Node.prems(2) 3 by (auto simp: sorted_wrt_append)
    moreover have "grown (Node x l r c) k" using k(3) m(3) by (simp add: grown_def)
    ultimately show ?thesis using 3 m k Node.prems(2) by (auto simp: ins_list_right)
  qed
qed

section \<open>Deletion\<close>

lemma node_min_spec: "n \<noteq> Nil \<Longrightarrow> \<exists>m. node_min n = Some m \<and> elem m = hd (inorder n)"
  by (induction n rule: node_min.induct) (auto simp: hd_append)

text \<open>What a deletion makes of the subtree \<open>n\<close>: a tree with the elements \<open>xs\<close> that fits in its place.\<close>

definition shrunk :: "'a node \<Rightarrow> 'a list \<Rightarrow> 'a node \<Rightarrow> bool" where
  "shrunk n xs m \<longleftrightarrow> lean m \<and> bheight m = bheight n \<and> inorder m = xs \<and> (color n = Black \<longrightarrow> color m = Black)"

lemma fix_left:
  assumes "shrunk a xs a'" and "lean b" and "bheight a = bheight b" and "c = Red \<Longrightarrow> color a' = Black \<and> color b = Black"
  shows "\<exists>k. fixUp (Node y a' b c) = Some k \<and> lean k \<and> bheight k = bheight (Node y a b c)
    \<and> inorder k = xs @ y # inorder b \<and> (color b = Black \<longrightarrow> color k = c)"
proof -
  have "balanced (Node y a' b c)" using assms(1-3) by (simp add: shrunk_def)
  then obtain k where "fixUp (Node y a' b c) = Some k" "lean k" "bheight k = bheight (Node y a' b c)"
    "inorder k = inorder (Node y a' b c)" "color a' = Black \<or> color b = Black \<Longrightarrow> color k = c"
    by (rule fixUp_spec) (use assms(4) in \<open>cases c; auto\<close>)+
  then show ?thesis using assms(1) by (auto simp: shrunk_def)
qed

lemma fix_right:
  assumes "lean a" and "shrunk b xs b'" and "bheight a = bheight b" and "c = Red \<Longrightarrow> color a = Black \<and> color b' = Black"
  shows "\<exists>k. fixUp (Node y a b' c) = Some k \<and> lean k \<and> bheight k = bheight (Node y a b c)
    \<and> inorder k = inorder a @ y # xs \<and> (color a = Black \<longrightarrow> color k = c)"
proof -
  have "balanced (Node y a b' c)" using assms(1-3) by (simp add: shrunk_def)
  then obtain k where "fixUp (Node y a b' c) = Some k" "lean k" "bheight k = bheight (Node y a b' c)"
    "inorder k = inorder (Node y a b' c)" "color a = Black \<or> color b' = Black \<Longrightarrow> color k = c"
    by (rule fixUp_spec) (use assms(4) in \<open>cases c; auto\<close>)+
  then show ?thesis using assms(2) by (auto simp: shrunk_def)
qed

text \<open>A deletion enters a subtree only where one of the nodes at its top is red.\<close>

definition enterable :: "'a node \<Rightarrow> bool" where
  "enterable n \<longleftrightarrow> n \<noteq> Nil \<and> lean n \<and> (color n = Red \<or> color (lft n) = Red)"

lemma move_left_enterable:
  assumes "enterable (Node e l r c)" and "l \<noteq> Nil"
  obtains y a b c' where "(if color l = Black \<and> color (lft l) = Black then moveRedLeft (Node e l r c) else Some (Node e l r c))
      = Some (Node y a b c')"
    and "inorder (Node y a b c') = inorder (Node e l r c)" and "bheight (Node y a b c') = bheight (Node e l r c)"
    and "enterable a" and "lean b" and "bheight a = bheight b" and "c' = Red \<longrightarrow> color a = Black \<and> color b = Black"
    and "c = Black \<longrightarrow> c' = Black \<and> color b = Black" and "e \<in> set (y # inorder a)"
proof (cases "color l = Black \<and> color (lft l) = Black")
  case True
  then have c: "c = Red" using assms(1) by (auto simp: enterable_def)
  have "lean (Node e l r Red)" "l \<noteq> Nil" "color (lft l) = Black" using assms c True by (simp_all add: enterable_def)
  then obtain m where m: "moveRedLeft (Node e l r Red) = Some m" "balanced m"
    "inorder m = inorder (Node e l r Red)" "bheight m = bheight (Node e l r Red)"
    "color (lft m) = Red \<and> col m = Black \<or> color (lft m) = Black \<and> color (lft (lft m)) = Red \<and> color (rgt m) = Black"
    "lft m \<noteq> Nil" "e \<in> set (elem m # inorder (lft m))"
    by (rule moveRedLeft_spec)
  obtain y a b c' where n: "m = Node y a b c'" using m(2) by (cases m) (auto simp: balanced_def)
  show thesis by (rule that [of y a b c']) (use m c True in \<open>auto simp: n enterable_def\<close>)
next
  case False
  then show thesis using that [of e l r c] assms by (auto simp: enterable_def)
qed

lemma deleteMin_spec:
  assumes "enterable n"
  shows "\<exists>m. node_deleteMin n = Some (m, -1) \<and> shrunk n (tl (inorder n)) m"
  using assms
proof (induction "node_size n" arbitrary: n rule: less_induct)
  case less
  obtain e l r c where n: "n = Node e l r c" using less.prems by (cases n) (auto simp: enterable_def)
  show ?case
  proof (cases "l = Nil")
    case True
    then show ?thesis using less.prems n by (cases r) (auto simp: enterable_def shrunk_def)
  next
    case False
    obtain y a b c' where m: "(if color l = Black \<and> color (lft l) = Black then moveRedLeft n else Some n) = Some (Node y a b c')"
      "inorder (Node y a b c') = inorder n" "bheight (Node y a b c') = bheight n" "enterable a" "lean b" "bheight a = bheight b"
      "c' = Red \<longrightarrow> color a = Black \<and> color b = Black" "c = Black \<longrightarrow> c' = Black \<and> color b = Black"
      "e \<in> set (y # inorder a)"
      unfolding n by (rule move_left_enterable [OF less.prems [unfolded n] False])
    have "node_size (Node y a b c') = node_size n"
      using m(1) moveRedLeft_size [of n] by (auto split: if_splits)
    then obtain a' where a': "node_deleteMin a = Some (a', -1)" "shrunk a (tl (inorder a)) a'"
      using less.hyps [of a] m(4) by auto
    obtain k where k: "fixUp (Node y a' b c') = Some k" "lean k" "bheight k = bheight (Node y a b c')"
      "inorder k = tl (inorder a) @ y # inorder b" "color b = Black \<longrightarrow> color k = c'"
      using fix_left [OF a'(2) m(5,6)] m(7) a'(2) by (metis shrunk_def)
    have "node_deleteMin n = Some (k, -1)" using a'(1) k(1) False unfolding n by (simp add: m(1) [unfolded n] del: fixUp.simps)
    moreover have "inorder a \<noteq> []" using m(4) by (cases a) (auto simp: enterable_def)
    then have "tl (inorder n) = inorder k" using k(4) unfolding m(2) [symmetric] by simp
    moreover have "color n = Black \<longrightarrow> color k = Black" using m(8) k(5) n by simp
    ultimately show ?thesis using k(2,3) m(3) by (simp add: shrunk_def)
  qed
qed

text \<open>The search for the element may also enter a black node with a red right child, when it goes right there.\<close>

definition deletable :: "'a::linorder \<Rightarrow> 'a node \<Rightarrow> bool" where
  "deletable e n \<longleftrightarrow> enterable n
     \<or> (\<exists>x l r. n = Node x l r Black \<and> balanced n \<and> color l = Black \<and> color r = Red \<and> x \<le> e)"

abbreviation without :: "'a \<Rightarrow> 'a list \<Rightarrow> 'a list" where
  "without e xs \<equiv> filter (\<lambda>z. z \<noteq> e) xs"

definition deleted :: "'a::linorder \<Rightarrow> 'a node \<Rightarrow> bool" where
  "deleted e n \<longleftrightarrow> (\<exists>m. node_delete e n = Some (m, if e \<in> set (inorder n) then -1 else 0)
     \<and> shrunk n (without e (inorder n)) m)"

lemma without_id: "e \<notin> set xs \<Longrightarrow> without e xs = xs"
  by (induction xs) auto

lemma without_left: "ascending (xs @ y # ys) \<Longrightarrow> e < y \<Longrightarrow> without e (xs @ y # ys) = without e xs @ y # ys"
  by (force simp: sorted_wrt_append intro!: without_id)

lemma without_right: "ascending (xs @ y # ys) \<Longrightarrow> y < e \<Longrightarrow> without e (xs @ y # ys) = xs @ y # without e ys"
  by (force simp: sorted_wrt_append intro!: without_id)

lemma without_mid: "without y (xs @ y # ys) = xs @ ys" if "ascending (xs @ y # ys)"
proof -
  have "y \<notin> set xs" "y \<notin> set ys" using that by (auto simp: sorted_wrt_append)
  then show ?thesis by (simp add: without_id)
qed

lemma delete_left:
  assumes IH: "\<And>m. node_size m < node_size (Node x l r c) \<Longrightarrow> ascending (inorder m) \<Longrightarrow> deletable e m \<Longrightarrow> deleted e m"
    and n: "enterable (Node x l r c)" "ascending (inorder (Node x l r c))" and "e < x"
  shows "deleted e (Node x l r c)"
proof (cases "l = Nil")
  case True
  then have "r = Nil" using n(1) bheight_0 [of r] by (auto simp: enterable_def)
  then show ?thesis using True n \<open>e < x\<close> by (auto simp: deleted_def shrunk_def enterable_def)
next
  case False
  obtain y a b c' where m: "(if color l = Black \<and> color (lft l) = Black then moveRedLeft (Node x l r c) else Some (Node x l r c)) = Some (Node y a b c')"
    "inorder (Node y a b c') = inorder (Node x l r c)" "bheight (Node y a b c') = bheight (Node x l r c)"
    "enterable a" "lean b" "bheight a = bheight b"
    "c' = Red \<longrightarrow> color a = Black \<and> color b = Black" "c = Black \<longrightarrow> c' = Black \<and> color b = Black"
    "x \<in> set (y # inorder a)"
    by (rule move_left_enterable [OF n(1) False])
  have asc: "ascending (inorder a @ y # inorder b)" using n(2) unfolding m(2) [symmetric] by simp
  have "e < y" using m(9) asc \<open>e < x\<close> by (auto simp: sorted_wrt_append)
  have "node_size (Node y a b c') = node_size (Node x l r c)"
    using m(1) moveRedLeft_size [of "Node x l r c"] by (auto split: if_splits)
  then have "deleted e a" using IH [of a] m(4) asc by (auto simp: deletable_def sorted_wrt_append)
  then obtain a' where a': "node_delete e a = Some (a', if e \<in> set (inorder a) then -1 else 0)"
      "shrunk a (without e (inorder a)) a'"
    by (auto simp: deleted_def)
  obtain k where k: "fixUp (Node y a' b c') = Some k" "lean k" "bheight k = bheight (Node y a b c')"
    "inorder k = without e (inorder a) @ y # inorder b" "color b = Black \<longrightarrow> color k = c'"
    using fix_left [OF a'(2) m(5,6)] m(7) a'(2) by (metis shrunk_def)
  have "e \<in> set (inorder (Node x l r c)) \<longleftrightarrow> e \<in> set (inorder a)"
    using asc \<open>e < y\<close> unfolding m(2) [symmetric] by (auto simp: sorted_wrt_append)
  then have "node_delete e (Node x l r c) = Some (k, if e \<in> set (inorder (Node x l r c)) then -1 else 0)"
    using a'(1) k(1) False \<open>e < x\<close> by (simp add: m(1) del: fixUp.simps)
  moreover have "without e (inorder (Node x l r c)) = inorder k"
    unfolding m(2) [symmetric] k(4) using without_left [OF asc \<open>e < y\<close>] by simp
  moreover have "c = Black \<longrightarrow> color k = Black" using m(8) k(5) by simp
  ultimately show ?thesis using k(2,3) m(3) unfolding deleted_def shrunk_def by simp
qed

lemma delete_below:
  assumes "deletable e b \<Longrightarrow> ascending (inorder b) \<Longrightarrow> deleted e b" and "deletable e b" and "y = e \<Longrightarrow> enterable b"
    and asc: "ascending (inorder a @ y # inorder b)" and "y \<le> e"
  obtains y' b' xs where "(if e = y then do { m \<leftarrow> node_min b; (r, d) \<leftarrow> node_deleteMin b; Some (Node (elem m) a r c, d) }
      else do { (r, d) \<leftarrow> node_delete e b; Some (Node y a r c, d) })
      = Some (Node y' a b' c, if e \<in> set (inorder (Node y a b c)) then -1 else 0)"
    and "shrunk b xs b'" and "inorder a @ y' # xs = without e (inorder (Node y a b c))"
proof (cases "e = y")
  case True
  then have "enterable b" using assms(3) by simp
  then obtain m b' where "node_min b = Some m" "elem m = hd (inorder b)" "node_deleteMin b = Some (b', -1)"
    "shrunk b (tl (inorder b)) b'" "inorder b \<noteq> []"
    using deleteMin_spec [of b] node_min_spec [of b] by (cases b) (auto simp: enterable_def)
  then show thesis using that [of "elem m" b' "tl (inorder b)"] True without_mid [OF asc] by simp
next
  case False
  then have "y < e" using \<open>y \<le> e\<close> by simp
  have "deleted e b" using assms(1,2) asc by (simp add: sorted_wrt_append)
  then obtain b' where "node_delete e b = Some (b', if e \<in> set (inorder b) then -1 else 0)"
      "shrunk b (without e (inorder b)) b'"
    by (auto simp: deleted_def)
  moreover have "e \<in> set (inorder (Node y a b c)) \<longleftrightarrow> e \<in> set (inorder b)"
    using asc \<open>y < e\<close> by (auto simp: sorted_wrt_append)
  ultimately show thesis
    using that [of y b' "without e (inorder b)"] False without_right [OF asc \<open>y < e\<close>] by simp
qed

text \<open>The last part of \<open>delete\<close> on the right, when the right child may be entered.\<close>

definition delete_tail :: "'a::linorder \<Rightarrow> 'a node \<Rightarrow> ('a node \<times> int) option" where
  "delete_tail e n = do {
     (n, d) \<leftarrow> (if e = elem n then do {
                 m \<leftarrow> node_min (rgt n);
                 (r, d) \<leftarrow> node_deleteMin (rgt n);
                 Some (Node (elem m) (lft n) r (col n), d) }
               else do {
                 (r, d) \<leftarrow> node_delete e (rgt n);
                 Some (set_right n r, d) });
     n \<leftarrow> fixUp n;
     Some (n, d) }"

lemma delete_tail_spec:
  assumes "deletable e b \<Longrightarrow> ascending (inorder b) \<Longrightarrow> deleted e b" and "deletable e b" and "y = e \<Longrightarrow> enterable b"
    and asc: "ascending (inorder a @ y # inorder b)" and "y \<le> e"
    and a: "lean a" "bheight a = bheight b" and c: "c = Red \<Longrightarrow> color a = Black \<and> color b = Black"
  obtains k where "delete_tail e (Node y a b c) = Some (k, if e \<in> set (inorder (Node y a b c)) then -1 else 0)"
    and "lean k" and "bheight k = bheight (Node y a b c)" and "inorder k = without e (inorder (Node y a b c))"
    and "color a = Black \<longrightarrow> color k = c"
proof -
  obtain y' b' xs where s: "(if e = y then do { m \<leftarrow> node_min b; (r, d) \<leftarrow> node_deleteMin b; Some (Node (elem m) a r c, d) }
      else do { (r, d) \<leftarrow> node_delete e b; Some (Node y a r c, d) })
      = Some (Node y' a b' c, if e \<in> set (inorder (Node y a b c)) then -1 else 0)"
    "shrunk b xs b'" "inorder a @ y' # xs = without e (inorder (Node y a b c))"
    by (rule delete_below [OF assms(1-5)])
  obtain k where k: "fixUp (Node y' a b' c) = Some k" "lean k" "bheight k = bheight (Node y' a b c)"
    "inorder k = inorder a @ y' # xs" "color a = Black \<longrightarrow> color k = c"
    using fix_right [OF a(1) s(2) a(2)] c s(2) by (metis shrunk_def)
  have "delete_tail e (Node y a b c) = Some (k, if e \<in> set (inorder (Node y a b c)) then -1 else 0)"
    unfolding delete_tail_def node.sel set_right.simps s(1) by (simp add: k(1) del: fixUp.simps)
  then show thesis using that k s(3) by simp
qed

lemma node_delete_right:
  assumes "\<not> e < x"
  shows "node_delete e (Node x l r c) = do {
    n \<leftarrow> (if color l = Red then rotateRight (Node x l r c) else Some (Node x l r c));
    if rgt n = Nil \<and> e = elem n then Some (Nil, -1)
    else if rgt n \<noteq> Nil then do {
      n \<leftarrow> (if color (rgt n) = Black \<and> color (lft (rgt n)) = Black then moveRedRight n else Some n);
      delete_tail e n }
    else do { n \<leftarrow> fixUp n; Some (n, 0) } }"
  using assms unfolding delete_tail_def by (simp only: node_delete.simps if_False)

lemma delete_right_black:
  assumes IH: "\<And>m. node_size m < node_size (Node x l r c) \<Longrightarrow> ascending (inorder m) \<Longrightarrow> deletable e m \<Longrightarrow> deleted e m"
    and n: "balanced (Node x l r c)" "ascending (inorder (Node x l r c))" and "x \<le> e"
    and c: "c = Black" "color l = Red \<and> color r = Black \<or> color l = Black \<and> color r = Red"
  shows "deleted e (Node x l r c)"
  using c(2)
proof
  assume cl: "color l = Red \<and> color r = Black"
  then obtain le ll lr where l: "l = Node le ll lr Red" using color_Red by blast
  have sub: "ll = ll" "color ll = Black" "color lr = Black" using n(1) l by auto
  have b: "enterable (Node x lr r Red)" using n(1) l cl by (simp add: enterable_def)
  obtain k where k: "delete_tail e (Node le ll (Node x lr r Red) Black)
      = Some (k, if e \<in> set (inorder (Node le ll (Node x lr r Red) Black)) then -1 else 0)"
    "lean k" "bheight k = bheight (Node le ll (Node x lr r Red) Black)"
    "inorder k = without e (inorder (Node le ll (Node x lr r Red) Black))" "color ll = Black \<longrightarrow> color k = Black"
  proof (rule delete_tail_spec [of e "Node x lr r Red" le ll Black])
    show "deleted e (Node x lr r Red)" if "deletable e (Node x lr r Red)" "ascending (inorder (Node x lr r Red))"
      by (rule IH) (use that l in auto)
  qed (use n b l \<open>x \<le> e\<close> in \<open>auto simp: deletable_def sorted_wrt_append\<close>)
  then show ?thesis
    using \<open>x \<le> e\<close> l c(1) sub by (auto simp: deleted_def shrunk_def node_delete_right simp del: node_delete.simps)
next
  assume cl: "color l = Black \<and> color r = Red"
  have b: "enterable r" "r \<noteq> Nil" using n(1) cl by (auto simp: enterable_def)
  obtain k where k: "delete_tail e (Node x l r Black)
      = Some (k, if e \<in> set (inorder (Node x l r Black)) then -1 else 0)"
    "lean k" "bheight k = bheight (Node x l r Black)"
    "inorder k = without e (inorder (Node x l r Black))" "color l = Black \<longrightarrow> color k = Black"
  proof (rule delete_tail_spec [of e r x l Black])
    show "deleted e r" if "deletable e r" "ascending (inorder r)"
      by (rule IH) (use that in auto)
  qed (use n b \<open>x \<le> e\<close> in \<open>auto simp: deletable_def\<close>)
  then show ?thesis
    using \<open>x \<le> e\<close> b c(1) cl by (auto simp: deleted_def shrunk_def node_delete_right simp del: node_delete.simps)
qed

lemma delete_right_red:
  assumes IH: "\<And>m. node_size m < node_size (Node x l r Red) \<Longrightarrow> ascending (inorder m) \<Longrightarrow> deletable e m \<Longrightarrow> deleted e m"
    and n: "lean (Node x l r Red)" "ascending (inorder (Node x l r Red))" and "x \<le> e" and "r \<noteq> Nil"
  shows "deleted e (Node x l r Red)"
proof -
  obtain y a b c where m: "(if color r = Black \<and> color (lft r) = Black then moveRedRight (Node x l r Red) else Some (Node x l r Red))
      = Some (Node y a b c)" "inorder (Node y a b c) = inorder (Node x l r Red)" "bheight (Node y a b c) = bheight (Node x l r Red)"
    "deletable e b" "y = e \<longrightarrow> enterable b" "y \<le> e" "lean a" "bheight a = bheight b" "c = Red \<longrightarrow> color a = Black \<and> color b = Black"
  proof (cases "color (lft r) = Black")
    case True
    obtain m where m: "moveRedRight (Node x l r Red) = Some m" "inorder m = inorder (Node x l r Red)"
      "bheight m = bheight (Node x l r Red)" "lean (lft m)" "bheight (lft m) = bheight (rgt m)"
      "m = Node x (lft m) (rgt m) Black \<and> color (rgt m) = Red \<and> lean (rgt m) \<and> inorder (rgt m) = inorder r
       \<or> (\<exists>le lr rr. m = Node le (lft m) (Node x lr rr Black) Red \<and> color (lft m) = Black \<and> color lr = Black
            \<and> color rr = Red \<and> lean rr \<and> inorder rr = inorder r \<and> balanced (Node x lr rr Black))"
      by (rule moveRedRight_spec [OF n(1) \<open>r \<noteq> Nil\<close> True])
    from m(6) show thesis
    proof (elim disjE exE conjE)
      assume h: "m = Node x (lft m) (rgt m) Black" "color (rgt m) = Red" "lean (rgt m)"
      then have "enterable (rgt m)" by (cases "rgt m") (auto simp: enterable_def)
      then show thesis using that [of x "lft m" "rgt m" Black] m(1-5) h True n \<open>x \<le> e\<close> by (simp add: deletable_def)
    next
      fix le lr rr
      assume h: "m = Node le (lft m) (Node x lr rr Black) Red" "color (lft m) = Black" "color lr = Black" "color rr = Red"
        "balanced (Node x lr rr Black)"
      have "ascending (inorder m)" using n(2) m(2) by simp
      then have "le < x" by (subst (asm) h(1)) (auto simp: sorted_wrt_append)
      then have "le \<noteq> e" "le \<le> e" using \<open>x \<le> e\<close> by auto
      moreover have "rgt m = Node x lr rr Black" by (subst h(1)) simp
      ultimately show thesis using that [of le "lft m" "Node x lr rr Black" Red] m(1-5) h True n \<open>x \<le> e\<close>
        by (simp add: deletable_def)
    qed
  next
    case False
    then show thesis using that [of x l r Red] assms by (auto simp: deletable_def enterable_def)
  qed
  have "node_size (Node y a b c) = node_size (Node x l r Red)"
    using m(1) moveRedRight_size [of "Node x l r Red"] by (auto split: if_splits)
  then have IH': "deletable e b \<Longrightarrow> ascending (inorder b) \<Longrightarrow> deleted e b" using IH [of b] by auto
  have asc: "ascending (inorder a @ y # inorder b)" using n(2) unfolding m(2) [symmetric] by simp
  obtain k where k: "delete_tail e (Node y a b c) = Some (k, if e \<in> set (inorder (Node y a b c)) then -1 else 0)"
    "lean k" "bheight k = bheight (Node y a b c)" "inorder k = without e (inorder (Node y a b c))"
    by (rule delete_tail_spec [OF IH' m(4) _ asc m(6-8)]) (use m(5,9) in auto)
  have "color l = Black" using n(1) by simp
  then have "node_delete e (Node x l r Red) = delete_tail e (Node y a b c)"
    using \<open>x \<le> e\<close> \<open>r \<noteq> Nil\<close> by (simp add: node_delete_right m(1) del: node_delete.simps)
  then show ?thesis using k unfolding deleted_def shrunk_def m(2,3) by simp
qed

text \<open>The colour of a node plays no role for what an operation makes of its subtrees.\<close>

fun other :: "'a node \<Rightarrow> 'a node" where
  "other Nil = Nil"
| "other (Node e l r c) = Node e l r (opposite c)"

lemma other_simps [simp]: "lft (other n) = lft n" "rgt (other n) = rgt n" "elem (other n) = elem n" "inorder (other n) = inorder n"
    "paint_black (other n) = paint_black n" "other n = Nil \<longleftrightarrow> n = Nil" "n \<noteq> Nil \<Longrightarrow> col (other n) = opposite (col n)"
    "set_left (other n) m = other (set_left n m)" "set_right (other n) m = other (set_right n m)"
  by (cases n; simp)+

lemma rotateLeft_other: "rotateLeft (other n) = map_option other (rotateLeft n)"
  by (cases n rule: rotateLeft.cases) simp_all

lemma rotateRight_other: "rotateRight (other n) = map_option other (rotateRight n)"
  by (cases n rule: rotateRight.cases) simp_all

lemma flipColors_other: "flipColors (other n) = map_option other (flipColors n)"
  by (cases n rule: flipColors.cases) simp_all

lemmas repair_other = rotateLeft_other rotateRight_other flipColors_other

lemma map_option_then: "map_option f x \<bind> g = x \<bind> (\<lambda>y. g (f y))"
  by (cases x) simp_all

lemma fixUp_not_Nil: "n \<noteq> Nil \<Longrightarrow> fixUp n = do {
     n \<leftarrow> (if color (rgt n) = Red then rotateLeft n else Some n);
     n \<leftarrow> (if color (lft n) = Red \<and> color (lft (lft n)) = Red then rotateRight n else Some n);
     if color (lft n) = Red \<and> color (rgt n) = Red then flipColors n else Some n }"
  by (cases n) (simp, simp only: fixUp.simps node.sel)

lemma fixUp_other: "fixUp (other n) = map_option other (fixUp n)"
proof (cases "n = Nil")
  case False
  then show ?thesis
    by (auto simp: fixUp_not_Nil repair_other map_option_then map_option_bind intro!: bind_option_cong)
qed simp

lemma moveRedLeft_other: "moveRedLeft (other n) = map_option other (moveRedLeft n)"
  by (auto simp: moveRedLeft_def repair_other map_option_then map_option_bind intro!: bind_option_cong)

lemma moveRedRight_other: "moveRedRight (other n) = map_option other (moveRedRight n)"
  by (auto simp: moveRedRight_def repair_other map_option_then map_option_bind intro!: bind_option_cong)

lemmas deep_other = repair_other fixUp_other moveRedLeft_other moveRedRight_other

lemma delete_spec: "deletable e n \<Longrightarrow> ascending (inorder n) \<Longrightarrow> deleted e n"
proof (induction "node_size n" arbitrary: n rule: less_induct)
  case less
  obtain x l r c where n: "n = Node x l r c" using less.prems by (cases n) (auto simp: enterable_def deletable_def)
  note IH = less.hyps [unfolded n]
  consider "enterable n" "e < x" | "c = Black" "x \<le> e" | "enterable n" "x \<le> e" "c = Red" "r \<noteq> Nil" | "enterable n" "x \<le> e" "c = Red" "r = Nil"
    using less.prems(1) n by (cases c; cases "e < x"; cases "r = Nil") (auto simp: deletable_def enterable_def not_less)
  then show ?case
  proof cases
    case 1
    then show ?thesis using delete_left [OF IH] less.prems(2) n by simp
  next
    case 2
    then have "balanced n" "color l = Red \<and> color r = Black \<or> color l = Black \<and> color r = Red"
      using less.prems(1) n by (auto simp: deletable_def enterable_def)
    then show ?thesis using delete_right_black [OF IH] less.prems(2) n 2 by simp
  next
    case 3
    then show ?thesis using delete_right_red [of x l r e] IH less.prems(2) n by (simp add: enterable_def)
  next
    case 4
    then have "l = Nil" using n bheight_0 [of l] by (simp add: enterable_def)
    then show ?thesis using 4 n by (auto simp: deleted_def shrunk_def)
  qed
qed

lemma delete_tail_other: "n \<noteq> Nil \<Longrightarrow> delete_tail e (other n) = map_option (map_prod other id) (delete_tail e n)"
  unfolding delete_tail_def
  by (auto simp: fixUp_other map_option_then map_option_bind split_def other.simps(2) [symmetric]
      simp del: other.simps fixUp.simps intro!: bind_option_cong)

lemma moved_not_Nil: "rotateRight n = Some m \<Longrightarrow> m \<noteq> Nil" "moveRedRight n = Some m \<Longrightarrow> m \<noteq> Nil"
  using rotateRight_size [of n m] moveRedRight_size [of n m] by (cases n; auto simp: moveRedRight_def)+

lemma node_delete_sel:
  assumes "n \<noteq> Nil"
  shows "node_delete e n =
    (if e < elem n then
       if lft n \<noteq> Nil then do {
         n \<leftarrow> (if color (lft n) = Black \<and> color (lft (lft n)) = Black then moveRedLeft n else Some n);
         (l, d) \<leftarrow> node_delete e (lft n);
         n \<leftarrow> fixUp (set_left n l);
         Some (n, d) }
       else do { n \<leftarrow> fixUp n; Some (n, 0) }
     else do {
       n \<leftarrow> (if color (lft n) = Red then rotateRight n else Some n);
       if rgt n = Nil \<and> e = elem n then Some (Nil, -1)
       else if rgt n \<noteq> Nil then do {
         n \<leftarrow> (if color (rgt n) = Black \<and> color (lft (rgt n)) = Black then moveRedRight n else Some n);
         delete_tail e n }
       else do { n \<leftarrow> fixUp n; Some (n, 0) } })"
  using assms unfolding delete_tail_def by (cases n) (simp, simp only: node_delete.simps node.sel)

lemma node_delete_other: "node_delete e (other n) = map_option (map_prod other id) (node_delete e n)"
proof (cases "n = Nil")
  case False
  then have "other n \<noteq> Nil" by simp
  show ?thesis
    unfolding node_delete_sel [OF False] node_delete_sel [OF \<open>other n \<noteq> Nil\<close>] other_simps deep_other
    using False by (simp add: deep_other map_option_then map_option_bind split_def delete_tail_other if_distrib [of "map_option f" for f] if_distrib [of "\<lambda>x. Option.bind x g" for g]
      del: fixUp.simps node_delete.simps cong: bind_option_cong if_cong)
      (auto simp: delete_tail_other moved_not_Nil intro!: bind_option_cong)
qed simp

section \<open>Trees\<close>

text \<open>The invariant of a tree, and the sorted list of its elements.\<close>

definition tree_ok :: "'a::linorder llrb_tree \<Rightarrow> bool" where
  "tree_ok t \<longleftrightarrow> lean (t_Root t) \<and> color (t_Root t) = Black \<and> ascending (inorder (t_Root t))
     \<and> t_Count t = int (length (inorder (t_Root t)))"

definition elements :: "'a llrb_tree \<Rightarrow> 'a list" where
  "elements t = inorder (t_Root t)"

lemma paint_black_simps [simp]: "inorder (paint_black n) = inorder n" "color (paint_black n) = Black"
  "paint_black n = Nil \<longleftrightarrow> n = Nil"
  by (cases n; simp)+

lemma lean_paint_black: "balanced n \<Longrightarrow> color (rgt n) = Black \<Longrightarrow> lean (paint_black n)"
  by (cases n) (auto simp: balanced_def)

lemma lean_paint_black': "lean n \<Longrightarrow> lean (paint_black n)"
  by (cases n) auto

lemma empty_ok [simp]: "tree_ok \<lparr>t_Root = Nil, t_Count = 0\<rparr>" "elements \<lparr>t_Root = Nil, t_Count = 0\<rparr> = []"
  by (simp_all add: tree_ok_def elements_def)

lemma tree_ok_make: "tree_ok \<lparr>t_Root = n, t_Count = k\<rparr> \<longleftrightarrow>
    lean n \<and> color n = Black \<and> ascending (inorder n) \<and> k = int (length (inorder n))"
    "elements \<lparr>t_Root = n, t_Count = k\<rparr> = inorder n"
  by (simp_all add: tree_ok_def elements_def)

lemma ascending_distinct: "ascending xs \<Longrightarrow> distinct xs"
  by (rule strict_sorted_iff [THEN iffD1, THEN conjunct2])

lemma tree_Get_spec: "tree_ok t \<Longrightarrow> tree_Get t q = (if q \<in> set (elements t) then Some q else None)"
  by (simp add: tree_ok_def tree_Get_def elements_def search_spec)

lemma Len_spec: "tree_ok t \<Longrightarrow> tree_Len t = int (length (elements t))"
  by (simp add: tree_ok_def tree_Len_def elements_def)

lemma Insert_spec:
  assumes "tree_ok t"
  obtains t' where "tree_Insert t e = Some t'" and "tree_ok t'" and "elements t' = ins_list e (elements t)"
proof -
  obtain m where m: "node_insert e (t_Root t) = Some (m, if e \<in> set (elements t) then 0 else 1)"
      "inorder m = ins_list e (elements t)" "grown (t_Root t) m"
    using insert_spec [of "t_Root t" e] assms by (auto simp: tree_ok_def elements_def)
  have "lean (paint_black m)" using m(3) lean_paint_black by (auto simp: grown_def)
  then show thesis
    using that m assms by (simp add: tree_Insert_def tree_ok_def elements_def ascending_ins_list length_ins_list)
qed

lemma length_without: "ascending xs \<Longrightarrow> int (length (without e xs)) = int (length xs) - (if e \<in> set xs then 1 else 0)"
  by (induction xs) (auto simp: without_id)

lemma ascending_without: "ascending xs \<Longrightarrow> ascending (without e xs)"
  by (simp add: sorted_wrt_filter)

lemma Delete_spec:
  assumes "tree_ok t"
  obtains t' where "tree_Delete t e = Some t'" and "tree_ok t'" and "elements t' = without e (elements t)"
proof (cases "t_Root t")
  case Nil
  then show thesis using that assms by (simp add: tree_Delete_def elements_def)
next
  case (Node x l r c)
  let ?n = "if color l = Red then t_Root t else other (t_Root t)"
  have "enterable ?n" "ascending (inorder ?n)" using assms Node by (auto simp: tree_ok_def enterable_def)
  then obtain m where m: "node_delete e ?n = Some (m, if e \<in> set (elements t) then -1 else 0)"
      "lean m" "inorder m = without e (elements t)"
    using delete_spec [of e ?n] by (auto simp: deletable_def deleted_def shrunk_def elements_def)
  then obtain k where "node_delete e (t_Root t) = Some (k, if e \<in> set (elements t) then -1 else 0)" "paint_black k = paint_black m"
    using node_delete_other [of e "t_Root t"] by (cases "color l") auto
  moreover have "ascending (elements t)" "t_Count t = int (length (elements t))" "t_Root t \<noteq> Nil"
    using assms Node by (simp_all add: tree_ok_def elements_def)
  ultimately show thesis
    using that lean_paint_black' [OF m(2)] m(3)
    by (simp add: tree_Delete_def tree_ok_make ascending_without length_without del: node_delete.simps)
qed

section \<open>Traversals and neighbours\<close>

text \<open>A list of elements visited up to the first one at which the operation is done.\<close>

primrec visit :: "('a \<Rightarrow> bool) \<Rightarrow> 'a list \<Rightarrow> bool \<times> 'a list" where
  "visit fn [] = (False, [])"
| "visit fn (x # xs) = (if fn x then (True, [x]) else let (fin, ys) = visit fn xs in (fin, x # ys))"

lemma visit_append: "visit fn (xs @ ys) =
    (let (fin, as) = visit fn xs in if fin then (True, as) else let (fin, bs) = visit fn ys in (fin, as @ bs))"
  by (induction xs) (auto simp: Let_def split: prod.splits)

lemma do_spec: "node_do fn n = visit fn (inorder n)"
  by (induction n) (auto simp: visit_append Let_def split: prod.splits)

lemma doReverse_spec: "node_doReverse fn n = visit fn (rev (inorder n))"
  by (induction n) (auto simp: visit_append Let_def split: prod.splits)

definition between :: "'a::linorder \<Rightarrow> 'a \<Rightarrow> 'a list \<Rightarrow> 'a list" where
  "between lo hi xs = filter (\<lambda>e. lo \<le> e \<and> e < hi) xs"

lemma between_simps: "between lo hi [] = []" "between lo hi (xs @ ys) = between lo hi xs @ between lo hi ys"
    "between lo hi (x # xs) = (if lo \<le> x \<and> x < hi then x # between lo hi xs else between lo hi xs)"
  by (auto simp: between_def)

lemma doRange_spec: "ascending (inorder n) \<Longrightarrow> node_doRange fn lo hi n = visit fn (between lo hi (inorder n))"
proof (induction n)
  case (Node x l r c)
  have asc: "ascending (inorder l)" "ascending (inorder r)" using Node.prems by (auto simp: sorted_wrt_append)
  obtain f as g bs where v: "visit fn (between lo hi (inorder l)) = (f, as)" "visit fn (between lo hi (inorder r)) = (g, bs)"
    by fastforce
  note IH = Node.IH(1) [OF asc(1), unfolded v] Node.IH(2) [OF asc(2), unfolded v]
  have out: "x < lo \<Longrightarrow> between lo hi (inorder l) = []" "hi \<le> x \<Longrightarrow> between lo hi (inorder r) = []"
    using Node.prems by (auto simp: sorted_wrt_append between_def filter_empty_conv)
  consider "x < lo" "hi \<le> x" | "x < lo" "x < hi" | "lo \<le> x" "hi \<le> x" | "lo \<le> x" "x < hi" by fastforce
  then show ?case
    by cases (use v in \<open>auto simp: Let_def visit_append IH out between_simps\<close>)
qed (simp add: between_simps)

lemma doRangeReverse_spec: "ascending (inorder n) \<Longrightarrow> node_doRangeReverse fn hi lo n = visit fn (rev (between lo hi (inorder n)))"
proof (induction n)
  case (Node x l r c)
  have asc: "ascending (inorder l)" "ascending (inorder r)" using Node.prems by (auto simp: sorted_wrt_append)
  obtain f as g bs where v: "visit fn (rev (between lo hi (inorder l))) = (f, as)" "visit fn (rev (between lo hi (inorder r))) = (g, bs)"
    by fastforce
  note IH = Node.IH(1) [OF asc(1), unfolded v] Node.IH(2) [OF asc(2), unfolded v]
  have out: "x < lo \<Longrightarrow> between lo hi (inorder l) = []" "hi \<le> x \<Longrightarrow> between lo hi (inorder r) = []"
    using Node.prems by (auto simp: sorted_wrt_append between_def filter_empty_conv)
  consider "x < lo" "hi \<le> x" | "x < lo" "x < hi" | "lo \<le> x" "hi \<le> x" | "lo \<le> x" "x < hi" by fastforce
  then show ?case
    by cases (use v in \<open>auto simp: Let_def visit_append IH out between_simps\<close>)
qed (simp add: between_simps)

lemma floor_spec: "ascending (inorder n) \<Longrightarrow>
    node_floor q n = (let xs = filter (\<lambda>e. e \<le> q) (inorder n) in if xs = [] then None else Some (last xs))"
proof (induction n)
  case (Node x l r c)
  have "filter (\<lambda>e. e \<le> q) (inorder r) = []" if "q \<le> x" using that Node.prems by (auto simp: sorted_wrt_append filter_empty_conv)
  then show ?case
    using Node by (auto simp: Let_def sorted_wrt_append split: if_splits)
qed simp

lemma ceil_spec: "ascending (inorder n) \<Longrightarrow>
    node_ceil q n = (let xs = filter (\<lambda>e. q \<le> e) (inorder n) in if xs = [] then None else Some (hd xs))"
proof (induction n)
  case (Node x l r c)
  have "filter (\<lambda>e. q \<le> e) (inorder l) = []" if "x \<le> q" using that Node.prems by (auto simp: sorted_wrt_append filter_empty_conv)
  then show ?case
    using Node by (auto simp: Let_def sorted_wrt_append split: if_splits)
qed simp

end
