(* ===== verification/Cache.thy ===== *)
theory Cache
  imports LLRBSpec
begin

text \<open>
  \<open>internal/utils/cache/cache.go\<close>: the caches with an eviction list. A cache holds at most one
  entry for a key, so the pointer to an entry is the key of the entry, and an entry that is not in the cache is garbage. The
  circular list of entries is modelled with its pointers: \<open>Root\<close> is the address of the root node, \<open>At k\<close> that
  of the entry of \<open>k\<close>. The interface \<open>cacheStore\<close> is a record of functions; the ordered cache implements it
  with a left-leaning red-black tree, the unordered one with a hash map. Calls of the listener are recorded. An eviction that finds the list empty
  while the store still counts entries dereferences a nil pointer and panics.
\<close>

section \<open>Definitions\<close>

datatype EvictionPolicy = CacheLRU | CacheFIFO | CacheNone

record ('k, 'v) cache_config =
  cg_Policy :: EvictionPolicy
  cg_ShouldEvict :: "(int \<Rightarrow> 'k \<Rightarrow> 'v \<Rightarrow> bool) option"
  cg_OnEvicted :: bool

datatype 'k addr = Root | At (key_of: 'k)

record 'k links =
  ln_next :: "'k addr \<Rightarrow> 'k addr option"
  ln_prev :: "'k addr \<Rightarrow> 'k addr option"

definition ll_init :: "'k links \<Rightarrow> 'k links" where
  "ll_init l = l\<lparr>ln_next := (ln_next l)(Root := Some Root), ln_prev := (ln_prev l)(Root := Some Root)\<rparr>"

definition ll_back :: "'k links \<Rightarrow> 'k addr option" where
  "ll_back l = ln_prev l Root"

definition ll_insertAfter :: "'k addr \<Rightarrow> 'k addr \<Rightarrow> 'k links \<Rightarrow> 'k links option" where
  "ll_insertAfter e at l = do {
     n \<leftarrow> ln_next l at;
     Some \<lparr>ln_next = (ln_next l)(at := Some e, e := Some n), ln_prev = (ln_prev l)(e := Some at, n := Some e)\<rparr> }"

definition ll_insertBefore :: "'k addr \<Rightarrow> 'k addr \<Rightarrow> 'k links \<Rightarrow> 'k links option" where
  "ll_insertBefore e mark l = do { at \<leftarrow> ln_prev l mark; ll_insertAfter e at l }"

definition ll_remove :: "'k addr \<Rightarrow> 'k links \<Rightarrow> 'k links option" where
  "ll_remove e l =
     (if e = Root then panic
      else case ln_next l e of
        None \<Rightarrow> Some l
      | Some n \<Rightarrow> do {
          p \<leftarrow> ln_prev l e;
          Some \<lparr>ln_next = (ln_next l)(p := Some n, e := None), ln_prev = (ln_prev l)(n := Some p, e := None)\<rparr> })"

definition ll_pushFront :: "'k addr \<Rightarrow> 'k links \<Rightarrow> 'k links option" where
  "ll_pushFront e l = ll_insertAfter e Root l"

definition ll_moveToFront :: "'k addr \<Rightarrow> 'k links \<Rightarrow> 'k links option" where
  "ll_moveToFront e l =
     (if ln_next l Root = Some e then Some l
      else do { l \<leftarrow> ll_remove e l; ll_insertAfter e Root l })"

text \<open>The loops that follow \<open>prev\<close> from an entry to the root.\<close>

partial_function (option) ll_walk :: "'k links \<Rightarrow> 'k addr \<Rightarrow> 'k list option" where
  "ll_walk l e =
     (case e of
        Root \<Rightarrow> Some []
      | At k \<Rightarrow> do { p \<leftarrow> ln_prev l e; ks \<leftarrow> ll_walk l p; Some (k # ks) })"

record ('s, 'k) cacheStore =
  sto_init :: 's
  sto_get :: "'s \<Rightarrow> 'k \<Rightarrow> 'k option"
  sto_add :: "'s \<Rightarrow> 'k \<Rightarrow> 's option"
  sto_del :: "'s \<Rightarrow> 'k \<Rightarrow> 's option"
  sto_length :: "'s \<Rightarrow> int"

record ('s, 'k, 'v) baseCache =
  bc_Config :: "('k, 'v) cache_config"
  bc_store :: 's
  bc_ll :: "'k links"
  bc_Value :: "'k \<rightharpoonup> 'v"
  bc_evicted :: "('k \<times> 'v) list"

definition newBaseCache :: "('s, 'k) cacheStore \<Rightarrow> ('k, 'v) cache_config \<Rightarrow> ('s, 'k, 'v) baseCache" where
  "newBaseCache ops config =
     \<lparr>bc_Config = config, bc_store = sto_init ops, bc_ll = ll_init \<lparr>ln_next = (\<lambda>_. None), ln_prev = (\<lambda>_. None)\<rparr>,
      bc_Value = Map.empty, bc_evicted = []\<rparr>"

definition bc_access :: "'k \<Rightarrow> ('s, 'k, 'v) baseCache \<Rightarrow> ('s, 'k, 'v) baseCache option" where
  "bc_access e bc =
     (if cg_Policy (bc_Config bc) = CacheLRU
      then do { l \<leftarrow> ll_moveToFront (At e) (bc_ll bc); Some (bc\<lparr>bc_ll := l\<rparr>) }
      else Some bc)"

definition bc_removeElement :: "('s, 'k) cacheStore \<Rightarrow> 'k \<Rightarrow> ('s, 'k, 'v) baseCache \<Rightarrow> ('s, 'k, 'v) baseCache option" where
  "bc_removeElement ops e bc = do {
     l \<leftarrow> ll_remove (At e) (bc_ll bc);
     s \<leftarrow> sto_del ops (bc_store bc) e;
     v \<leftarrow> bc_Value bc e;
     Some (bc\<lparr>bc_ll := l, bc_store := s,
              bc_evicted := (if cg_OnEvicted (bc_Config bc) then bc_evicted bc @ [(e, v)] else bc_evicted bc)\<rparr>) }"

definition bc_evict :: "('s, 'k) cacheStore \<Rightarrow> ('s, 'k, 'v) baseCache \<Rightarrow> (bool \<times> ('s, 'k, 'v) baseCache) option" where
  "bc_evict ops bc =
     (case cg_ShouldEvict (bc_Config bc) of
        None \<Rightarrow> Some (False, bc)
      | Some ShouldEvict \<Rightarrow>
          if cg_Policy (bc_Config bc) = CacheNone then Some (False, bc)
          else
            let l = sto_length ops (bc_store bc) in
            if l > 0 then do {
              e \<leftarrow> ll_back (bc_ll bc);
              case e of
                Root \<Rightarrow> panic
              | At k \<Rightarrow> do {
                  v \<leftarrow> bc_Value bc k;
                  if ShouldEvict l k v then do { bc \<leftarrow> bc_removeElement ops k bc; Some (True, bc) }
                  else Some (False, bc) } }
            else Some (False, bc))"

partial_function (option) bc_evict_all :: "('s, 'k) cacheStore \<Rightarrow> ('s, 'k, 'v) baseCache \<Rightarrow> ('s, 'k, 'v) baseCache option" where
  "bc_evict_all ops bc = do {
     (more_to_do, bc) \<leftarrow> bc_evict ops bc;
     if more_to_do then bc_evict_all ops bc else Some bc }"

definition bc_add :: "('s, 'k) cacheStore \<Rightarrow> 'k \<Rightarrow> 'v \<Rightarrow> 'k addr option \<Rightarrow> ('s, 'k, 'v) baseCache \<Rightarrow> ('s, 'k, 'v) baseCache option" where
  "bc_add ops key value after bc =
     (case sto_get ops (bc_store bc) key of
        Some e \<Rightarrow> do {
          bc \<leftarrow> bc_access e bc;
          Some (bc\<lparr>bc_Value := (bc_Value bc)(e \<mapsto> value)\<rparr>) }
      | None \<Rightarrow> do {
          l \<leftarrow> (case after of Some a \<Rightarrow> ll_insertBefore (At key) a (bc_ll bc) | None \<Rightarrow> ll_pushFront (At key) (bc_ll bc));
          s \<leftarrow> sto_add ops (bc_store bc) key;
          bc_evict_all ops (bc\<lparr>bc_ll := l, bc_store := s, bc_Value := (bc_Value bc)(key \<mapsto> value)\<rparr>) })"

definition bc_Add :: "('s, 'k) cacheStore \<Rightarrow> 'k \<Rightarrow> 'v \<Rightarrow> ('s, 'k, 'v) baseCache \<Rightarrow> ('s, 'k, 'v) baseCache option" where
  "bc_Add ops key value bc = bc_add ops key value None bc"

definition bc_AddEntryAfter ::
    "('s, 'k) cacheStore \<Rightarrow> 'k \<Rightarrow> 'v \<Rightarrow> 'k \<Rightarrow> ('s, 'k, 'v) baseCache \<Rightarrow> ('s, 'k, 'v) baseCache option" where
  "bc_AddEntryAfter ops key value after bc = bc_add ops key value (Some (At after)) bc"

definition bc_MoveToEnd :: "'k \<Rightarrow> ('s, 'k, 'v) baseCache \<Rightarrow> ('s, 'k, 'v) baseCache option" where
  "bc_MoveToEnd e bc = do { l \<leftarrow> ll_moveToFront (At e) (bc_ll bc); Some (bc\<lparr>bc_ll := l\<rparr>) }"

definition bc_Get :: "('s, 'k) cacheStore \<Rightarrow> 'k \<Rightarrow> ('s, 'k, 'v) baseCache \<Rightarrow> ('v option \<times> ('s, 'k, 'v) baseCache) option" where
  "bc_Get ops key bc =
     (case sto_get ops (bc_store bc) key of
        Some e \<Rightarrow> do { bc \<leftarrow> bc_access e bc; v \<leftarrow> bc_Value bc e; Some (Some v, bc) }
      | None \<Rightarrow> Some (None, bc))"

definition bc_DelEntry :: "('s, 'k) cacheStore \<Rightarrow> 'k option \<Rightarrow> ('s, 'k, 'v) baseCache \<Rightarrow> ('s, 'k, 'v) baseCache option" where
  "bc_DelEntry ops entry bc = (case entry of Some e \<Rightarrow> bc_removeElement ops e bc | None \<Rightarrow> Some bc)"

definition bc_Del :: "('s, 'k) cacheStore \<Rightarrow> 'k \<Rightarrow> ('s, 'k, 'v) baseCache \<Rightarrow> ('s, 'k, 'v) baseCache option" where
  "bc_Del ops key bc = bc_DelEntry ops (sto_get ops (bc_store bc) key) bc"

definition bc_OrderedDo :: "('s, 'k, 'v) baseCache \<Rightarrow> ('k \<times> 'v) list option" where
  "bc_OrderedDo bc = do {
     e \<leftarrow> ll_back (bc_ll bc);
     ks \<leftarrow> ll_walk (bc_ll bc) e;
     those (map (\<lambda>k. map_option (Pair k) (bc_Value bc k)) ks) }"

definition bc_Clear :: "('s, 'k) cacheStore \<Rightarrow> ('s, 'k, 'v) baseCache \<Rightarrow> ('s, 'k, 'v) baseCache option" where
  "bc_Clear ops bc = do {
     kvs \<leftarrow> (if cg_OnEvicted (bc_Config bc) then bc_OrderedDo bc else Some []);
     Some (bc\<lparr>bc_ll := ll_init (bc_ll bc), bc_store := sto_init ops, bc_evicted := bc_evicted bc @ kvs\<rparr>) }"

definition bc_Len :: "('s, 'k) cacheStore \<Rightarrow> ('s, 'k, 'v) baseCache \<Rightarrow> int" where
  "bc_Len ops bc = sto_length ops (bc_store bc)"

text \<open>The stores of the unordered and the ordered cache.\<close>

definition mc_store :: "(('k, 'k) gomap, 'k) cacheStore" where
  "mc_store =
     \<lparr>sto_init = [], sto_get = map_of, sto_add = (\<lambda>s e. Some (AList.update e e s)),
      sto_del = (\<lambda>s k. Some (AList.delete k s)), sto_length = (\<lambda>s. int (length s))\<rparr>"

definition oc_store :: "('k::linorder llrb_tree, 'k) cacheStore" where
  "oc_store =
     \<lparr>sto_init = \<lparr>t_Root = Nil, t_Count = 0\<rparr>, sto_get = tree_Get, sto_add = tree_Insert, sto_del = tree_Delete,
      sto_length = tree_Len\<rparr>"

definition NewUnorderedCache :: "('k, 'v) cache_config \<Rightarrow> (('k, 'k) gomap, 'k, 'v) baseCache" where
  "NewUnorderedCache config = newBaseCache mc_store config"

definition NewOrderedCache :: "('k::linorder, 'v) cache_config \<Rightarrow> ('k llrb_tree, 'k, 'v) baseCache" where
  "NewOrderedCache config = newBaseCache oc_store config"

definition oc_Ceil :: "'k::linorder \<Rightarrow> ('k llrb_tree, 'k, 'v) baseCache \<Rightarrow> ('k \<times> 'v) option" where
  "oc_Ceil key oc =
     (case tree_Ceil (bc_store oc) key of Some e \<Rightarrow> map_option (Pair e) (bc_Value oc e) | None \<Rightarrow> None)"

definition oc_Floor :: "'k::linorder \<Rightarrow> ('k llrb_tree, 'k, 'v) baseCache \<Rightarrow> ('k \<times> 'v) option" where
  "oc_Floor key oc =
     (case tree_Floor (bc_store oc) key of Some e \<Rightarrow> map_option (Pair e) (bc_Value oc e) | None \<Rightarrow> None)"

definition oc_Do :: "('k::linorder llrb_tree, 'k, 'v) baseCache \<Rightarrow> ('k \<times> 'v) list option" where
  "oc_Do oc = those (map (\<lambda>k. map_option (Pair k) (bc_Value oc k)) (snd (tree_Do (\<lambda>_. False) (bc_store oc))))"

definition oc_DoRange ::
    "('k::linorder \<Rightarrow> 'v \<Rightarrow> bool) \<Rightarrow> 'k \<Rightarrow> 'k \<Rightarrow> ('k llrb_tree, 'k, 'v) baseCache \<Rightarrow> (bool \<times> 'k list) option" where
  "oc_DoRange f from to oc =
     tree_DoRange (\<lambda>k. case bc_Value oc k of Some v \<Rightarrow> f k v | None \<Rightarrow> False) from to (bc_store oc)"

section \<open>The eviction list\<close>

primrec chain :: "'k links \<Rightarrow> 'k addr \<Rightarrow> 'k addr list \<Rightarrow> 'k addr \<Rightarrow> bool" where
  "chain l a [] b \<longleftrightarrow> ln_next l a = Some b \<and> ln_prev l b = Some a"
| "chain l a (x # xs) b \<longleftrightarrow> ln_next l a = Some x \<and> ln_prev l x = Some a \<and> chain l x xs b"

definition linked :: "'k links \<Rightarrow> 'k list \<Rightarrow> bool" where
  "linked l ks \<longleftrightarrow> chain l Root (map At ks) Root \<and> distinct ks"

lemma chain_append: "chain l a (xs @ y # ys) b \<longleftrightarrow> chain l a xs y \<and> chain l y ys b"
  by (induction xs arbitrary: a) auto

lemma chain_cong:
  assumes "chain l a xs b" and "\<forall>x\<in>set (a # xs). ln_next l' x = ln_next l x" and "\<forall>x\<in>set (b # xs). ln_prev l' x = ln_prev l x"
  shows "chain l' a xs b"
  using assms by (induction xs arbitrary: a) auto

text \<open>The last node of a chain made to point to another end.\<close>

lemma chain_redirect:
  assumes "chain l a xs e" and "distinct (a # xs)"
    and "ln_next l' (last (a # xs)) = Some n" and "ln_prev l' n = Some (last (a # xs))"
    and "\<forall>x\<in>set (a # xs) - {last (a # xs)}. ln_next l' x = ln_next l x" and "\<forall>x\<in>set xs. ln_prev l' x = ln_prev l x"
  shows "chain l' a xs n"
  using assms
proof (induction xs arbitrary: a)
  case (Cons x xs)
  have "a \<noteq> last (x # xs)" using Cons.prems(2) by (metis distinct.simps(2) last_in_set list.distinct(1))
  then show ?case using Cons by auto
qed simp

lemma chain_last: "chain l a xs b \<Longrightarrow> ln_prev l b = Some (last (a # xs))"
  by (induction xs arbitrary: a) auto

lemma insertAfter_Root:
  assumes "linked l ks" and "k \<notin> set ks"
  obtains l' where "ll_insertAfter (At k) Root l = Some l'" and "linked l' (k # ks)"
proof (cases ks)
  case Nil
  then show thesis using that assms by (simp add: ll_insertAfter_def linked_def)
next
  case (Cons x xs)
  let ?l = "\<lparr>ln_next = (ln_next l)(Root := Some (At k), At k := Some (At x)), ln_prev = (ln_prev l)(At k := Some Root, At x := Some (At k))\<rparr>"
  have "chain l (At x) (map At xs) Root" "ln_next l Root = Some (At x)" using assms(1) Cons by (auto simp: linked_def)
  moreover from this(1) have "chain ?l (At x) (map At xs) Root"
    by (rule chain_cong) (use assms Cons in \<open>auto simp: linked_def\<close>)
  ultimately show thesis using that [of ?l] assms Cons by (simp add: ll_insertAfter_def linked_def)
qed

lemma remove_linked:
  assumes "linked l (xs @ k # ys)"
  obtains l' where "ll_remove (At k) l = Some l'" and "linked l' (xs @ ys)"
proof -
  let ?p = "last (Root # map At xs)" and ?n = "hd (map At ys @ [Root])"
  let ?l = "\<lparr>ln_next = (ln_next l)(?p := Some ?n, At k := None), ln_prev = (ln_prev l)(?n := Some ?p, At k := None)\<rparr>"
  have ch: "chain l Root (map At xs) (At k)" "chain l (At k) (map At ys) Root" and d: "distinct (xs @ k # ys)"
    using assms by (auto simp: linked_def chain_append)
  have "ln_prev l (At k) = Some ?p" "ln_next l (At k) = Some ?n"
    using chain_last [OF ch(1)] ch(2) by (cases ys; simp)+
  then have rm: "ll_remove (At k) l = Some ?l" by (simp add: ll_remove_def)
  have n: "\<forall>x\<in>set xs. At x \<noteq> ?n" "?n \<noteq> At k" using d by (cases ys; auto)+
  have p: "?p \<noteq> At k" "\<forall>y\<in>set ys. At y \<noteq> ?p" using d by (cases xs rule: rev_cases; auto)+
  have "chain ?l Root (map At xs) ?n"
    by (rule chain_redirect [OF ch(1)])
      (use d n p in \<open>auto simp: distinct_map inj_on_def\<close>)
  moreover have "chain ?l (At y) (map At zs) Root" if "ys = y # zs" for y zs
  proof (rule chain_cong)
    show "chain l (At y) (map At zs) Root" using ch(2) that by simp
  qed (use d that p in auto)
  ultimately have "linked ?l (xs @ ys)" using d by (cases ys) (auto simp: linked_def chain_append)
  then show thesis using that rm by blast
qed

lemma moveToFront_linked:
  assumes "linked l (xs @ k # ys)"
  obtains l' where "ll_moveToFront (At k) l = Some l'" and "linked l' (k # xs @ ys)"
proof (cases "ln_next l Root = Some (At k)")
  case True
  then have "xs = []" using assms by (cases xs) (auto simp: linked_def)
  then show thesis using that True assms by (simp add: ll_moveToFront_def)
next
  case False
  obtain l1 where l1: "ll_remove (At k) l = Some l1" "linked l1 (xs @ ys)" by (rule remove_linked [OF assms])
  have "k \<notin> set (xs @ ys)" using assms by (auto simp: linked_def)
  obtain l2 where "ll_insertAfter (At k) Root l1 = Some l2" "linked l2 (k # xs @ ys)"
    by (rule insertAfter_Root [OF l1(2) \<open>k \<notin> set (xs @ ys)\<close>])
  then show thesis using that False l1 by (simp add: ll_moveToFront_def)
qed

lemma back_linked: "linked l ks \<Longrightarrow> ll_back l = Some (if ks = [] then Root else At (last ks))"
  using chain_last [of l Root "map At ks" Root] by (auto simp: linked_def ll_back_def last_map)

lemma walk_chain: "chain l a (map At ks) b \<Longrightarrow> ll_walk l (last (a # map At ks)) = map_option ((@) (rev ks)) (ll_walk l a)"
proof (induction ks arbitrary: b rule: rev_induct)
  case (snoc k ks)
  then have "chain l a (map At ks) (At k)" by (simp add: chain_append)
  moreover from this have "ln_prev l (At k) = Some (last (a # map At ks))" by (rule chain_last)
  ultimately show ?case using snoc.IH [of "At k"] by (cases "ll_walk l a") (simp_all add: ll_walk.simps [of l "At k"])
qed (cases "ll_walk l a"; simp)

lemma walk_linked: "linked l ks \<Longrightarrow> ll_walk l (if ks = [] then Root else At (last ks)) = Some (rev ks)"
  using walk_chain [of l Root ks Root] by (auto simp: linked_def last_map ll_walk.simps [of l Root])

section \<open>The contract of a cache\<close>

text \<open>
  The content of a cache is the list of its keys and values, the most recently used or added first. A lookup under
  the LRU policy moves the key to the front; an eviction removes entries from the back of the list.
\<close>

definition remove_key :: "'k \<Rightarrow> ('k \<times> 'v) list \<Rightarrow> ('k \<times> 'v) list" where
  "remove_key k xs = filter (\<lambda>e. fst e \<noteq> k) xs"

definition touch :: "EvictionPolicy \<Rightarrow> 'k \<Rightarrow> 'v \<Rightarrow> ('k \<times> 'v) list \<Rightarrow> ('k \<times> 'v) list" where
  "touch pol k v xs =
     (if pol = CacheLRU then (k, v) # remove_key k xs else map (\<lambda>e. if fst e = k then (k, v) else e) xs)"

function evict_list :: "(int \<Rightarrow> 'k \<Rightarrow> 'v \<Rightarrow> bool) \<Rightarrow> ('k \<times> 'v) list \<Rightarrow> ('k \<times> 'v) list" where
  "evict_list f xs =
     (if xs \<noteq> [] \<and> f (int (length xs)) (fst (last xs)) (snd (last xs)) then evict_list f (butlast xs) else xs)"
  by pat_completeness auto
termination
  by (relation "measure (length \<circ> snd)") auto

declare evict_list.simps [simp del]

definition evicts :: "('k, 'v) cache_config \<Rightarrow> ('k \<times> 'v) list \<Rightarrow> ('k \<times> 'v) list" where
  "evicts cfg xs =
     (case cg_ShouldEvict cfg of None \<Rightarrow> xs | Some f \<Rightarrow> if cg_Policy cfg = CacheNone then xs else evict_list f xs)"

definition holds :: "('s \<Rightarrow> bool) \<Rightarrow> ('s \<Rightarrow> 'k set) \<Rightarrow> ('s, 'k, 'v) baseCache \<Rightarrow> ('k \<times> 'v) list \<Rightarrow> bool" where
  "holds ok keys bc xs \<longleftrightarrow> ok (bc_store bc) \<and> keys (bc_store bc) = fst ` set xs \<and> linked (bc_ll bc) (map fst xs)
     \<and> (\<forall>(k, v)\<in>set xs. bc_Value bc k = Some v)"

lemma length_evict_list: "length (evict_list f xs) \<le> length xs"
proof (induction f xs rule: evict_list.induct)
  case (1 f xs)
  then show ?case by (subst evict_list.simps) (auto dest: le_diff_conv [THEN iffD1])
qed

lemma evict_list_same:
  "evict_list f xs = xs \<longleftrightarrow> xs = [] \<or> \<not> f (int (length xs)) (fst (last xs)) (snd (last xs))"
proof -
  have "evict_list f (butlast xs) \<noteq> xs" if "xs \<noteq> []"
    using length_evict_list [of f "butlast xs"] that by (cases xs) auto
  then show ?thesis by (subst evict_list.simps) auto
qed

lemma remove_key_split: "distinct (map fst (xs @ (k, v) # ys)) \<Longrightarrow> remove_key k (xs @ (k, v) # ys) = xs @ ys"
proof -
  assume "distinct (map fst (xs @ (k, v) # ys))"
  then have "\<forall>e\<in>set (xs @ ys). fst e \<noteq> k" by force
  then show ?thesis by (simp add: remove_key_def)
qed

lemma touch_keys: "map fst (touch p k w xs) = map fst (touch p k v xs)"
  by (auto simp: touch_def)

lemma touch_gomap_keys: "fst ` set (touch p k w xs) = fst ` set (touch p k v xs)"
  using touch_keys [of p k w xs v] by (metis set_map)

lemma touch_values: "(k', v') \<in> set (touch p k v xs) \<Longrightarrow> if k' = k then v' = v else (k', v') \<in> set (touch p k w xs)"
  by (auto simp: touch_def remove_key_def split: if_splits)

lemma holds_distinct: "holds ok keys bc xs \<Longrightarrow> distinct (map fst xs)"
  by (simp add: holds_def linked_def)

locale cache_store =
  fixes ops :: "('s, 'k) cacheStore" and ok :: "'s \<Rightarrow> bool" and keys :: "'s \<Rightarrow> 'k set"
  assumes store_init: "ok (sto_init ops)" "keys (sto_init ops) = {}"
    and store_get: "ok s \<Longrightarrow> sto_get ops s k = (if k \<in> keys s then Some k else None)"
    and store_add: "ok s \<Longrightarrow> k \<notin> keys s \<Longrightarrow> \<exists>s'. sto_add ops s k = Some s' \<and> ok s' \<and> keys s' = insert k (keys s)"
    and store_del: "ok s \<Longrightarrow> \<exists>s'. sto_del ops s k = Some s' \<and> ok s' \<and> keys s' = keys s - {k}"
    and store_length: "ok s \<Longrightarrow> sto_length ops s = int (card (keys s))"
begin

lemma new_holds: "holds ok keys (newBaseCache ops config) []"
  by (simp add: holds_def newBaseCache_def store_init linked_def ll_init_def)

lemma get_key: "holds ok keys bc xs \<Longrightarrow> sto_get ops (bc_store bc) k = (if k \<in> fst ` set xs then Some k else None)"
  by (simp add: holds_def store_get)

lemma length_spec: "holds ok keys bc xs \<Longrightarrow> bc_Len ops bc = int (length xs)"
  using card_gomap_keys [OF holds_distinct] by (fastforce simp: holds_def bc_Len_def store_length)

lemma access_spec:
  assumes "holds ok keys bc xs" and "(k, v) \<in> set xs"
  obtains bc' where "bc_access k bc = Some bc'" and "bc_Config bc' = bc_Config bc" and "bc_Value bc' = bc_Value bc"
    and "bc_evicted bc' = bc_evicted bc" and "holds ok keys bc' (touch (cg_Policy (bc_Config bc)) k v xs)"
proof (cases "cg_Policy (bc_Config bc) = CacheLRU")
  case True
  obtain as bs where xs: "xs = as @ (k, v) # bs" using assms(2) by (meson split_list)
  have "linked (bc_ll bc) (map fst as @ k # map fst bs)" using assms(1) xs by (simp add: holds_def)
  then obtain l' where l': "ll_moveToFront (At k) (bc_ll bc) = Some l'" "linked l' (k # map fst as @ map fst bs)"
    by (rule moveToFront_linked)
  have "touch CacheLRU k v xs = (k, v) # as @ bs"
    using remove_key_split [of as k v bs] holds_distinct [OF assms(1)] xs by (simp add: touch_def)
  then have "holds ok keys (bc\<lparr>bc_ll := l'\<rparr>) (touch CacheLRU k v xs)"
    using assms(1) l'(2) xs by (auto simp: holds_def)
  then show thesis using that [of "bc\<lparr>bc_ll := l'\<rparr>"] True l'(1) by (simp add: bc_access_def)
next
  case False
  have "map (\<lambda>e. if fst e = k then (k, v) else e) xs = xs"
    using assms(2) holds_distinct [OF assms(1)] by (intro map_idI) (auto dest: eq_key_imp_eq_value)
  then show thesis using that [of bc] False assms(1) by (simp add: bc_access_def touch_def)
qed

lemma Get_spec:
  assumes "holds ok keys bc xs"
  shows "case map_of xs k of
      None \<Rightarrow> bc_Get ops k bc = Some (None, bc)
    | Some v \<Rightarrow> \<exists>bc'. bc_Get ops k bc = Some (Some v, bc') \<and> bc_Config bc' = bc_Config bc \<and> bc_evicted bc' = bc_evicted bc
        \<and> holds ok keys bc' (touch (cg_Policy (bc_Config bc)) k v xs)"
proof (cases "map_of xs k")
  case None
  then have "k \<notin> fst ` set xs" by (simp add: map_of_eq_None_keys)
  then show ?thesis using None get_key [OF assms, of k] by (simp add: bc_Get_def)
next
  case (Some v)
  then have "(k, v) \<in> set xs" by (rule map_of_SomeD)
  obtain bc' where "bc_access k bc = Some bc'" "bc_Config bc' = bc_Config bc" "bc_Value bc' = bc_Value bc"
    "bc_evicted bc' = bc_evicted bc" "holds ok keys bc' (touch (cg_Policy (bc_Config bc)) k v xs)"
    by (rule access_spec [OF assms \<open>(k, v) \<in> set xs\<close>])
  moreover have "k \<in> fst ` set xs" "bc_Value bc k = Some v" using \<open>(k, v) \<in> set xs\<close> assms by (force simp: holds_def)+
  ultimately show ?thesis using Some get_key [OF assms, of k] by (simp add: bc_Get_def)
qed

lemma remove_spec:
  assumes "holds ok keys bc xs" and "(k, v) \<in> set xs"
  obtains bc' where "bc_removeElement ops k bc = Some bc'" and "bc_Config bc' = bc_Config bc" and "holds ok keys bc' (remove_key k xs)"
    and "bc_evicted bc' = (if cg_OnEvicted (bc_Config bc) then bc_evicted bc @ [(k, v)] else bc_evicted bc)"
proof -
  obtain as bs where xs: "xs = as @ (k, v) # bs" using assms(2) by (meson split_list)
  have "linked (bc_ll bc) (map fst as @ k # map fst bs)" using assms(1) xs by (simp add: holds_def)
  then obtain l' where l': "ll_remove (At k) (bc_ll bc) = Some l'" "linked l' (map fst as @ map fst bs)"
    by (rule remove_linked)
  obtain s' where s': "sto_del ops (bc_store bc) k = Some s'" "ok s'" "keys s' = keys (bc_store bc) - {k}"
    using store_del [of "bc_store bc" k] assms(1) by (auto simp: holds_def)
  have rk: "remove_key k xs = as @ bs" using remove_key_split [of as k v bs] holds_distinct [OF assms(1)] xs by simp
  have "keys s' = fst ` set (remove_key k xs)" using s'(3) assms(1) by (auto simp: holds_def remove_key_def)
  moreover have "\<forall>(k, v)\<in>set (remove_key k xs). bc_Value bc k = Some v" "bc_Value bc k = Some v"
    using assms by (auto simp: holds_def remove_key_def)
  ultimately show thesis
    using that l' s' by (simp add: bc_removeElement_def holds_def rk)
qed

lemma Del_spec:
  assumes "holds ok keys bc xs"
  obtains bc' where "bc_Del ops k bc = Some bc'" and "bc_Config bc' = bc_Config bc" and "holds ok keys bc' (remove_key k xs)"
proof (cases "k \<in> fst ` set xs")
  case True
  then obtain v where "(k, v) \<in> set xs" by auto
  then obtain bc' where "bc_removeElement ops k bc = Some bc'" "bc_Config bc' = bc_Config bc" "holds ok keys bc' (remove_key k xs)"
    by (rule remove_spec [OF assms])
  then show thesis using that True get_key [OF assms, of k] by (simp add: bc_Del_def bc_DelEntry_def)
next
  case False
  then have "remove_key k xs = xs" by (force simp: remove_key_def intro: filter_True)
  then show thesis using that [of bc] False assms get_key [OF assms, of k] by (simp add: bc_Del_def bc_DelEntry_def)
qed

lemma evict_spec:
  assumes "holds ok keys bc xs"
  shows "if evicts (bc_Config bc) xs = xs then bc_evict ops bc = Some (False, bc)
    else \<exists>bc'. bc_evict ops bc = Some (True, bc') \<and> bc_Config bc' = bc_Config bc \<and> holds ok keys bc' (butlast xs)
      \<and> evicts (bc_Config bc) xs = evicts (bc_Config bc) (butlast xs)"
proof (cases "xs = [] \<or> cg_ShouldEvict (bc_Config bc) = None \<or> cg_Policy (bc_Config bc) = CacheNone")
  case True
  then show ?thesis using length_spec [OF assms]
    by (auto simp: bc_evict_def evicts_def evict_list_same bc_Len_def split: option.splits)
next
  case False
  then obtain f as k v where f: "cg_ShouldEvict (bc_Config bc) = Some f" and xs: "xs = as @ [(k, v)]"
    by (cases xs rule: rev_cases) auto
  have bk: "ll_back (bc_ll bc) = Some (At k)" "bc_Value bc k = Some v"
    using assms xs back_linked [of "bc_ll bc" "map fst xs"] by (auto simp: holds_def)
  have len: "sto_length ops (bc_store bc) = int (length xs)" using length_spec [OF assms] by (simp add: bc_Len_def)
  have ev: "evicts (bc_Config bc) ys = evict_list f ys" for ys using f False by (simp add: evicts_def)
  show ?thesis
  proof (cases "f (int (length xs)) k v")
    case True
    have "(k, v) \<in> set xs" using xs by simp
    then obtain bc' where "bc_removeElement ops k bc = Some bc'" "bc_Config bc' = bc_Config bc" "holds ok keys bc' (remove_key k xs)"
      by (rule remove_spec [OF assms])
    moreover have "remove_key k xs = butlast xs"
      using remove_key_split [of as k v "[]"] holds_distinct [OF assms] xs by simp
    moreover have "evict_list f xs \<noteq> xs" using True xs by (simp add: evict_list_same)
    moreover have "evict_list f xs = evict_list f (butlast xs)"
      using True xs by (subst evict_list.simps) simp
    ultimately show ?thesis using f False True bk len xs unfolding ev by (simp add: bc_evict_def)
  next
    case n: False
    then have "evict_list f xs = xs" using xs by (simp add: evict_list_same)
    then show ?thesis using f False n bk len xs unfolding ev by (simp add: bc_evict_def)
  qed
qed

lemma evict_all_spec:
  "holds ok keys bc xs \<Longrightarrow> \<exists>bc'. bc_evict_all ops bc = Some bc' \<and> bc_Config bc' = bc_Config bc \<and> holds ok keys bc' (evicts (bc_Config bc) xs)"
proof (induction "length xs" arbitrary: bc xs rule: less_induct)
  case less
  show ?case
  proof (cases "evicts (bc_Config bc) xs = xs")
    case True
    then show ?thesis using evict_spec [OF less.prems] less.prems by (simp add: bc_evict_all.simps [of ops bc])
  next
    case False
    then obtain bc' where b: "bc_evict ops bc = Some (True, bc')" "bc_Config bc' = bc_Config bc" "holds ok keys bc' (butlast xs)"
        "evicts (bc_Config bc) xs = evicts (bc_Config bc) (butlast xs)"
      using evict_spec [OF less.prems] by auto
    have "length (butlast xs) < length xs" using False by (cases xs) (auto simp: evicts_def evict_list_same split: option.splits if_splits)
    then show ?thesis using less.hyps [OF _ b(3)] b by (simp add: bc_evict_all.simps [of ops bc])
  qed
qed

lemma add_new_spec:
  assumes "holds ok keys bc xs" and "k \<notin> fst ` set xs"
  obtains bc' where "bc_add ops k v None bc = Some bc'" and "bc_Config bc' = bc_Config bc"
    and "holds ok keys bc' (evicts (bc_Config bc) ((k, v) # xs))"
proof -
  have "linked (bc_ll bc) (map fst xs)" "k \<notin> set (map fst xs)" using assms by (auto simp: holds_def)
  then obtain l' where l': "ll_insertAfter (At k) Root (bc_ll bc) = Some l'" "linked l' (k # map fst xs)"
    by (rule insertAfter_Root)
  obtain s' where s': "sto_add ops (bc_store bc) k = Some s'" "ok s'" "keys s' = insert k (keys (bc_store bc))"
    using store_add [of "bc_store bc" k] assms by (auto simp: holds_def)
  let ?bc = "bc\<lparr>bc_ll := l', bc_store := s', bc_Value := (bc_Value bc)(k \<mapsto> v)\<rparr>"
  have "\<forall>(k', v')\<in>set xs. bc_Value bc k' = Some v' \<and> k' \<noteq> k" using assms by (force simp: holds_def)
  then have "holds ok keys ?bc ((k, v) # xs)" using assms(1) l'(2) s' by (auto simp: holds_def)
  then obtain bc' where "bc_evict_all ops ?bc = Some bc'" "bc_Config bc' = bc_Config bc"
      "holds ok keys bc' (evicts (bc_Config bc) ((k, v) # xs))"
    using evict_all_spec [of ?bc "(k, v) # xs"] by auto
  then show thesis using that get_key [OF assms(1), of k] assms(2) l' s' by (simp add: bc_add_def ll_pushFront_def)
qed

lemma add_old_spec:
  assumes "holds ok keys bc xs" and "(k, w) \<in> set xs"
  obtains bc' where "bc_add ops k v after bc = Some bc'" and "bc_Config bc' = bc_Config bc"
    and "holds ok keys bc' (touch (cg_Policy (bc_Config bc)) k v xs)"
proof -
  obtain bc1 where b: "bc_access k bc = Some bc1" "bc_Config bc1 = bc_Config bc"
      "holds ok keys bc1 (touch (cg_Policy (bc_Config bc)) k w xs)"
    by (rule access_spec [OF assms])
  have "holds ok keys (bc1\<lparr>bc_Value := (bc_Value bc1)(k \<mapsto> v)\<rparr>) (touch (cg_Policy (bc_Config bc)) k v xs)"
    using b(3) unfolding holds_def
    by (auto simp: touch_gomap_keys [of _ k w xs v] touch_keys [of _ k w xs v] dest!: touch_values [of _ _ _ k v xs w] split: if_splits)
  moreover have "sto_get ops (bc_store bc) k = Some k" using get_key [OF assms(1), of k] assms(2) by force
  ultimately show thesis using that b by (simp add: bc_add_def)
qed

lemma OrderedDo_spec:
  assumes "holds ok keys bc xs"
  shows "bc_OrderedDo bc = Some (rev xs)"
proof -
  have "linked (bc_ll bc) (map fst xs)" using assms by (simp add: holds_def)
  then have "bc_OrderedDo bc = those (map (\<lambda>k. map_option (Pair k) (bc_Value bc k)) (rev (map fst xs)))"
    using back_linked walk_linked by (fastforce simp: bc_OrderedDo_def)
  also have "map (\<lambda>k. map_option (Pair k) (bc_Value bc k)) (rev (map fst xs)) = map Some (rev xs)"
    using assms by (auto simp: holds_def rev_map)
  also have "those (map Some ys) = Some ys" for ys :: "('k \<times> 'v) list" by (induction ys) auto
  finally show ?thesis by simp
qed

lemma Clear_spec:
  assumes "holds ok keys bc xs"
  obtains bc' where "bc_Clear ops bc = Some bc'" and "holds ok keys bc' []" and "bc_Config bc' = bc_Config bc"
    and "bc_evicted bc' = bc_evicted bc @ (if cg_OnEvicted (bc_Config bc) then rev xs else [])"
  using that OrderedDo_spec [OF assms]
  by (cases "cg_OnEvicted (bc_Config bc)") (simp_all add: bc_Clear_def holds_def store_init linked_def ll_init_def)

end

section \<open>The stores implement the contract\<close>

definition hash_ok :: "('k, 'k) gomap \<Rightarrow> bool" where
  "hash_ok s \<longleftrightarrow> gomap_ok s \<and> (\<forall>k e. map_of s k = Some e \<longrightarrow> k = e)"

interpretation mc: cache_store mc_store hash_ok gomap_keys
proof unfold_locales
  fix s :: "('k, 'k) gomap" and k
  assume ok: "hash_ok s"
  show "sto_get mc_store s k = (if k \<in> gomap_keys s then Some k else None)"
    using ok by (cases "map_of s k") (use map_of_keys_Some [of s k] in \<open>force simp: mc_store_def hash_ok_def map_of_eq_None_keys\<close>)+
  show "\<exists>s'. sto_del mc_store s k = Some s' \<and> hash_ok s' \<and> gomap_keys s' = gomap_keys s - {k}"
    using ok by (auto simp: mc_store_def hash_ok_def delete_conv')
  show "sto_length mc_store s = int (card (gomap_keys s))"
    using ok by (simp add: mc_store_def hash_ok_def card_gomap_keys)
  show "\<exists>s'. sto_add mc_store s k = Some s' \<and> hash_ok s' \<and> gomap_keys s' = insert k (gomap_keys s)"
    using ok by (auto simp: mc_store_def hash_ok_def)
qed (simp_all add: mc_store_def hash_ok_def)

interpretation oc: cache_store oc_store tree_ok "\<lambda>t. set (elements t)"
proof unfold_locales
  fix s :: "'k::linorder llrb_tree" and k
  assume ok: "tree_ok s"
  show "sto_get oc_store s k = (if k \<in> set (elements s) then Some k else None)"
    using tree_Get_spec [OF ok] by (simp add: oc_store_def)
  show "\<exists>s'. sto_del oc_store s k = Some s' \<and> tree_ok s' \<and> set (elements s') = set (elements s) - {k}"
    by (rule Delete_spec [OF ok, of k]) (auto simp: oc_store_def)
  show "sto_length oc_store s = int (card (set (elements s)))"
    using Len_spec [OF ok] ok by (simp add: oc_store_def tree_ok_def elements_def distinct_card ascending_distinct)
  show "\<exists>s'. sto_add oc_store s k = Some s' \<and> tree_ok s' \<and> set (elements s') = insert k (set (elements s))"
    by (rule Insert_spec [OF ok, of k]) (auto simp: oc_store_def set_ins_list)
qed (simp_all add: oc_store_def)

end
