(* ===== verification/Sessions.thy ===== *)
theory Sessions
  imports Cache ProtoWire "HOL-Library.Char_ord" "HOL-Library.List_Lexorder"
begin

text \<open>
  Client sessions. \<open>client/session.go\<close> is the session a client uses to number its proposals;
  \<open>internal/rsm/session.go\<close> the record of answered proposals that a replica keeps for a client;
  \<open>internal/rsm/lrusession.go\<close> the bounded store of these records, an ordered LRU cache, and its
  snapshot format; the \<open>SessionManager\<close> of \<open>internal/rsm/managedstatemachine.go\<close> the operations on them.

  A pointer to a session in the store is the client identifier of the session. \<open>json.Marshal\<close> writes a session as
  an object with the fields in the order of the struct, and a map with its keys sorted as strings; \<open>json.Unmarshal\<close> is modelled for texts of this form, and any other text as
  an error. A reader is the list of the bytes still to be read.
\<close>

unbundle bit_operations_syntax

section \<open>The session of a client\<close>

record client_session =
  cn_ClusterID :: u64
  cn_ClientID :: u64
  cn_SeriesID :: u64
  cn_RespondedTo :: u64

text \<open>\<open>rng i\<close> is the \<open>i\<close>-th number the random source delivers.\<close>

partial_function (option) NewSession :: "u64 \<Rightarrow> (nat \<Rightarrow> u64) \<Rightarrow> nat \<Rightarrow> client_session option" where
  "NewSession clusterID rng i =
     (let cid = rng i in
      if cid \<noteq> NotSessionManagedClientID
      then Some \<lparr>cn_ClusterID = clusterID, cn_ClientID = cid, cn_SeriesID = NoOPSeriesID + 1, cn_RespondedTo = 0\<rparr>
      else NewSession clusterID rng (Suc i))"

partial_function (option) NewNoOPSession :: "u64 \<Rightarrow> (nat \<Rightarrow> u64) \<Rightarrow> nat \<Rightarrow> client_session option" where
  "NewNoOPSession clusterID rng i =
     (let cid = rng i in
      if cid \<noteq> NotSessionManagedClientID
      then Some \<lparr>cn_ClusterID = clusterID, cn_ClientID = cid, cn_SeriesID = NoOPSeriesID, cn_RespondedTo = 0\<rparr>
      else NewNoOPSession clusterID rng (Suc i))"

definition ClusterIDMustMatch :: "u64 \<Rightarrow> client_session \<Rightarrow> unit option" where
  "ClusterIDMustMatch clusterID cn = (if cn_ClusterID cn \<noteq> clusterID then panic else Some ())"

definition assertRegularSession :: "client_session \<Rightarrow> unit option" where
  "assertRegularSession cn =
     (if cn_ClientID cn = NotSessionManagedClientID \<or> cn_SeriesID cn = NoOPSeriesID then panic else Some ())"

definition PrepareForRegister :: "client_session \<Rightarrow> client_session option" where
  "PrepareForRegister cn = do { _ \<leftarrow> assertRegularSession cn; Some (cn\<lparr>cn_SeriesID := SeriesIDForRegister\<rparr>) }"

definition PrepareForUnregister :: "client_session \<Rightarrow> client_session option" where
  "PrepareForUnregister cn = do { _ \<leftarrow> assertRegularSession cn; Some (cn\<lparr>cn_SeriesID := SeriesIDForUnregister\<rparr>) }"

definition PrepareForPropose :: "client_session \<Rightarrow> client_session option" where
  "PrepareForPropose cn = do { _ \<leftarrow> assertRegularSession cn; Some (cn\<lparr>cn_SeriesID := SeriesIDFirstProposal\<rparr>) }"

definition ProposalCompleted :: "client_session \<Rightarrow> client_session option" where
  "ProposalCompleted cn = do {
     _ \<leftarrow> assertRegularSession cn;
     if cn_SeriesID cn = cn_RespondedTo cn + 1
     then Some (cn\<lparr>cn_RespondedTo := cn_SeriesID cn, cn_SeriesID := cn_SeriesID cn + 1\<rparr>)
     else panic }"

definition ValidForProposal :: "u64 \<Rightarrow> client_session \<Rightarrow> bool option" where
  "ValidForProposal clusterID cn =
     (if cn_SeriesID cn = NoOPSeriesID \<and> cn_ClientID cn = NotSessionManagedClientID then Some False
      else if cn_ClusterID cn \<noteq> clusterID then Some False
      else if cn_ClientID cn = NotSessionManagedClientID then Some False
      else if cn_SeriesID cn = SeriesIDForRegister \<or> cn_SeriesID cn = SeriesIDForUnregister then Some False
      else if cn_RespondedTo cn > cn_SeriesID cn then panic
      else Some True)"

definition ValidForSessionOp :: "u64 \<Rightarrow> client_session \<Rightarrow> bool" where
  "ValidForSessionOp clusterID cn =
     (if cn_ClusterID cn \<noteq> clusterID then False
      else if cn_ClientID cn = NotSessionManagedClientID \<or> cn_SeriesID cn = NoOPSeriesID then False
      else if cn_SeriesID cn = SeriesIDForRegister \<or> cn_SeriesID cn = SeriesIDForUnregister then True
      else False)"

section \<open>The session a replica keeps\<close>

record session =
  sn_ClientID :: u64
  sn_RespondedUpTo :: u64
  sn_History :: "(u64, u64) gomap"

definition newSession :: "u64 \<Rightarrow> session" where
  "newSession cid = \<lparr>sn_ClientID = cid, sn_RespondedUpTo = 0, sn_History = []\<rparr>"

definition getResponse :: "session \<Rightarrow> u64 \<Rightarrow> u64 option" where
  "getResponse s sid = map_of (sn_History s) sid"

definition addResponse :: "u64 \<Rightarrow> u64 \<Rightarrow> session \<Rightarrow> session option" where
  "addResponse sid resp s =
     (case map_of (sn_History s) sid of
        None \<Rightarrow> Some (s\<lparr>sn_History := AList.update sid resp (sn_History s)\<rparr>)
      | Some _ \<Rightarrow> panic)"

definition clearTo :: "u64 \<Rightarrow> session \<Rightarrow> session" where
  "clearTo to s =
     (if to \<le> sn_RespondedUpTo s then s
      else if to = sn_RespondedUpTo s + 1
      then s\<lparr>sn_History := AList.delete to (sn_History s), sn_RespondedUpTo := to\<rparr>
      else s\<lparr>sn_RespondedUpTo := to, sn_History := filter (\<lambda>(k, v). \<not> k \<le> to) (sn_History s)\<rparr>)"

definition hasResponded :: "session \<Rightarrow> u64 \<Rightarrow> bool" where
  "hasResponded s sid \<longleftrightarrow> sid \<le> sn_RespondedUpTo s"

section \<open>The snapshot format of a session\<close>

fun put_le :: "nat \<Rightarrow> u64 \<Rightarrow> byte list" where
  "put_le 0 v = []"
| "put_le (Suc n) v = ucast v # put_le n (drop_bit 8 v)"

fun get_le :: "byte list \<Rightarrow> u64" where
  "get_le [] = 0"
| "get_le (b # bs) = ucast b OR push_bit 8 (get_le bs)"

definition PutUint64 :: "u64 \<Rightarrow> byte list" where
  "PutUint64 v = put_le 8 v"

datatype io_error = EOF | ErrUnexpectedEOF

definition ReadFull :: "nat \<Rightarrow> byte list \<Rightarrow> io_error + (byte list \<times> byte list)" where
  "ReadFull n bs =
     (if n \<le> length bs then Inr (take n bs, drop n bs)
      else if bs = [] then Inl EOF
      else Inl ErrUnexpectedEOF)"

text \<open>Decimal numbers.\<close>

definition digit :: "nat \<Rightarrow> char" where
  "digit n = char_of (48 + n)"

fun decimal :: "nat \<Rightarrow> string" where
  "decimal n = (if n < 10 then [digit n] else decimal (n div 10) @ [digit (n mod 10)])"

declare decimal.simps [simp del]

definition is_digit :: "char \<Rightarrow> bool" where
  "is_digit c \<longleftrightarrow> 48 \<le> (of_char c :: nat) \<and> (of_char c :: nat) \<le> 57"

definition digits_value :: "string \<Rightarrow> nat" where
  "digits_value ds = foldl (\<lambda>n c. 10 * n + (of_char c - 48)) 0 ds"

text \<open>A number without leading zeros that fits the type.\<close>

definition parse_uint64 :: "string \<Rightarrow> (u64 \<times> string) option" where
  "parse_uint64 t =
     (let ds = takeWhile is_digit t in
      if ds = [] \<or> (hd ds = digit 0 \<and> 1 < length ds) \<or> \<not> digits_value ds < 18446744073709551616 then None
      else Some (of_nat (digits_value ds), dropWhile is_digit t))"

definition quote :: string where
  "quote = [CHR 0x22]"

definition json_pair :: "u64 \<times> u64 \<Rightarrow> string" where
  "json_pair kv = quote @ decimal (unat (fst kv)) @ quote @ '':'' @ decimal (unat (snd kv))"

fun json_pairs :: "(u64 \<times> u64) list \<Rightarrow> string" where
  "json_pairs [] = []"
| "json_pairs [kv] = json_pair kv"
| "json_pairs (kv # kvs) = json_pair kv @ '','' @ json_pairs kvs"

definition json_Marshal :: "session \<Rightarrow> string" where
  "json_Marshal s =
     ''{'' @ quote @ ''ClientID'' @ quote @ '':'' @ decimal (unat (sn_ClientID s))
     @ '','' @ quote @ ''RespondedUpTo'' @ quote @ '':'' @ decimal (unat (sn_RespondedUpTo s))
     @ '','' @ quote @ ''History'' @ quote @ '':{''
     @ json_pairs (sort_key (\<lambda>kv. decimal (unat (fst kv))) (sn_History s)) @ ''}}''"

text \<open>\<open>expect p t\<close> drops the text \<open>p\<close> at the start of \<open>t\<close>.\<close>

definition expect :: "string \<Rightarrow> string \<Rightarrow> string option" where
  "expect p t = (if take (length p) t = p then Some (drop (length p) t) else None)"

definition parse_pair :: "string \<Rightarrow> ((u64 \<times> u64) \<times> string) option" where
  "parse_pair t = do {
     t \<leftarrow> expect quote t;
     (k, t) \<leftarrow> parse_uint64 t;
     t \<leftarrow> expect (quote @ '':'') t;
     (v, t) \<leftarrow> parse_uint64 t;
     Some ((k, v), t) }"

lemma expect_length: "expect p t = Some u \<Longrightarrow> length u = length t - length p"
  by (auto simp: expect_def split: if_splits)

lemma parse_uint64_length: "parse_uint64 t = Some (n, u) \<Longrightarrow> length u < length t"
proof -
  assume "parse_uint64 t = Some (n, u)"
  then have "takeWhile is_digit t \<noteq> []" "u = dropWhile is_digit t"
    by (auto simp: parse_uint64_def Let_def split: if_splits)
  moreover have "length t = length (takeWhile is_digit t) + length (dropWhile is_digit t)"
    by (metis length_append takeWhile_dropWhile_id)
  ultimately show ?thesis by simp
qed

lemma parse_pair_length: "parse_pair t = Some (kv, u) \<Longrightarrow> length u < length t"
  by (fastforce simp: parse_pair_def split: bind_splits dest!: expect_length parse_uint64_length)

function parse_pairs :: "string \<Rightarrow> (u64, u64) gomap \<Rightarrow> ((u64, u64) gomap \<times> string) option" where
  "parse_pairs t m =
     (case parse_pair t of
        None \<Rightarrow> None
      | Some ((k, v), t') \<Rightarrow>
          (case expect '','' t' of
             Some u \<Rightarrow> parse_pairs u (AList.update k v m)
           | None \<Rightarrow> Some (AList.update k v m, t')))"
  by pat_completeness auto
termination
  by (relation "measure (length \<circ> fst)") (auto dest!: parse_pair_length expect_length)

declare parse_pairs.simps [simp del]

definition json_Unmarshal :: "string \<Rightarrow> session \<Rightarrow> session option" where
  "json_Unmarshal t s = do {
     t \<leftarrow> expect (''{'' @ quote @ ''ClientID'' @ quote @ '':'') t;
     (cid, t) \<leftarrow> parse_uint64 t;
     t \<leftarrow> expect ('','' @ quote @ ''RespondedUpTo'' @ quote @ '':'') t;
     (to, t) \<leftarrow> parse_uint64 t;
     t \<leftarrow> expect ('','' @ quote @ ''History'' @ quote @ '':{'') t;
     (h, t) \<leftarrow> (if expect ''}'' t = None then parse_pairs t (sn_History s) else Some (sn_History s, t));
     t \<leftarrow> expect ''}}'' t;
     if t = [] then Some \<lparr>sn_ClientID = cid, sn_RespondedUpTo = to, sn_History = h\<rparr> else None }"

definition session_save :: "session \<Rightarrow> byte list" where
  "session_save s = (let data = str_bytes (json_Marshal s) in PutUint64 (of_nat (length data)) @ data)"

text \<open>A slice longer than the address space allows is a panic.\<close>

definition createSessionFromSnapshot :: "byte list \<Rightarrow> (io_error + (session \<times> byte list)) option" where
  "createSessionFromSnapshot reader =
     (case ReadFull 8 reader of
        Inl err \<Rightarrow> Some (Inl err)
      | Inr (lenbuf, reader) \<Rightarrow>
          let sz = unat (get_le lenbuf) in
          if 2 ^ 48 < sz then panic
          else case ReadFull sz reader of
            Inl err \<Rightarrow> Some (Inl err)
          | Inr (data, reader) \<Rightarrow> do {
              s \<leftarrow> json_Unmarshal (bytes_string data) (newSession 0);
              Some (Inr (s, reader)) })"

section \<open>The store of sessions\<close>

record lrusession =
  lru_size :: u64
  lru_sessions :: "(u64 llrb_tree, u64, session) baseCache"

definition lru_config :: "u64 \<Rightarrow> (u64, session) cache_config" where
  "lru_config n =
     \<lparr>cg_Policy = CacheLRU, cg_ShouldEvict = Some (\<lambda>l k v. of_int l > n), cg_OnEvicted = True\<rparr>"

definition newLRUSession :: "u64 \<Rightarrow> lrusession option" where
  "newLRUSession n =
     (if n = 0 then panic
      else Some \<lparr>lru_size = n, lru_sessions = NewOrderedCache (lru_config n)\<rparr>)"

definition getSession :: "u64 \<Rightarrow> lrusession \<Rightarrow> (session option \<times> lrusession) option" where
  "getSession key rec = do {
     (v, c) \<leftarrow> bc_Get oc_store key (lru_sessions rec);
     Some (v, rec\<lparr>lru_sessions := c\<rparr>) }"

definition addSession :: "u64 \<Rightarrow> session \<Rightarrow> lrusession \<Rightarrow> lrusession option" where
  "addSession key s rec = do {
     c \<leftarrow> bc_Add oc_store key s (lru_sessions rec);
     Some (rec\<lparr>lru_sessions := c\<rparr>) }"

definition delSession :: "u64 \<Rightarrow> lrusession \<Rightarrow> lrusession option" where
  "delSession key rec = do {
     c \<leftarrow> bc_Del oc_store key (lru_sessions rec);
     Some (rec\<lparr>lru_sessions := c\<rparr>) }"

text \<open>A change of the session behind the pointer that a lookup of \<open>key\<close> returned.\<close>

definition setSession :: "u64 \<Rightarrow> session \<Rightarrow> lrusession \<Rightarrow> lrusession" where
  "setSession key s rec =
     rec\<lparr>lru_sessions := (lru_sessions rec)\<lparr>bc_Value := (bc_Value (lru_sessions rec))(key \<mapsto> s)\<rparr>\<rparr>"

fun save_sessions :: "u64 list \<Rightarrow> lrusession \<Rightarrow> (byte list \<times> lrusession) option" where
  "save_sessions [] rec = Some ([], rec)"
| "save_sessions (key # keys) rec = do {
     (s, rec) \<leftarrow> getSession key rec;
     case s of
       None \<Rightarrow> panic
     | Some s \<Rightarrow> do {
         (bs, rec) \<leftarrow> save_sessions keys rec;
         Some (session_save s @ bs, rec) } }"

definition lru_save :: "lrusession \<Rightarrow> (byte list \<times> lrusession) option" where
  "lru_save rec = do {
     kvs \<leftarrow> bc_OrderedDo (lru_sessions rec);
     let idList = map fst kvs;
     (bs, rec) \<leftarrow> save_sessions idList rec;
     Some (PutUint64 (lru_size rec) @ PutUint64 (of_nat (length idList)) @ bs, rec) }"

fun read_sessions :: "nat \<Rightarrow> byte list \<Rightarrow> (io_error + (session list \<times> byte list)) option" where
  "read_sessions 0 reader = Some (Inr ([], reader))"
| "read_sessions (Suc n) reader = do {
     res \<leftarrow> createSessionFromSnapshot reader;
     case res of
       Inl err \<Rightarrow> Some (Inl err)
     | Inr (s, reader) \<Rightarrow> do {
         res \<leftarrow> read_sessions n reader;
         case res of
           Inl err \<Rightarrow> Some (Inl err)
         | Inr (ss, reader) \<Rightarrow> Some (Inr (s # ss, reader)) } }"

definition lru_load :: "byte list \<Rightarrow> lrusession \<Rightarrow> (io_error + (lrusession \<times> byte list)) option" where
  "lru_load reader rec =
     (case ReadFull 8 reader of
        Inl err \<Rightarrow> Some (Inl err)
      | Inr (sizebuf, reader) \<Rightarrow>
          let sz = get_le sizebuf in
          case ReadFull 8 reader of
            Inl err \<Rightarrow> Some (Inl err)
          | Inr (sizebuf, reader) \<Rightarrow>
              let total = get_le sizebuf in do {
                res \<leftarrow> read_sessions (unat total) reader;
                case res of
                  Inl err \<Rightarrow> Some (Inl err)
                | Inr (sessionList, reader) \<Rightarrow> do {
                    newRec \<leftarrow> newLRUSession sz;
                    let rec = rec\<lparr>lru_sessions := lru_sessions newRec, lru_size := sz\<rparr>;
                    rec \<leftarrow> go_fold (\<lambda>s rec. addSession (sn_ClientID s) s rec) sessionList rec;
                    Some (Inr (rec, reader)) } })"

section \<open>The session manager\<close>

definition LRUMaxSessionCount :: u64 where
  "LRUMaxSessionCount = 4096"

definition NewSessionManager :: "lrusession option" where
  "NewSessionManager = newLRUSession LRUMaxSessionCount"

definition UpdateRespondedTo :: "u64 \<Rightarrow> session \<Rightarrow> u64 \<Rightarrow> lrusession \<Rightarrow> session \<times> lrusession" where
  "UpdateRespondedTo key s respondedTo rec = (let s = clearTo respondedTo s in (s, setSession key s rec))"

definition RegisterClientID :: "u64 \<Rightarrow> lrusession \<Rightarrow> (u64 \<times> lrusession) option" where
  "RegisterClientID clientID rec = do {
     (es, rec) \<leftarrow> getSession clientID rec;
     case es of
       Some s \<Rightarrow> if sn_ClientID s \<noteq> clientID then panic else Some (0, rec)
     | None \<Rightarrow> do {
         rec \<leftarrow> addSession clientID (newSession clientID) rec;
         Some (clientID, rec) } }"

definition UnregisterClientID :: "u64 \<Rightarrow> lrusession \<Rightarrow> (u64 \<times> lrusession) option" where
  "UnregisterClientID clientID rec = do {
     (es, rec) \<leftarrow> getSession clientID rec;
     case es of
       None \<Rightarrow> Some (0, rec)
     | Some s \<Rightarrow>
         if sn_ClientID s \<noteq> clientID then panic
         else do {
           rec \<leftarrow> delSession clientID rec;
           Some (clientID, rec) } }"

definition ClientRegistered :: "u64 \<Rightarrow> lrusession \<Rightarrow> (session option \<times> lrusession) option" where
  "ClientRegistered clientID rec = do {
     (es, rec) \<leftarrow> getSession clientID rec;
     case es of
       Some s \<Rightarrow> if sn_ClientID s \<noteq> clientID then panic else Some (Some s, rec)
     | None \<Rightarrow> Some (None, rec) }"

text \<open>The result, whether the client was answered before, and whether an update is required.\<close>

definition UpdateRequired :: "session \<Rightarrow> u64 \<Rightarrow> u64 \<times> bool \<times> bool" where
  "UpdateRequired s seriesID =
     (if hasResponded s seriesID then (0, True, False)
      else case getResponse s seriesID of
        Some v \<Rightarrow> (v, False, False)
      | None \<Rightarrow> (0, False, True))"

definition MustHaveClientSeries :: "session \<Rightarrow> u64 \<Rightarrow> unit option" where
  "MustHaveClientSeries s seriesID = (if getResponse s seriesID \<noteq> None then panic else Some ())"

definition AddResponse :: "u64 \<Rightarrow> session \<Rightarrow> u64 \<Rightarrow> u64 \<Rightarrow> lrusession \<Rightarrow> lrusession option" where
  "AddResponse key s seriesID result rec = do {
     s \<leftarrow> addResponse seriesID result s;
     Some (setSession key s rec) }"

end
