(* ===== verification/SessionsSpec.thy ===== *)
theory SessionsSpec
  imports Sessions
begin

text \<open>
  The store of sessions against the list of its sessions, the most recently used first, and the snapshot
  format: a snapshot of the sessions read back gives the same sessions in the same order.
\<close>

section \<open>Numbers\<close>

lemma get_put_le: "get_le (put_le n v) = take_bit (8 * n) v"
proof (induction n arbitrary: v)
  case (Suc n)
  show ?case
    by (rule bit_word_eqI) (auto simp: Suc.IH bit_simps)
qed simp

lemma length_put_le [simp]: "length (put_le n v) = n"
  by (induction n arbitrary: v) auto

lemma length_PutUint64 [simp]: "length (PutUint64 v) = 8"
  by (simp add: PutUint64_def)

lemma get_PutUint64 [simp]: "get_le (PutUint64 v) = v"
  by (simp add: PutUint64_def get_put_le) (rule bit_word_eqI, simp add: bit_simps)

lemma ReadFull_append [simp]: "length bs = n \<Longrightarrow> ReadFull n (bs @ rest) = Inr (bs, rest)"
  by (simp add: ReadFull_def)

lemma of_char_digit: "n < 10 \<Longrightarrow> (of_char (digit n) :: nat) = 48 + n"
  by (simp add: digit_def)

lemma is_digit_digit: "n < 10 \<Longrightarrow> is_digit (digit n)"
  by (simp add: is_digit_def of_char_digit)

lemma decimal_digits: "c \<in> set (decimal n) \<Longrightarrow> is_digit c"
proof (induction n rule: decimal.induct)
  case (1 n)
  then show ?case
    by (subst (asm) decimal.simps) (auto simp: is_digit_digit split: if_splits)
qed

lemma decimal_value: "digits_value (decimal n) = n"
proof (induction n rule: decimal.induct)
  case (1 n)
  then show ?case
    by (subst decimal.simps) (auto simp: digits_value_def of_char_digit)
qed

lemma decimal_not_Nil [simp]: "decimal n \<noteq> []"
  by (subst decimal.simps) simp

lemma decimal_no_leading_zero: "1 < length (decimal n) \<Longrightarrow> hd (decimal n) \<noteq> digit 0"
proof (induction n rule: decimal.induct)
  case (1 n)
  show ?case
  proof (cases "n < 10")
    case True
    then show ?thesis using "1.prems" by (simp add: decimal.simps)
  next
    case False
    then have d: "decimal n = decimal (n div 10) @ [digit (n mod 10)]" by (simp add: decimal.simps)
    show ?thesis
    proof (cases "n div 10 < 10")
      case True
      then have "of_char (digit (n div 10)) \<noteq> (of_char (digit 0) :: nat)"
        using False by (simp add: of_char_digit)
      then show ?thesis using True d by (auto simp: decimal.simps [of "n div 10"])
    next
      case F: False
      then have "1 < length (decimal (n div 10))" by (simp add: decimal.simps [of "n div 10"])
      then show ?thesis using "1.IH" False d by simp
    qed
  qed
qed

text \<open>What may follow a number.\<close>

definition stops :: "string \<Rightarrow> bool" where
  "stops t \<longleftrightarrow> t = [] \<or> \<not> is_digit (hd t)"

lemma parse_decimal: "stops t \<Longrightarrow> parse_uint64 (decimal (unat v) @ t) = Some (v, t)"
proof -
  assume "stops t"
  then have "takeWhile is_digit (decimal (unat v) @ t) = decimal (unat v)" "dropWhile is_digit (decimal (unat v) @ t) = t"
    using decimal_digits by (cases t; force simp: stops_def takeWhile_append2 dropWhile_append2)+
  then show ?thesis
    using decimal_no_leading_zero [of "unat v"] by (auto simp: parse_uint64_def Let_def decimal_value)
qed

section \<open>The text of a session\<close>

lemma expect_append [simp]: "expect p (p @ t) = Some t"
  by (simp add: expect_def)

lemma stops_quote [simp]: "stops (quote @ t)" "stops (CHR '','' # t)" "stops (CHR ''}'' # t)" "stops (CHR '':'' # t)"
  by (simp_all add: stops_def quote_def is_digit_def)

lemma parse_json_pair: "stops t \<Longrightarrow> parse_pair (json_pair kv @ t) = Some (kv, t)"
  using parse_decimal [of "quote @ '':'' @ decimal (unat (snd kv)) @ t" "fst kv"] parse_decimal [of t "snd kv"]
    expect_append [of "quote @ '':''" "decimal (unat (snd kv)) @ t"]
  by (simp add: parse_pair_def json_pair_def)

lemma update_new: "k \<notin> fst ` set m \<Longrightarrow> AList.update k v m = m @ [(k, v)]"
  by (induction m) auto

lemma parse_json_pairs:
  assumes "kvs \<noteq> []" and "distinct (map fst kvs)" and "fst ` set kvs \<inter> fst ` set m = {}"
  shows "parse_pairs (json_pairs kvs @ ''}'' @ t) m = Some (m @ kvs, ''}'' @ t)"
  using assms
proof (induction kvs arbitrary: m rule: json_pairs.induct)
  case (2 kv)
  then show ?case
    using parse_json_pair [of "''}'' @ t" kv]
    by (subst parse_pairs.simps) (auto simp: expect_def update_new split: prod.splits)
next
  case (3 kv kv' kvs)
  have "parse_pair (json_pair kv @ '','' @ json_pairs (kv' # kvs) @ ''}'' @ t) = Some (kv, '','' @ json_pairs (kv' # kvs) @ ''}'' @ t)"
    by (rule parse_json_pair) simp
  moreover have "AList.update (fst kv) (snd kv) m = m @ [kv]" using "3.prems"(3) by (simp add: update_new)
  moreover have "parse_pairs (json_pairs (kv' # kvs) @ ''}'' @ t) (m @ [kv]) = Some ((m @ [kv]) @ kv' # kvs, ''}'' @ t)"
    using "3.prems" by (intro "3.IH") auto
  ultimately show ?case
    by (subst parse_pairs.simps) (auto simp: expect_def split: prod.splits)
qed simp

lemma json_pairs_quote: "kvs \<noteq> [] \<Longrightarrow> \<exists>u. json_pairs kvs = CHR 0x22 # u"
  by (cases kvs rule: json_pairs.cases) (auto simp: json_pair_def quote_def)

text \<open>The session with its history in the order the text has.\<close>

definition stored :: "session \<Rightarrow> session" where
  "stored s = s\<lparr>sn_History := sort_key (\<lambda>kv. decimal (unat (fst kv))) (sn_History s)\<rparr>"

definition session_ok :: "session \<Rightarrow> bool" where
  "session_ok s \<longleftrightarrow> gomap_ok (sn_History s) \<and> (\<forall>k\<in>gomap_keys (sn_History s). sn_RespondedUpTo s < k)"

lemma json_roundtrip:
  assumes "gomap_ok (sn_History s)"
  shows "json_Unmarshal (json_Marshal s) (newSession 0) = Some (stored s)"
proof -
  let ?h = "sort_key (\<lambda>kv. decimal (unat (fst kv))) (sn_History s)"
  let ?t3 = "'','' @ quote @ ''History'' @ quote @ '':{'' @ json_pairs ?h @ ''}}''"
  let ?t2 = "'','' @ quote @ ''RespondedUpTo'' @ quote @ '':'' @ decimal (unat (sn_RespondedUpTo s)) @ ?t3"
  let ?t1 = "''{'' @ quote @ ''ClientID'' @ quote @ '':'' @ decimal (unat (sn_ClientID s)) @ ?t2"
  have d: "distinct (map fst ?h)"
    using assms by (simp add: distinct_map)
  have e: "expect (''{'' @ quote @ ''ClientID'' @ quote @ '':'') ?t1 = Some (decimal (unat (sn_ClientID s)) @ ?t2)"
    "expect ('','' @ quote @ ''RespondedUpTo'' @ quote @ '':'') ?t2 = Some (decimal (unat (sn_RespondedUpTo s)) @ ?t3)"
    "expect ('','' @ quote @ ''History'' @ quote @ '':{'') ?t3 = Some (json_pairs ?h @ ''}}'')"
    by (simp_all add: expect_def quote_def)
  have p: "parse_uint64 (decimal (unat (sn_ClientID s)) @ ?t2) = Some (sn_ClientID s, ?t2)"
    "parse_uint64 (decimal (unat (sn_RespondedUpTo s)) @ ?t3) = Some (sn_RespondedUpTo s, ?t3)"
    by (rule parse_decimal; simp)+
  have h: "(if expect ''}'' (json_pairs ?h @ ''}}'') = None then parse_pairs (json_pairs ?h @ ''}}'') (sn_History (newSession 0))
      else Some (sn_History (newSession 0), json_pairs ?h @ ''}}'')) = Some (?h, ''}}'')"
  proof (cases "?h = []")
    case True
    then show ?thesis by (simp add: expect_def newSession_def)
  next
    case False
    moreover from this obtain u where "json_pairs ?h = CHR 0x22 # u" using json_pairs_quote by blast
    ultimately show ?thesis
      using parse_json_pairs [OF False d, of "[]" "''}''"] by (simp add: expect_def newSession_def)
  qed
  have x: "expect ''}}'' ''}}'' = Some []" by (simp add: expect_def)
  show ?thesis
    unfolding json_Unmarshal_def json_Marshal_def append_assoc
    by (simp only: e p h x Option.bind.simps prod.case if_True simp_thms) (simp add: stored_def)
qed

definition fits :: "session \<Rightarrow> bool" where
  "fits s \<longleftrightarrow> length (json_Marshal s) \<le> 2 ^ 48"

lemma create_saved:
  assumes "gomap_ok (sn_History s)" and "fits s"
  shows "createSessionFromSnapshot (session_save s @ rest) = Some (Inr (stored s, rest))"
proof -
  have "unat (of_nat (length (json_Marshal s)) :: u64) = length (json_Marshal s)"
    using assms(2) by (intro u64_of_nat) (simp add: fits_def)
  then show ?thesis
    using assms json_roundtrip [OF assms(1)]
    by (simp add: createSessionFromSnapshot_def session_save_def Let_def fits_def)
qed

lemma stored_simps [simp]: "sn_ClientID (stored s) = sn_ClientID s" "sn_RespondedUpTo (stored s) = sn_RespondedUpTo s"
  by (simp_all add: stored_def)

lemma map_of_stored: "gomap_ok (sn_History s) \<Longrightarrow> map_of (sn_History (stored s)) = map_of (sn_History s)"
  by (rule map_of_inject_set [THEN iffD2]) (simp_all add: stored_def distinct_map)

section \<open>The store of sessions\<close>

abbreviation cache_of :: "(u64 llrb_tree, u64, session) baseCache \<Rightarrow> (u64 \<times> session) list \<Rightarrow> bool" where
  "cache_of \<equiv> holds tree_ok (\<lambda>t. set (elements t))"

text \<open>The sessions in the store, the most recently used first.\<close>

definition lru_holds :: "lrusession \<Rightarrow> (u64 \<times> session) list \<Rightarrow> bool" where
  "lru_holds rec xs \<longleftrightarrow> cache_of (lru_sessions rec) xs \<and> bc_Config (lru_sessions rec) = lru_config (lru_size rec)
     \<and> length xs \<le> unat (lru_size rec) \<and> lru_size rec \<noteq> 0 \<and> lru_size rec \<noteq> max_u64
     \<and> (\<forall>(k, s)\<in>set xs. sn_ClientID s = k \<and> session_ok s)"

lemma lru_distinct: "lru_holds rec xs \<Longrightarrow> distinct (map fst xs)"
  unfolding lru_holds_def by (auto dest: holds_distinct)

abbreviation recent :: "u64 \<Rightarrow> session \<Rightarrow> (u64 \<times> session) list \<Rightarrow> (u64 \<times> session) list" where
  "recent k s xs \<equiv> (k, s) # remove_key k xs"

lemma new_lru: "n \<noteq> 0 \<Longrightarrow> n \<noteq> max_u64 \<Longrightarrow> \<exists>rec. newLRUSession n = Some rec \<and> lru_holds rec [] \<and> lru_size rec = n"
  using oc.new_holds [of "lru_config n"]
  by (simp add: newLRUSession_def lru_holds_def NewOrderedCache_def newBaseCache_def)

lemma length_remove_key: "(k, s) \<in> set xs \<Longrightarrow> length (remove_key k xs) < length xs"
  unfolding remove_key_def by (rule length_filter_less) auto

lemma getSession_spec:
  assumes "lru_holds rec xs"
  shows "case map_of xs k of
      None \<Rightarrow> getSession k rec = Some (None, rec)
    | Some s \<Rightarrow> \<exists>rec'. getSession k rec = Some (Some s, rec') \<and> lru_holds rec' (recent k s xs) \<and> lru_size rec' = lru_size rec"
proof -
  have c: "cache_of (lru_sessions rec) xs" using assms by (simp add: lru_holds_def)
  show ?thesis
  proof (cases "map_of xs k")
    case None
    then show ?thesis using oc.Get_spec [OF c, of k] by (simp add: getSession_def)
  next
    case (Some s)
    then have "(k, s) \<in> set xs" by (rule map_of_SomeD)
    obtain c' where "bc_Get oc_store k (lru_sessions rec) = Some (Some s, c')" "bc_Config c' = bc_Config (lru_sessions rec)"
        "cache_of c' (touch CacheLRU k s xs)"
      using oc.Get_spec [OF c, of k] Some assms by (auto simp: lru_holds_def lru_config_def)
    moreover have "length (recent k s xs) \<le> length xs" using length_remove_key [OF \<open>(k, s) \<in> set xs\<close>] by simp
    ultimately show ?thesis
      using Some assms \<open>(k, s) \<in> set xs\<close>
      by (auto simp: getSession_def lru_holds_def touch_def remove_key_def)
  qed
qed

lemma evicts_lru:
  assumes "length xs \<le> unat n" and "n \<noteq> max_u64" and "n \<noteq> 0"
  shows "evicts (lru_config n) (x # xs) = (if length xs < unat n then x # xs else x # butlast xs)"
proof -
  have w: "(of_int (int l) :: u64) > n \<longleftrightarrow> unat n < l" if "l \<le> unat n + 1" for l
  proof -
    have "l < 18446744073709551616" using that assms(2) u64_inc_neq_max [of n] by linarith
    then have "unat (of_int (int l) :: u64) = l" by (simp add: u64_of_nat)
    then show ?thesis by (simp add: word_less_nat_alt)
  qed
  have stop: "evict_list (\<lambda>l k v. of_int l > n) ys = ys" if "length ys \<le> unat n" for ys :: "(u64 \<times> session) list"
    using w [of "length ys"] that by (simp add: evict_list_same)
  show ?thesis
  proof (cases "length xs < unat n")
    case True
    then show ?thesis using stop [of "x # xs"] by (simp add: evicts_def lru_config_def)
  next
    case False
    then have "evict_list (\<lambda>l k v. of_int l > n) (x # xs) = evict_list (\<lambda>l k v. of_int l > n) (butlast (x # xs))"
      using w [of "length (x # xs)"] assms(1) by (subst evict_list.simps) auto
    also have "\<dots> = butlast (x # xs)" using assms(1) by (intro stop) simp
    also have "\<dots> = x # butlast xs" using False assms(3) by (auto simp: unat_eq_zero)
    finally show ?thesis using False by (simp add: evicts_def lru_config_def)
  qed
qed

lemma addSession_new:
  assumes "lru_holds rec xs" and "k \<notin> fst ` set xs" and "sn_ClientID s = k" and "session_ok s"
  obtains rec' where "addSession k s rec = Some rec'" and "lru_size rec' = lru_size rec"
    and "lru_holds rec' (if length xs < unat (lru_size rec) then (k, s) # xs else (k, s) # butlast xs)"
proof -
  let ?ys = "if length xs < unat (lru_size rec) then (k, s) # xs else (k, s) # butlast xs"
  have c: "cache_of (lru_sessions rec) xs" using assms(1) by (simp add: lru_holds_def)
  have ev: "evicts (bc_Config (lru_sessions rec)) ((k, s) # xs) = ?ys"
    using evicts_lru [of xs "lru_size rec" "(k, s)"] assms(1) by (simp add: lru_holds_def)
  obtain c' where "bc_add oc_store k s None (lru_sessions rec) = Some c'" "bc_Config c' = bc_Config (lru_sessions rec)"
      "cache_of c' ?ys"
    by (rule oc.add_new_spec [OF c assms(2), of s, unfolded ev])
  moreover have "length ?ys \<le> unat (lru_size rec)" "0 < unat (lru_size rec)"
    using assms(1) by (auto simp: lru_holds_def unat_gt_0)
  moreover have "\<forall>(k, s)\<in>set ?ys. sn_ClientID s = k \<and> session_ok s"
    using assms by (auto simp: lru_holds_def dest: in_set_butlastD)
  ultimately show thesis
    using that assms(1) by (simp add: addSession_def bc_Add_def lru_holds_def)
qed

lemma delSession_spec:
  assumes "lru_holds rec xs"
  obtains rec' where "delSession k rec = Some rec'" and "lru_size rec' = lru_size rec" and "lru_holds rec' (remove_key k xs)"
proof -
  have c: "cache_of (lru_sessions rec) xs" using assms by (simp add: lru_holds_def)
  obtain c' where "bc_Del oc_store k (lru_sessions rec) = Some c'" "bc_Config c' = bc_Config (lru_sessions rec)"
      "cache_of c' (remove_key k xs)"
    by (rule oc.Del_spec [OF c])
  moreover have "length (remove_key k xs) \<le> length xs" by (simp add: remove_key_def)
  then have "length (remove_key k xs) \<le> unat (lru_size rec)" using assms by (simp add: lru_holds_def)
  moreover have "\<forall>(k, s)\<in>set (remove_key k xs). sn_ClientID s = k \<and> session_ok s"
    using assms by (auto simp: lru_holds_def remove_key_def)
  ultimately show thesis
    using that assms by (simp add: delSession_def lru_holds_def)
qed

lemma setSession_spec:
  assumes "lru_holds rec ((k, s) # xs)" and "sn_ClientID s' = k" and "session_ok s'"
  shows "lru_holds (setSession k s' rec) ((k, s') # xs) \<and> lru_size (setSession k s' rec) = lru_size rec"
proof -
  have c: "cache_of (lru_sessions rec) ((k, s) # xs)" using assms(1) by (simp add: lru_holds_def)
  have "k \<notin> fst ` set xs" using holds_distinct [OF c] by simp
  then have "\<forall>(k', v)\<in>set xs. k' \<noteq> k \<and> bc_Value (lru_sessions rec) k' = Some v" using c by (force simp: holds_def)
  then have "cache_of (lru_sessions (setSession k s' rec)) ((k, s') # xs)"
    using c by (auto simp: holds_def setSession_def)
  then show ?thesis
    using assms by (simp add: lru_holds_def setSession_def)
qed

section \<open>Snapshots of the store\<close>

lemma session_ok_stored: "session_ok s \<Longrightarrow> session_ok (stored s)"
  by (simp add: session_ok_def stored_def distinct_map)

text \<open>Saving looks up the sessions from the least recently used to the most recently used one, and
  thus leaves their order as it was.\<close>

lemma save_sessions_spec:
  "lru_holds rec (rev ps @ rev rs) \<Longrightarrow> \<exists>rec'. save_sessions (map fst rs) rec = Some (concat (map (session_save \<circ> snd) rs), rec')
     \<and> lru_holds rec' (rev (ps @ rs)) \<and> lru_size rec' = lru_size rec"
proof (induction rs arbitrary: ps rec)
  case Nil
  then show ?case by simp
next
  case (Cons kv rs)
  obtain k s where kv: "kv = (k, s)" by fastforce
  have d: "distinct (map fst (rev ps @ rev rs @ [(k, s)]))"
    using lru_distinct [OF Cons.prems] kv by simp
  then have m: "map_of (rev ps @ rev (kv # rs)) k = Some s" unfolding kv by (intro map_of_is_SomeI) auto
  have "remove_key k (rev ps @ rev (kv # rs)) = rev ps @ rev rs"
    using remove_key_split [of "rev ps @ rev rs" k s "[]"] d kv by simp
  then obtain rec1 where g: "getSession k rec = Some (Some s, rec1)" "lru_holds rec1 (rev (ps @ [(k, s)]) @ rev rs)"
      "lru_size rec1 = lru_size rec"
    using getSession_spec [OF Cons.prems, of k, unfolded m] by auto
  show ?case using Cons.IH [OF g(2)] g kv by auto
qed

lemma load_sessions_spec:
  "lru_holds rec xs \<Longrightarrow> distinct (map sn_ClientID ss @ map fst xs) \<Longrightarrow> length ss + length xs \<le> unat (lru_size rec)
    \<Longrightarrow> \<forall>s\<in>set ss. session_ok s \<Longrightarrow>
   \<exists>rec'. go_fold (\<lambda>s rec. addSession (sn_ClientID s) s rec) ss rec = Some rec'
     \<and> lru_holds rec' (rev (map (\<lambda>s. (sn_ClientID s, s)) ss) @ xs) \<and> lru_size rec' = lru_size rec"
proof (induction ss arbitrary: rec xs)
  case (Cons s ss)
  have "sn_ClientID s \<notin> fst ` set xs" "session_ok s" "length xs < unat (lru_size rec)" using Cons.prems by auto
  then obtain rec1 where r: "addSession (sn_ClientID s) s rec = Some rec1" "lru_size rec1 = lru_size rec"
      "lru_holds rec1 ((sn_ClientID s, s) # xs)"
    using addSession_new [OF Cons.prems(1), of "sn_ClientID s" s] by auto
  show ?case using Cons.IH [OF r(3)] Cons.prems r by auto
qed simp

lemma read_saved:
  "\<forall>s\<in>set ss. gomap_ok (sn_History s) \<and> fits s \<Longrightarrow>
   read_sessions (length ss) (concat (map session_save ss) @ rest) = Some (Inr (map stored ss, rest))"
  by (induction ss) (auto simp: create_saved)

lemma save_spec:
  assumes "lru_holds rec xs"
  obtains rec' where "lru_save rec = Some (PutUint64 (lru_size rec) @ PutUint64 (of_nat (length xs))
      @ concat (map session_save (map snd (rev xs))), rec')"
    and "lru_holds rec' xs" and "lru_size rec' = lru_size rec"
proof -
  have "bc_OrderedDo (lru_sessions rec) = Some (rev xs)" using assms by (intro oc.OrderedDo_spec) (simp add: lru_holds_def)
  moreover obtain rec' where "save_sessions (map fst (rev xs)) rec = Some (concat (map (session_save \<circ> snd) (rev xs)), rec')"
      "lru_holds rec' xs" "lru_size rec' = lru_size rec"
    using save_sessions_spec [of rec "[]" "rev xs"] assms by auto
  ultimately show thesis using that by (simp add: lru_save_def)
qed

lemma load_spec:
  assumes "lru_holds rec xs" and "\<forall>(k, s)\<in>set xs. fits s"
  shows "\<exists>rec2. lru_load (PutUint64 (lru_size rec) @ PutUint64 (of_nat (length xs))
      @ concat (map session_save (map snd (rev xs))) @ rest) rec0 = Some (Inr (rec2, rest))
    \<and> lru_holds rec2 (map (\<lambda>(k, s). (k, stored s)) xs) \<and> lru_size rec2 = lru_size rec"
proof -
  let ?ss = "map snd (rev xs)"
  obtain new where n: "newLRUSession (lru_size rec) = Some new" "lru_holds new []" "lru_size new = lru_size rec"
    using new_lru [of "lru_size rec"] assms(1) by (auto simp: lru_holds_def)
  have len: "unat (of_nat (length xs) :: u64) = length ?ss"
    using assms(1) by (simp add: lru_holds_def) (rule u64_of_nat, use unat_u64_bound [of "lru_size rec"] in linarith)
  have "read_sessions (length ?ss) (concat (map session_save ?ss) @ rest) = Some (Inr (map stored ?ss, rest))"
    using assms by (intro read_saved) (auto simp: lru_holds_def session_ok_def)
  moreover have ids: "map (\<lambda>s. (sn_ClientID s, s)) (map stored ?ss) = rev (map (\<lambda>(k, s). (k, stored s)) xs)"
    using assms(1) by (auto simp: lru_holds_def rev_map)
  moreover have "map fst (map (\<lambda>s. (sn_ClientID s, s)) (map stored ?ss)) = rev (map fst xs)"
    unfolding ids by (simp add: rev_map split_def o_def)
  then have "distinct (map sn_ClientID (map stored ?ss))"
    using lru_distinct [OF assms(1)] by (simp add: o_def)
  then have "\<exists>rec'. go_fold (\<lambda>s rec. addSession (sn_ClientID s) s rec) (map stored ?ss) new = Some rec'
      \<and> lru_holds rec' (rev (map (\<lambda>s. (sn_ClientID s, s)) (map stored ?ss)) @ []) \<and> lru_size rec' = lru_size new"
    using assms(1) n by (intro load_sessions_spec) (auto simp: lru_holds_def intro!: session_ok_stored)
  moreover have r0: "rec0\<lparr>lru_sessions := lru_sessions new, lru_size := lru_size rec\<rparr> = new" using n(3) by simp
  ultimately show ?thesis using n len unfolding ids by (auto simp: lru_load_def r0)
qed

end
