(* ===== verification/ProtoDecode.thy ===== *)
theory ProtoDecode
  imports ProtoWire
begin

text \<open>
  \<open>ConfigChange.Unmarshal\<close> and \<open>skipRaft\<close> of \<open>raftpb/raft.pb.go\<close>, and the loop its generated \<open>Unmarshal\<close> methods share. Positions are Go \<open>int\<close>s and wrap around at 64 bits, slices and
  indices are checked. An \<open>int32\<close> field takes the low 32 bits of the number.
\<close>

section \<open>Definitions\<close>

datatype proto_error = ErrIntOverflowRaft | ErrUnexpectedEOF | ErrInvalidLengthRaft | ErrProto
  | ColferMax | ColferError nat | ErrEOF

definition go_int :: "int \<Rightarrow> int" where
  "go_int i = sint (word_of_int i :: 64 word)"

text \<open>The loop that reads a varint: the number and the position after it.\<close>

function varint :: "byte list \<Rightarrow> int \<Rightarrow> nat \<Rightarrow> u64 \<Rightarrow> (proto_error + (u64 \<times> int)) option" where
  "varint dAtA i shift v =
     (if shift \<ge> 64 then Some (Inl ErrIntOverflowRaft)
      else if i \<ge> int (length dAtA) then Some (Inl ErrUnexpectedEOF)
      else if i < 0 then panic
      else
        let b = dAtA ! nat i;
            v = v OR push_bit shift (ucast b AND 0x7F)
        in if b < 0x80 then Some (Inr (v, i + 1)) else varint dAtA (i + 1) (shift + 7) v)"
  by pat_completeness auto
termination
  by (relation "measure (\<lambda>(dAtA, i, shift, v). 64 - shift)") auto

declare varint.simps [simp del]

lemma varint_position:
  "varint dAtA i shift v = Some (Inr (w, j)) \<Longrightarrow> i < j \<and> 0 \<le> i \<and> i < int (length dAtA)"
proof (induction dAtA i shift v rule: varint.induct)
  case (1 dAtA i shift v)
  show ?case
    using "1.prems" by (subst (asm) varint.simps) (fastforce simp: Let_def split: if_splits dest: "1.IH")
qed

lemma group_measure: "xs \<noteq> [] \<Longrightarrow> 0 < b \<Longrightarrow> Suc (2 * (length xs - nat b)) < 2 * length xs"
proof -
  assume "xs \<noteq> []" "0 < b"
  then have "0 < length xs" "0 < nat b" by simp_all
  then show ?thesis by linarith
qed

function skipRaft :: "byte list \<Rightarrow> (proto_error + int) option"
  and skipGroup :: "byte list \<Rightarrow> int \<Rightarrow> (proto_error + int) option" where
  "skipRaft dAtA =
     (if dAtA = [] then panic
      else case varint dAtA 0 0 0 of
        None \<Rightarrow> panic
      | Some (Inl err) \<Rightarrow> Some (Inl err)
      | Some (Inr (wire, i)) \<Rightarrow>
          let wireType = wire AND 0x7 in
          if wireType = 0 then
            (case varint dAtA i 0 0 of
               None \<Rightarrow> panic
             | Some (Inl err) \<Rightarrow> Some (Inl err)
             | Some (Inr (_, i)) \<Rightarrow> Some (Inr i))
          else if wireType = 1 then Some (Inr (go_int (i + 8)))
          else if wireType = 2 then
            (case varint dAtA i 0 0 of
               None \<Rightarrow> panic
             | Some (Inl err) \<Rightarrow> Some (Inl err)
             | Some (Inr (len, i)) \<Rightarrow>
                 if sint len < 0 then Some (Inl ErrInvalidLengthRaft) else Some (Inr (go_int (i + sint len))))
          else if wireType = 3 then skipGroup dAtA i
          else if wireType = 4 then Some (Inr i)
          else if wireType = 5 then Some (Inr (go_int (i + 4)))
          else Some (Inl ErrProto))"
| "skipGroup dAtA i =
     (case varint dAtA i 0 0 of
        None \<Rightarrow> panic
      | Some (Inl err) \<Rightarrow> Some (Inl err)
      | Some (Inr (innerWire, j)) \<Rightarrow>
          if (innerWire AND 0x7) = 4 then Some (Inr j)
          else case skipRaft (drop (nat i) dAtA) of
            None \<Rightarrow> panic
          | Some (Inl err) \<Rightarrow> Some (Inl err)
          | Some (Inr k) \<Rightarrow> if k \<le> 0 then panic else skipGroup dAtA (i + k))"
  by pat_completeness auto
termination
  by (relation "measure (\<lambda>x. case x of Inl d \<Rightarrow> 2 * length d + 1 | Inr (d, i) \<Rightarrow> 2 * (length d - nat i) + 2)")
    (auto dest!: varint_position intro!: group_measure)

declare skipRaft.simps [simp del] skipGroup.simps [simp del]

text \<open>One \<open>case\<close> of the \<open>switch\<close> over the field numbers: a number, or a length in front of the content. Every
  generated \<open>Unmarshal\<close> has the same loop around its own \<open>switch\<close>. The code for a content gets the data, the
  position of the content and the position behind it.\<close>

datatype 'm field =
    Num "u64 \<Rightarrow> 'm \<Rightarrow> 'm"
  | Content "byte list \<Rightarrow> int \<Rightarrow> int \<Rightarrow> 'm \<Rightarrow> (proto_error + 'm) option"

type_synonym 'm fields = "32 word \<Rightarrow> 'm field option"

definition read_length :: "byte list \<Rightarrow> int \<Rightarrow> (proto_error + (int \<times> int)) option" where
  "read_length dAtA i =
     (case varint dAtA i 0 0 of
        None \<Rightarrow> panic
      | Some (Inl err) \<Rightarrow> Some (Inl err)
      | Some (Inr (len, i)) \<Rightarrow>
          if sint len < 0 then Some (Inl ErrInvalidLengthRaft)
          else
            let postIndex = go_int (i + sint len) in
            if postIndex > int (length dAtA) then Some (Inl ErrUnexpectedEOF) else Some (Inr (i, postIndex)))"

text \<open>The usual content: the bytes \<open>dAtA[iNdEx:postIndex]\<close>.\<close>

definition slice_content ::
  "(byte list \<Rightarrow> 'm \<Rightarrow> (proto_error + 'm) option) \<Rightarrow> byte list \<Rightarrow> int \<Rightarrow> int \<Rightarrow> 'm \<Rightarrow> (proto_error + 'm) option" where
  "slice_content g dAtA i postIndex m =
     (if postIndex < i then panic
      else do {
        bs \<leftarrow> go_slice dAtA (nat i) (nat postIndex);
        g bs m })"

definition skip_field :: "byte list \<Rightarrow> int \<Rightarrow> int \<Rightarrow> (proto_error + int) option" where
  "skip_field dAtA preIndex end_pos =
     (case skipRaft (drop (nat preIndex) dAtA) of
        None \<Rightarrow> panic
      | Some (Inl err) \<Rightarrow> Some (Inl err)
      | Some (Inr skippy) \<Rightarrow>
          if skippy < 0 then Some (Inl ErrInvalidLengthRaft)
          else if go_int (preIndex + skippy) > end_pos then Some (Inl ErrUnexpectedEOF)
          else Some (Inr (go_int (preIndex + skippy))))"

text \<open>One turn of the loop: the field at position \<open>preIndex\<close>.\<close>

definition unmarshal_field :: "'m fields \<Rightarrow> byte list \<Rightarrow> int \<Rightarrow> 'm \<Rightarrow> (proto_error + (int \<times> 'm)) option" where
  "unmarshal_field F dAtA preIndex m =
     (case varint dAtA preIndex 0 0 of
        None \<Rightarrow> panic
      | Some (Inl err) \<Rightarrow> Some (Inl err)
      | Some (Inr (wire, i)) \<Rightarrow>
          let fieldNum = (ucast (drop_bit 3 wire) :: 32 word); wireType = wire AND 0x7 in
          if wireType = 4 then Some (Inl ErrProto)
          else if sint fieldNum \<le> 0 then Some (Inl ErrProto)
          else case F fieldNum of
            Some (Num f) \<Rightarrow>
              if wireType \<noteq> 0 then Some (Inl ErrProto)
              else (case varint dAtA i 0 0 of
                  None \<Rightarrow> panic
                | Some (Inl err) \<Rightarrow> Some (Inl err)
                | Some (Inr (v, i)) \<Rightarrow> Some (Inr (i, f v m)))
          | Some (Content f) \<Rightarrow>
              if wireType \<noteq> 2 then Some (Inl ErrProto)
              else (case read_length dAtA i of
                  None \<Rightarrow> panic
                | Some (Inl err) \<Rightarrow> Some (Inl err)
                | Some (Inr (i, postIndex)) \<Rightarrow>
                    (case f dAtA i postIndex m of
                       None \<Rightarrow> panic
                     | Some (Inl err) \<Rightarrow> Some (Inl err)
                     | Some (Inr m) \<Rightarrow> Some (Inr (postIndex, m))))
          | None \<Rightarrow> map_option (map_sum id (\<lambda>i. (i, m))) (skip_field dAtA preIndex (int (length dAtA))))"

partial_function (option) unmarshal_loop :: "'m fields \<Rightarrow> byte list \<Rightarrow> int \<Rightarrow> 'm \<Rightarrow> (proto_error + 'm) option" where
  "unmarshal_loop F dAtA i m =
     (if i < int (length dAtA) then
        (case unmarshal_field F dAtA i m of
           None \<Rightarrow> panic
         | Some (Inl err) \<Rightarrow> Some (Inl err)
         | Some (Inr (j, m)) \<Rightarrow> unmarshal_loop F dAtA j m)
      else Some (Inr m))"

section \<open>Config changes\<close>

definition int32_type :: "32 word \<Rightarrow> config_change_type option" where
  "int32_type t = (if t = 0 then Some AddNode else if t = 1 then Some RemoveNode else if t = 2 then Some AddObserver else None)"

text \<open>The message under construction: its \<open>Type\<close> field may hold any \<open>int32\<close>.\<close>

record cc_raw =
  raw_ConfigChangeId :: u64
  raw_Type :: "32 word"
  raw_NodeID :: u64
  raw_Address :: string
  raw_Initialize :: bool

definition cc_zero :: cc_raw where
  "cc_zero = \<lparr>raw_ConfigChangeId = 0, raw_Type = 0, raw_NodeID = 0, raw_Address = [], raw_Initialize = False\<rparr>"

definition ConfigChange_fields :: "cc_raw fields" where
  "ConfigChange_fields fieldNum =
     (if fieldNum = 1 then Some (Num (\<lambda>v m. m\<lparr>raw_ConfigChangeId := v\<rparr>))
      else if fieldNum = 2 then Some (Num (\<lambda>v m. m\<lparr>raw_Type := ucast v\<rparr>))
      else if fieldNum = 3 then Some (Num (\<lambda>v m. m\<lparr>raw_NodeID := v\<rparr>))
      else if fieldNum = 4 then Some (Content (slice_content (\<lambda>bs m. Some (Inr (m\<lparr>raw_Address := bytes_string bs\<rparr>)))))
      else if fieldNum = 5 then Some (Num (\<lambda>v m. m\<lparr>raw_Initialize := (v \<noteq> 0)\<rparr>))
      else None)"

definition ConfigChange_Unmarshal :: "byte list \<Rightarrow> (proto_error + cc_raw) option" where
  "ConfigChange_Unmarshal dAtA = unmarshal_loop ConfigChange_fields dAtA 0 cc_zero"

section \<open>Decoding what was encoded\<close>

lemma varint_byte: "0 \<le> i \<Longrightarrow> i < int (length dAtA) \<Longrightarrow> shift < 64 \<Longrightarrow> varint dAtA i shift v =
    (let b = dAtA ! nat i; v = v OR push_bit shift (ucast b AND 0x7F)
     in if b < 0x80 then Some (Inr (v, i + 1)) else varint dAtA (i + 1) (shift + 7) v)"
  by (subst varint.simps) simp

lemma byte_high: "(b :: byte) < 0x80 \<longleftrightarrow> \<not> bit b 7"
proof -
  have "bit b 7 \<longleftrightarrow> bit (unat b) 7" by (simp add: bit_unsigned_iff)
  also have "\<dots> \<longleftrightarrow> odd (unat b div 128)" by (simp add: bit_iff_odd)
  also have "\<dots> \<longleftrightarrow> \<not> unat b < 128" 
  proof -
    have "unat b < 2 ^ LENGTH(8)" by (rule unsigned_less)
    then have "unat b div 128 < 2" by (simp add: div_less_iff_less_mult)
    then show ?thesis by (auto simp: less_2_cases_iff div_eq_0_iff)
  qed
  finally show ?thesis by (simp add: word_less_nat_alt)
qed

lemma mask_7: "(0x7F :: u64) = mask 7"
  by (simp add: mask_eq_exp_minus_1)

lemma bit_128: "bit (0x80 :: u64) n \<longleftrightarrow> n = 7"
proof -
  have "bit (2 ^ 7 :: u64) n \<longleftrightarrow> n = 7" by (subst bit_exp_iff) auto
  then show ?thesis by simp
qed

lemma byte_with_high:
  assumes "\<And>n. bit (h :: u64) n \<longleftrightarrow> n = 7"
  shows "ucast (ucast (v AND mask 7 OR h) :: byte) AND mask 7 = v AND mask 7"
  by (rule bit_word_eqI) (auto simp: bit_simps assms)


lemma varint_bytes:
  "\<not> (ucast (v AND 0x7f OR 0x80 :: u64) :: byte) < 0x80"
  "ucast (ucast (v AND 0x7f OR 0x80 :: u64) :: byte) AND 0x7F = (v AND 0x7f :: u64)"
  "v < 128 \<Longrightarrow> (ucast v :: byte) < 0x80 \<and> ucast (ucast v :: byte) AND 0x7F = (v :: u64)"
proof -
  show "\<not> (ucast (v AND 0x7f OR 0x80 :: u64) :: byte) < 0x80"
    unfolding byte_high mask_7 by (simp add: bit_simps bit_128)
  show "ucast (ucast (v AND 0x7f OR 0x80 :: u64) :: byte) AND 0x7F = (v AND 0x7f :: u64)"
    unfolding mask_7 by (rule byte_with_high [OF bit_128])
  assume "v < 128"
  then have "drop_bit 7 v = 0" by (simp add: drop_bit_7_zero)
  then have z: "\<not> bit v (7 + n)" for n using bit_drop_bit_eq [of 7 v] by (simp add: fun_eq_iff)
  have b: "bit v n \<Longrightarrow> n < 7" for n using z [of "n - 7"] by (cases "n < 7") simp_all
  show "(ucast v :: byte) < 0x80 \<and> ucast (ucast v :: byte) AND 0x7F = (v :: u64)"
    unfolding byte_high mask_7 using b [of 7] by (auto simp: bit_simps intro!: bit_word_eqI) (use b in fastforce)+
qed

lemma varint_encode:
  assumes "dAtA = pre @ encodeVarintRaft v @ post" and "i = int (length pre)" and "unat v < 2 ^ (64 - shift)" and "shift < 64"
  shows "varint dAtA i shift w = Some (Inr (w OR push_bit shift v, i + int (sovRaft v)))"
  using assms
proof (induction v arbitrary: pre i shift w rule: encodeVarintRaft.induct)
  case (1 v)
  show ?case
  proof (cases "v < 128")
    case True
    then have "encodeVarintRaft v = [ucast v]" "sovRaft v = 1"
      by (simp_all add: encodeVarintRaft.simps sovRaft.simps drop_bit_7_zero not_le)
    then show ?thesis using "1.prems" varint_bytes(3) [OF True] by (simp add: varint_byte nth_append del: push_bit_and)
  next
    case False
    let ?b = "ucast (v AND 0x7f OR 0x80) :: byte"
    have e: "encodeVarintRaft v = ?b # encodeVarintRaft (drop_bit 7 v)" "sovRaft v = 1 + sovRaft (drop_bit 7 v)"
      using False by (auto simp: encodeVarintRaft.simps [of v] sovRaft.simps [of v] drop_bit_7_zero Let_def)
    have "(2::nat) ^ 7 \<le> unat v" using False by (simp add: word_less_nat_alt)
    then have "(2::nat) ^ 7 < 2 ^ (64 - shift)" using "1.prems"(3) by linarith
    then have "7 < 64 - shift" using power_less_imp_less_exp [of "2::nat" 7 "64 - shift"] by simp
    then have s: "shift + 7 < 64" by simp
    have "(2::nat) ^ (64 - shift) = 2 ^ (64 - (shift + 7)) * 128" 
    proof -
      have "64 - shift = 64 - (shift + 7) + 7" using s by simp
      then have "(2::nat) ^ (64 - shift) = 2 ^ (64 - (shift + 7)) * 2 ^ 7" by (metis power_add)
      then show ?thesis by simp
    qed
    then have u: "unat (drop_bit 7 v) < 2 ^ (64 - (shift + 7))" using "1.prems"(3) by (simp add: unat_drop_bit_7 div_less_iff_less_mult)
    have "varint dAtA (i + 1) (shift + 7) (w OR push_bit shift (v AND 0x7f))
        = Some (Inr ((w OR push_bit shift (v AND 0x7f)) OR push_bit (shift + 7) (drop_bit 7 v), i + 1 + int (sovRaft (drop_bit 7 v))))"
      by (rule "1.IH") (use False s u "1.prems" e in auto)
    moreover have "(w OR push_bit shift (v AND 0x7f)) OR push_bit (shift + 7) (drop_bit 7 v) = w OR push_bit shift v"
    proof (rule bit_word_eqI)
      fix n
      show "bit ((w OR push_bit shift (v AND 0x7f)) OR push_bit (shift + 7) (drop_bit 7 v)) n = bit (w OR push_bit shift v) n"
        if "n < LENGTH(64)"
        unfolding mask_7 by (cases "n - shift < 7") (use that in \<open>auto simp: bit_simps\<close>)
    qed
    ultimately show ?thesis
      using "1.prems" varint_bytes(1,2) [of v] e by (simp add: varint_byte nth_append Let_def del: push_bit_and)
  qed
qed

text \<open>The fields of an encoded config change.\<close>

definition cc_record :: "config_change \<Rightarrow> cc_raw" where
  "cc_record m = \<lparr>raw_ConfigChangeId = cc_ConfigChangeId m, raw_Type = ucast (ConfigChangeType_value (cc_Type m)),
     raw_NodeID = cc_NodeID m, raw_Address = cc_Address m, raw_Initialize = cc_Initialize m\<rparr>"

lemma varint_encode0:
  assumes "dAtA = pre @ encodeVarintRaft v @ post" and "i = int (length pre)"
  shows "varint dAtA i 0 0 = Some (Inr (v, i + int (sovRaft v)))"
  using varint_encode [OF assms, of 0 0] by simp

lemma varint_tag:
  assumes "dAtA = pre @ b # post" and "i = int (length pre)" and "b < 0x80"
  shows "varint dAtA i 0 0 = Some (Inr (ucast b, i + 1))"
proof -
  have n: "n < 7" if "bit b n" for n
  proof -
    have "n < 8" using bit_imp_le_length [OF that] by simp
    moreover have "n \<noteq> 7" using assms(3) that by (auto simp: byte_high)
    ultimately show ?thesis by simp
  qed
  have "ucast b AND 0x7F = (ucast b :: u64)"
    unfolding mask_7 by (rule bit_word_eqI) (auto simp: bit_simps intro: n)
  then show ?thesis using assms by (simp add: varint_byte Let_def)
qed

lemma sovRaft_bound: "unat v < 2 ^ (7 * n) \<Longrightarrow> 0 < n \<Longrightarrow> sovRaft v \<le> n"
proof (induction n arbitrary: v)
  case (Suc n)
  show ?case
  proof (cases "v < 128")
    case True
    then show ?thesis by (simp add: sovRaft.simps drop_bit_7_zero)
  next
    case False
    then have big: "128 \<le> unat v" by (simp add: word_less_nat_alt)
    have n: "0 < n" using Suc.prems(1) big by (cases n) simp_all
    have "unat (drop_bit 7 v) < 2 ^ (7 * n)"
      using Suc.prems(1) by (simp add: unat_drop_bit_7 div_less_iff_less_mult power_add)
    from Suc.IH [OF this n] False show ?thesis by (simp add: sovRaft.simps [of v] drop_bit_7_zero)
  qed
qed simp

lemma sovRaft_le: "sovRaft v \<le> 10"
  by (rule sovRaft_bound [OF less_le_trans [OF unat_u64_bound]]) simp_all

lemma go_int_small: "0 \<le> i \<Longrightarrow> i < 2 ^ 63 \<Longrightarrow> go_int i = i"
  unfolding go_int_def by (simp add: signed_of_int signed_take_bit_int_eq_self)

lemma encode_bool: "encodeVarintRaft (if b then 1 else 0) = [if b then 1 else 0]"
  by (cases b) (simp_all add: encodeVarintRaft.simps word_le_nat_alt)

lemma read_length_encoded:
  assumes d: "dAtA = pre @ encodeVarintRaft (of_nat (length bs)) @ bs @ post" and i: "i = int (length pre)"
    and len: "length dAtA < 2 ^ 63"
  shows "read_length dAtA i = Some (Inr (i + int (sovRaft (of_nat (length bs))), i + int (sovRaft (of_nat (length bs))) + int (length bs)))"
proof -
  let ?n = "of_nat (length bs) :: u64" and ?j = "i + int (sovRaft (of_nat (length bs)))"
  have l: "varint dAtA i 0 0 = Some (Inr (?n, ?j))" using varint_encode0 [OF d i] by simp
  have tot: "?j + int (length bs) \<le> int (length dAtA)"
    using d i by (simp add: encodeVarintRaft_length)
  have "sint ?n = go_int (int (length bs))" unfolding go_int_def by simp
  also have "\<dots> = int (length bs)" using tot len i by (intro go_int_small) auto
  finally have "sint ?n = int (length bs)" .
  moreover have "go_int (?j + int (length bs)) = ?j + int (length bs)" using tot len i by (intro go_int_small) auto
  ultimately show ?thesis using l tot by (simp add: read_length_def Let_def)
qed

lemma slice_content_at [simp]:
  "slice_content g (pre @ bs @ post) (int (length pre)) (int (length pre) + int (length bs)) m = g bs m"
proof -
  have "nat (int (length pre) + int (length bs)) = length pre + length bs" by simp
  then show ?thesis by (simp add: slice_content_def go_slice_def)
qed

text \<open>\<open>decodes_to Q F bs m m'\<close>: wherever the bytes \<open>bs\<close> stand in the data, if what comes after them satisfies \<open>Q\<close>, the loop reads
  them and takes the message from \<open>m\<close> to \<open>m'\<close>. The encoding of a message is a sequence of such pieces.\<close>

definition decodes_to :: "(byte list \<Rightarrow> bool) \<Rightarrow> 'm fields \<Rightarrow> byte list \<Rightarrow> 'm \<Rightarrow> 'm \<Rightarrow> bool" where
  "decodes_to Q F bs m m' \<longleftrightarrow> (\<forall>pre post. Q post \<longrightarrow> length (pre @ bs @ post) < 2 ^ 63 \<longrightarrow>
     unmarshal_loop F (pre @ bs @ post) (int (length pre)) m
       = unmarshal_loop F (pre @ bs @ post) (int (length pre) + int (length bs)) m')"

abbreviation decodes :: "'m fields \<Rightarrow> byte list \<Rightarrow> 'm \<Rightarrow> 'm \<Rightarrow> bool" where
  "decodes \<equiv> decodes_to (\<lambda>_. True)"

lemma decodes_toD:
  "decodes_to Q F bs m m' \<Longrightarrow> Q post \<Longrightarrow> length (pre @ bs @ post) < 2 ^ 63 \<Longrightarrow>
     unmarshal_loop F (pre @ bs @ post) (int (length pre)) m
       = unmarshal_loop F (pre @ bs @ post) (int (length pre) + int (length bs)) m'"
  unfolding decodes_to_def by blast

lemma decodes_Nil [simp]: "decodes_to Q F [] m m"
  by (simp add: decodes_to_def)

lemma decodes_to_append:
  assumes "decodes_to P F as m m1" and "decodes_to Q F bs m1 m2" and "\<And>post. Q post \<Longrightarrow> P (bs @ post)"
  shows "decodes_to Q F (as @ bs) m m2"
  unfolding decodes_to_def
proof (intro allI impI)
  fix pre post
  assume q: "Q post" and len: "length (pre @ (as @ bs) @ post) < 2 ^ 63"
  have "unmarshal_loop F (pre @ as @ (bs @ post)) (int (length pre)) m
      = unmarshal_loop F (pre @ as @ (bs @ post)) (int (length pre) + int (length as)) m1"
    by (rule decodes_toD [OF assms(1) assms(3) [OF q]]) (use len in simp)
  moreover have "unmarshal_loop F ((pre @ as) @ bs @ post) (int (length (pre @ as))) m1
      = unmarshal_loop F ((pre @ as) @ bs @ post) (int (length (pre @ as)) + int (length bs)) m2"
    by (rule decodes_toD [OF assms(2) q]) (use len in simp)
  ultimately show "unmarshal_loop F (pre @ (as @ bs) @ post) (int (length pre)) m
      = unmarshal_loop F (pre @ (as @ bs) @ post) (int (length pre) + int (length (as @ bs))) m2"
    by (simp add: add.assoc)
qed

lemma decodes_append: "decodes F as m m1 \<Longrightarrow> decodes_to Q F bs m1 m2 \<Longrightarrow> decodes_to Q F (as @ bs) m m2"
  by (rule decodes_to_append) simp_all

lemma decodes_weaken: "decodes F bs m m' \<Longrightarrow> decodes_to Q F bs m m'"
  using decodes_append [of F bs m m' Q "[]" m'] by simp

lemma decodes_concat:
  assumes "\<And>x m. x \<in> set xs \<Longrightarrow> decodes F (enc x) m (g x m)"
  shows "decodes F (concat (map enc xs)) m (fold g xs m)"
  using assms by (induction xs arbitrary: m) (auto intro!: decodes_append)

lemma decodes_field:
  assumes "\<And>pre post. Q post \<Longrightarrow> length (pre @ bs @ post) < 2 ^ 63 \<Longrightarrow>
      unmarshal_field F (pre @ bs @ post) (int (length pre)) m = Some (Inr (int (length pre) + int (length bs), m'))"
    and "bs \<noteq> []"
  shows "decodes_to Q F bs m m'"
  unfolding decodes_to_def
proof (intro allI impI)
  fix pre post
  assume "Q post" "length (pre @ bs @ post) < 2 ^ 63"
  from assms(1) [OF this] assms(2) show "unmarshal_loop F (pre @ bs @ post) (int (length pre)) m
      = unmarshal_loop F (pre @ bs @ post) (int (length pre) + int (length bs)) m'"
    by (subst unmarshal_loop.simps) (cases bs; simp)
qed

definition field_no :: "byte \<Rightarrow> 32 word" where
  "field_no t = ucast (drop_bit 3 (ucast t :: u64))"

lemma decodes_num:
  assumes "F (field_no t) = Some (Num f)" and "t < 0x80" and "ucast t AND 7 = (0 :: u64)" and "0 < sint (field_no t)" and "m' = f v m"
  shows "decodes F (t # encodeVarintRaft v) m m'"
proof (rule decodes_field)
  fix pre post :: "byte list"
  let ?d = "pre @ (t # encodeVarintRaft v) @ post"
  have "varint ?d (int (length pre)) 0 0 = Some (Inr (ucast t, int (length pre) + 1))"
    by (rule varint_tag) (use assms in simp_all)
  moreover have "varint ?d (int (length pre) + 1) 0 0 = Some (Inr (v, int (length pre) + 1 + int (sovRaft v)))"
    by (rule varint_encode0 [of _ "pre @ [t]" _ post]) simp_all
  ultimately show "unmarshal_field F ?d (int (length pre)) m
      = Some (Inr (int (length pre) + int (length (t # encodeVarintRaft v)), m'))"
    using assms by (simp add: unmarshal_field_def Let_def field_no_def encodeVarintRaft_length)
qed simp

lemma decodes_content:
  assumes "F (field_no t) = Some (Content f)" and "t < 0x80" and "ucast t AND 7 = (2 :: u64)" and "0 < sint (field_no t)"
    and f: "\<And>pre post. Q post \<Longrightarrow> length (pre @ bs @ post) < 2 ^ 63 \<Longrightarrow>
      f (pre @ bs @ post) (int (length pre)) (int (length pre) + int (length bs)) m = Some (Inr m')"
  shows "decodes_to Q F (t # encodeVarintRaft (of_nat (length bs)) @ bs) m m'"
proof (rule decodes_field)
  fix pre post :: "byte list"
  let ?p = "pre @ t # encodeVarintRaft (of_nat (length bs))"
  let ?d = "pre @ (t # encodeVarintRaft (of_nat (length bs)) @ bs) @ post"
  assume q: "Q post" and len: "length ?d < 2 ^ 63"
  have "varint ?d (int (length pre)) 0 0 = Some (Inr (ucast t, int (length pre) + 1))"
    by (rule varint_tag) (use assms in simp_all)
  moreover have "read_length ?d (int (length pre) + 1) = Some (Inr (int (length pre) + 1 + int (sovRaft (of_nat (length bs))),
      int (length pre) + 1 + int (sovRaft (of_nat (length bs))) + int (length bs)))"
    by (rule read_length_encoded [of _ "pre @ [t]" bs post]) (use len in simp_all)
  moreover have "f (?p @ bs @ post) (int (length ?p)) (int (length ?p) + int (length bs)) m = Some (Inr m')"
    by (rule f [OF q]) (use len in simp)
  ultimately show "unmarshal_field F ?d (int (length pre)) m
      = Some (Inr (int (length pre) + int (length (t # encodeVarintRaft (of_nat (length bs)) @ bs)), m'))"
    using assms(1-4) by (simp add: unmarshal_field_def Let_def field_no_def encodeVarintRaft_length ac_simps)
qed simp

lemma decodes_bytes:
  assumes "F (field_no t) = Some (Content (slice_content g))" and "g bs m = Some (Inr m')"
    and "t < 0x80" and "ucast t AND 7 = (2 :: u64)" and "0 < sint (field_no t)"
  shows "decodes F (t # encodeVarintRaft (of_nat (length bs)) @ bs) m m'"
  by (rule decodes_content, rule assms(1)) (simp_all add: assms)

lemma decodes_Unmarshal:
  assumes "decodes_to Q F bs m m'" and "Q []" and "length bs < 2 ^ 63"
  shows "unmarshal_loop F bs 0 m = Some (Inr m')"
proof -
  have "unmarshal_loop F bs 0 m = unmarshal_loop F bs (int (length bs)) m'"
    using decodes_toD [OF assms(1,2), of "[]"] assms(3) by simp
  then show ?thesis by (simp add: unmarshal_loop.simps [of F bs "int (length bs)"])
qed

lemma Unmarshal_MarshalTo:
  assumes len: "length (ConfigChange_MarshalTo m) < 2 ^ 63"
  shows "ConfigChange_Unmarshal (ConfigChange_MarshalTo m) = Some (Inr (cc_record m))"
proof -
  let ?F = "ConfigChange_fields"
  let ?m1 = "cc_zero\<lparr>raw_ConfigChangeId := cc_ConfigChangeId m\<rparr>"
  let ?m2 = "?m1\<lparr>raw_Type := ucast (ConfigChangeType_value (cc_Type m))\<rparr>" let ?m3 = "?m2\<lparr>raw_NodeID := cc_NodeID m\<rparr>"
  let ?m4 = "?m3\<lparr>raw_Address := cc_Address m\<rparr>"
  let ?m5 = "?m4\<lparr>raw_Initialize := cc_Initialize m\<rparr>"
  note field = ConfigChange_fields_def field_no_def
  have 1: "decodes ?F (0x08 # encodeVarintRaft (cc_ConfigChangeId m)) cc_zero ?m1"
    by (rule decodes_num, simp add: field) (simp_all add: field)
  have 2: "decodes ?F (0x10 # encodeVarintRaft (ConfigChangeType_value (cc_Type m))) ?m1 ?m2"
    by (rule decodes_num, simp add: field) (simp_all add: field)
  have 3: "decodes ?F (0x18 # encodeVarintRaft (cc_NodeID m)) ?m2 ?m3"
    by (rule decodes_num, simp add: field) (simp_all add: field)
  have 4: "decodes ?F (0x22 # encodeVarintRaft (of_nat (length (str_bytes (cc_Address m)))) @ str_bytes (cc_Address m)) ?m3 ?m4"
    by (rule decodes_bytes, simp add: field) (simp_all add: field)
  have 5: "decodes ?F (0x28 # encodeVarintRaft (if cc_Initialize m then 1 else 0)) ?m4 ?m5"
    by (rule decodes_num, simp add: field) (simp_all add: field)
  note all = decodes_append [OF 1 decodes_append [OF 2 decodes_append [OF 3 decodes_append [OF 4 5]]]]
  have e: "?m5 = cc_record m" by (simp add: cc_record_def cc_zero_def)
  show ?thesis
    using decodes_Unmarshal [OF all TrueI] len
    by (simp add: ConfigChange_Unmarshal_def ConfigChange_MarshalTo_def encode_bool e [symmetric])
qed

text \<open>A string length of \<open>2^63 - 1\<close>: the end of the string wraps around to a negative position, which
  passes the test against the length of the data.\<close>

lemma Unmarshal_length_overflow: "ConfigChange_Unmarshal ([0x22] @ replicate 8 0xff @ [0x7f]) = panic"
proof -
  let ?v = "0x7FFFFFFFFFFFFFFF :: u64" and ?d = "[0x22] @ replicate 8 0xff @ [0x7f] :: byte list"
  have e: "encodeVarintRaft ?v = replicate 8 0xff @ [0x7f]" "sovRaft ?v = 9" by code_simp+
  have "varint ?d 0 0 0 = Some (Inr (0x22, 1))"
    using varint_tag [of ?d "[]" "0x22" "replicate 8 0xff @ [0x7f]" 0] by simp
  moreover have "varint ?d 1 0 0 = Some (Inr (?v, 10))"
    using varint_encode0 [of ?d "[0x22]" ?v "[]" 1] e by simp
  moreover have "go_int (10 + sint ?v) < 0" "0 \<le> sint ?v" by code_simp+
  ultimately have "unmarshal_field ConfigChange_fields ?d 0 cc_zero = None"
    by (simp add: unmarshal_field_def read_length_def slice_content_def ConfigChange_fields_def Let_def)
  then show ?thesis
    unfolding ConfigChange_Unmarshal_def by (subst unmarshal_loop.simps) simp
qed

end
