(* ===== verification/SessProps.thy ===== *)
theory SessProps
  imports SessionsSpec ProtoDecode
begin

text \<open>
  The properties of the red-black trees, of the store of client sessions and of the decoder of config changes.
\<close>

section \<open>Trees\<close>

text \<open>
  C31. A left-leaning red-black tree implements a set: on a well-formed tree the operations never follow a nil
  pointer, an insertion adds exactly the element, a deletion removes exactly the element, whether or not it is in
  the tree, both keep the tree well-formed, \<open>Get\<close> finds exactly the elements and \<open>Len\<close> counts them.
\<close>

theorem llrb_implements_set:
  assumes "tree_ok t"
  shows "(\<exists>t'. tree_Insert t e = Some t' \<and> tree_ok t' \<and> set (elements t') = insert e (set (elements t)))
    \<and> (\<exists>t'. tree_Delete t e = Some t' \<and> tree_ok t' \<and> set (elements t') = set (elements t) - {e})
    \<and> tree_Get t e = (if e \<in> set (elements t) then Some e else None)
    \<and> tree_Len t = int (card (set (elements t)))"
proof -
  have "distinct (elements t)" using assms by (simp add: tree_ok_def elements_def ascending_distinct)
  moreover obtain t1 where "tree_Insert t e = Some t1" "tree_ok t1" "elements t1 = ins_list e (elements t)"
    by (rule Insert_spec [OF assms])
  moreover obtain t2 where "tree_Delete t e = Some t2" "tree_ok t2" "elements t2 = without e (elements t)"
    by (rule Delete_spec [OF assms])
  ultimately show ?thesis
    using tree_Get_spec [OF assms] Len_spec [OF assms] by (auto simp: set_ins_list distinct_card)
qed

definition demo_tree :: "nat llrb_tree" where
  "demo_tree = \<lparr>t_Root = Node 5 (Node 3 (Node 1 Nil Nil Black) (Node 4 Nil Nil Black) Red) (Node 8 (Node 7 Nil Nil Red) Nil Black) Black,
     t_Count = 6\<rparr>"

theorem llrb_implements_set_witness:
  "(\<exists>t'. tree_Insert demo_tree 6 = Some t' \<and> tree_ok t' \<and> set (elements t') = insert 6 {1, 3, 4, 5, 7, 8})
    \<and> (\<exists>t'. tree_Delete demo_tree 6 = Some t' \<and> tree_ok t' \<and> set (elements t') = {1, 3, 4, 5, 7, 8} - {6})"
proof -
  have "tree_ok demo_tree" by code_simp
  moreover have "set (elements demo_tree) = {1, 3, 4, 5, 7, 8}" by (auto simp: elements_def demo_tree_def)
  ultimately show ?thesis using llrb_implements_set [of demo_tree 6] by simp
qed

fun depth :: "'a node \<Rightarrow> nat" where
  "depth Nil = 0"
| "depth (Node e l r c) = 1 + max (depth l) (depth r)"

lemma lean_size: "lean n \<Longrightarrow> 2 ^ bheight n \<le> length (inorder n) + 1"
  by (induction n) auto

lemma lean_depth: "lean n \<Longrightarrow> depth n \<le> 2 * bheight n + (if color n = Red then 1 else 0)"
  by (induction n) (auto split: if_splits)



section \<open>Sessions\<close>

text \<open>
  C30. The store of sessions is an LRU cache of bounded size: registering a new session puts it in front and, when
  the store is full, evicts the least recently used session and no other; looking up a session returns it unchanged
  and moves it to the front; neither panics.
\<close>

theorem sessions_lru:
  assumes "lru_holds rec xs" and "k \<notin> fst ` set xs" and "(j, s) \<in> set xs"
  shows "(\<exists>rec'. addSession k (newSession k) rec = Some rec' \<and> lru_holds rec' (take (unat (lru_size rec)) ((k, newSession k) # xs)))
    \<and> (\<exists>rec'. getSession j rec = Some (Some s, rec') \<and> lru_holds rec' ((j, s) # remove_key j xs))"
proof -
  have len: "length xs \<le> unat (lru_size rec)" "0 < unat (lru_size rec)"
    using assms(1) by (auto simp: lru_holds_def unat_gt_0)
  have "session_ok (newSession k)" "sn_ClientID (newSession k) = k" by (simp_all add: session_ok_def newSession_def)
  then obtain rec' where r: "addSession k (newSession k) rec = Some rec'"
      "lru_holds rec' (if length xs < unat (lru_size rec) then (k, newSession k) # xs else (k, newSession k) # butlast xs)"
    using addSession_new [OF assms(1,2)] by metis
  have "(if length xs < unat (lru_size rec) then (k, newSession k) # xs else (k, newSession k) # butlast xs)
      = take (unat (lru_size rec)) ((k, newSession k) # xs)"
    using len by (cases "unat (lru_size rec)") (auto simp: butlast_conv_take)
  moreover have "map_of xs j = Some s" using assms(3) lru_distinct [OF assms(1)] by simp
  then have "\<exists>rec'. getSession j rec = Some (Some s, rec') \<and> lru_holds rec' ((j, s) # remove_key j xs)"
    using getSession_spec [OF assms(1), of j] by auto
  ultimately show ?thesis using r by auto
qed

definition demo_sessions :: "(u64 \<times> session) list" where
  "demo_sessions = [(9, (newSession 9)\<lparr>sn_RespondedUpTo := 3, sn_History := [(12, 7), (4, 5)]\<rparr>), (7, newSession 7)]"

lemma demo_store: "\<exists>rec. lru_holds rec demo_sessions \<and> lru_size rec = 2"
proof -
  obtain rec0 where r0: "lru_holds rec0 []" "lru_size rec0 = 2" using new_lru [of 2] by auto
  have ok: "distinct (map sn_ClientID (map snd (rev demo_sessions)) @ map fst [])"
      "length (map snd (rev demo_sessions)) + length [] \<le> unat (lru_size rec0)" "\<forall>s\<in>set (map snd (rev demo_sessions)). session_ok s"
    using r0(2) by (simp_all add: demo_sessions_def newSession_def session_ok_def)
  have "rev (map (\<lambda>s. (sn_ClientID s, s)) (map snd (rev demo_sessions))) @ [] = demo_sessions"
    by (simp add: demo_sessions_def newSession_def)
  then show ?thesis using load_sessions_spec [OF r0(1) ok] r0(2) by auto
qed

theorem sessions_lru_witness:
  "\<exists>rec. lru_holds rec demo_sessions
    \<and> (\<exists>rec'. addSession 4 (newSession 4) rec = Some rec' \<and> lru_holds rec' [(4, newSession 4), hd demo_sessions])
    \<and> (\<exists>rec'. getSession 7 rec = Some (Some (newSession 7), rec') \<and> lru_holds rec' [(7, newSession 7), hd demo_sessions])"
proof -
  obtain rec where r: "lru_holds rec demo_sessions" "lru_size rec = 2" using demo_store by auto
  have "(4 :: u64) \<notin> fst ` set demo_sessions" "(7, newSession 7) \<in> set demo_sessions"
    by (auto simp: demo_sessions_def)
  note w = sessions_lru [OF r(1) this]
  have "take (unat (2 :: u64)) ((4, newSession 4) # demo_sessions) = [(4, newSession 4), hd demo_sessions]"
      "remove_key 7 demo_sessions = [hd demo_sessions]"
    by (simp_all add: demo_sessions_def remove_key_def)
  then show ?thesis using w r(1) unfolding r(2) by auto
qed

text \<open>
  C29. A snapshot of the sessions restores them: saving does not panic and does not change the recency order, and
  loading what was saved, into any store and with anything behind it in the reader, gives a store of the same size with the
  same clients in the same order, each with the same acknowledged series and the same recorded responses.
\<close>

theorem sessions_roundtrip:
  assumes "lru_holds rec xs" and "\<forall>(k, s)\<in>set xs. fits s"
  shows "\<exists>bs rec1 rec2 ys. lru_save rec = Some (bs, rec1) \<and> lru_holds rec1 xs
    \<and> lru_load (bs @ rest) rec0 = Some (Inr (rec2, rest)) \<and> lru_holds rec2 ys \<and> lru_size rec2 = lru_size rec
    \<and> map fst ys = map fst xs
    \<and> list_all2 (\<lambda>(_, s) (_, s'). sn_ClientID s' = sn_ClientID s \<and> sn_RespondedUpTo s' = sn_RespondedUpTo s
        \<and> getResponse s' = getResponse s) xs ys"
proof -
  let ?bs = "PutUint64 (lru_size rec) @ PutUint64 (of_nat (length xs)) @ concat (map session_save (map snd (rev xs)))"
  obtain rec1 where "lru_save rec = Some (?bs, rec1)" "lru_holds rec1 xs"
    by (rule save_spec [OF assms(1)])
  moreover obtain rec2 where "lru_load (?bs @ rest) rec0 = Some (Inr (rec2, rest))"
      "lru_holds rec2 (map (\<lambda>(k, s). (k, stored s)) xs)" "lru_size rec2 = lru_size rec"
    using load_spec [OF assms, of rest rec0] by (simp only: append_assoc) blast
  moreover have "list_all2 (\<lambda>(_, s) (_, s'). sn_ClientID s' = sn_ClientID s \<and> sn_RespondedUpTo s' = sn_RespondedUpTo s
      \<and> getResponse s' = getResponse s) xs (map (\<lambda>(k, s). (k, stored s)) xs)"
    using assms(1) by (auto simp: lru_holds_def session_ok_def list_all2_conv_all_nth getResponse_def fun_eq_iff map_of_stored
        dest!: nth_mem)
  moreover have "map fst (map (\<lambda>(k, s). (k, stored s)) xs) = map fst xs" by (simp add: split_def)
  ultimately show ?thesis
    by (intro exI [of _ ?bs] exI [of _ rec1] exI [of _ rec2] exI [of _ "map (\<lambda>(k, s). (k, stored s)) xs"] conjI)
qed

theorem sessions_roundtrip_witness:
  "\<exists>rec bs rec1 rec2 ys. lru_holds rec demo_sessions \<and> lru_save rec = Some (bs, rec1)
    \<and> lru_load (bs @ [1, 2]) rec = Some (Inr (rec2, [1, 2])) \<and> lru_holds rec2 ys \<and> map fst ys = [9, 7]"
proof -
  obtain rec where r: "lru_holds rec demo_sessions" "lru_size rec = 2" using demo_store by auto
  have "\<forall>(k, s)\<in>set demo_sessions. length (json_Marshal s) \<le> 60" by code_simp
  then have "\<forall>(k, s)\<in>set demo_sessions. fits s" by (auto simp: fits_def)
  from sessions_roundtrip [OF r(1) this, of "[1, 2]" rec] show ?thesis
    using r(1) by (fastforce simp: demo_sessions_def)
qed

section \<open>Config changes on the wire\<close>

text \<open>
  C33. Decoding an encoded config change gives back its fields.
\<close>

theorem config_change_roundtrip:
  assumes "length (ConfigChange_MarshalTo m) < 2 ^ 63"
  shows "\<exists>bs r. ConfigChange_Marshal m = Some bs \<and> ConfigChange_Unmarshal bs = Some (Inr r)
    \<and> raw_ConfigChangeId r = cc_ConfigChangeId m \<and> int32_type (raw_Type r) = Some (cc_Type m)
    \<and> raw_NodeID r = cc_NodeID m \<and> raw_Address r = cc_Address m \<and> raw_Initialize r = cc_Initialize m"
  using Unmarshal_MarshalTo [OF assms] ConfigChange_Marshal_total [of m]
  by (cases "cc_Type m") (auto simp: cc_record_def int32_type_def ConfigChangeType_value_def)

definition demo_change :: config_change where
  "demo_change = \<lparr>cc_ConfigChangeId = 300, cc_Type = AddObserver, cc_NodeID = 4, cc_Address = ''a4:5012'', cc_Initialize = False\<rparr>"

theorem config_change_roundtrip_witness:
  "\<exists>bs r. ConfigChange_Marshal demo_change = Some bs \<and> ConfigChange_Unmarshal bs = Some (Inr r)
    \<and> raw_NodeID r = 4 \<and> int32_type (raw_Type r) = Some AddObserver \<and> length (ConfigChange_MarshalTo demo_change) = 18"
proof -
  have "length (ConfigChange_MarshalTo demo_change) = 18" by code_simp
  then show ?thesis using config_change_roundtrip [of demo_change] by (auto simp: demo_change_def)
qed


end
