(* ===== verification/SnapshotIO.thy ===== *)
theory SnapshotIO
  imports ProtoDecode SessionsSpec
begin

text \<open>
  \<open>internal/rsm/snapshotio.go\<close>: the snapshot file and its checks. A snapshot file starts with a block of
  \<open>SnapshotHeaderSize\<close> bytes that holds the length of the encoded header and the header; the payload follows. The writer
  computes the checksum of the payload while it is written, the reader while it is read, and the validator over the chunks of a
  file that arrives from another node.

  The hash is \<open>crc32.NewIEEE\<close> of the Go library, whose state is the checksum of the bytes written so far. A file is its
  content and the position of the next access; operations on files do not fail. The time of day is an argument.
\<close>

unbundle bit_operations_syntax

section \<open>The checksum\<close>

definition crc_shift :: "32 word \<Rightarrow> 32 word" where
  "crc_shift c = (if bit c 0 then drop_bit 1 c XOR 0xEDB88320 else drop_bit 1 c)"

definition crc_byte :: "32 word \<Rightarrow> byte \<Rightarrow> 32 word" where
  "crc_byte c b = (crc_shift ^^ 8) (c XOR ucast b)"

definition crc32_Write :: "byte list \<Rightarrow> 32 word \<Rightarrow> 32 word" where
  "crc32_Write p h = NOT (foldl crc_byte (NOT h) p)"

definition crc32_Sum :: "32 word \<Rightarrow> byte list" where
  "crc32_Sum h = [ucast (drop_bit 24 h), ucast (drop_bit 16 h), ucast (drop_bit 8 h), ucast h]"

definition CRC32IEEE :: "32 word" where
  "CRC32IEEE = 0"

definition getChecksum :: "32 word \<Rightarrow> 32 word option" where
  "getChecksum t = (if t = CRC32IEEE then Some 0 else panic)"

definition getChecksumType :: "32 word" where
  "getChecksumType = CRC32IEEE"

definition getDefaultChecksum :: "32 word option" where
  "getDefaultChecksum = getChecksum getChecksumType"

section \<open>The header\<close>

text \<open>A byte slice that is \<open>nil\<close> is \<open>None\<close>. \<open>ChecksumType\<close> is an \<open>int32\<close>.\<close>

record snapshot_header =
  sh_SessionSize :: u64
  sh_DataStoreSize :: u64
  sh_UnreliableTime :: u64
  sh_GitVersion :: string
  sh_HeaderChecksum :: "byte list option"
  sh_PayloadChecksum :: "byte list option"
  sh_ChecksumType :: "32 word"
  sh_Version :: u64

definition empty_header :: snapshot_header where
  "empty_header = \<lparr>sh_SessionSize = 0, sh_DataStoreSize = 0, sh_UnreliableTime = 0, sh_GitVersion = [],
     sh_HeaderChecksum = None, sh_PayloadChecksum = None, sh_ChecksumType = 0, sh_Version = 0\<rparr>"

definition slice_bytes :: "byte list option \<Rightarrow> byte list" where
  "slice_bytes s = (case s of None \<Rightarrow> [] | Some bs \<Rightarrow> bs)"

definition SnapshotHeader_Size :: "snapshot_header \<Rightarrow> nat" where
  "SnapshotHeader_Size m =
     1 + sovRaft (sh_SessionSize m) + (1 + sovRaft (sh_DataStoreSize m)) + (1 + sovRaft (sh_UnreliableTime m))
     + (let l = length (sh_GitVersion m) in 1 + l + sovRaft (of_nat l))
     + (case sh_HeaderChecksum m of None \<Rightarrow> 0 | Some bs \<Rightarrow> 1 + length bs + sovRaft (of_nat (length bs)))
     + (case sh_PayloadChecksum m of None \<Rightarrow> 0 | Some bs \<Rightarrow> 1 + length bs + sovRaft (of_nat (length bs)))
     + (1 + sovRaft (scast (sh_ChecksumType m))) + (1 + sovRaft (sh_Version m))"

definition SnapshotHeader_MarshalTo :: "snapshot_header \<Rightarrow> byte list" where
  "SnapshotHeader_MarshalTo m =
     (0x8 # encodeVarintRaft (sh_SessionSize m))
     @ (0x10 # encodeVarintRaft (sh_DataStoreSize m))
     @ (0x18 # encodeVarintRaft (sh_UnreliableTime m))
     @ (0x22 # encodeVarintRaft (of_nat (length (sh_GitVersion m))) @ str_bytes (sh_GitVersion m))
     @ (case sh_HeaderChecksum m of None \<Rightarrow> [] | Some bs \<Rightarrow> 0x2a # encodeVarintRaft (of_nat (length bs)) @ bs)
     @ (case sh_PayloadChecksum m of None \<Rightarrow> [] | Some bs \<Rightarrow> 0x32 # encodeVarintRaft (of_nat (length bs)) @ bs)
     @ (0x38 # encodeVarintRaft (scast (sh_ChecksumType m)))
     @ (0x40 # encodeVarintRaft (sh_Version m))"

definition SnapshotHeader_Marshal :: "snapshot_header \<Rightarrow> byte list option" where
  "SnapshotHeader_Marshal m =
     (let dAtA = SnapshotHeader_MarshalTo m in
      if length dAtA > SnapshotHeader_Size m then panic else Some dAtA)"

definition SnapshotHeader_fields :: "snapshot_header fields" where
  "SnapshotHeader_fields fieldNum =
     (if fieldNum = 1 then Some (Num (\<lambda>v m. m\<lparr>sh_SessionSize := v\<rparr>))
      else if fieldNum = 2 then Some (Num (\<lambda>v m. m\<lparr>sh_DataStoreSize := v\<rparr>))
      else if fieldNum = 3 then Some (Num (\<lambda>v m. m\<lparr>sh_UnreliableTime := v\<rparr>))
      else if fieldNum = 4 then Some (Content (slice_content (\<lambda>bs m. Some (Inr (m\<lparr>sh_GitVersion := bytes_string bs\<rparr>)))))
      else if fieldNum = 5 then Some (Content (slice_content (\<lambda>bs m. Some (Inr (m\<lparr>sh_HeaderChecksum := Some bs\<rparr>)))))
      else if fieldNum = 6 then Some (Content (slice_content (\<lambda>bs m. Some (Inr (m\<lparr>sh_PayloadChecksum := Some bs\<rparr>)))))
      else if fieldNum = 7 then Some (Num (\<lambda>v m. m\<lparr>sh_ChecksumType := ucast v\<rparr>))
      else if fieldNum = 8 then Some (Num (\<lambda>v m. m\<lparr>sh_Version := v\<rparr>))
      else None)"

definition SnapshotHeader_Unmarshal :: "byte list \<Rightarrow> (proto_error + snapshot_header) option" where
  "SnapshotHeader_Unmarshal dAtA = unmarshal_loop SnapshotHeader_fields dAtA 0 empty_header"

section \<open>Files\<close>

record go_file =
  f_data :: "byte list"
  f_pos :: nat

definition file_Write :: "byte list \<Rightarrow> go_file \<Rightarrow> go_file" where
  "file_Write bs f =
     \<lparr>f_data = take (f_pos f) (f_data f) @ replicate (f_pos f - length (f_data f)) 0 @ bs
        @ drop (f_pos f + length bs) (f_data f),
      f_pos = f_pos f + length bs\<rparr>"

definition file_Seek :: "nat \<Rightarrow> go_file \<Rightarrow> go_file" where
  "file_Seek offset f = f\<lparr>f_pos := offset\<rparr>"

definition file_rest :: "go_file \<Rightarrow> byte list" where
  "file_rest f = drop (f_pos f) (f_data f)"

definition file_ReadFull :: "nat \<Rightarrow> go_file \<Rightarrow> io_error + (byte list \<times> go_file)" where
  "file_ReadFull n f =
     (case ReadFull n (file_rest f) of
        Inl err \<Rightarrow> Inl err
      | Inr (bs, _) \<Rightarrow> Inr (bs, f\<lparr>f_pos := f_pos f + n\<rparr>))"

section \<open>The writer\<close>

definition SnapshotHeaderSize :: nat where
  "SnapshotHeaderSize = 1024"

definition currentSnapshotVersion :: u64 where
  "currentSnapshotVersion = 1"

record snapshot_writer =
  sw_h :: "32 word"
  sw_file :: go_file

definition NewSnapshotWriter :: "snapshot_writer option" where
  "NewSnapshotWriter = do {
     let f = file_Write (replicate SnapshotHeaderSize 0) \<lparr>f_data = [], f_pos = 0\<rparr>;
     h \<leftarrow> getDefaultChecksum;
     Some \<lparr>sw_h = h, sw_file = f\<rparr> }"

definition sw_Write :: "byte list \<Rightarrow> snapshot_writer \<Rightarrow> snapshot_writer" where
  "sw_Write data sw = sw\<lparr>sw_h := crc32_Write data (sw_h sw), sw_file := file_Write data (sw_file sw)\<rparr>"

definition sw_SaveHeader :: "u64 \<Rightarrow> u64 \<Rightarrow> u64 \<Rightarrow> snapshot_writer \<Rightarrow> snapshot_writer option" where
  "sw_SaveHeader now smsz sz sw = do {
     let sh = empty_header\<lparr>sh_SessionSize := smsz, sh_DataStoreSize := sz, sh_UnreliableTime := now,
       sh_PayloadChecksum := Some (crc32_Sum (sw_h sw)), sh_ChecksumType := getChecksumType,
       sh_Version := currentSnapshotVersion\<rparr>;
     data \<leftarrow> SnapshotHeader_Marshal sh;
     headerHash \<leftarrow> getDefaultChecksum;
     let headerChecksum = crc32_Sum (crc32_Write data headerHash);
     let sh = sh\<lparr>sh_HeaderChecksum := Some headerChecksum\<rparr>;
     data \<leftarrow> SnapshotHeader_Marshal sh;
     if length data > SnapshotHeaderSize - 8 then panic
     else
       let f = file_Seek 0 (sw_file sw);
           f = file_Write (PutUint64 (of_nat (length data))) f
       in Some (sw\<lparr>sw_file := file_Write data f\<rparr>) }"

section \<open>The reader\<close>

record snapshot_reader =
  sr_h :: "32 word option"
  sr_file :: go_file

definition NewSnapshotReader :: "byte list \<Rightarrow> snapshot_reader" where
  "NewSnapshotReader content = \<lparr>sr_h = None, sr_file = \<lparr>f_data = content, f_pos = 0\<rparr>\<rparr>"

definition sr_GetHeader :: "snapshot_reader \<Rightarrow> (io_error + (snapshot_header \<times> snapshot_reader)) option" where
  "sr_GetHeader sr =
     (case file_ReadFull 8 (sr_file sr) of
        Inl err \<Rightarrow> Some (Inl err)
      | Inr (lenbuf, f) \<Rightarrow>
          let sz = unat (get_le lenbuf) in
          if sz > SnapshotHeaderSize - 8 then panic
          else case file_ReadFull sz f of
            Inl err \<Rightarrow> Some (Inl err)
          | Inr (data, f) \<Rightarrow>
              (case SnapshotHeader_Unmarshal data of
                 Some (Inr r) \<Rightarrow> do {
                   h \<leftarrow> getChecksum (sh_ChecksumType r);
                   Some (Inr (r, \<lparr>sr_h = Some h, sr_file = file_Seek SnapshotHeaderSize f\<rparr>)) }
               | _ \<Rightarrow> panic))"

text \<open>At the end of the file \<open>Read\<close> reports \<open>io.EOF\<close> and leaves the hash alone. Before \<open>GetHeader\<close>
  there is no hash to write to.\<close>

definition sr_Read :: "nat \<Rightarrow> snapshot_reader \<Rightarrow> (io_error + (byte list \<times> snapshot_reader)) option" where
  "sr_Read n sr =
     (let bs = take n (file_rest (sr_file sr)); f = (sr_file sr)\<lparr>f_pos := f_pos (sr_file sr) + length bs\<rparr> in
      if 0 < n \<and> bs = [] then Some (Inl EOF)
      else case sr_h sr of
        None \<Rightarrow> panic
      | Some h \<Rightarrow> Some (Inr (bs, \<lparr>sr_h = Some (crc32_Write bs h), sr_file = f\<rparr>)))"

definition sr_ValidatePayload :: "snapshot_header \<Rightarrow> snapshot_reader \<Rightarrow> unit option" where
  "sr_ValidatePayload header sr = do {
     h \<leftarrow> sr_h sr;
     if crc32_Sum h \<noteq> slice_bytes (sh_PayloadChecksum header) then panic else Some () }"

definition sr_ValidateHeader :: "snapshot_header \<Rightarrow> unit option" where
  "sr_ValidateHeader header = do {
     let checksum = slice_bytes (sh_HeaderChecksum header);
     let header = header\<lparr>sh_HeaderChecksum := None\<rparr>;
     data \<leftarrow> SnapshotHeader_Marshal header;
     headerHash \<leftarrow> getChecksum (sh_ChecksumType header);
     if crc32_Sum (crc32_Write data headerHash) \<noteq> checksum then panic
     else if sh_Version header \<noteq> currentSnapshotVersion then panic
     else Some () }"

section \<open>The validator of incoming chunks\<close>

record snapshot_validator =
  v_header :: snapshot_header
  v_h :: "32 word option"

definition NewSnapshotValidator :: snapshot_validator where
  "NewSnapshotValidator = \<lparr>v_header = empty_header, v_h = None\<rparr>"

definition v_getHeader :: "byte list \<Rightarrow> snapshot_validator \<Rightarrow> (bool \<times> snapshot_validator) option" where
  "v_getHeader data v =
     (if length data < SnapshotHeaderSize then panic
      else if v_h v \<noteq> None then panic
      else
        let sz = unat (get_le (take 8 data)) in
        if sz > SnapshotHeaderSize - 8 then Some (False, v)
        else do {
          headerData \<leftarrow> go_slice data 8 (8 + sz);
          res \<leftarrow> SnapshotHeader_Unmarshal headerData;
          case res of
            Inl err \<Rightarrow> Some (False, v)
          | Inr r \<Rightarrow> do {
              h \<leftarrow> getChecksum (sh_ChecksumType r);
              Some (True, \<lparr>v_header = r, v_h = Some h\<rparr>) } })"

definition v_AddChunk :: "byte list \<Rightarrow> u64 \<Rightarrow> snapshot_validator \<Rightarrow> (bool \<times> snapshot_validator) option" where
  "v_AddChunk data chunkID v = do {
     (ok, v) \<leftarrow> (if chunkID = 0 then v_getHeader data v else Some (True, v));
     if \<not> ok then Some (False, v)
     else
       let chunkData = (if chunkID = 0 then drop SnapshotHeaderSize data else data) in
       case v_h v of
         None \<Rightarrow> panic
       | Some h \<Rightarrow> Some (True, v\<lparr>v_h := Some (crc32_Write chunkData h)\<rparr>) }"

definition v_Validate :: "snapshot_validator \<Rightarrow> bool option" where
  "v_Validate v = do {
     h \<leftarrow> v_h v;
     Some (crc32_Sum h = slice_bytes (sh_PayloadChecksum (v_header v))) }"

end
