(* ===== verification/ManagedSM.thy ===== *)
theory ManagedSM
  imports SnapshotIO
begin

text \<open>
  \<open>internal/rsm/managedstatemachine.go\<close>: the wrapper around the state machine of the application. It closes the
  application's store when no component uses it any more, keeps the client sessions, and saves and restores both.

  The application implements the interface \<open>IStateMachine\<close> of \<open>statemachine/\<close>; a record of functions
  stands for its methods and \<open>'d\<close> for its data. \<open>us_SaveSnapshot\<close> yields the bytes it writes, the size it reports and the
  files it adds to the collection; \<open>us_RecoverFromSnapshot\<close> gets the bytes that are left in the reader and yields its error, the
  number of bytes it read and the data. The channel that signals the end of the node, the locks and the hashes
  computed with MD5 are left out.
\<close>

section \<open>Who uses the store\<close>

datatype From = FromNodeHost | FromStepWorker | FromCommitWorker | FromSnapshotWorker

record offloaded_status =
  os_readyToDestroy :: bool
  os_destroyed :: bool
  os_offloadedFromNodeHost :: bool
  os_offloadedFromStepWorker :: bool
  os_offloadedFromCommitWorker :: bool
  os_offloadedFromSnapshotWorker :: bool
  os_loadedByStepWorker :: bool
  os_loadedByCommitWorker :: bool
  os_loadedBySnapshotWorker :: bool

definition new_status :: offloaded_status where
  "new_status = \<lparr>os_readyToDestroy = False, os_destroyed = False, os_offloadedFromNodeHost = False,
     os_offloadedFromStepWorker = False, os_offloadedFromCommitWorker = False, os_offloadedFromSnapshotWorker = False,
     os_loadedByStepWorker = False, os_loadedByCommitWorker = False, os_loadedBySnapshotWorker = False\<rparr>"

definition ReadyToDestroy :: "offloaded_status \<Rightarrow> bool" where
  "ReadyToDestroy st = os_readyToDestroy st"

definition Destroyed :: "offloaded_status \<Rightarrow> bool" where
  "Destroyed st = os_destroyed st"

definition SetDestroyed :: "offloaded_status \<Rightarrow> offloaded_status" where
  "SetDestroyed st = st\<lparr>os_destroyed := True\<rparr>"

definition SetLoaded :: "From \<Rightarrow> offloaded_status \<Rightarrow> offloaded_status option" where
  "SetLoaded from st =
     (if os_offloadedFromNodeHost st \<and> from \<in> {FromStepWorker, FromCommitWorker, FromSnapshotWorker} then panic
      else case from of
        FromNodeHost \<Rightarrow> panic
      | FromStepWorker \<Rightarrow> Some (st\<lparr>os_loadedByStepWorker := True\<rparr>)
      | FromCommitWorker \<Rightarrow> Some (st\<lparr>os_loadedByCommitWorker := True\<rparr>)
      | FromSnapshotWorker \<Rightarrow> Some (st\<lparr>os_loadedBySnapshotWorker := True\<rparr>))"

definition SetOffloaded :: "From \<Rightarrow> offloaded_status \<Rightarrow> offloaded_status" where
  "SetOffloaded from st =
     (let st = (case from of
            FromNodeHost \<Rightarrow> st\<lparr>os_offloadedFromNodeHost := True\<rparr>
          | FromStepWorker \<Rightarrow> st\<lparr>os_offloadedFromStepWorker := True\<rparr>
          | FromCommitWorker \<Rightarrow> st\<lparr>os_offloadedFromCommitWorker := True\<rparr>
          | FromSnapshotWorker \<Rightarrow> st\<lparr>os_offloadedFromSnapshotWorker := True\<rparr>);
          st = (if from = FromNodeHost
            then st\<lparr>os_offloadedFromStepWorker := (if \<not> os_loadedByStepWorker st then True else os_offloadedFromStepWorker st),
              os_offloadedFromCommitWorker := (if \<not> os_loadedByCommitWorker st then True else os_offloadedFromCommitWorker st),
              os_offloadedFromSnapshotWorker := (if \<not> os_loadedBySnapshotWorker st then True else os_offloadedFromSnapshotWorker st)\<rparr>
            else st)
      in if os_offloadedFromNodeHost st \<and> os_offloadedFromCommitWorker st \<and> os_offloadedFromSnapshotWorker st
            \<and> os_offloadedFromStepWorker st
         then st\<lparr>os_readyToDestroy := True\<rparr> else st)"

section \<open>The application's state machine\<close>

datatype sm_error = ErrSnapshotStopped | ErrClusterClosed | ErrRestoreSnapshot | ErrNoSnapshot | ErrSnapshotOutOfDate
  | ErrRead io_error | ErrOpen | ErrUser nat

record sm_file =
  smf_FileID :: u64
  smf_Filepath :: string
  smf_Metadata :: "byte list"

record 'd user_sm =
  us_Update :: "byte list \<Rightarrow> 'd \<Rightarrow> u64 \<times> 'd"
  us_Lookup :: "byte list \<Rightarrow> 'd \<Rightarrow> byte list"
  us_GetHash :: "'d \<Rightarrow> u64"
  us_SaveSnapshot :: "'d \<Rightarrow> sm_error + (byte list \<times> u64 \<times> sm_file list)"
  us_RecoverFromSnapshot :: "byte list \<Rightarrow> sm_file list \<Rightarrow> 'd \<Rightarrow> sm_error option \<times> nat \<times> 'd"
  us_Close :: "'d \<Rightarrow> 'd"

record 'd native_sm =
  ns_dataStore :: 'd
  ns_status :: offloaded_status
  ns_sessions :: lrusession

definition NewNativeStateMachine :: "'d \<Rightarrow> 'd native_sm option" where
  "NewNativeStateMachine ds = do {
     sessions \<leftarrow> NewSessionManager;
     Some \<lparr>ns_dataStore = ds, ns_status = new_status, ns_sessions = sessions\<rparr> }"

definition nsm_closeStateMachine :: "'d user_sm \<Rightarrow> 'd native_sm \<Rightarrow> 'd native_sm" where
  "nsm_closeStateMachine ops ds = ds\<lparr>ns_dataStore := us_Close ops (ns_dataStore ds)\<rparr>"

definition nsm_Offloaded :: "'d user_sm \<Rightarrow> From \<Rightarrow> 'd native_sm \<Rightarrow> 'd native_sm" where
  "nsm_Offloaded ops from ds =
     (let ds = ds\<lparr>ns_status := SetOffloaded from (ns_status ds)\<rparr> in
      if ReadyToDestroy (ns_status ds) \<and> \<not> Destroyed (ns_status ds)
      then (nsm_closeStateMachine ops ds)\<lparr>ns_status := SetDestroyed (ns_status ds)\<rparr> else ds)"

definition nsm_Loaded :: "From \<Rightarrow> 'd native_sm \<Rightarrow> 'd native_sm option" where
  "nsm_Loaded from ds = do {
     st \<leftarrow> SetLoaded from (ns_status ds);
     Some (ds\<lparr>ns_status := st\<rparr>) }"

text \<open>The session is \<open>None\<close>, or the client and its session.\<close>

definition nsm_Update :: "'d user_sm \<Rightarrow> (u64 \<times> session) option \<Rightarrow> u64 \<Rightarrow> byte list \<Rightarrow> 'd native_sm \<Rightarrow> (u64 \<times> 'd native_sm) option" where
  "nsm_Update ops sess seriesID data ds = do {
     _ \<leftarrow> (case sess of
            None \<Rightarrow> Some ()
          | Some (_, s) \<Rightarrow> (case getResponse s seriesID of None \<Rightarrow> Some () | Some _ \<Rightarrow> panic));
     let (v, d) = us_Update ops data (ns_dataStore ds);
     let ds = ds\<lparr>ns_dataStore := d\<rparr>;
     case sess of
       None \<Rightarrow> Some (v, ds)
     | Some (key, s) \<Rightarrow> do {
         rec \<leftarrow> AddResponse key s seriesID v (ns_sessions ds);
         Some (v, ds\<lparr>ns_sessions := rec\<rparr>) } }"

definition nsm_Lookup :: "'d user_sm \<Rightarrow> byte list \<Rightarrow> 'd native_sm \<Rightarrow> sm_error + byte list" where
  "nsm_Lookup ops data ds =
     (if Destroyed (ns_status ds) then Inl ErrClusterClosed else Inr (us_Lookup ops data (ns_dataStore ds)))"

definition nsm_GetHash :: "'d user_sm \<Rightarrow> 'd native_sm \<Rightarrow> u64" where
  "nsm_GetHash ops ds = us_GetHash ops (ns_dataStore ds)"

section \<open>Snapshots\<close>

text \<open>The size or the error, the files in the collection, the content of the file, and the
  state machine: the lookups of \<open>save\<close> touch the cache of sessions.\<close>

definition nsm_SaveSnapshot ::
  "'d user_sm \<Rightarrow> u64 \<Rightarrow> 'd native_sm \<Rightarrow> ((sm_error + (u64 \<times> sm_file list)) \<times> byte list \<times> 'd native_sm) option" where
  "nsm_SaveSnapshot ops now ds = do {
     writer \<leftarrow> NewSnapshotWriter;
     (bs, rec) \<leftarrow> lru_save (ns_sessions ds);
     let ds = ds\<lparr>ns_sessions := rec\<rparr>;
     let smsz = of_nat (length bs);
     let writer = sw_Write bs writer;
     case us_SaveSnapshot ops (ns_dataStore ds) of
       Inl err \<Rightarrow> Some (Inl err, f_data (sw_file writer), ds)
     | Inr (bs, sz, files) \<Rightarrow> do {
         writer \<leftarrow> sw_SaveHeader now smsz sz (sw_Write bs writer);
         Some (Inr (sz + smsz + of_nat SnapshotHeaderSize, files), f_data (sw_file writer), ds) } }"

text \<open>The body of \<open>RecoverFromSnapshot\<close>, up to the deferred call.\<close>

definition nsm_recover :: "'d user_sm \<Rightarrow> snapshot_reader \<Rightarrow> sm_file list \<Rightarrow> 'd native_sm \<Rightarrow> (sm_error option \<times> 'd native_sm) option" where
  "nsm_recover ops reader files ds = do {
     res \<leftarrow> sr_GetHeader reader;
     case res of
       Inl err \<Rightarrow> Some (Some (ErrRead err), ds)
     | Inr (header, reader) \<Rightarrow> do {
         _ \<leftarrow> sr_ValidateHeader header;
         let rest = file_rest (sr_file reader);
         res \<leftarrow> lru_load rest (ns_sessions ds);
         case res of
           Inl err \<Rightarrow> Some (Some (ErrRead err), ds)
         | Inr (rec, rest') \<Rightarrow> do {
             let ds = ds\<lparr>ns_sessions := rec\<rparr>;
             res \<leftarrow> sr_Read (length rest - length rest') reader;
             case res of
               Inl err \<Rightarrow> Some (Some (ErrRead err), ds)
             | Inr (_, reader) \<Rightarrow> do {
                 let rest = file_rest (sr_file reader);
                 let (err, n, d) = us_RecoverFromSnapshot ops rest files (ns_dataStore ds);
                 let ds = ds\<lparr>ns_dataStore := d\<rparr>;
                 case err of
                   Some e \<Rightarrow> Some (Some e, ds)
                 | None \<Rightarrow> do {
                     res \<leftarrow> sr_Read (min n (length rest)) reader;
                     case res of
                       Inl e \<Rightarrow> Some (Some (ErrRead e), ds)
                     | Inr (_, reader) \<Rightarrow> do {
                         _ \<leftarrow> sr_ValidatePayload header reader;
                         Some (None, ds) } } } } } }"

text \<open>Closing a file that is open for reading reports no error.\<close>

definition sr_Close :: "snapshot_reader \<Rightarrow> sm_error option" where
  "sr_Close sr = None"

text \<open>\<open>err\<close> is the named result of the function, and the deferred call assigns the result of \<open>Close\<close> to it.\<close>

definition nsm_RecoverFromSnapshot ::
  "'d user_sm \<Rightarrow> byte list option \<Rightarrow> sm_file list \<Rightarrow> 'd native_sm \<Rightarrow> (sm_error option \<times> 'd native_sm) option" where
  "nsm_RecoverFromSnapshot ops content files ds =
     (case content of
        None \<Rightarrow> Some (Some ErrOpen, ds)
      | Some content \<Rightarrow> do {
          let reader = NewSnapshotReader content;
          (err, ds) \<leftarrow> nsm_recover ops reader files ds;
          let err = sr_Close reader;
          Some (err, ds) })"

end
