(* ===== verification/RSM.thy ===== *)
theory RSM
  imports ManagedSM
begin

text \<open>
  \<open>internal/rsm/statemachine.go\<close>: the replicated state machine of a node. It takes committed entries from its
  queue and applies them: updates go to the application's state machine through the client sessions, config changes
  to the membership.

  The methods of the interface \<open>INodeProxy\<close> that it calls are recorded in the order of the calls. A decoded config change may carry a type
  that no constant names, so it is a \<open>cc_raw\<close>. The snapshotter is an interface and a parameter: a record of functions,
  in which \<open>is_file\<close> gives the content of the file at \<open>GetFilePath\<close>. \<open>batchedEntryApply\<close> is
  a setting and an argument. Addresses consist of ASCII characters. Locks and hashes are left out.
\<close>

section \<open>Types\<close>

record commit_rec =
  cm_Index :: u64
  cm_SnapshotAvailable :: bool
  cm_InitialSnapshot :: bool
  cm_SnapshotRequested :: bool
  cm_Entries :: "entry list"

definition empty_commit :: commit_rec where
  "empty_commit = \<lparr>cm_Index = 0, cm_SnapshotAvailable = False, cm_InitialSnapshot = False,
     cm_SnapshotRequested = False, cm_Entries = []\<rparr>"

text \<open>\<open>ApplyUpdate\<close> has the result, \<open>rejected\<close>, \<open>ignored\<close> and \<open>notifyRead\<close> as arguments.\<close>

datatype node_call =
    RestoreRemotes snapshot
  | ApplyUpdate entry u64 bool bool bool
  | ApplyConfigChange cc_raw
  | ConfigChangeProcessed u64 bool

record 'd isnapshotter =
  is_GetSnapshot :: "u64 \<Rightarrow> sm_error + snapshot"
  is_GetMostRecentSnapshot :: "sm_error + snapshot"
  is_file :: "u64 \<Rightarrow> byte list option"
  is_stat :: "string \<Rightarrow> u64 option"
  is_Save :: "u64 \<Rightarrow> u64 \<Rightarrow> 'd native_sm \<Rightarrow> ((sm_error + snapshot) \<times> 'd native_sm) option"

record 'd rsm_state =
  sm_sm :: "'d native_sm"
  sm_lastApplied :: u64
  sm_lastAppliedTerm :: u64
  sm_lastSnapshotIndex :: u64
  sm_members :: membership
  sm_ordered :: bool
  sm_commitC :: "commit_rec list"
  sm_aborted :: bool
  sm_batchedLastApplied :: u64
  sm_calls :: "node_call list"

definition NewStateMachine :: "'d native_sm \<Rightarrow> bool \<Rightarrow> 'd rsm_state" where
  "NewStateMachine sm ordered =
     \<lparr>sm_sm = sm, sm_lastApplied = 0, sm_lastAppliedTerm = 0, sm_lastSnapshotIndex = 0, sm_members = empty_membership,
      sm_ordered = ordered, sm_commitC = [], sm_aborted = False, sm_batchedLastApplied = 0, sm_calls = []\<rparr>"

definition node_calls :: "node_call \<Rightarrow> 'd rsm_state \<Rightarrow> 'd rsm_state" where
  "node_calls c s = s\<lparr>sm_calls := sm_calls s @ [c]\<rparr>"

definition setBatchedLastApplied :: "u64 \<Rightarrow> 'd rsm_state \<Rightarrow> 'd rsm_state" where
  "setBatchedLastApplied idx s = s\<lparr>sm_batchedLastApplied := idx\<rparr>"

definition commitChanLength :: nat where
  "commitChanLength = 1024"

definition CommitChanBusy :: "'d rsm_state \<Rightarrow> bool" where
  "CommitChanBusy s \<longleftrightarrow> length (sm_commitC s) > commitChanLength div 2"

section \<open>Snapshots\<close>

definition IsNoSnapshotError :: "sm_error \<Rightarrow> bool" where
  "IsNoSnapshotError e \<longleftrightarrow> e = ErrNoSnapshot"

definition panicOnSizeMismatch :: u64 where
  "panicOnSizeMismatch = 1"

text \<open>A file that is missing or has another size is a panic.\<close>

definition checkFileSize :: "'d isnapshotter \<Rightarrow> string \<Rightarrow> u64 \<Rightarrow> unit option" where
  "checkFileSize sn path sz =
     (if panicOnSizeMismatch > 0 then do {
        fsize \<leftarrow> is_stat sn path;
        if sz \<noteq> fsize then panic else Some () }
      else Some ())"

fun validate_files :: "'d isnapshotter \<Rightarrow> snapshot_file list \<Rightarrow> bool option" where
  "validate_files sn [] = Some True"
| "validate_files sn (f # fs) =
     (if length (sf_Filepath f) = 0 \<or> sf_FileSize f = 0 then Some False
      else do {
        _ \<leftarrow> checkFileSize sn (sf_Filepath f) (sf_FileSize f);
        validate_files sn fs })"

definition Snapshot_Validate :: "'d isnapshotter \<Rightarrow> snapshot \<Rightarrow> bool option" where
  "Snapshot_Validate sn ss =
     (if length (ss_Filepath ss) = 0 \<or> ss_FileSize ss = 0 then Some False
      else do {
        _ \<leftarrow> checkFileSize sn (ss_Filepath ss) (ss_FileSize ss);
        validate_files sn (ss_Files ss) })"

definition getSnapshotFiles :: "snapshot \<Rightarrow> sm_file list" where
  "getSnapshotFiles ss =
     map (\<lambda>f. \<lparr>smf_FileID = sf_FileId f, smf_Filepath = sf_Filepath f, smf_Metadata = sf_Metadata f\<rparr>) (ss_Files ss)"

definition deepCopyMembership :: "membership \<Rightarrow> membership" where
  "deepCopyMembership m =
     \<lparr>mb_ConfigChangeId = mb_ConfigChangeId m,
      mb_Addresses = foldl (\<lambda>c (nid, addr). AList.update nid addr c) [] (mb_Addresses m),
      mb_Removed = foldl (\<lambda>c (nid, _). AList.update nid True c) [] (mb_Removed m),
      mb_Observers = foldl (\<lambda>c (nid, addr). AList.update nid addr c) [] (mb_Observers m)\<rparr>"

text \<open>With an error the snapshotter returns the zero value as snapshot.\<close>

definition rsm_getSnapshot :: "'d isnapshotter \<Rightarrow> commit_rec \<Rightarrow> sm_error + snapshot" where
  "rsm_getSnapshot sn rec =
     (if \<not> cm_InitialSnapshot rec then
        (case is_GetSnapshot sn (cm_Index rec) of
           Inl err \<Rightarrow> if \<not> IsNoSnapshotError err then Inl ErrRestoreSnapshot else Inl err
         | Inr snapshot \<Rightarrow> Inr snapshot)
      else
        (case is_GetMostRecentSnapshot sn of
           Inl err \<Rightarrow> Inr empty_snapshot
         | Inr snapshot \<Rightarrow> Inr snapshot))"

definition recoverSnapshot ::
  "'d user_sm \<Rightarrow> 'd isnapshotter \<Rightarrow> snapshot \<Rightarrow> 'd rsm_state \<Rightarrow> ((bool \<times> u64 \<times> sm_error option) \<times> 'd rsm_state) option" where
  "recoverSnapshot ops sn ss s =
     (if sm_lastApplied s \<ge> ss_Index ss then Some ((False, sm_lastApplied s, None), s)
      else if sm_aborted s then Some ((False, 0, Some ErrSnapshotStopped), s)
      else do {
        let snapshotFiles = getSnapshotFiles ss;
        (err, sm) \<leftarrow> nsm_RecoverFromSnapshot ops (is_file sn (ss_Index ss)) snapshotFiles (sm_sm s);
        let s = s\<lparr>sm_sm := sm\<rparr>;
        case err of
          Some e \<Rightarrow>
            if e = ErrSnapshotStopped then Some ((False, 0, Some e), s\<lparr>sm_aborted := True\<rparr>)
            else Some ((False, 0, Some ErrRestoreSnapshot), s)
        | None \<Rightarrow> Some ((True, 0, None),
            s\<lparr>sm_lastApplied := ss_Index ss, sm_lastAppliedTerm := ss_Term ss,
              sm_members := deepCopyMembership (ss_Membership ss)\<rparr>) })"

definition rsm_RecoverFromSnapshot ::
  "'d user_sm \<Rightarrow> 'd isnapshotter \<Rightarrow> commit_rec \<Rightarrow> 'd rsm_state \<Rightarrow> ((u64 \<times> sm_error option) \<times> 'd rsm_state) option" where
  "rsm_RecoverFromSnapshot ops sn rec s =
     (case rsm_getSnapshot sn rec of
        Inl err \<Rightarrow> Some ((0, Some err), s)
      | Inr ss \<Rightarrow>
          if IsEmptySnapshot ss then Some ((0, None), s)
          else do {
            _ \<leftarrow> Snapshot_Validate sn ss;
            ((recovered, idx, err), s) \<leftarrow> recoverSnapshot ops sn ss s;
            if \<not> recovered then Some ((idx, err), s)
            else Some ((ss_Index ss, None), node_calls (RestoreRemotes ss) (setBatchedLastApplied (ss_Index ss) s)) })"

definition rsm_SaveSnapshot ::
  "'d isnapshotter \<Rightarrow> 'd rsm_state \<Rightarrow> ((sm_error + snapshot) \<times> 'd rsm_state) option" where
  "rsm_SaveSnapshot sn s =
     (if sm_aborted s then Some (Inl ErrSnapshotStopped, s)
      else if sm_lastApplied s < sm_lastSnapshotIndex s then panic
      else if sm_lastApplied s > 0 \<and> sm_lastApplied s = sm_lastSnapshotIndex s then Some (Inl ErrSnapshotOutOfDate, s)
      else do {
        (res, sm) \<leftarrow> is_Save sn (sm_lastApplied s) (sm_lastAppliedTerm s) (sm_sm s);
        let s = s\<lparr>sm_sm := sm\<rparr>;
        case res of
          Inl err \<Rightarrow> Some (Inl err, s)
        | Inr snapshot \<Rightarrow>
            if length (mb_Addresses (sm_members s)) > 0
            then Some (Inr (snapshot\<lparr>ss_Membership := deepCopyMembership (sm_members s)\<rparr>),
              s\<lparr>sm_lastSnapshotIndex := sm_lastApplied s\<rparr>)
            else panic })"

section \<open>Queries\<close>

definition rsm_Lookup :: "'d user_sm \<Rightarrow> byte list \<Rightarrow> 'd rsm_state \<Rightarrow> sm_error + byte list" where
  "rsm_Lookup ops query s = (if sm_aborted s then Inl ErrClusterClosed else nsm_Lookup ops query (sm_sm s))"

definition GetMembership :: "'d rsm_state \<Rightarrow> (u64, string) gomap \<times> (u64, string) gomap \<times> (u64, unit) gomap \<times> u64" where
  "GetMembership s =
     (foldl (\<lambda>c (nid, addr). AList.update nid addr c) [] (mb_Addresses (sm_members s)),
      foldl (\<lambda>c (nid, addr). AList.update nid addr c) [] (mb_Observers (sm_members s)),
      foldl (\<lambda>c (nid, _). AList.update nid () c) [] (mb_Removed (sm_members s)),
      mb_ConfigChangeId (sm_members s))"

definition rsm_Offloaded :: "'d user_sm \<Rightarrow> From \<Rightarrow> 'd rsm_state \<Rightarrow> 'd rsm_state" where
  "rsm_Offloaded ops from s = s\<lparr>sm_sm := nsm_Offloaded ops from (sm_sm s)\<rparr>"

definition rsm_Loaded :: "From \<Rightarrow> 'd rsm_state \<Rightarrow> 'd rsm_state option" where
  "rsm_Loaded from s = do { sm \<leftarrow> nsm_Loaded from (sm_sm s); Some (s\<lparr>sm_sm := sm\<rparr>) }"

section \<open>Applying entries\<close>

definition updateLastApplied :: "u64 \<Rightarrow> u64 \<Rightarrow> 'd rsm_state \<Rightarrow> 'd rsm_state option" where
  "updateLastApplied lastApplied trm s =
     (if sm_lastApplied s + 1 \<noteq> lastApplied then panic
      else if lastApplied = 0 then panic
      else if trm = 0 then panic
      else if trm < sm_lastAppliedTerm s then panic
      else Some (s\<lparr>sm_lastApplied := lastApplied, sm_lastAppliedTerm := trm\<rparr>))"

definition set_sessions :: "lrusession \<Rightarrow> 'd rsm_state \<Rightarrow> 'd rsm_state" where
  "set_sessions rec s = s\<lparr>sm_sm := (sm_sm s)\<lparr>ns_sessions := rec\<rparr>\<rparr>"

definition handleRegisterSession :: "entry \<Rightarrow> 'd rsm_state \<Rightarrow> (u64 \<times> 'd rsm_state) option" where
  "handleRegisterSession ent s = do {
     (smResult, rec) \<leftarrow> RegisterClientID (e_ClientID ent) (ns_sessions (sm_sm s));
     s \<leftarrow> updateLastApplied (e_Index ent) (e_Term ent) (set_sessions rec s);
     Some (smResult, s) }"

definition handleUnregisterSession :: "entry \<Rightarrow> 'd rsm_state \<Rightarrow> (u64 \<times> 'd rsm_state) option" where
  "handleUnregisterSession ent s = do {
     (smResult, rec) \<leftarrow> UnregisterClientID (e_ClientID ent) (ns_sessions (sm_sm s));
     s \<leftarrow> updateLastApplied (e_Index ent) (e_Term ent) (set_sessions rec s);
     Some (smResult, s) }"

definition handleNoOP :: "entry \<Rightarrow> 'd rsm_state \<Rightarrow> 'd rsm_state option" where
  "handleNoOP ent s = (if \<not> IsEmpty ent then panic else updateLastApplied (e_Index ent) (e_Term ent) s)"

definition sm_Update :: "'d user_sm \<Rightarrow> (u64 \<times> session) option \<Rightarrow> entry \<Rightarrow> 'd rsm_state \<Rightarrow> (u64 \<times> 'd rsm_state) option" where
  "sm_Update ops sess ent s = do {
     (result, sm) \<leftarrow> nsm_Update ops sess (e_SeriesID ent) (e_Cmd ent) (sm_sm s);
     Some (result, s\<lparr>sm_sm := sm\<rparr>) }"

text \<open>The result, whether to ignore the entry, whether it is rejected.\<close>

definition handleUpdate :: "'d user_sm \<Rightarrow> entry \<Rightarrow> 'd rsm_state \<Rightarrow> ((u64 \<times> bool \<times> bool) \<times> 'd rsm_state) option" where
  "handleUpdate ops ent s = do {
     s \<leftarrow> updateLastApplied (e_Index ent) (e_Term ent) s;
     if \<not> IsNoOPSession ent then do {
       (session, rec) \<leftarrow> ClientRegistered (e_ClientID ent) (ns_sessions (sm_sm s));
       let s = set_sessions rec s;
       case session of
         None \<Rightarrow> Some ((0, False, True), s)
       | Some se \<Rightarrow> do {
           let (se, rec) = UpdateRespondedTo (e_ClientID ent) se (e_RespondedTo ent) (ns_sessions (sm_sm s));
           let s = set_sessions rec s;
           let (result, responded, updateRequired) = UpdateRequired se (e_SeriesID ent);
           if responded then Some ((0, True, False), s)
           else if \<not> updateRequired then Some ((result, False, False), s)
           else do {
             (result, s) \<leftarrow> sm_Update ops (Some (e_ClientID ent, se)) ent s;
             Some ((result, False, False), s) } } }
     else do {
       (result, s) \<leftarrow> sm_Update ops None ent s;
       Some ((result, False, False), s) } }"

definition onUpdateApplied :: "entry \<Rightarrow> u64 \<Rightarrow> bool \<Rightarrow> bool \<Rightarrow> bool \<Rightarrow> 'd rsm_state \<Rightarrow> 'd rsm_state" where
  "onUpdateApplied ent result ignored rejected lastInBatch s =
     (if \<not> ignored then node_calls (ApplyUpdate ent result rejected ignored lastInBatch) s else s)"

text \<open>One turn of the loop of \<open>handleAllUpdateEntries\<close>.\<close>

definition handleUpdateEntry :: "'d user_sm \<Rightarrow> bool \<Rightarrow> entry \<Rightarrow> 'd rsm_state \<Rightarrow> 'd rsm_state option" where
  "handleUpdateEntry ops lastInBatch ent s = do {
     s \<leftarrow> updateLastApplied (e_Index ent) (e_Term ent) s;
     if \<not> IsNoOPSession ent then do {
       (session, rec) \<leftarrow> ClientRegistered (e_ClientID ent) (ns_sessions (sm_sm s));
       let s = set_sessions rec s;
       case session of
         None \<Rightarrow> Some (onUpdateApplied ent 0 False True lastInBatch s)
       | Some se \<Rightarrow> do {
           let (se, rec) = UpdateRespondedTo (e_ClientID ent) se (e_RespondedTo ent) (ns_sessions (sm_sm s));
           let s = set_sessions rec s;
           let (result, responded, updateRequired) = UpdateRequired se (e_SeriesID ent);
           if responded then Some (onUpdateApplied ent 0 True False lastInBatch s)
           else if \<not> updateRequired then Some (onUpdateApplied ent result False False lastInBatch s)
           else do {
             (result, s) \<leftarrow> sm_Update ops (Some (e_ClientID ent, se)) ent s;
             Some (onUpdateApplied ent result False False lastInBatch s) } } }
     else do {
       (result, s) \<leftarrow> sm_Update ops None ent s;
       Some (onUpdateApplied ent result False False lastInBatch s) } }"

fun handleUpdateEntries :: "'d user_sm \<Rightarrow> entry list \<Rightarrow> 'd rsm_state \<Rightarrow> 'd rsm_state option" where
  "handleUpdateEntries ops [] s = Some s"
| "handleUpdateEntries ops (ent # ents) s = do {
     s \<leftarrow> handleUpdateEntry ops (ents = []) ent s;
     handleUpdateEntries ops ents s }"

definition handleAllUpdateEntries :: "'d user_sm \<Rightarrow> entry list \<Rightarrow> 'd rsm_state \<Rightarrow> 'd rsm_state option" where
  "handleAllUpdateEntries ops ents s = do {
     s \<leftarrow> handleUpdateEntries ops ents s;
     if length ents > 0 then Some (setBatchedLastApplied (e_Index (ents ! (length ents - 1))) s) else Some s }"

section \<open>Config changes\<close>

definition is_space :: "char \<Rightarrow> bool" where
  "is_space c \<longleftrightarrow> c \<in> {CHR 0x20, CHR 0x09, CHR 0x0A, CHR 0x0B, CHR 0x0C, CHR 0x0D}"

definition TrimSpace :: "string \<Rightarrow> string" where
  "TrimSpace t = rev (dropWhile is_space (rev (dropWhile is_space t)))"

definition lower_char :: "char \<Rightarrow> char" where
  "lower_char c = (let n = (of_char c :: nat) in if 65 \<le> n \<and> n \<le> 90 then char_of (n + 32) else c)"

definition addressEqual :: "string \<Rightarrow> string \<Rightarrow> bool" where
  "addressEqual addr1 addr2 \<longleftrightarrow> map lower_char (TrimSpace addr1) = map lower_char (TrimSpace addr2)"

abbreviation cc_is :: "cc_raw \<Rightarrow> config_change_type \<Rightarrow> bool" where
  "cc_is cc t \<equiv> int32_type (raw_Type cc) = Some t"

definition isConfChangeUpToDate :: "cc_raw \<Rightarrow> 'd rsm_state \<Rightarrow> bool" where
  "isConfChangeUpToDate cc s =
     (if \<not> sm_ordered s \<or> raw_Initialize cc then True
      else if mb_ConfigChangeId (sm_members s) = raw_ConfigChangeId cc then True
      else False)"

definition isAddingRemovedNode :: "cc_raw \<Rightarrow> 'd rsm_state \<Rightarrow> bool" where
  "isAddingRemovedNode cc s =
     (if cc_is cc AddNode \<or> cc_is cc AddObserver then map_of (mb_Removed (sm_members s)) (raw_NodeID cc) \<noteq> None else False)"

definition isAddingExistingMember :: "cc_raw \<Rightarrow> 'd rsm_state \<Rightarrow> bool" where
  "isAddingExistingMember cc s =
     (if cc_is cc AddNode \<and> list_ex (\<lambda>(_, addr). addressEqual addr (raw_Address cc)) (mb_Addresses (sm_members s)) then True
      else if cc_is cc AddObserver \<and> list_ex (\<lambda>(_, addr). addressEqual addr (raw_Address cc)) (mb_Observers (sm_members s)) then True
      else False)"

definition isAddingNodeAsObserver :: "cc_raw \<Rightarrow> 'd rsm_state \<Rightarrow> bool" where
  "isAddingNodeAsObserver cc s =
     (if cc_is cc AddObserver then map_of (mb_Addresses (sm_members s)) (raw_NodeID cc) \<noteq> None else False)"

definition applyConfigChangeLocked :: "cc_raw \<Rightarrow> u64 \<Rightarrow> 'd rsm_state \<Rightarrow> 'd rsm_state option" where
  "applyConfigChangeLocked cc index s =
     (let s = node_calls (ApplyConfigChange cc) (s\<lparr>sm_members := (sm_members s)\<lparr>mb_ConfigChangeId := index\<rparr>\<rparr>);
          m = sm_members s; nid = raw_NodeID cc
      in case int32_type (raw_Type cc) of
        Some AddNode \<Rightarrow>
          let (m, nodeAddr) = (case map_of (mb_Observers m) nid of
                Some addr \<Rightarrow> (m\<lparr>mb_Observers := AList.delete nid (mb_Observers m)\<rparr>, addr)
              | None \<Rightarrow> (m, raw_Address cc))
          in Some (s\<lparr>sm_members := m\<lparr>mb_Addresses := AList.update nid nodeAddr (mb_Addresses m)\<rparr>\<rparr>)
      | Some AddObserver \<Rightarrow>
          (case map_of (mb_Addresses m) nid of
             Some _ \<Rightarrow> panic
           | None \<Rightarrow> Some (s\<lparr>sm_members := m\<lparr>mb_Observers := AList.update nid (raw_Address cc) (mb_Observers m)\<rparr>\<rparr>))
      | Some RemoveNode \<Rightarrow>
          Some (s\<lparr>sm_members := m\<lparr>mb_Addresses := AList.delete nid (mb_Addresses m),
            mb_Observers := AList.delete nid (mb_Observers m), mb_Removed := AList.update nid True (mb_Removed m)\<rparr>\<rparr>)
      | None \<Rightarrow> panic)"

definition handleConfigChange :: "entry \<Rightarrow> 'd rsm_state \<Rightarrow> (bool \<times> 'd rsm_state) option" where
  "handleConfigChange ent s = do {
     res \<leftarrow> ConfigChange_Unmarshal (e_Cmd ent);
     case res of
       Inl err \<Rightarrow> panic
     | Inr cc \<Rightarrow>
         if cc_is cc AddNode \<and> length (raw_Address cc) = 0 then panic
         else do {
           let nodeBecomingObserver = isAddingNodeAsObserver cc s;
           let alreadyMember = isAddingExistingMember cc s;
           let addRemovedNode = isAddingRemovedNode cc s;
           let upToDateCC = isConfChangeUpToDate cc s;
           s \<leftarrow> updateLastApplied (e_Index ent) (e_Term ent) s;
           if upToDateCC \<and> \<not> addRemovedNode \<and> \<not> alreadyMember \<and> \<not> nodeBecomingObserver then do {
             s \<leftarrow> applyConfigChangeLocked cc (e_Index ent) s;
             Some (True, s) }
           else Some (False, s) } }"

section \<open>The queue\<close>

definition handleCommitRec :: "'d user_sm \<Rightarrow> entry \<Rightarrow> bool \<Rightarrow> 'd rsm_state \<Rightarrow> 'd rsm_state option" where
  "handleCommitRec ops ent lastInBatch s = do {
     s \<leftarrow> (if IsConfigChange ent then do {
            (accepted, s) \<leftarrow> handleConfigChange ent s;
            Some (node_calls (ConfigChangeProcessed (e_Key ent) accepted) s) }
          else if \<not> IsSessionManaged ent then
            if IsEmpty ent then do {
              s \<leftarrow> handleNoOP ent s;
              Some (node_calls (ApplyUpdate ent 0 False True lastInBatch) s) }
            else panic
          else if IsNewSessionRequest ent then do {
            (smResult, s) \<leftarrow> handleRegisterSession ent s;
            Some (node_calls (ApplyUpdate ent smResult (smResult = 0) False lastInBatch) s) }
          else if IsEndOfSessionRequest ent then do {
            (smResult, s) \<leftarrow> handleUnregisterSession ent s;
            Some (node_calls (ApplyUpdate ent smResult (smResult = 0) False lastInBatch) s) }
          else do {
            ((smResult, ignored, rejected), s) \<leftarrow> handleUpdate ops ent s;
            Some (if \<not> ignored then node_calls (ApplyUpdate ent smResult rejected ignored lastInBatch) s else s) });
     if sm_lastApplied s \<noteq> e_Index ent then panic
     else Some (if lastInBatch then setBatchedLastApplied (e_Index ent) s else s) }"

definition allUpdateEntries :: "entry list \<Rightarrow> bool" where
  "allUpdateEntries entries \<longleftrightarrow> list_all IsUpdateEntry entries"

fun handleEntries :: "'d user_sm \<Rightarrow> bool \<Rightarrow> entry list \<Rightarrow> 'd rsm_state \<Rightarrow> 'd rsm_state option" where
  "handleEntries ops lastRec [] s = Some s"
| "handleEntries ops lastRec (ent # ents) s = do {
     s \<leftarrow> handleCommitRec ops ent (lastRec \<and> ents = []) s;
     handleEntries ops lastRec ents s }"

fun rsm_handle :: "'d user_sm \<Rightarrow> bool \<Rightarrow> commit_rec list \<Rightarrow> 'd rsm_state \<Rightarrow> 'd rsm_state option" where
  "rsm_handle ops batchedEntryApply [] s = Some s"
| "rsm_handle ops batchedEntryApply (rec # batch) s =
     (if cm_SnapshotAvailable rec \<or> cm_SnapshotRequested rec then panic
      else do {
        s \<leftarrow> (if batchedEntryApply \<and> allUpdateEntries (cm_Entries rec)
             then handleAllUpdateEntries ops (cm_Entries rec) s
             else handleEntries ops (batch = []) (cm_Entries rec) s);
        rsm_handle ops batchedEntryApply batch s })"

definition is_snapshot_rec :: "commit_rec \<Rightarrow> bool" where
  "is_snapshot_rec rec \<longleftrightarrow> cm_SnapshotAvailable rec \<or> cm_SnapshotRequested rec"

text \<open>\<open>Handle\<close> takes records from the queue until it is empty or a record is about a snapshot.\<close>

definition rsm_Handle :: "'d user_sm \<Rightarrow> bool \<Rightarrow> 'd rsm_state \<Rightarrow> ((commit_rec \<times> bool) \<times> 'd rsm_state) option" where
  "rsm_Handle ops batchedEntryApply s =
     (let batch = takeWhile (\<lambda>rec. \<not> is_snapshot_rec rec) (sm_commitC s);
          rest = dropWhile (\<lambda>rec. \<not> is_snapshot_rec rec) (sm_commitC s)
      in case rest of
        [] \<Rightarrow> do {
          s \<leftarrow> rsm_handle ops batchedEntryApply batch (s\<lparr>sm_commitC := []\<rparr>);
          Some ((empty_commit, False), s) }
      | rec # rest \<Rightarrow> do {
          s \<leftarrow> rsm_handle ops batchedEntryApply batch (s\<lparr>sm_commitC := rest\<rparr>);
          Some ((rec, True), s) })"

end
