(* ===== verification/SnapshotIOSpec.thy ===== *)
theory SnapshotIOSpec
  imports SnapshotIO
begin

text \<open>
  What the checks of \<open>SnapshotIO\<close> establish: the checksum of a file does not depend on how it is cut into pieces
  and changes with every single byte, an encoded header is decoded to itself, and a file that was written
  passes the checks of the reader and of the validator.
\<close>

unbundle bit_operations_syntax

section \<open>The checksum\<close>

lemma crc_shift_31: "bit (crc_shift c) 31 \<longleftrightarrow> bit c 0"
proof -
  have "bit (0xEDB88320 :: 32 word) 31" by simp
  moreover have "\<not> bit c 32" using bit_imp_le_length [of c 32] by auto
  ultimately show ?thesis by (simp add: crc_shift_def bit_simps)
qed

lemma xor_right_cancel: "a XOR c = b XOR c \<longleftrightarrow> a = (b :: 'a :: len word)"
  by (metis xor.assoc xor.right_neutral xor_self_eq)

lemma xor_left_cancel: "c XOR a = c XOR b \<longleftrightarrow> a = (b :: 'a :: len word)"
  by (metis xor.commute xor_right_cancel)

lemma crc_shift_inj: "crc_shift c = crc_shift d \<Longrightarrow> c = d"
proof -
  assume eq: "crc_shift c = crc_shift d"
  then have 0: "bit c 0 = bit d 0" using crc_shift_31 by metis
  have "drop_bit 1 c = drop_bit 1 d"
    using eq 0 by (auto simp: crc_shift_def xor_right_cancel split: if_splits)
  then have "bit c (Suc n) = bit d (Suc n)" for n
    by (metis bit_drop_bit_eq comp_apply plus_1_eq_Suc)
  then show "c = d" using 0 by (intro bit_word_eqI) (metis old.nat.exhaust)
qed

lemma crc_shifts_inj: "(crc_shift ^^ n) c = (crc_shift ^^ n) d \<Longrightarrow> c = d"
  by (induction n) (auto dest: crc_shift_inj)

lemma ucast_byte_inj: "(ucast (a :: byte) :: 32 word) = ucast b \<longleftrightarrow> a = b"
proof
  assume eq: "(ucast a :: 32 word) = ucast b"
  have "(ucast (ucast a :: 32 word) :: byte) = a" "(ucast (ucast b :: 32 word) :: byte) = b"
    by (rule bit_word_eqI, simp add: bit_simps)+
  then show "a = b" using eq by metis
qed simp

lemma ucast_scast_32: "ucast (scast (t :: 32 word) :: u64) = t"
  by (rule bit_word_eqI) (auto simp: bit_simps)

lemma crc_byte_inj: "crc_byte c b = crc_byte d b \<longleftrightarrow> c = d" "crc_byte c a = crc_byte c b \<longleftrightarrow> a = b"
  by (auto simp: crc_byte_def xor_left_cancel xor_right_cancel ucast_byte_inj dest!: crc_shifts_inj)

lemma crc_fold_inj: "foldl crc_byte c p = foldl crc_byte d p \<longleftrightarrow> c = d"
  by (induction p arbitrary: c d) (simp_all add: crc_byte_inj)

lemma crc32_Write_append: "crc32_Write (p @ q) h = crc32_Write q (crc32_Write p h)"
  by (simp add: crc32_Write_def)

lemma crc32_Write_Nil [simp]: "crc32_Write [] h = h"
  by (simp add: crc32_Write_def)

text \<open>Two texts that differ in one byte have different checksums.\<close>

lemma crc32_single_byte: "a \<noteq> b \<Longrightarrow> crc32_Write (p @ a # q) h \<noteq> crc32_Write (p @ b # q) h"
  by (simp add: crc32_Write_def crc_fold_inj crc_byte_inj)

lemma crc32_Sum_inj: "crc32_Sum h = crc32_Sum g \<longleftrightarrow> h = g"
proof
  assume eq: "crc32_Sum h = crc32_Sum g"
  show "h = g"
  proof (rule bit_word_eqI)
    fix n assume n: "n < LENGTH(32)"
    have s: "bit (ucast (drop_bit k h) :: byte) m = bit (ucast (drop_bit k g) :: byte) m" if "k \<in> {0, 8, 16, 24}" for k m
      using that eq by (auto simp: crc32_Sum_def)
    have "bit h (k + m) = bit g (k + m)" if "k \<in> {0, 8, 16, 24}" "m < 8" for k m
      using s [OF that(1), of m] that(2) by (simp add: bit_simps)
    from this [of "8 * (n div 8)" "n mod 8"] show "bit h n = bit g n"
    proof -
      have "n div 8 < 4" using n by (simp add: div_less_iff_less_mult)
      then have "n div 8 \<in> {0, 1, 2, 3}" by auto
      then have "8 * (n div 8) \<in> {0, 8, 16, 24}" by auto
      then show ?thesis using \<open>8 * (n div 8) \<in> {0, 8, 16, 24} \<Longrightarrow> n mod 8 < 8 \<Longrightarrow> _\<close> by simp
    qed
  qed
qed simp

section \<open>The header\<close>

lemma SnapshotHeader_Marshal_total: "SnapshotHeader_Marshal m = Some (SnapshotHeader_MarshalTo m)"
  by (auto simp: SnapshotHeader_Marshal_def SnapshotHeader_MarshalTo_def SnapshotHeader_Size_def Let_def
      encodeVarintRaft_length split: option.split)

lemma header_roundtrip:
  assumes len: "length (SnapshotHeader_MarshalTo m) < 2 ^ 63"
  shows "SnapshotHeader_Unmarshal (SnapshotHeader_MarshalTo m) = Some (Inr m)"
proof -
  let ?F = "SnapshotHeader_fields"
  let ?m1 = "empty_header\<lparr>sh_SessionSize := sh_SessionSize m\<rparr>" let ?m2 = "?m1\<lparr>sh_DataStoreSize := sh_DataStoreSize m\<rparr>"
  let ?m3 = "?m2\<lparr>sh_UnreliableTime := sh_UnreliableTime m\<rparr>" let ?m4 = "?m3\<lparr>sh_GitVersion := sh_GitVersion m\<rparr>"
  let ?m5 = "?m4\<lparr>sh_HeaderChecksum := sh_HeaderChecksum m\<rparr>" let ?m6 = "?m5\<lparr>sh_PayloadChecksum := sh_PayloadChecksum m\<rparr>"
  let ?m7 = "?m6\<lparr>sh_ChecksumType := sh_ChecksumType m\<rparr>" let ?m8 = "?m7\<lparr>sh_Version := sh_Version m\<rparr>"
  note field = SnapshotHeader_fields_def field_no_def
  have 1: "decodes ?F (0x08 # encodeVarintRaft (sh_SessionSize m)) empty_header ?m1"
    by (rule decodes_num, simp add: field) (simp_all add: field)
  have 2: "decodes ?F (0x10 # encodeVarintRaft (sh_DataStoreSize m)) ?m1 ?m2"
    by (rule decodes_num, simp add: field) (simp_all add: field)
  have 3: "decodes ?F (0x18 # encodeVarintRaft (sh_UnreliableTime m)) ?m2 ?m3"
    by (rule decodes_num, simp add: field) (simp_all add: field)
  have 4: "decodes ?F (0x22 # encodeVarintRaft (of_nat (length (str_bytes (sh_GitVersion m)))) @ str_bytes (sh_GitVersion m)) ?m3 ?m4"
    by (rule decodes_bytes, simp add: field) (simp_all add: field)
  have 5: "decodes ?F (case sh_HeaderChecksum m of None \<Rightarrow> [] | Some bs \<Rightarrow> 0x2a # encodeVarintRaft (of_nat (length bs)) @ bs) ?m4 ?m5"
  proof (cases "sh_HeaderChecksum m")
    case (Some bs)
    have "decodes ?F (0x2a # encodeVarintRaft (of_nat (length bs)) @ bs) ?m4 (?m4\<lparr>sh_HeaderChecksum := Some bs\<rparr>)"
      by (rule decodes_bytes, simp add: field) (simp_all add: field)
    then show ?thesis by (simp add: Some)
  qed (simp add: empty_header_def)
  have 6: "decodes ?F (case sh_PayloadChecksum m of None \<Rightarrow> [] | Some bs \<Rightarrow> 0x32 # encodeVarintRaft (of_nat (length bs)) @ bs) ?m5 ?m6"
  proof (cases "sh_PayloadChecksum m")
    case (Some bs)
    have "decodes ?F (0x32 # encodeVarintRaft (of_nat (length bs)) @ bs) ?m5 (?m5\<lparr>sh_PayloadChecksum := Some bs\<rparr>)"
      by (rule decodes_bytes, simp add: field) (simp_all add: field)
    then show ?thesis by (simp add: Some)
  qed (simp add: empty_header_def)
  have 7: "decodes ?F (0x38 # encodeVarintRaft (scast (sh_ChecksumType m))) ?m6 ?m7"
    by (rule decodes_num, simp add: field) (simp_all add: field ucast_scast_32)
  have 8: "decodes ?F (0x40 # encodeVarintRaft (sh_Version m)) ?m7 ?m8"
    by (rule decodes_num, simp add: field) (simp_all add: field)
  note all = decodes_append [OF 1 decodes_append [OF 2 decodes_append [OF 3 decodes_append [OF 4 decodes_append [OF 5
    decodes_append [OF 6 decodes_append [OF 7 8]]]]]]]
  have e: "?m8 = m" by simp
  show ?thesis
    using decodes_Unmarshal [OF all TrueI] len
    by (simp add: SnapshotHeader_Unmarshal_def SnapshotHeader_MarshalTo_def e)
qed

section \<open>The file of a snapshot\<close>

definition header_block :: "snapshot_header \<Rightarrow> byte list" where
  "header_block h =
     (let data = SnapshotHeader_MarshalTo h
      in PutUint64 (of_nat (length data)) @ data @ replicate (SnapshotHeaderSize - 8 - length data) 0)"

text \<open>The header that is saved for a payload.\<close>

definition header_for :: "u64 \<Rightarrow> u64 \<Rightarrow> u64 \<Rightarrow> byte list \<Rightarrow> snapshot_header" where
  "header_for now smsz sz payload =
     (let sh = empty_header\<lparr>sh_SessionSize := smsz, sh_DataStoreSize := sz, sh_UnreliableTime := now,
        sh_PayloadChecksum := Some (crc32_Sum (crc32_Write payload 0)), sh_ChecksumType := CRC32IEEE, sh_Version := 1\<rparr>
      in sh\<lparr>sh_HeaderChecksum := Some (crc32_Sum (crc32_Write (SnapshotHeader_MarshalTo sh) 0))\<rparr>)"

definition header_fits :: "snapshot_header \<Rightarrow> bool" where
  "header_fits h \<longleftrightarrow> length (SnapshotHeader_MarshalTo h) \<le> SnapshotHeaderSize - 8"

lemma header_for_simps [simp]:
  "sh_ChecksumType (header_for now smsz sz p) = CRC32IEEE"
  "sh_PayloadChecksum (header_for now smsz sz p) = Some (crc32_Sum (crc32_Write p 0))"
  by (simp_all add: header_for_def Let_def)

lemma header_for_fits: "header_fits (header_for now smsz sz payload)"
proof -
  have "sovRaft smsz + sovRaft sz + sovRaft now + sovRaft 0 + sovRaft 4 + sovRaft 1 \<le> 60"
    using sovRaft_le [of smsz] sovRaft_le [of sz] sovRaft_le [of now] sovRaft_le [of 0] sovRaft_le [of 4] sovRaft_le [of 1]
    by linarith
  then show ?thesis
    using sovRaft_le [of 4]
    by (simp add: header_fits_def header_for_def SnapshotHeader_MarshalTo_def Let_def encodeVarintRaft_length
        SnapshotHeaderSize_def crc32_Sum_def empty_header_def CRC32IEEE_def)
qed

lemma header_block_length: "header_fits h \<Longrightarrow> length (header_block h) = SnapshotHeaderSize"
  by (simp add: header_block_def header_fits_def SnapshotHeaderSize_def Let_def)

lemma header_fits_le: "header_fits h \<Longrightarrow> length (SnapshotHeader_MarshalTo h) \<le> 1016"
  by (simp add: header_fits_def SnapshotHeaderSize_def)

lemma header_block_parts:
  assumes "header_fits h"
  shows "take 8 (header_block h @ p) = PutUint64 (of_nat (length (SnapshotHeader_MarshalTo h)))"
    and "unat (get_le (take 8 (header_block h @ p))) = length (SnapshotHeader_MarshalTo h)"
    and "take (length (SnapshotHeader_MarshalTo h)) (drop 8 (header_block h @ p)) = SnapshotHeader_MarshalTo h"
proof -
  have l: "length (SnapshotHeader_MarshalTo h) \<le> 1016" using assms by (rule header_fits_le)
  show t: "take 8 (header_block h @ p) = PutUint64 (of_nat (length (SnapshotHeader_MarshalTo h)))"
    by (simp add: header_block_def Let_def)
  show "unat (get_le (take 8 (header_block h @ p))) = length (SnapshotHeader_MarshalTo h)"
    unfolding t using l by (simp add: unat_of_nat)
  show "take (length (SnapshotHeader_MarshalTo h)) (drop 8 (header_block h @ p)) = SnapshotHeader_MarshalTo h"
    by (simp add: header_block_def Let_def)
qed

section \<open>Writing\<close>

definition written :: "byte list \<Rightarrow> snapshot_writer \<Rightarrow> bool" where
  "written p sw \<longleftrightarrow> sw_h sw = crc32_Write p 0
     \<and> sw_file sw = \<lparr>f_data = replicate SnapshotHeaderSize 0 @ p, f_pos = SnapshotHeaderSize + length p\<rparr>"

lemma NewSnapshotWriter_written: "\<exists>sw. NewSnapshotWriter = Some sw \<and> written [] sw"
  by (simp add: NewSnapshotWriter_def written_def getDefaultChecksum_def getChecksumType_def getChecksum_def file_Write_def)

lemma sw_Write_written: "written p sw \<Longrightarrow> written (p @ d) (sw_Write d sw)"
  by (simp add: written_def sw_Write_def crc32_Write_append file_Write_def)

lemma overwrite_start:
  assumes "length a \<le> n"
  shows "f_data (file_Write a \<lparr>f_data = replicate n 0 @ p, f_pos = 0\<rparr>) = a @ replicate (n - length a) 0 @ p"
  using assms by (simp add: file_Write_def drop_replicate)

lemma sw_SaveHeader_written:
  assumes "written p sw"
  shows "\<exists>sw'. sw_SaveHeader now smsz sz sw = Some sw'
     \<and> f_data (sw_file sw') = header_block (header_for now smsz sz p) @ p"
proof -
  let ?h = "header_for now smsz sz p"
  let ?d = "SnapshotHeader_MarshalTo ?h" and ?l = "PutUint64 (of_nat (length (SnapshotHeader_MarshalTo ?h)))"
  have fit: "length ?d \<le> 1016" using header_fits_le [OF header_for_fits] .
  have d1: "f_data (file_Write ?l \<lparr>f_data = replicate 1024 0 @ p, f_pos = 0\<rparr>) = ?l @ replicate 1016 0 @ p"
    by (subst overwrite_start) simp_all
  have f1: "file_Write ?l \<lparr>f_data = replicate 1024 0 @ p, f_pos = 0\<rparr> = \<lparr>f_data = ?l @ replicate 1016 0 @ p, f_pos = 8\<rparr>"
    using d1 by (simp add: file_Write_def)
  have f2: "f_data (file_Write ?d \<lparr>f_data = ?l @ replicate 1016 0 @ p, f_pos = 8\<rparr>) = header_block ?h @ p"
    using fit by (simp add: file_Write_def header_block_def Let_def SnapshotHeaderSize_def drop_replicate)
  have h: "?h = empty_header\<lparr>sh_SessionSize := smsz, sh_DataStoreSize := sz, sh_UnreliableTime := now,
       sh_PayloadChecksum := Some (crc32_Sum (sw_h sw)), sh_ChecksumType := getChecksumType,
       sh_Version := currentSnapshotVersion,
       sh_HeaderChecksum := Some (crc32_Sum (crc32_Write (SnapshotHeader_MarshalTo
         (empty_header\<lparr>sh_SessionSize := smsz, sh_DataStoreSize := sz, sh_UnreliableTime := now,
           sh_PayloadChecksum := Some (crc32_Sum (sw_h sw)), sh_ChecksumType := getChecksumType,
           sh_Version := currentSnapshotVersion\<rparr>)) 0))\<rparr>"
    using assms by (simp add: header_for_def Let_def written_def getChecksumType_def currentSnapshotVersion_def)
  have seek: "file_Seek 0 (sw_file sw) = \<lparr>f_data = replicate 1024 0 @ p, f_pos = 0\<rparr>"
    using assms by (simp add: written_def file_Seek_def SnapshotHeaderSize_def)
  show ?thesis
    unfolding sw_SaveHeader_def SnapshotHeader_Marshal_total getDefaultChecksum_def
    using fit f1 f2 by (simp add: Let_def getChecksum_def getChecksumType_def [symmetric] h [symmetric] seek SnapshotHeaderSize_def)
qed

section \<open>Reading\<close>

lemma file_ReadFull_at:
  "n \<le> length (file_rest f) \<Longrightarrow> file_ReadFull n f = Inr (take n (file_rest f), f\<lparr>f_pos := f_pos f + n\<rparr>)"
  by (simp add: file_ReadFull_def ReadFull_def)

definition reader_at :: "byte list \<Rightarrow> byte list \<Rightarrow> nat \<Rightarrow> snapshot_reader" where
  "reader_at block payload n =
     \<lparr>sr_h = Some (crc32_Write (take n payload) 0), sr_file = \<lparr>f_data = block @ payload, f_pos = length block + n\<rparr>\<rparr>"

lemma sr_GetHeader_saved:
  assumes "header_fits h" and "sh_ChecksumType h = CRC32IEEE"
  shows "sr_GetHeader (NewSnapshotReader (header_block h @ p)) = Some (Inr (h, reader_at (header_block h) p 0))"
proof -
  let ?d = "SnapshotHeader_MarshalTo h" and ?f = "\<lparr>f_data = header_block h @ p, f_pos = 0\<rparr>"
  note b = header_block_parts [OF assms(1), of p] and b4 = header_fits_le [OF assms(1)]
  have len: "length (header_block h) = 1024" using header_block_length [OF assms(1)] by (simp add: SnapshotHeaderSize_def)
  have 1: "file_ReadFull 8 ?f = Inr (take 8 (header_block h @ p), ?f\<lparr>f_pos := 8\<rparr>)"
    by (subst file_ReadFull_at) (simp_all add: file_rest_def len)
  have 2: "file_ReadFull (length ?d) (?f\<lparr>f_pos := 8\<rparr>) = Inr (?d, ?f\<lparr>f_pos := 8 + length ?d\<rparr>)"
    by (subst file_ReadFull_at) (use b(3) b4 in \<open>simp_all add: file_rest_def len del: take_append drop_append\<close>)
  have "SnapshotHeader_Unmarshal ?d = Some (Inr h)" using b4 by (intro header_roundtrip) simp
  then show ?thesis
    using 1 2 b(2) b4 assms(2)
    by (simp add: sr_GetHeader_def NewSnapshotReader_def SnapshotHeaderSize_def getChecksum_def file_Seek_def reader_at_def len
        del: take_append drop_append)
qed

lemma sr_ValidateHeader_saved: "sr_ValidateHeader (header_for now smsz sz p) = Some ()"
  by (simp add: sr_ValidateHeader_def SnapshotHeader_Marshal_total header_for_def Let_def slice_bytes_def getChecksum_def
      currentSnapshotVersion_def empty_header_def)

lemma sr_Read_at:
  assumes "n < length p" and "0 < k"
  shows "sr_Read k (reader_at b p n) = Some (Inr (take k (drop n p), reader_at b p (n + min k (length p - n))))"
proof -
  have "take (n + min k (length p - n)) p = take n p @ take k (drop n p)"
    by (simp add: take_add min_def)
  moreover have "drop (length b + n) (b @ p) = drop n p" by simp
  moreover have "take k (drop n p) \<noteq> []" using assms by simp
  moreover have "length (take k (drop n p)) = min k (length p - n)" by simp
  ultimately show ?thesis
    using assms unfolding sr_Read_def reader_at_def file_rest_def Let_def
    by (simp add: crc32_Write_append del: drop_append take_eq_Nil length_take take_drop drop_take)
qed

lemma sr_ValidatePayload_at:
  "sr_ValidatePayload h (reader_at b p (length p))
     = (if crc32_Sum (crc32_Write p 0) = slice_bytes (sh_PayloadChecksum h) then Some () else panic)"
  by (simp add: sr_ValidatePayload_def reader_at_def)

section \<open>Validating chunks\<close>

text \<open>The chunks of a file, with their identifiers.\<close>

fun add_chunks :: "(u64 \<times> byte list) list \<Rightarrow> snapshot_validator \<Rightarrow> (bool \<times> snapshot_validator) option" where
  "add_chunks [] v = Some (True, v)"
| "add_chunks ((i, data) # cs) v = do {
     (ok, v) \<leftarrow> v_AddChunk data i v;
     if ok then add_chunks cs v else Some (False, v) }"

lemma add_later_chunks:
  assumes "\<forall>(i, c) \<in> set cs. i \<noteq> 0" and "v_h v = Some g"
  shows "add_chunks cs v = Some (True, v\<lparr>v_h := Some (crc32_Write (concat (map snd cs)) g)\<rparr>)"
  using assms
proof (induction cs arbitrary: v g)
  case (Cons ic cs)
  obtain i c where ic: "ic = (i, c)" by (cases ic)
  have "v_AddChunk c i v = Some (True, v\<lparr>v_h := Some (crc32_Write c g)\<rparr>)"
    using Cons.prems ic by (simp add: v_AddChunk_def Let_def)
  then show ?case
    using Cons.IH [of "v\<lparr>v_h := Some (crc32_Write c g)\<rparr>" "crc32_Write c g"] Cons.prems ic
    by (simp add: crc32_Write_append)
qed simp

lemma add_chunks_saved:
  assumes h: "header_fits h" "sh_ChecksumType h = CRC32IEEE"
    and chunks: "c @ concat (map snd cs) = header_block h @ p" and first: "SnapshotHeaderSize \<le> length c"
    and ids: "\<forall>(i, c) \<in> set cs. i \<noteq> 0"
  shows "add_chunks ((0, c) # cs) NewSnapshotValidator
    = Some (True, \<lparr>v_header = h, v_h = Some (crc32_Write p 0)\<rparr>)"
proof -
  note len = header_block_length [OF h(1)]
  obtain q where c: "c = header_block h @ q" and p: "p = q @ concat (map snd cs)"
  proof -
    have "take SnapshotHeaderSize c = header_block h"
      using arg_cong [OF chunks, of "take SnapshotHeaderSize"] first len by simp
    then have "c = header_block h @ drop SnapshotHeaderSize c" by (metis append_take_drop_id)
    moreover from this have "p = drop SnapshotHeaderSize c @ concat (map snd cs)" using chunks by (metis append.assoc same_append_eq)
    ultimately show thesis by (rule that)
  qed
  note b = header_block_parts [OF h(1), of q] and b4 = header_fits_le [OF h(1)]
  have slice: "go_slice c 8 (8 + length (SnapshotHeader_MarshalTo h)) = Some (SnapshotHeader_MarshalTo h)"
    using b(3) b4 first c by (simp add: go_slice_def SnapshotHeaderSize_def del: take_append drop_append)
  have "SnapshotHeader_Unmarshal (SnapshotHeader_MarshalTo h) = Some (Inr h)" using b4 by (intro header_roundtrip) simp
  then have "v_getHeader c NewSnapshotValidator = Some (True, \<lparr>v_header = h, v_h = Some 0\<rparr>)"
    using slice b(2) b4 first h(2) c
    by (simp add: v_getHeader_def NewSnapshotValidator_def SnapshotHeaderSize_def getChecksum_def del: take_append)
  then have "v_AddChunk c 0 NewSnapshotValidator = Some (True, \<lparr>v_header = h, v_h = Some (crc32_Write q 0)\<rparr>)"
    using c len by (simp add: v_AddChunk_def Let_def)
  then show ?thesis using add_later_chunks [OF ids] p by (simp add: crc32_Write_append)
qed

end
