(* ===== verification/RSMSpec.thy ===== *)
theory RSMSpec
  imports RSM SnapshotIOSpec
begin

text \<open>
  What a replica is meant to compute. A \<open>replica\<close> holds the sessions in the order of their last use, each reduced to the acknowledged
  series and a map of the recorded results, the data of the application, the membership and the position in the
  log. \<open>spec_entry\<close> applies one entry. The state machine of \<open>RSM\<close> implements it: from a state that
  represents a replica, \<open>handleCommitRec\<close> does not panic and reaches a state that represents the next replica.
\<close>

section \<open>Sessions\<close>

type_synonym asession = "u64 \<times> (u64 \<rightharpoonup> u64)"

definition asess :: "session \<Rightarrow> asession" where
  "asess s = (sn_RespondedUpTo s, map_of (sn_History s))"

definition acked :: "u64 \<Rightarrow> asession \<Rightarrow> asession" where
  "acked to a = (if to \<le> fst a then a else (to, \<lambda>k. if k \<le> to then None else snd a k))"

lemma map_of_filter_fst: "map_of (filter (\<lambda>(k, v). P k) m) k = (if P k then map_of m k else None)"
  by (induction m) auto

lemma u64_succ: "\<not> (u + 1 :: u64) \<le> u \<Longrightarrow> unat (u + 1) = unat u + 1"
  using u64_inc_neq_max [of u] by (intro u64_inc) (auto simp: word_le_nat_alt)

lemma clearTo_spec:
  assumes "session_ok s"
  shows "asess (clearTo to s) = acked to (asess s)" and "session_ok (clearTo to s)" and "sn_ClientID (clearTo to s) = sn_ClientID s"
proof -
  let ?u = "sn_RespondedUpTo s" and ?h = "sn_History s"
  have ok: "gomap_ok ?h" "\<And>k v. (k, v) \<in> set ?h \<Longrightarrow> ?u < k" using assms by (auto simp: session_ok_def)
  have small: "map_of ?h k = None" if "k \<le> ?u" for k
    using ok(2) that by (fastforce simp: map_of_eq_None_iff not_le [symmetric])
  show "sn_ClientID (clearTo to s) = sn_ClientID s" by (simp add: clearTo_def)
  show "asess (clearTo to s) = acked to (asess s)"
  proof (cases "to = ?u + 1 \<and> \<not> to \<le> ?u")
    case True
    then have "unat to = unat ?u + 1" using u64_succ by blast
    then have "k \<le> to \<longleftrightarrow> k \<le> ?u \<or> k = to" for k by (auto simp: word_le_nat_alt word_unat_eq_iff)
    then have "(\<lambda>k. if k \<le> to then None else map_of ?h k) = (map_of ?h)(to := None)"
      using small by (auto simp: fun_eq_iff)
    moreover have "map_of (AList.delete to ?h) = (map_of ?h)(to := None)" by (simp add: delete_conv')
    ultimately show ?thesis
      using True unfolding asess_def acked_def fst_conv snd_conv by (auto simp: clearTo_def)
  next
    case False
    then show ?thesis by (auto simp: asess_def acked_def clearTo_def map_of_filter_fst fun_eq_iff)
  qed
  show "session_ok (clearTo to s)"
  proof (cases "to \<le> ?u")
    case False
    have "to < k" if "?u < k" "k \<noteq> to" "to = ?u + 1" for k
    proof -
      have "unat to = unat ?u + 1" using that(3) False u64_succ by blast
      then show ?thesis using that(1,2) by (auto simp: word_less_nat_alt word_unat_eq_iff)
    qed
    moreover have "gomap_ok (filter (\<lambda>(k, v). \<not> k \<le> to) ?h)"
      using ok(1) by (simp add: distinct_map_filter)
    ultimately show ?thesis
      using ok False by (auto simp: clearTo_def session_ok_def AList.delete_eq distinct_map_filter split_def not_le)
  qed (use assms in \<open>simp add: clearTo_def\<close>)
qed

lemma session_okI:
  "gomap_ok (sn_History s) \<Longrightarrow> (\<And>k. k \<in> gomap_keys (sn_History s) \<Longrightarrow> sn_RespondedUpTo s < k) \<Longrightarrow> session_ok s"
  by (simp add: session_ok_def)

lemma addResponse_spec:
  assumes "session_ok s" and "\<not> hasResponded s sid" and "getResponse s sid = None"
  shows "\<exists>s'. addResponse sid v s = Some s' \<and> session_ok s' \<and> sn_ClientID s' = sn_ClientID s
    \<and> asess s' = (fst (asess s), (snd (asess s))(sid \<mapsto> v))"
proof -
  let ?s = "s\<lparr>sn_History := AList.update sid v (sn_History s)\<rparr>"
  have "\<forall>k\<in>gomap_keys (AList.update sid v (sn_History s)). sn_RespondedUpTo s < k"
    using assms unfolding gomap_keys_update by (simp add: session_ok_def hasResponded_def not_le)
  moreover have "gomap_ok (AList.update sid v (sn_History s))" using assms(1) by (simp add: session_ok_def)
  ultimately have "session_ok ?s" by (intro session_okI) auto
  then show ?thesis
    using assms by (simp add: addResponse_def getResponse_def asess_def)
qed

abbreviation abs_sessions :: "(u64 \<times> session) list \<Rightarrow> (u64 \<times> asession) list" where
  "abs_sessions xs \<equiv> map (\<lambda>(k, s). (k, asess s)) xs"

definition sess_rep :: "lrusession \<Rightarrow> u64 \<Rightarrow> (u64 \<times> asession) list \<Rightarrow> bool" where
  "sess_rep rec cap ax \<longleftrightarrow> (\<exists>xs. lru_holds rec xs \<and> lru_size rec = cap \<and> ax = abs_sessions xs)"

text \<open>The session of \<open>k\<close> was used last, and a pointer to it is at hand.\<close>

definition sess_at :: "lrusession \<Rightarrow> u64 \<Rightarrow> session \<Rightarrow> u64 \<Rightarrow> (u64 \<times> asession) list \<Rightarrow> bool" where
  "sess_at rec k s cap ys \<longleftrightarrow> (\<exists>xs. lru_holds rec ((k, s) # xs) \<and> lru_size rec = cap \<and> ys = abs_sessions xs)"

lemma sess_at_rep: "sess_at rec k s cap ys \<Longrightarrow> sess_rep rec cap ((k, asess s) # ys)"
  unfolding sess_at_def sess_rep_def by force

lemma sess_at_ok: "sess_at rec k s cap ys \<Longrightarrow> sn_ClientID s = k \<and> session_ok s"
  unfolding sess_at_def lru_holds_def by auto

lemma sess_at_set:
  "sess_at rec k s cap ys \<Longrightarrow> sn_ClientID s' = k \<Longrightarrow> session_ok s' \<Longrightarrow> sess_at (setSession k s' rec) k s' cap ys"
  unfolding sess_at_def using setSession_spec by blast

lemma map_of_abs: "map_of (abs_sessions xs) k = map_option asess (map_of xs k)"
  by (induction xs) auto

lemma remove_key_abs: "remove_key k (abs_sessions xs) = abs_sessions (remove_key k xs)"
  by (induction xs) (auto simp: remove_key_def)

lemma getSession_rep:
  assumes "sess_rep rec cap ax"
  shows "case map_of ax k of
      None \<Rightarrow> getSession k rec = Some (None, rec)
    | Some a \<Rightarrow> \<exists>s rec'. getSession k rec = Some (Some s, rec') \<and> asess s = a \<and> sess_at rec' k s cap (remove_key k ax)"
proof -
  obtain xs where x: "lru_holds rec xs" "lru_size rec = cap" "ax = abs_sessions xs" using assms by (auto simp: sess_rep_def)
  show ?thesis
  proof (cases "map_of xs k")
    case None
    then show ?thesis using getSession_spec [OF x(1), of k] x by (simp add: map_of_abs)
  next
    case (Some s)
    then obtain rec' where "getSession k rec = Some (Some s, rec')" "lru_holds rec' (recent k s xs)" "lru_size rec' = lru_size rec"
      using getSession_spec [OF x(1), of k] by auto
    then show ?thesis using Some x by (auto simp: map_of_abs remove_key_abs sess_at_def)
  qed
qed

lemma ClientRegistered_rep:
  assumes "sess_rep rec cap ax"
  shows "case map_of ax k of
      None \<Rightarrow> ClientRegistered k rec = Some (None, rec)
    | Some a \<Rightarrow> \<exists>s rec'. ClientRegistered k rec = Some (Some s, rec') \<and> asess s = a \<and> sess_at rec' k s cap (remove_key k ax)"
  using getSession_rep [OF assms, of k]
  by (auto simp: ClientRegistered_def split: option.splits dest: sess_at_ok)

definition spec_register :: "u64 \<Rightarrow> u64 \<Rightarrow> (u64 \<times> asession) list \<Rightarrow> u64 \<times> (u64 \<times> asession) list" where
  "spec_register cap k ax =
     (case map_of ax k of
        Some a \<Rightarrow> (0, (k, a) # remove_key k ax)
      | None \<Rightarrow> (k, take (unat cap) ((k, (0, Map.empty)) # ax)))"

lemma RegisterClientID_rep:
  assumes "sess_rep rec cap ax"
  shows "\<exists>rec'. RegisterClientID k rec = Some (fst (spec_register cap k ax), rec') \<and> sess_rep rec' cap (snd (spec_register cap k ax))"
proof (cases "map_of ax k")
  case None
  obtain xs where x: "lru_holds rec xs" "lru_size rec = cap" "ax = abs_sessions xs" using assms by (auto simp: sess_rep_def)
  have new: "k \<notin> fst ` set xs" using None x(3) by (simp add: map_of_abs map_of_eq_None_iff)
  have s: "sn_ClientID (newSession k) = k" "session_ok (newSession k)" "asess (newSession k) = (0, Map.empty)"
    by (simp_all add: newSession_def session_ok_def asess_def)
  let ?ys = "if length xs < unat cap then (k, newSession k) # xs else (k, newSession k) # butlast xs"
  obtain rec' where r: "addSession k (newSession k) rec = Some rec'" "lru_size rec' = cap" "lru_holds rec' ?ys"
    using addSession_new [OF x(1) new s(1,2)] x(2) by metis
  have "length xs \<le> unat cap" "0 < unat cap" using x by (auto simp: lru_holds_def unat_gt_0)
  then have "?ys = take (unat cap) ((k, newSession k) # xs)" by (cases "unat cap") (auto simp: butlast_conv_take)
  then have "abs_sessions ?ys = take (unat cap) ((k, (0, Map.empty)) # ax)" using x(3) s(3) by (simp add: take_map [symmetric])
  then have "sess_rep rec' cap (take (unat cap) ((k, (0, Map.empty)) # ax))" using r by (auto simp: sess_rep_def)
  then show ?thesis
    using getSession_rep [OF assms, of k] None r(1) by (simp add: RegisterClientID_def spec_register_def)
next
  case (Some a)
  then obtain s rec' where g: "getSession k rec = Some (Some s, rec')" "asess s = a" "sess_at rec' k s cap (remove_key k ax)"
    using getSession_rep [OF assms, of k] by auto
  then show ?thesis
    using Some sess_at_ok [OF g(3)] sess_at_rep [OF g(3)] by (simp add: RegisterClientID_def spec_register_def)
qed

definition spec_unregister :: "u64 \<Rightarrow> (u64 \<times> asession) list \<Rightarrow> u64 \<times> (u64 \<times> asession) list" where
  "spec_unregister k ax = (case map_of ax k of None \<Rightarrow> (0, ax) | Some a \<Rightarrow> (k, remove_key k ax))"

lemma UnregisterClientID_rep:
  assumes "sess_rep rec cap ax"
  shows "\<exists>rec'. UnregisterClientID k rec = Some (fst (spec_unregister k ax), rec') \<and> sess_rep rec' cap (snd (spec_unregister k ax))"
proof (cases "map_of ax k")
  case None
  then show ?thesis using getSession_rep [OF assms, of k] assms by (simp add: UnregisterClientID_def spec_unregister_def)
next
  case (Some a)
  then obtain s rec1 where g: "getSession k rec = Some (Some s, rec1)" "sess_at rec1 k s cap (remove_key k ax)"
    using getSession_rep [OF assms, of k] by auto
  obtain xs where x: "lru_holds rec1 ((k, s) # xs)" "lru_size rec1 = cap" "remove_key k ax = abs_sessions xs"
    using g(2) by (auto simp: sess_at_def)
  obtain rec2 where d: "delSession k rec1 = Some rec2" "lru_size rec2 = cap" "lru_holds rec2 (remove_key k ((k, s) # xs))"
    using delSession_spec [OF x(1), of k] x(2) by metis
  have "remove_key k ((k, s) # xs) = remove_key k xs" by (simp add: remove_key_def)
  then have "abs_sessions (remove_key k ((k, s) # xs)) = remove_key k (remove_key k ax)"
    using x(3) remove_key_abs [of k xs] by simp
  also have "\<dots> = remove_key k ax" by (simp add: remove_key_def)
  finally have "sess_rep rec2 cap (remove_key k ax)" using d unfolding sess_rep_def by metis
  then show ?thesis using Some g d sess_at_ok [OF g(2)] by (auto simp: UnregisterClientID_def spec_unregister_def)
qed

section \<open>The replica\<close>

record 'd replica =
  rp_sessions :: "(u64 \<times> asession) list"
  rp_capacity :: u64
  rp_store :: 'd
  rp_members :: membership
  rp_index :: u64
  rp_term :: u64

datatype outcome = Done u64 | Rejected | Ignored

definition spec_update :: "'d user_sm \<Rightarrow> entry \<Rightarrow> 'd replica \<Rightarrow> outcome \<times> 'd replica" where
  "spec_update ops e rp =
     (let (r, d) = us_Update ops (e_Cmd e) (rp_store rp); ax = rp_sessions rp;
          used = (\<lambda>a. rp\<lparr>rp_sessions := (e_ClientID e, a) # remove_key (e_ClientID e) ax\<rparr>)
      in if IsNoOPSession e then (Done r, rp\<lparr>rp_store := d\<rparr>)
         else case map_of ax (e_ClientID e) of
           None \<Rightarrow> (Rejected, rp)
         | Some a \<Rightarrow>
             let a = acked (e_RespondedTo e) a in
             if e_SeriesID e \<le> fst a then (Ignored, used a)
             else case snd a (e_SeriesID e) of
               Some v \<Rightarrow> (Done v, used a)
             | None \<Rightarrow> (Done r, (used (fst a, (snd a)(e_SeriesID e \<mapsto> r)))\<lparr>rp_store := d\<rparr>))"

text \<open>When a config change is accepted, and the membership after it.\<close>

definition change_ok :: "bool \<Rightarrow> cc_raw \<Rightarrow> membership \<Rightarrow> bool" where
  "change_ok ordered cc m \<longleftrightarrow>
     (ordered \<longrightarrow> raw_Initialize cc \<or> mb_ConfigChangeId m = raw_ConfigChangeId cc)
     \<and> (cc_is cc AddNode \<longrightarrow> raw_NodeID cc \<notin> gomap_keys (mb_Removed m)
         \<and> (\<forall>(_, addr)\<in>set (mb_Addresses m). \<not> addressEqual addr (raw_Address cc)))
     \<and> (cc_is cc AddObserver \<longrightarrow> raw_NodeID cc \<notin> gomap_keys (mb_Removed m) \<and> raw_NodeID cc \<notin> gomap_keys (mb_Addresses m)
         \<and> (\<forall>(_, addr)\<in>set (mb_Observers m). \<not> addressEqual addr (raw_Address cc)))"

definition changed :: "cc_raw \<Rightarrow> u64 \<Rightarrow> membership \<Rightarrow> membership" where
  "changed cc index m =
     (let nid = raw_NodeID cc; m = m\<lparr>mb_ConfigChangeId := index\<rparr>
      in case int32_type (raw_Type cc) of
        Some AddNode \<Rightarrow>
          m\<lparr>mb_Addresses := AList.update nid (case map_of (mb_Observers m) nid of Some addr \<Rightarrow> addr | None \<Rightarrow> raw_Address cc)
              (mb_Addresses m),
            mb_Observers := AList.delete nid (mb_Observers m)\<rparr>
      | Some AddObserver \<Rightarrow> m\<lparr>mb_Observers := AList.update nid (raw_Address cc) (mb_Observers m)\<rparr>
      | Some RemoveNode \<Rightarrow>
          m\<lparr>mb_Addresses := AList.delete nid (mb_Addresses m), mb_Observers := AList.delete nid (mb_Observers m),
            mb_Removed := AList.update nid True (mb_Removed m)\<rparr>
      | None \<Rightarrow> m)"

definition decoded :: "entry \<Rightarrow> cc_raw" where
  "decoded e = (case ConfigChange_Unmarshal (e_Cmd e) of Some (Inr cc) \<Rightarrow> cc | _ \<Rightarrow> cc_zero)"

text \<open>One entry: the calls of the node, and the next replica.\<close>

definition spec_entry :: "'d user_sm \<Rightarrow> bool \<Rightarrow> bool \<Rightarrow> entry \<Rightarrow> 'd replica \<Rightarrow> node_call list \<times> 'd replica" where
  "spec_entry ops ordered lastInBatch e rp =
     (let rp = rp\<lparr>rp_index := e_Index e, rp_term := e_Term e\<rparr> in
      if IsConfigChange e then
        let cc = decoded e in
        if change_ok ordered cc (rp_members rp)
        then ([ApplyConfigChange cc, ConfigChangeProcessed (e_Key e) True], rp\<lparr>rp_members := changed cc (e_Index e) (rp_members rp)\<rparr>)
        else ([ConfigChangeProcessed (e_Key e) False], rp)
      else if \<not> IsSessionManaged e then ([ApplyUpdate e 0 False True lastInBatch], rp)
      else if IsNewSessionRequest e then
        let (r, ax) = spec_register (rp_capacity rp) (e_ClientID e) (rp_sessions rp)
        in ([ApplyUpdate e r (r = 0) False lastInBatch], rp\<lparr>rp_sessions := ax\<rparr>)
      else if IsEndOfSessionRequest e then
        let (r, ax) = spec_unregister (e_ClientID e) (rp_sessions rp)
        in ([ApplyUpdate e r (r = 0) False lastInBatch], rp\<lparr>rp_sessions := ax\<rparr>)
      else
        let (res, rp) = spec_update ops e rp
        in (case res of
              Done v \<Rightarrow> [ApplyUpdate e v False False lastInBatch]
            | Rejected \<Rightarrow> [ApplyUpdate e 0 True False lastInBatch]
            | Ignored \<Rightarrow> [], rp))"

text \<open>An entry that a replica at position \<open>i\<close> and term \<open>t\<close> can apply.\<close>

definition entry_ok :: "u64 \<Rightarrow> u64 \<Rightarrow> entry \<Rightarrow> bool" where
  "entry_ok i t e \<longleftrightarrow> e_Index e = i + 1 \<and> e_Index e \<noteq> 0 \<and> e_Term e \<noteq> 0 \<and> t \<le> e_Term e
     \<and> (IsConfigChange e \<longrightarrow> (\<exists>cc. ConfigChange_Unmarshal (e_Cmd e) = Some (Inr cc) \<and> int32_type (raw_Type cc) \<noteq> None
         \<and> \<not> (cc_is cc AddNode \<and> raw_Address cc = [])))
     \<and> (\<not> IsConfigChange e \<longrightarrow> \<not> IsSessionManaged e \<longrightarrow> IsEmpty e)"

definition represents :: "'d rsm_state \<Rightarrow> 'd replica \<Rightarrow> bool" where
  "represents s rp \<longleftrightarrow> sess_rep (ns_sessions (sm_sm s)) (rp_capacity rp) (rp_sessions rp)
     \<and> ns_dataStore (sm_sm s) = rp_store rp \<and> sm_members s = rp_members rp
     \<and> sm_lastApplied s = rp_index rp \<and> sm_lastAppliedTerm s = rp_term rp"

text \<open>What no entry changes.\<close>

definition same_frame :: "'d rsm_state \<Rightarrow> 'd rsm_state \<Rightarrow> bool" where
  "same_frame s s' \<longleftrightarrow> sm_ordered s' = sm_ordered s \<and> sm_commitC s' = sm_commitC s \<and> sm_aborted s' = sm_aborted s
     \<and> sm_lastSnapshotIndex s' = sm_lastSnapshotIndex s \<and> ns_status (sm_sm s') = ns_status (sm_sm s)"

lemma same_frame_simps [simp]:
  "same_frame s s" "same_frame s0 (s\<lparr>sm_lastApplied := i, sm_lastAppliedTerm := t\<rparr>) = same_frame s0 s"
  by (simp_all add: same_frame_def)

section \<open>Refinement\<close>

lemma updateLastApplied_rep:
  assumes "represents s rp" and "entry_ok (rp_index rp) (rp_term rp) e"
  shows "updateLastApplied (e_Index e) (e_Term e) s = Some (s\<lparr>sm_lastApplied := e_Index e, sm_lastAppliedTerm := e_Term e\<rparr>)"
    and "represents (s\<lparr>sm_lastApplied := e_Index e, sm_lastAppliedTerm := e_Term e\<rparr>) (rp\<lparr>rp_index := e_Index e, rp_term := e_Term e\<rparr>)"
  using assms by (auto simp: updateLastApplied_def represents_def entry_ok_def)

lemma represents_sessions:
  "represents s rp \<Longrightarrow> sess_rep rec (rp_capacity rp) ax \<Longrightarrow> represents (set_sessions rec s) (rp\<lparr>rp_sessions := ax\<rparr>)"
  by (simp add: represents_def set_sessions_def)

definition outcome_of :: "u64 \<times> bool \<times> bool \<Rightarrow> outcome" where
  "outcome_of r = (case r of (v, ignored, rejected) \<Rightarrow> if ignored then Ignored else if rejected then Rejected else Done v)"

lemma outcome_of_simps [simp]:
  "outcome_of (v, False, False) = Done v" "outcome_of (v, False, True) = Rejected" "outcome_of (v, True, b) = Ignored"
  by (simp_all add: outcome_of_def)

lemma set_sessions_simps [simp]:
  "ns_sessions (sm_sm (set_sessions rec s)) = rec"
  "set_sessions rec' (set_sessions rec s) = set_sessions rec' s"
  "sm_calls (set_sessions rec s) = sm_calls s" "sm_lastApplied (set_sessions rec s) = sm_lastApplied s"
  "sm_batchedLastApplied (set_sessions rec s) = sm_batchedLastApplied s"
  "ns_dataStore (sm_sm (set_sessions rec s)) = ns_dataStore (sm_sm s)"
  "same_frame s0 (set_sessions rec s) = same_frame s0 s"
  by (simp_all add: set_sessions_def same_frame_def)

lemma sm_Update_none:
  "sm_Update ops None e s = Some (fst (us_Update ops (e_Cmd e) (ns_dataStore (sm_sm s))),
     s\<lparr>sm_sm := (sm_sm s)\<lparr>ns_dataStore := snd (us_Update ops (e_Cmd e) (ns_dataStore (sm_sm s)))\<rparr>\<rparr>)"
  by (simp add: sm_Update_def nsm_Update_def Let_def split_def)

lemma sm_Update_session:
  assumes "sess_at (ns_sessions (sm_sm s)) k se cap ys" and "\<not> hasResponded se (e_SeriesID e)" and "getResponse se (e_SeriesID e) = None"
    and "us_Update ops (e_Cmd e) (ns_dataStore (sm_sm s)) = (r, d)"
  shows "\<exists>rec. sm_Update ops (Some (k, se)) e s = Some (r, s\<lparr>sm_sm := (sm_sm s)\<lparr>ns_dataStore := d, ns_sessions := rec\<rparr>\<rparr>)
    \<and> sess_rep rec cap ((k, fst (asess se), (snd (asess se))(e_SeriesID e \<mapsto> r)) # ys)"
proof -
  have ok: "sn_ClientID se = k" "session_ok se" using sess_at_ok [OF assms(1)] by auto
  obtain se' where se': "addResponse (e_SeriesID e) r se = Some se'" "session_ok se'" "sn_ClientID se' = k"
      "asess se' = (fst (asess se), (snd (asess se))(e_SeriesID e \<mapsto> r))"
    using addResponse_spec [OF ok(2) assms(2,3)] ok(1) by blast
  have "sess_rep (setSession k se' (ns_sessions (sm_sm s))) cap ((k, asess se') # ys)"
    by (rule sess_at_rep [OF sess_at_set [OF assms(1) se'(3,2)]])
  then show ?thesis
    using assms(3,4) se'(1,4) by (intro exI [of _ "setSession k se' (ns_sessions (sm_sm s))"])
      (simp add: sm_Update_def nsm_Update_def AddResponse_def Let_def)
qed

text \<open>What the operations below keep besides the replica.\<close>

abbreviation quiet_step :: "'d rsm_state \<Rightarrow> 'd rsm_state \<Rightarrow> bool" where
  "quiet_step s s' \<equiv> sm_calls s' = sm_calls s \<and> sm_batchedLastApplied s' = sm_batchedLastApplied s \<and> same_frame s s'"

lemma UpdateRequired_asess:
  "UpdateRequired se sid =
     (if sid \<le> fst (asess se) then (0, True, False)
      else case snd (asess se) sid of Some v \<Rightarrow> (v, False, False) | None \<Rightarrow> (0, False, True))"
  by (simp add: UpdateRequired_def hasResponded_def getResponse_def asess_def)

lemma asess_simps: "hasResponded se sid \<longleftrightarrow> sid \<le> fst (asess se)" "getResponse se sid = snd (asess se) sid"
  by (simp_all add: hasResponded_def getResponse_def asess_def)

text \<open>An update of a registered client.\<close>

lemma handleUpdate_client:
  assumes s: "updateLastApplied (e_Index e) (e_Term e) s = Some s1" "represents s1 rp" "quiet_step s s1"
    and managed: "\<not> IsNoOPSession e" and client: "map_of (rp_sessions rp) (e_ClientID e) = Some a"
    and rp': "spec_update ops e rp = (res, rp')"
  shows "\<exists>r s'. handleUpdate ops e s = Some (r, s') \<and> outcome_of r = res \<and> represents s' rp' \<and> quiet_step s s'"
proof -
  obtain r d where rd: "us_Update ops (e_Cmd e) (rp_store rp) = (r, d)" by fastforce
  have st: "ns_dataStore (sm_sm s1) = rp_store rp" "sess_rep (ns_sessions (sm_sm s1)) (rp_capacity rp) (rp_sessions rp)"
    using s(2) by (simp_all add: represents_def)
  obtain se rec1 where g: "ClientRegistered (e_ClientID e) (ns_sessions (sm_sm s1)) = Some (Some se, rec1)" "asess se = a"
      "sess_at rec1 (e_ClientID e) se (rp_capacity rp) (remove_key (e_ClientID e) (rp_sessions rp))"
    using ClientRegistered_rep [OF st(2), of "e_ClientID e"] client by auto
  let ?a = "acked (e_RespondedTo e) a" and ?se = "clearTo (e_RespondedTo e) se"
  let ?rec = "setSession (e_ClientID e) ?se rec1" and ?ys = "remove_key (e_ClientID e) (rp_sessions rp)"
  let ?s2 = "set_sessions ?rec s1"
  have c: "asess ?se = ?a" "session_ok ?se" "sn_ClientID ?se = e_ClientID e"
    using clearTo_spec [of se "e_RespondedTo e"] sess_at_ok [OF g(3)] g(2) by auto
  have at: "sess_at ?rec (e_ClientID e) ?se (rp_capacity rp) ?ys" by (rule sess_at_set [OF g(3) c(3,2)])
  have r2: "represents ?s2 (rp\<lparr>rp_sessions := (e_ClientID e, ?a) # ?ys\<rparr>)" "quiet_step s ?s2"
    using represents_sessions [OF s(2)] sess_at_rep [OF at] c(1) s(3) by simp_all
  have h: "handleUpdate ops e s = (case UpdateRequired ?se (e_SeriesID e) of (result, responded, updateRequired) \<Rightarrow>
      if responded then Some ((0, True, False), ?s2)
      else if \<not> updateRequired then Some ((result, False, False), ?s2)
      else do { (result, s) \<leftarrow> sm_Update ops (Some (e_ClientID e, ?se)) e ?s2; Some ((result, False, False), s) })"
    using managed s(1) g(1) by (simp add: handleUpdate_def UpdateRespondedTo_def Let_def)
  show ?thesis
  proof (cases "e_SeriesID e \<le> fst ?a \<or> snd ?a (e_SeriesID e) \<noteq> None")
    case True
    let ?r = "if e_SeriesID e \<le> fst ?a then (0, True, False) else (the (snd ?a (e_SeriesID e)), False, False)"
    have 1: "handleUpdate ops e s = Some (?r, ?s2)" using h True c(1) by (auto simp: UpdateRequired_asess)
    have 2: "outcome_of ?r = res" "rp' = rp\<lparr>rp_sessions := (e_ClientID e, ?a) # ?ys\<rparr>"
      using rp' managed rd client True by (auto simp: spec_update_def Let_def split: if_splits)
    show ?thesis using 1 2 r2 by blast
  next
    case False
    have n: "\<not> hasResponded ?se (e_SeriesID e)" "getResponse ?se (e_SeriesID e) = None"
      using False c(1) by (simp_all add: asess_simps)
    have "us_Update ops (e_Cmd e) (ns_dataStore (sm_sm ?s2)) = (r, d)" using rd st(1) by simp
    then obtain rec where x: "sm_Update ops (Some (e_ClientID e, ?se)) e ?s2
        = Some (r, ?s2\<lparr>sm_sm := (sm_sm ?s2)\<lparr>ns_dataStore := d, ns_sessions := rec\<rparr>\<rparr>)"
        "sess_rep rec (rp_capacity rp) ((e_ClientID e, fst ?a, (snd ?a)(e_SeriesID e \<mapsto> r)) # ?ys)"
      using sm_Update_session [of ?s2 "e_ClientID e" ?se "rp_capacity rp" ?ys e ops r d] at n c(1) by auto
    let ?s3 = "?s2\<lparr>sm_sm := (sm_sm ?s2)\<lparr>ns_dataStore := d, ns_sessions := rec\<rparr>\<rparr>"
    have 1: "outcome_of (r, False, False) = res"
        "rp' = rp\<lparr>rp_sessions := (e_ClientID e, fst ?a, (snd ?a)(e_SeriesID e \<mapsto> r)) # ?ys, rp_store := d\<rparr>"
      using rp' managed rd client False by (auto simp: spec_update_def Let_def)
    have 2: "represents ?s3 rp'" "quiet_step s ?s3"
      using r2 x(2) 1(2) by (simp_all add: represents_def same_frame_def)
    have "handleUpdate ops e s = Some ((r, False, False), ?s3)"
      using h x(1) False c(1) by (simp add: UpdateRequired_asess)
    then show ?thesis using 1(1) 2 by blast
  qed
qed

lemma handleUpdate_rep:
  assumes rep: "represents s rp" and ok: "entry_ok (rp_index rp) (rp_term rp) e"
    and rp': "spec_update ops e (rp\<lparr>rp_index := e_Index e, rp_term := e_Term e\<rparr>) = (res, rp')"
  shows "\<exists>r s'. handleUpdate ops e s = Some (r, s') \<and> outcome_of r = res \<and> represents s' rp' \<and> quiet_step s s'"
proof -
  let ?s = "s\<lparr>sm_lastApplied := e_Index e, sm_lastAppliedTerm := e_Term e\<rparr>"
  note u = updateLastApplied_rep [OF rep ok]
  obtain r d where rd: "us_Update ops (e_Cmd e) (rp_store rp) = (r, d)" by fastforce
  have st: "ns_dataStore (sm_sm s) = rp_store rp" "sess_rep (ns_sessions (sm_sm s)) (rp_capacity rp) (rp_sessions rp)"
    using rep by (simp_all add: represents_def)
  have q: "quiet_step s ?s" by simp
  consider "IsNoOPSession e" | "\<not> IsNoOPSession e" "map_of (rp_sessions rp) (e_ClientID e) = None"
    | a where "\<not> IsNoOPSession e" "map_of (rp_sessions rp) (e_ClientID e) = Some a" by fastforce
  then show ?thesis
  proof cases
    case 1
    then show ?thesis
      using rp' rep rd u(1) st
      by (auto simp: handleUpdate_def sm_Update_none spec_update_def represents_def same_frame_def)
  next
    case 2
    then have "ClientRegistered (e_ClientID e) (ns_sessions (sm_sm s)) = Some (None, ns_sessions (sm_sm s))"
      using ClientRegistered_rep [OF st(2), of "e_ClientID e"] by simp
    then show ?thesis
      using rp' u rd 2 q represents_sessions [OF u(2), of "ns_sessions (sm_sm s)" "rp_sessions rp"] st(2)
      by (auto simp: handleUpdate_def spec_update_def)
  next
    case 3
    then show ?thesis using handleUpdate_client [OF u q] rp' by simp
  qed
qed

text \<open>A config change.\<close>

lemma accept_iff:
  "isConfChangeUpToDate cc s \<and> \<not> isAddingRemovedNode cc s \<and> \<not> isAddingExistingMember cc s \<and> \<not> isAddingNodeAsObserver cc s
     \<longleftrightarrow> change_ok (sm_ordered s) cc (sm_members s)"
proof -
  have keys: "map_of m k \<noteq> None \<longleftrightarrow> k \<in> gomap_keys m" for m :: "(u64, 'v) gomap" and k by (simp add: map_of_eq_None_iff)
  have "list_ex (\<lambda>(_, addr). addressEqual addr t) m \<longleftrightarrow> \<not> (\<forall>(_, addr)\<in>set m. \<not> addressEqual addr t)" for m :: "(u64, string) gomap" and t
    by (auto simp: list_ex_iff)
  then show ?thesis
    unfolding isConfChangeUpToDate_def isAddingRemovedNode_def isAddingExistingMember_def isAddingNodeAsObserver_def
      change_ok_def keys
    by (cases "int32_type (raw_Type cc)"; cases "the (int32_type (raw_Type cc))") auto
qed

lemma applyConfigChangeLocked_spec:
  assumes "change_ok ordered cc (sm_members s)" and "int32_type (raw_Type cc) \<noteq> None"
  shows "applyConfigChangeLocked cc index s
    = Some (node_calls (ApplyConfigChange cc) (s\<lparr>sm_members := changed cc index (sm_members s)\<rparr>))"
proof -
  obtain t where t: "int32_type (raw_Type cc) = Some t" using assms(2) by auto
  have del: "map_of m k = None \<Longrightarrow> AList.delete k m = m" for m :: "(u64, string) gomap" and k
    by (force simp: AList.delete_eq map_of_eq_None_iff intro!: filter_True)
  have "map_of (mb_Addresses (sm_members s)) (raw_NodeID cc) = None" if "t = AddObserver"
    using assms(1) t that by (simp add: change_ok_def map_of_eq_None_iff)
  then show ?thesis
    using t del
    by (cases t) (auto simp: applyConfigChangeLocked_def changed_def node_calls_def Let_def split: option.split)
qed

lemma handleConfigChange_rep:
  assumes rep: "represents s rp" and ok: "entry_ok (rp_index rp) (rp_term rp) e" and cc: "IsConfigChange e"
  shows "\<exists>s'. handleConfigChange e s = Some (change_ok (sm_ordered s) (decoded e) (rp_members rp), s')
    \<and> represents s' (snd (spec_entry ops (sm_ordered s) b e rp))
    \<and> sm_calls s' = sm_calls s @ (if change_ok (sm_ordered s) (decoded e) (rp_members rp) then [ApplyConfigChange (decoded e)] else [])
    \<and> sm_batchedLastApplied s' = sm_batchedLastApplied s \<and> same_frame s s'"
proof -
  let ?cc = "decoded e" and ?s = "s\<lparr>sm_lastApplied := e_Index e, sm_lastAppliedTerm := e_Term e\<rparr>"
  note u = updateLastApplied_rep [OF rep ok]
  have d: "ConfigChange_Unmarshal (e_Cmd e) = Some (Inr ?cc)" "int32_type (raw_Type ?cc) \<noteq> None"
      "\<not> (cc_is ?cc AddNode \<and> raw_Address ?cc = [])"
    using ok cc by (auto simp: entry_ok_def decoded_def)
  have m: "sm_members s = rp_members rp" using rep by (simp add: represents_def)
  have h: "handleConfigChange e s = (if change_ok (sm_ordered s) ?cc (sm_members s)
      then do { s \<leftarrow> applyConfigChangeLocked ?cc (e_Index e) ?s; Some (True, s) } else Some (False, ?s))"
    using d u(1) accept_iff [of ?cc s] by (auto simp: handleConfigChange_def Let_def)
  show ?thesis
  proof (cases "change_ok (sm_ordered s) ?cc (sm_members s)")
    case True
    then have "applyConfigChangeLocked ?cc (e_Index e) ?s
        = Some (node_calls (ApplyConfigChange ?cc) (?s\<lparr>sm_members := changed ?cc (e_Index e) (sm_members s)\<rparr>))"
      using applyConfigChangeLocked_spec [of _ ?cc ?s] d(2) by simp
    then show ?thesis
      using True h m cc rep
      by (auto simp: spec_entry_def Let_def represents_def node_calls_def same_frame_def)
  next
    case False
    then show ?thesis using h m cc rep by (auto simp: spec_entry_def Let_def represents_def same_frame_def)
  qed
qed

lemma register_rep:
  assumes rep: "represents s rp" and ok: "entry_ok (rp_index rp) (rp_term rp) e"
  shows "\<exists>s'. handleRegisterSession e s = Some (fst (spec_register (rp_capacity rp) (e_ClientID e) (rp_sessions rp)), s')
      \<and> represents s' (rp\<lparr>rp_index := e_Index e, rp_term := e_Term e,
          rp_sessions := snd (spec_register (rp_capacity rp) (e_ClientID e) (rp_sessions rp))\<rparr>) \<and> quiet_step s s'"
    and "\<exists>s'. handleUnregisterSession e s = Some (fst (spec_unregister (e_ClientID e) (rp_sessions rp)), s')
      \<and> represents s' (rp\<lparr>rp_index := e_Index e, rp_term := e_Term e,
          rp_sessions := snd (spec_unregister (e_ClientID e) (rp_sessions rp))\<rparr>) \<and> quiet_step s s'"
proof -
  have st: "sess_rep (ns_sessions (sm_sm s)) (rp_capacity rp) (rp_sessions rp)" using rep by (simp add: represents_def)
  have u: "updateLastApplied (e_Index e) (e_Term e) (set_sessions rec s)
      = Some (set_sessions rec (s\<lparr>sm_lastApplied := e_Index e, sm_lastAppliedTerm := e_Term e\<rparr>))" for rec
    using updateLastApplied_rep(1) [OF rep ok] by (auto simp: updateLastApplied_def set_sessions_def split: if_splits)
  have q: "quiet_step s (set_sessions rec (s\<lparr>sm_lastApplied := e_Index e, sm_lastAppliedTerm := e_Term e\<rparr>))" for rec
    by simp
  obtain rec1 where 1: "RegisterClientID (e_ClientID e) (ns_sessions (sm_sm s))
      = Some (fst (spec_register (rp_capacity rp) (e_ClientID e) (rp_sessions rp)), rec1)"
      "sess_rep rec1 (rp_capacity rp) (snd (spec_register (rp_capacity rp) (e_ClientID e) (rp_sessions rp)))"
    using RegisterClientID_rep [OF st] by blast
  obtain rec2 where 2: "UnregisterClientID (e_ClientID e) (ns_sessions (sm_sm s))
      = Some (fst (spec_unregister (e_ClientID e) (rp_sessions rp)), rec2)"
      "sess_rep rec2 (rp_capacity rp) (snd (spec_unregister (e_ClientID e) (rp_sessions rp)))"
    using UnregisterClientID_rep [OF st] by blast
  note r = represents_sessions [OF updateLastApplied_rep(2) [OF rep ok]]
  show "\<exists>s'. handleRegisterSession e s = Some (fst (spec_register (rp_capacity rp) (e_ClientID e) (rp_sessions rp)), s')
      \<and> represents s' (rp\<lparr>rp_index := e_Index e, rp_term := e_Term e,
          rp_sessions := snd (spec_register (rp_capacity rp) (e_ClientID e) (rp_sessions rp))\<rparr>) \<and> quiet_step s s'"
    using 1(1) u q [of rec1] r [of rec1] 1(2) by (simp add: handleRegisterSession_def)
  show "\<exists>s'. handleUnregisterSession e s = Some (fst (spec_unregister (e_ClientID e) (rp_sessions rp)), s')
      \<and> represents s' (rp\<lparr>rp_index := e_Index e, rp_term := e_Term e,
          rp_sessions := snd (spec_unregister (e_ClientID e) (rp_sessions rp))\<rparr>) \<and> quiet_step s s'"
    using 2(1) u q [of rec2] r [of rec2] 2(2) by (simp add: handleUnregisterSession_def)
qed

lemma node_calls_simps [simp]:
  "represents (node_calls c s) rp = represents s rp" "sm_calls (node_calls c s) = sm_calls s @ [c]"
  "same_frame s0 (node_calls c s) = same_frame s0 s" "sm_lastApplied (node_calls c s) = sm_lastApplied s"
  "sm_batchedLastApplied (node_calls c s) = sm_batchedLastApplied s"
  by (simp_all add: represents_def node_calls_def same_frame_def)

lemma setBatched_simps [simp]:
  "represents (setBatchedLastApplied i s) rp = represents s rp" "sm_calls (setBatchedLastApplied i s) = sm_calls s"
  "same_frame s0 (setBatchedLastApplied i s) = same_frame s0 s" "sm_batchedLastApplied (setBatchedLastApplied i s) = i"
  by (simp_all add: represents_def setBatchedLastApplied_def same_frame_def)

lemma spec_update_index: "rp_index (snd (spec_update ops e rp)) = rp_index rp" "rp_term (snd (spec_update ops e rp)) = rp_term rp"
  by (simp_all add: spec_update_def Let_def split: prod.split option.split)

lemma spec_entry_index: "rp_index (snd (spec_entry ops o' b e rp)) = e_Index e" "rp_term (snd (spec_entry ops o' b e rp)) = e_Term e"
  by (auto simp: spec_entry_def Let_def spec_update_index [THEN trans] split_def)

text \<open>The step that \<open>handleCommitRec\<close> makes before its last check.\<close>

definition applied :: "'d rsm_state \<Rightarrow> node_call list \<Rightarrow> 'd replica \<Rightarrow> 'd rsm_state \<Rightarrow> bool" where
  "applied s calls rp s' \<longleftrightarrow> represents s' rp \<and> sm_calls s' = sm_calls s @ calls
     \<and> sm_batchedLastApplied s' = sm_batchedLastApplied s \<and> same_frame s s'"

lemma commit_update:
  assumes "represents s rp" and "entry_ok (rp_index rp) (rp_term rp) e"
    and "\<not> IsConfigChange e" "IsSessionManaged e" "\<not> IsNewSessionRequest e" "\<not> IsEndOfSessionRequest e"
  shows "\<exists>r s'. handleUpdate ops e s = Some (r, s')
    \<and> applied s (fst (spec_entry ops (sm_ordered s) b e rp)) (snd (spec_entry ops (sm_ordered s) b e rp))
        (case r of (v, ignored, rejected) \<Rightarrow> if \<not> ignored then node_calls (ApplyUpdate e v rejected ignored b) s' else s')"
proof -
  obtain res rp' where sp: "spec_update ops e (rp\<lparr>rp_index := e_Index e, rp_term := e_Term e\<rparr>) = (res, rp')" by fastforce
  obtain r s' where h: "handleUpdate ops e s = Some (r, s')" "outcome_of r = res" "represents s' rp'" "quiet_step s s'"
    using handleUpdate_rep [OF assms(1,2) sp] by blast
  have "spec_entry ops (sm_ordered s) b e rp = (case res of
      Done v \<Rightarrow> [ApplyUpdate e v False False b] | Rejected \<Rightarrow> [ApplyUpdate e 0 True False b] | Ignored \<Rightarrow> [], rp')"
    using assms(3-6) sp by (simp add: spec_entry_def Let_def)
  moreover obtain v ign rej where r: "r = (v, ign, rej)" by (cases r)
  moreover have "rej \<longrightarrow> \<not> ign \<longrightarrow> v = 0"
    using h(1) r by (auto simp: handleUpdate_def Let_def UpdateRequired_def split: bind_splits option.splits if_splits prod.splits)
  ultimately show ?thesis
    using h by (auto simp: applied_def outcome_of_def split: if_splits)
qed

lemma handleCommitRec_rep:
  assumes rep: "represents s rp" and ok: "entry_ok (rp_index rp) (rp_term rp) e"
    and sp: "spec_entry ops (sm_ordered s) b e rp = (calls, rp')"
  shows "\<exists>s'. handleCommitRec ops e b s = Some s' \<and> represents s' rp' \<and> sm_calls s' = sm_calls s @ calls \<and> same_frame s s'
    \<and> sm_batchedLastApplied s' = (if b then e_Index e else sm_batchedLastApplied s)"
proof -
  have idx: "rp_index rp' = e_Index e" using spec_entry_index(1) [of ops "sm_ordered s" b e rp] sp by simp
  have fin: ?thesis if "handleCommitRec ops e b s = (if sm_lastApplied s1 \<noteq> e_Index e then panic
      else Some (if b then setBatchedLastApplied (e_Index e) s1 else s1))" and "applied s calls rp' s1" for s1
  proof -
    have "sm_lastApplied s1 = e_Index e" using that(2) idx by (simp add: applied_def represents_def)
    then show ?thesis using that by (auto simp: applied_def)
  qed
  consider "IsConfigChange e" | "\<not> IsConfigChange e" "\<not> IsSessionManaged e"
    | "\<not> IsConfigChange e" "IsSessionManaged e" "IsNewSessionRequest e"
    | "\<not> IsConfigChange e" "IsSessionManaged e" "\<not> IsNewSessionRequest e" "IsEndOfSessionRequest e"
    | "\<not> IsConfigChange e" "IsSessionManaged e" "\<not> IsNewSessionRequest e" "\<not> IsEndOfSessionRequest e" by blast
  then show ?thesis
  proof cases
    case 1
    let ?ok = "change_ok (sm_ordered s) (decoded e) (rp_members rp)"
    obtain s1 where h: "handleConfigChange e s = Some (?ok, s1)" "represents s1 rp'"
        "sm_calls s1 = sm_calls s @ (if ?ok then [ApplyConfigChange (decoded e)] else [])"
        "sm_batchedLastApplied s1 = sm_batchedLastApplied s" "same_frame s s1"
      using handleConfigChange_rep [OF rep ok 1, of ops b] sp by auto
    have "calls = (if ?ok then [ApplyConfigChange (decoded e)] else []) @ [ConfigChangeProcessed (e_Key e) ?ok]"
      using sp 1 by (auto simp: spec_entry_def Let_def split: if_splits)
    then show ?thesis
      using h 1 by (intro fin [of "node_calls (ConfigChangeProcessed (e_Key e) ?ok) s1"]) (simp_all add: handleCommitRec_def applied_def)
  next
    case 2
    have "IsEmpty e" using ok 2 by (simp add: entry_ok_def)
    then show ?thesis
      using 2 sp updateLastApplied_rep [OF rep ok]
      by (intro fin [of "node_calls (ApplyUpdate e 0 False True b) (s\<lparr>sm_lastApplied := e_Index e, sm_lastAppliedTerm := e_Term e\<rparr>)"])
        (auto simp: handleCommitRec_def handleNoOP_def applied_def spec_entry_def Let_def)
  next
    case 3
    obtain r ax where r: "spec_register (rp_capacity rp) (e_ClientID e) (rp_sessions rp) = (r, ax)" by fastforce
    obtain s1 where "handleRegisterSession e s = Some (r, s1)"
        "represents s1 (rp\<lparr>rp_index := e_Index e, rp_term := e_Term e, rp_sessions := ax\<rparr>)" "quiet_step s s1"
      using register_rep(1) [OF rep ok] r by auto
    then show ?thesis
      using 3 sp r by (intro fin [of "node_calls (ApplyUpdate e r (r = 0) False b) s1"])
        (auto simp: handleCommitRec_def applied_def spec_entry_def Let_def)
  next
    case 4
    obtain r ax where r: "spec_unregister (e_ClientID e) (rp_sessions rp) = (r, ax)" by fastforce
    obtain s1 where "handleUnregisterSession e s = Some (r, s1)"
        "represents s1 (rp\<lparr>rp_index := e_Index e, rp_term := e_Term e, rp_sessions := ax\<rparr>)" "quiet_step s s1"
      using register_rep(2) [OF rep ok] r by auto
    then show ?thesis
      using 4 sp r by (intro fin [of "node_calls (ApplyUpdate e r (r = 0) False b) s1"])
        (auto simp: handleCommitRec_def applied_def spec_entry_def Let_def)
  next
    case 5
    obtain v ign rej s1 where h: "handleUpdate ops e s = Some ((v, ign, rej), s1)"
        "applied s calls rp' (if \<not> ign then node_calls (ApplyUpdate e v rej ign b) s1 else s1)"
      using commit_update [OF rep ok 5, of ops b] sp by auto
    then show ?thesis
      using 5 by (intro fin [OF _ h(2)]) (simp add: handleCommitRec_def)
  qed
qed

end
