(* ===== verification/RSMBatch.thy ===== *)
theory RSMBatch
  imports RSMSpec "HOL-Library.Sublist"
begin

text \<open>
  Sequences of entries. Applying the entries of a batch of commit records, one by one or a record at a time, implements the
  fold of \<open>spec_apply\<close> over the entries. On the replica follow the facts that the properties
  state: an update of a client session is executed at most once, and the membership stays consistent.
\<close>

section \<open>Entries\<close>

definition spec_apply :: "'d user_sm \<Rightarrow> bool \<Rightarrow> entry \<Rightarrow> 'd replica \<Rightarrow> 'd replica" where
  "spec_apply ops ordered e rp = snd (spec_entry ops ordered False e rp)"

lemma spec_entry_apply: "snd (spec_entry ops ordered b e rp) = spec_apply ops ordered e rp"
  by (simp add: spec_apply_def spec_entry_def Let_def split_def)

lemma spec_apply_index [simp]:
  "rp_index (spec_apply ops ordered e rp) = e_Index e" "rp_term (spec_apply ops ordered e rp) = e_Term e"
  by (simp_all add: spec_apply_def spec_entry_index)

fun entries_ok :: "u64 \<Rightarrow> u64 \<Rightarrow> entry list \<Rightarrow> bool" where
  "entries_ok i t [] \<longleftrightarrow> True"
| "entries_ok i t (e # es) \<longleftrightarrow> entry_ok i t e \<and> entries_ok (e_Index e) (e_Term e) es"

lemma entries_ok_append:
  "entries_ok i t (es @ fs) \<longleftrightarrow> entries_ok i t es
     \<and> entries_ok (if es = [] then i else e_Index (last es)) (if es = [] then t else e_Term (last es)) fs"
  by (induction es arbitrary: i t) auto

lemma fold_apply_index:
  "rp_index (fold (spec_apply ops ordered) es rp) = (if es = [] then rp_index rp else e_Index (last es))"
  "rp_term (fold (spec_apply ops ordered) es rp) = (if es = [] then rp_term rp else e_Term (last es))"
  by (induction es arbitrary: rp) auto

text \<open>The calls of the node, in order. \<open>lastRec\<close> tells whether the last entry ends a batch.\<close>

fun entries_calls :: "'d user_sm \<Rightarrow> bool \<Rightarrow> bool \<Rightarrow> entry list \<Rightarrow> 'd replica \<Rightarrow> node_call list" where
  "entries_calls ops ordered lastRec [] rp = []"
| "entries_calls ops ordered lastRec (e # es) rp =
     fst (spec_entry ops ordered (lastRec \<and> es = []) e rp) @ entries_calls ops ordered lastRec es (spec_apply ops ordered e rp)"

lemma handleEntries_rep:
  "represents s rp \<Longrightarrow> entries_ok (rp_index rp) (rp_term rp) es \<Longrightarrow>
   \<exists>s'. handleEntries ops lastRec es s = Some s' \<and> represents s' (fold (spec_apply ops (sm_ordered s)) es rp)
     \<and> sm_calls s' = sm_calls s @ entries_calls ops (sm_ordered s) lastRec es rp \<and> same_frame s s'"
proof (induction es arbitrary: s rp)
  case (Cons e es)
  let ?b = "lastRec \<and> es = []" and ?rp = "spec_apply ops (sm_ordered s) e rp"
  have "spec_entry ops (sm_ordered s) ?b e rp = (fst (spec_entry ops (sm_ordered s) ?b e rp), ?rp)"
    using spec_entry_apply [of ops "sm_ordered s" ?b e rp] by (metis prod.collapse)
  then obtain s1 where s1: "handleCommitRec ops e ?b s = Some s1" "represents s1 ?rp" "same_frame s s1"
      "sm_calls s1 = sm_calls s @ fst (spec_entry ops (sm_ordered s) ?b e rp)"
    using handleCommitRec_rep [OF Cons.prems(1), of e ops ?b] Cons.prems(2) by (metis entries_ok.simps(2))
  have o: "sm_ordered s1 = sm_ordered s" using s1(3) by (simp add: same_frame_def)
  obtain s2 where "handleEntries ops lastRec es s1 = Some s2" "represents s2 (fold (spec_apply ops (sm_ordered s1)) es ?rp)" "same_frame s1 s2"
      "sm_calls s2 = sm_calls s1 @ entries_calls ops (sm_ordered s1) lastRec es ?rp"
    using Cons.IH [OF s1(2)] Cons.prems(2) by auto
  then show ?case using s1 o by (auto simp: same_frame_def)
qed simp

section \<open>Batches\<close>

text \<open>\<open>handleAllUpdateEntries\<close> does for a record of updates what \<open>handleCommitRec\<close> does entry by entry.\<close>

lemma handleUpdateEntry_eq:
  "handleUpdateEntry ops b e s = do {
     ((v, ignored, rejected), s) \<leftarrow> handleUpdate ops e s;
     Some (if \<not> ignored then node_calls (ApplyUpdate e v rejected ignored b) s else s) }"
  by (auto simp: handleUpdateEntry_def handleUpdate_def onUpdateApplied_def UpdateRequired_def Let_def split_def
      split: Option.bind_splits option.splits if_splits)

lemma handleUpdate_applied:
  "handleUpdate ops e s = Some (r, s') \<Longrightarrow> sm_lastApplied s' = e_Index e"
  by (auto simp: handleUpdate_def updateLastApplied_def sm_Update_def UpdateRequired_def Let_def split_def
      split: Option.bind_splits option.splits if_splits)

lemma handleCommitRec_update:
  assumes "IsUpdateEntry e"
  shows "handleCommitRec ops e b s = do {
    s \<leftarrow> handleUpdateEntry ops b e s;
    Some (if b then setBatchedLastApplied (e_Index e) s else s) }"
  using assms handleUpdate_applied [of ops e s]
  by (auto simp: handleCommitRec_def handleUpdateEntry_eq IsUpdateEntry_def split_def split: Option.bind_splits)

lemma handleAllUpdateEntries_eq:
  assumes "allUpdateEntries ents"
  shows "handleAllUpdateEntries ops ents s = handleEntries ops True ents s"
  using assms
proof (induction ents arbitrary: s)
  case (Cons e ents)
  have IH: "handleAllUpdateEntries ops ents s1 = handleEntries ops True ents s1" for s1
    using Cons by (simp add: allUpdateEntries_def)
  show ?case
  proof (cases "ents = []")
    case True
    then show ?thesis
      using Cons.prems handleCommitRec_update [of e ops True s]
      by (simp add: allUpdateEntries_def handleAllUpdateEntries_def)
  next
    case False
    then have "(e # ents) ! (length (e # ents) - 1) = ents ! (length ents - 1)" by (cases ents) simp_all
    then show ?thesis
      using Cons.prems False handleCommitRec_update [of e ops False s] IH
      by (simp add: allUpdateEntries_def handleAllUpdateEntries_def split: Option.bind_splits)
  qed
qed (simp add: handleAllUpdateEntries_def)

abbreviation batch_entries :: "commit_rec list \<Rightarrow> entry list" where
  "batch_entries batch \<equiv> concat (map cm_Entries batch)"

fun batch_calls :: "'d user_sm \<Rightarrow> bool \<Rightarrow> bool \<Rightarrow> commit_rec list \<Rightarrow> 'd replica \<Rightarrow> node_call list" where
  "batch_calls ops ordered batched [] rp = []"
| "batch_calls ops ordered batched (rec # batch) rp =
     entries_calls ops ordered (batched \<and> allUpdateEntries (cm_Entries rec) \<or> batch = []) (cm_Entries rec) rp
     @ batch_calls ops ordered batched batch (fold (spec_apply ops ordered) (cm_Entries rec) rp)"

lemma rsm_handle_rep:
  "represents s rp \<Longrightarrow> entries_ok (rp_index rp) (rp_term rp) (batch_entries batch) \<Longrightarrow> \<forall>rec\<in>set batch. \<not> is_snapshot_rec rec \<Longrightarrow>
   \<exists>s'. rsm_handle ops batched batch s = Some s' \<and> represents s' (fold (spec_apply ops (sm_ordered s)) (batch_entries batch) rp)
     \<and> sm_calls s' = sm_calls s @ batch_calls ops (sm_ordered s) batched batch rp \<and> same_frame s s'"
proof (induction batch arbitrary: s rp)
  case (Cons rec batch)
  let ?es = "cm_Entries rec" and ?rp = "fold (spec_apply ops (sm_ordered s)) (cm_Entries rec) rp"
  let ?last = "batched \<and> allUpdateEntries ?es \<or> batch = []"
  have ok: "entries_ok (rp_index rp) (rp_term rp) ?es" "entries_ok (rp_index ?rp) (rp_term ?rp) (batch_entries batch)"
    using Cons.prems(2) by (simp_all add: entries_ok_append fold_apply_index)
  have l: "(if batched \<and> allUpdateEntries ?es then handleAllUpdateEntries ops ?es s
      else handleEntries ops (batch = []) ?es s) = handleEntries ops ?last ?es s"
    using handleAllUpdateEntries_eq [of ?es ops s] by (cases "batched \<and> allUpdateEntries ?es") auto
  obtain s1 where s1: "handleEntries ops ?last ?es s = Some s1" "represents s1 ?rp" "same_frame s s1"
      "sm_calls s1 = sm_calls s @ entries_calls ops (sm_ordered s) ?last ?es rp"
    using handleEntries_rep [OF Cons.prems(1) ok(1)] by blast
  have o: "sm_ordered s1 = sm_ordered s" using s1(3) by (simp add: same_frame_def)
  obtain s2 where "rsm_handle ops batched batch s1 = Some s2"
      "represents s2 (fold (spec_apply ops (sm_ordered s1)) (batch_entries batch) ?rp)" "same_frame s1 s2"
      "sm_calls s2 = sm_calls s1 @ batch_calls ops (sm_ordered s1) batched batch ?rp"
    using Cons.IH [OF s1(2) ok(2)] Cons.prems(3) by auto
  then show ?case using s1 o l Cons.prems(3) by (auto simp: is_snapshot_rec_def same_frame_def)
qed simp

section \<open>At most once\<close>

definition executes :: "entry \<Rightarrow> 'd replica \<Rightarrow> bool" where
  "executes e rp \<longleftrightarrow> IsUpdateEntry e \<and>
     (IsNoOPSession e \<or>
      (case map_of (rp_sessions rp) (e_ClientID e) of
         None \<Rightarrow> False
       | Some a \<Rightarrow> let a = acked (e_RespondedTo e) a in \<not> e_SeriesID e \<le> fst a \<and> snd a (e_SeriesID e) = None))"

fun executed :: "'d user_sm \<Rightarrow> bool \<Rightarrow> entry list \<Rightarrow> 'd replica \<Rightarrow> entry list" where
  "executed ops ordered [] rp = []"
| "executed ops ordered (e # es) rp =
     (if executes e rp then [e] else []) @ executed ops ordered es (spec_apply ops ordered e rp)"

definition run_updates :: "'d user_sm \<Rightarrow> entry list \<Rightarrow> 'd \<Rightarrow> 'd" where
  "run_updates ops es d = fold (\<lambda>e d. snd (us_Update ops (e_Cmd e) d)) es d"

lemma spec_apply_store:
  "rp_store (spec_apply ops ordered e rp) = (if executes e rp then snd (us_Update ops (e_Cmd e) (rp_store rp)) else rp_store rp)"
  by (auto simp: spec_apply_def spec_entry_def spec_update_def executes_def IsUpdateEntry_def Let_def split_def split: option.splits)

lemma executed_store: "rp_store (fold (spec_apply ops ordered) es rp) = run_updates ops (executed ops ordered es rp) (rp_store rp)"
  by (induction es arbitrary: rp) (simp_all add: run_updates_def spec_apply_store)

lemma executed_subseq: "subseq (executed ops ordered es rp) es"
  by (induction es arbitrary: rp) auto

text \<open>No update of series \<open>q\<close> of client \<open>k\<close> can be executed.\<close>

definition spent :: "u64 \<Rightarrow> u64 \<Rightarrow> 'd replica \<Rightarrow> bool" where
  "spent k q rp \<longleftrightarrow> (case map_of (rp_sessions rp) k of None \<Rightarrow> True | Some a \<Rightarrow> q \<le> fst a \<or> snd a q \<noteq> None)"

lemma map_of_remove_key: "map_of (remove_key c ax) k = (if k = c then None else map_of ax k)"
  by (induction ax) (auto simp: remove_key_def)

lemma map_of_take: "map_of (take n ax) k = None \<or> map_of (take n ax) k = map_of ax k"
  by (induction ax arbitrary: n) (auto simp: take_Cons split: nat.splits)

lemma acked_spent: "q \<le> fst a \<or> snd a q \<noteq> None \<Longrightarrow> q \<le> fst (acked to a) \<or> snd (acked to a) q \<noteq> None"
  by (auto simp: acked_def)

lemma spec_apply_spent:
  assumes "spent k q rp" and "\<not> (IsNewSessionRequest e \<and> e_ClientID e = k)"
  shows "spent k q (spec_apply ops ordered e rp)"
proof -
  note simps = spec_apply_def spec_entry_def Let_def split_def
  consider "IsConfigChange e \<or> \<not> IsSessionManaged e"
    | "\<not> IsConfigChange e" "IsSessionManaged e" "IsNewSessionRequest e"
    | "\<not> IsConfigChange e" "IsSessionManaged e" "\<not> IsNewSessionRequest e" "IsEndOfSessionRequest e"
    | "\<not> IsConfigChange e" "IsSessionManaged e" "\<not> IsNewSessionRequest e" "\<not> IsEndOfSessionRequest e" by blast
  then show ?thesis
  proof cases
    case 1
    then show ?thesis using assms(1) by (auto simp: simps spent_def)
  next
    case 2
    then show ?thesis
      using assms map_of_take [of "unat (rp_capacity rp)" "(e_ClientID e, (0, Map.empty)) # rp_sessions rp" k]
      by (auto simp: simps spent_def spec_register_def map_of_remove_key split: option.splits)
  next
    case 3
    then show ?thesis using assms(1) by (auto simp: simps spent_def spec_unregister_def map_of_remove_key split: option.splits)
  next
    case 4
    show ?thesis
    proof (cases "IsNoOPSession e \<or> e_ClientID e \<noteq> k \<or> map_of (rp_sessions rp) k = None")
      case True
      then show ?thesis using 4 assms(1) by (auto simp: simps spent_def spec_update_def map_of_remove_key split: option.splits)
    next
      case False
      then obtain a where a: "map_of (rp_sessions rp) k = Some a" "e_ClientID e = k" "\<not> IsNoOPSession e" by auto
      have "q \<le> fst (acked (e_RespondedTo e) a) \<or> snd (acked (e_RespondedTo e) a) q \<noteq> None"
        using assms(1) a(1) by (intro acked_spent) (simp add: spent_def)
      then show ?thesis using 4 a by (auto simp: simps spent_def spec_update_def split: option.splits)
    qed
  qed
qed

lemma executes_spent:
  assumes "executes e rp" and "e_ClientID e = k" and "e_SeriesID e = q" and "q \<noteq> NoOPSeriesID"
  shows "\<not> spent k q rp \<and> spent k q (spec_apply ops ordered e rp)"
proof -
  obtain a where a: "map_of (rp_sessions rp) k = Some a" "\<not> q \<le> fst (acked (e_RespondedTo e) a)" "snd (acked (e_RespondedTo e) a) q = None"
    using assms by (auto simp: executes_def IsNoOPSession_def Let_def split: option.splits)
  have "\<not> (q \<le> fst a \<or> snd a q \<noteq> None)" using a acked_spent [of q a "e_RespondedTo e"] by blast
  then have "\<not> spent k q rp" using a by (simp add: spent_def)
  moreover have "spent k q (spec_apply ops ordered e rp)"
    using assms a
    by (simp add: executes_def spec_apply_def spec_entry_def spec_update_def spent_def Let_def split_def IsUpdateEntry_def IsNoOPSession_def)
  ultimately show ?thesis ..
qed

lemma executed_once:
  assumes "\<forall>e\<in>set es. \<not> (IsNewSessionRequest e \<and> e_ClientID e = k)" and "q \<noteq> NoOPSeriesID"
  shows "length (filter (\<lambda>e. e_ClientID e = k \<and> e_SeriesID e = q) (executed ops ordered es rp)) \<le> (if spent k q rp then 0 else 1)"
  using assms(1)
proof (induction es arbitrary: rp)
  case (Cons e es)
  let ?rp = "spec_apply ops ordered e rp"
  have IH: "length (filter (\<lambda>e. e_ClientID e = k \<and> e_SeriesID e = q) (executed ops ordered es ?rp)) \<le> (if spent k q ?rp then 0 else 1)"
    using Cons by simp
  have keep: "spent k q rp \<Longrightarrow> spent k q ?rp" using spec_apply_spent [of k q rp e ops ordered] Cons.prems by auto
  show ?case
  proof (cases "executes e rp \<and> e_ClientID e = k \<and> e_SeriesID e = q")
    case True
    then show ?thesis using executes_spent [of e rp k q ops ordered] assms(2) IH by simp
  next
    case False
    then have "filter (\<lambda>e. e_ClientID e = k \<and> e_SeriesID e = q) (executed ops ordered (e # es) rp)
        = filter (\<lambda>e. e_ClientID e = k \<and> e_SeriesID e = q) (executed ops ordered es ?rp)" by auto
    then show ?thesis using IH keep by (auto split: if_splits)
  qed
qed simp

end
