(* ===== verification/RSMSnapshot.thy ===== *)
theory RSMSnapshot
  imports RSMBatch
begin

text \<open>
  The membership, and snapshots: the membership stays consistent under config changes, and a
  state machine that recovers from the snapshot of another one represents the same replica.
\<close>

section \<open>Membership\<close>

definition members_ok :: "membership \<Rightarrow> bool" where
  "members_ok m \<longleftrightarrow> gomap_ok (mb_Addresses m) \<and> gomap_ok (mb_Observers m) \<and> gomap_ok (mb_Removed m)
     \<and> (\<forall>(nid, b)\<in>set (mb_Removed m). b)
     \<and> gomap_keys (mb_Addresses m) \<inter> gomap_keys (mb_Observers m) = {}
     \<and> gomap_keys (mb_Addresses m) \<inter> gomap_keys (mb_Removed m) = {}
     \<and> gomap_keys (mb_Observers m) \<inter> gomap_keys (mb_Removed m) = {}"

lemma set_update_subset: "set (AList.update k v m) \<subseteq> insert (k, v) (set m)"
  by (induction m) auto

lemma changed_ok:
  assumes ok: "members_ok m" and "change_ok ordered cc m"
  shows "members_ok (changed cc i m)" and "gomap_keys (mb_Removed m) \<subseteq> gomap_keys (mb_Removed (changed cc i m))"
proof -
  let ?n = "raw_NodeID cc"
  have keys: "gomap_keys (mb_Addresses m) \<inter> gomap_keys (mb_Observers m) = {}"
      "gomap_keys (mb_Addresses m) \<inter> gomap_keys (mb_Removed m) = {}" "gomap_keys (mb_Observers m) \<inter> gomap_keys (mb_Removed m) = {}"
    using ok unfolding members_ok_def by blast+
  have maps: "gomap_ok (mb_Addresses m)" "gomap_ok (mb_Observers m)" "gomap_ok (mb_Removed m)" "\<forall>(nid, b)\<in>set (mb_Removed m). b"
    using ok by (simp_all add: members_ok_def)
  have r: "\<forall>(nid, b)\<in>set (AList.update ?n True (mb_Removed m)). b"
    using maps(4) set_update_subset [of ?n True "mb_Removed m"] by fastforce
  show "members_ok (changed cc i m)"
  proof (cases "int32_type (raw_Type cc)")
    case (Some t)
    then show ?thesis
      using assms(2) keys maps r unfolding members_ok_def changed_def change_ok_def Let_def
      by (cases t) (simp_all only: option.case config_change_type.case membership.simps gomap_keys_update gomap_keys_delete
          gomap_ok_update gomap_ok_delete, auto)
  qed (use ok in \<open>simp add: changed_def members_ok_def Let_def\<close>)
  show "gomap_keys (mb_Removed m) \<subseteq> gomap_keys (mb_Removed (changed cc i m))"
    unfolding changed_def Let_def
    by (cases "int32_type (raw_Type cc)"; cases "the (int32_type (raw_Type cc))")
      (simp_all only: option.case option.sel config_change_type.case membership.simps gomap_keys_update, auto)
qed

lemma spec_apply_members:
  "rp_members (spec_apply ops ordered e rp) =
     (if IsConfigChange e \<and> change_ok ordered (decoded e) (rp_members rp)
      then changed (decoded e) (e_Index e) (rp_members rp) else rp_members rp)"
  by (auto simp: spec_apply_def spec_entry_def spec_update_def Let_def split_def split: option.splits)

lemma fold_members:
  "members_ok (rp_members rp) \<Longrightarrow> members_ok (rp_members (fold (spec_apply ops ordered) es rp))
     \<and> gomap_keys (mb_Removed (rp_members rp)) \<subseteq> gomap_keys (mb_Removed (rp_members (fold (spec_apply ops ordered) es rp)))"
proof (induction es arbitrary: rp)
  case (Cons e es)
  have "members_ok (rp_members (spec_apply ops ordered e rp))"
      "gomap_keys (mb_Removed (rp_members rp)) \<subseteq> gomap_keys (mb_Removed (rp_members (spec_apply ops ordered e rp)))"
    using changed_ok [OF Cons.prems, of ordered "decoded e" "e_Index e"] Cons.prems
    by (cases "IsConfigChange e \<and> change_ok ordered (decoded e) (rp_members rp)"; simp add: spec_apply_members)+
  then show ?case using Cons.IH [of "spec_apply ops ordered e rp"] by auto
qed simp

lemma foldl_update_id:
  "distinct (map fst (c @ m)) \<Longrightarrow> foldl (\<lambda>c (nid, v). AList.update nid v c) c m = c @ m"
proof (induction m arbitrary: c)
  case (Cons kv m)
  obtain k v where kv: "kv = (k, v)" by (cases kv)
  have "AList.update k v c = c @ [(k, v)]" using Cons.prems kv by (intro update_new) auto
  then show ?case using Cons.IH [of "c @ [(k, v)]"] Cons.prems kv by simp
qed simp

lemma deepCopyMembership_id: "members_ok m \<Longrightarrow> deepCopyMembership m = m"
proof -
  assume ok: "members_ok m"
  have "foldl (\<lambda>c (nid, _). AList.update nid True c) c rm = foldl (\<lambda>c (nid, v). AList.update nid v c) c rm"
    if "\<forall>(nid, b)\<in>set rm. b" for c and rm :: "(u64, bool) gomap"
    using that by (induction rm arbitrary: c) auto
  then show ?thesis
    using ok foldl_update_id [of "[]" "mb_Addresses m"] foldl_update_id [of "[]" "mb_Observers m"] foldl_update_id [of "[]" "mb_Removed m"]
    by (simp add: deepCopyMembership_def members_ok_def)
qed

section \<open>Saving and recovering\<close>

text \<open>What the application promises: recovering reads exactly what was saved and restores the data, wherever the
  added files are now.\<close>

definition restores :: "'d user_sm \<Rightarrow> 'd \<Rightarrow> bool" where
  "restores ops d \<longleftrightarrow> (\<forall>bs sz files files' d'. us_SaveSnapshot ops d = Inr (bs, sz, files) \<longrightarrow>
     map (\<lambda>f. (smf_FileID f, smf_Metadata f)) files' = map (\<lambda>f. (smf_FileID f, smf_Metadata f)) files \<longrightarrow>
     us_RecoverFromSnapshot ops bs files' d' = (None, length bs, d))"

lemma sr_Read_zero: "sr_Read 0 (reader_at b p n) = Some (Inr ([], reader_at b p n))"
  by (simp add: sr_Read_def reader_at_def)

lemma sr_Read_upto:
  assumes "n \<le> m" and "m \<le> length p"
  shows "\<exists>bs. sr_Read (m - n) (reader_at b p n) = Some (Inr (bs, reader_at b p m))"
proof (cases "n = m")
  case False
  then show ?thesis using assms sr_Read_at [of n p "m - n" b] by simp
qed (simp add: sr_Read_zero)

lemma file_rest_reader_at [simp]: "file_rest (sr_file (reader_at b p n)) = drop n p"
  by (simp add: file_rest_def reader_at_def)

lemma nsm_save_spec:
  assumes "lru_holds (ns_sessions ds) xs" and "us_SaveSnapshot ops (ns_dataStore ds) = Inr (bs, sz, files)"
  shows "\<exists>rec sbs. lru_save (ns_sessions ds) = Some (sbs, rec) \<and> lru_holds rec xs \<and> lru_size rec = lru_size (ns_sessions ds)
    \<and> nsm_SaveSnapshot ops now ds = Some (Inr (sz + of_nat (length sbs) + of_nat SnapshotHeaderSize, files),
        header_block (header_for now (of_nat (length sbs)) sz (sbs @ bs)) @ sbs @ bs, ds\<lparr>ns_sessions := rec\<rparr>)"
proof -
  obtain rec sbs where s: "lru_save (ns_sessions ds) = Some (sbs, rec)" "lru_holds rec xs" "lru_size rec = lru_size (ns_sessions ds)"
    using save_spec [OF assms(1)] by metis
  obtain sw where w: "NewSnapshotWriter = Some sw" "written [] sw" using NewSnapshotWriter_written by blast
  have "written (sbs @ bs) (sw_Write bs (sw_Write sbs sw))"
    using sw_Write_written [OF sw_Write_written [OF w(2)]] by simp
  then obtain sw' where "sw_SaveHeader now (of_nat (length sbs)) sz (sw_Write bs (sw_Write sbs sw)) = Some sw'"
      "f_data (sw_file sw') = header_block (header_for now (of_nat (length sbs)) sz (sbs @ bs)) @ sbs @ bs"
    using sw_SaveHeader_written by blast
  then show ?thesis using s assms(2) unfolding nsm_SaveSnapshot_def w(1) s(1) by (simp add: Let_def)
qed

lemma nsm_recover_spec:
  assumes load: "lru_load (sbs @ bs) (ns_sessions ds) = Some (Inr (rec, bs))"
    and user: "us_RecoverFromSnapshot ops bs files (ns_dataStore ds) = (None, length bs, d)"
  shows "nsm_RecoverFromSnapshot ops (Some (header_block (header_for now smsz sz (sbs @ bs)) @ sbs @ bs)) files ds
    = Some (None, ds\<lparr>ns_sessions := rec, ns_dataStore := d\<rparr>)"
proof -
  let ?p = "sbs @ bs" let ?h = "header_for now smsz sz ?p" let ?b = "header_block ?h"
  have g: "sr_GetHeader (NewSnapshotReader (?b @ ?p)) = Some (Inr (?h, reader_at ?b ?p 0))"
    by (rule sr_GetHeader_saved [OF header_for_fits]) simp
  obtain x where r1: "sr_Read (length sbs) (reader_at ?b ?p 0) = Some (Inr (x, reader_at ?b ?p (length sbs)))"
    using sr_Read_upto [of 0 "length sbs" ?p ?b] by auto
  obtain y where r2: "sr_Read (length bs) (reader_at ?b ?p (length sbs)) = Some (Inr (y, reader_at ?b ?p (length ?p)))"
    using sr_Read_upto [of "length sbs" "length ?p" ?p ?b] by auto
  have v: "sr_ValidatePayload ?h (reader_at ?b ?p (length ?p)) = Some ()"
    by (simp add: sr_ValidatePayload_at slice_bytes_def del: length_append)
  show ?thesis
    using g r1 r2 v load user
    by (simp add: nsm_RecoverFromSnapshot_def nsm_recover_def sr_ValidateHeader_saved Let_def sr_Close_def del: length_append)
      (simp add: length_append)
qed

lemma asess_stored: "session_ok s \<Longrightarrow> asess (stored s) = asess s"
  by (simp add: asess_def session_ok_def map_of_stored)

definition sessions_fit :: "lrusession \<Rightarrow> bool" where
  "sessions_fit rec \<longleftrightarrow> (\<forall>xs. lru_holds rec xs \<longrightarrow> (\<forall>(k, s)\<in>set xs. fits s))"

text \<open>The snapshot of a state machine, as the snapshotter records it.\<close>

definition snapshot_of :: "'d rsm_state \<Rightarrow> sm_file list \<Rightarrow> snapshot \<Rightarrow> bool" where
  "snapshot_of s files ss \<longleftrightarrow> ss_Index ss = sm_lastApplied s \<and> ss_Term ss = sm_lastAppliedTerm s
     \<and> ss_Membership ss = deepCopyMembership (sm_members s)
     \<and> map (\<lambda>f. (smf_FileID f, smf_Metadata f)) (getSnapshotFiles ss) = map (\<lambda>f. (smf_FileID f, smf_Metadata f)) files"

lemma recoverSnapshot_rep:
  assumes rep: "represents s rp" and fit: "sessions_fit (ns_sessions (sm_sm s))" and m: "members_ok (sm_members s)"
    and user: "restores ops (ns_dataStore (sm_sm s))"
    and save: "nsm_SaveSnapshot ops now (sm_sm s) = Some (Inr (sz, files), content, sm')"
    and ss: "snapshot_of s files ss" "is_file sn (ss_Index ss) = Some content"
    and t: "sm_lastApplied t < ss_Index ss" "\<not> sm_aborted t"
  shows "\<exists>t'. recoverSnapshot ops sn ss t = Some ((True, 0, None), t') \<and> represents t' rp \<and> same_frame t t'"
    and "represents (s\<lparr>sm_sm := sm'\<rparr>) rp"
proof -
  obtain xs where x: "lru_holds (ns_sessions (sm_sm s)) xs" "lru_size (ns_sessions (sm_sm s)) = rp_capacity rp"
      "rp_sessions rp = abs_sessions xs"
    using rep by (auto simp: represents_def sess_rep_def)
  obtain bs sz' where u: "us_SaveSnapshot ops (ns_dataStore (sm_sm s)) = Inr (bs, sz', files)"
    using save by (auto simp: nsm_SaveSnapshot_def Let_def split: Option.bind_splits sum.splits)
  obtain rec sbs where sv: "lru_save (ns_sessions (sm_sm s)) = Some (sbs, rec)" "lru_holds rec xs"
      "lru_size rec = lru_size (ns_sessions (sm_sm s))"
      "content = header_block (header_for now (of_nat (length sbs)) sz' (sbs @ bs)) @ sbs @ bs" "sm' = (sm_sm s)\<lparr>ns_sessions := rec\<rparr>"
    using nsm_save_spec [OF x(1) u, of now] save by auto
  show "represents (s\<lparr>sm_sm := sm'\<rparr>) rp"
    using rep sv x by (auto simp: represents_def sess_rep_def)
  have "\<forall>(k, s)\<in>set xs. fits s" using fit x(1) by (simp add: sessions_fit_def)
  moreover have "sbs = PutUint64 (lru_size (ns_sessions (sm_sm s))) @ PutUint64 (of_nat (length xs))
      @ concat (map session_save (map snd (rev xs)))"
    by (rule save_spec [OF x(1)]) (use sv(1) in simp)
  ultimately obtain rec2 where l: "lru_load (sbs @ bs) (ns_sessions (sm_sm t)) = Some (Inr (rec2, bs))"
      "lru_holds rec2 (map (\<lambda>(k, s). (k, stored s)) xs)" "lru_size rec2 = lru_size (ns_sessions (sm_sm s))"
    using load_spec [OF x(1), of bs "ns_sessions (sm_sm t)"] by auto
  have "abs_sessions (map (\<lambda>(k, s). (k, stored s)) xs) = abs_sessions xs"
    using x(1) by (auto simp: lru_holds_def asess_stored)
  then have r2: "sess_rep rec2 (rp_capacity rp) (rp_sessions rp)"
    using l x unfolding sess_rep_def by metis
  have "us_RecoverFromSnapshot ops bs (getSnapshotFiles ss) (ns_dataStore (sm_sm t)) = (None, length bs, ns_dataStore (sm_sm s))"
    using user u ss(1) unfolding restores_def snapshot_of_def by blast
  from nsm_recover_spec [OF l(1) this, of now "of_nat (length sbs)" sz'] sv(4)
  have "nsm_RecoverFromSnapshot ops (Some content) (getSnapshotFiles ss) (sm_sm t)
      = Some (None, (sm_sm t)\<lparr>ns_sessions := rec2, ns_dataStore := ns_dataStore (sm_sm s)\<rparr>)" by simp
  then show "\<exists>t'. recoverSnapshot ops sn ss t = Some ((True, 0, None), t') \<and> represents t' rp \<and> same_frame t t'"
    using ss t rep r2 deepCopyMembership_id [OF m]
    by (simp add: recoverSnapshot_def Let_def represents_def snapshot_of_def same_frame_def not_le [symmetric])
qed

end
