(* ===== verification/ManagedSpec.thy ===== *)
theory ManagedSpec
  imports ManagedSM
begin

text \<open>
  When the application's store is closed. A run is a sequence of notifications that a component has loaded or
  offloaded the store.
\<close>

datatype sm_event = Load From | Offload From

definition sm_step :: "'d user_sm \<Rightarrow> sm_event \<Rightarrow> 'd native_sm \<Rightarrow> 'd native_sm option" where
  "sm_step ops ev ds = (case ev of Load f \<Rightarrow> nsm_Loaded f ds | Offload f \<Rightarrow> Some (nsm_Offloaded ops f ds))"

text \<open>The node host has let go, and so has every worker that had loaded the store.\<close>

definition all_gone :: "sm_event list \<Rightarrow> bool" where
  "all_gone evs \<longleftrightarrow> Offload FromNodeHost \<in> set evs
     \<and> (\<forall>w \<in> {FromStepWorker, FromCommitWorker, FromSnapshotWorker}. Load w \<in> set evs \<longrightarrow> Offload w \<in> set evs)"

abbreviation gone :: "sm_event list \<Rightarrow> From \<Rightarrow> bool" where
  "gone evs w \<equiv> Offload w \<in> set evs \<or> Offload FromNodeHost \<in> set evs \<and> Load w \<notin> set evs"

definition status_inv :: "sm_event list \<Rightarrow> offloaded_status \<Rightarrow> bool" where
  "status_inv evs st \<longleftrightarrow> (os_offloadedFromNodeHost st \<longleftrightarrow> Offload FromNodeHost \<in> set evs)
     \<and> (os_loadedByStepWorker st \<longleftrightarrow> Load FromStepWorker \<in> set evs)
     \<and> (os_loadedByCommitWorker st \<longleftrightarrow> Load FromCommitWorker \<in> set evs)
     \<and> (os_loadedBySnapshotWorker st \<longleftrightarrow> Load FromSnapshotWorker \<in> set evs)
     \<and> (os_offloadedFromStepWorker st \<longleftrightarrow> gone evs FromStepWorker)
     \<and> (os_offloadedFromCommitWorker st \<longleftrightarrow> gone evs FromCommitWorker)
     \<and> (os_offloadedFromSnapshotWorker st \<longleftrightarrow> gone evs FromSnapshotWorker)
     \<and> (os_readyToDestroy st \<longleftrightarrow> all_gone evs) \<and> (os_destroyed st \<longleftrightarrow> all_gone evs)"

lemma all_gone_iff:
  "all_gone evs \<longleftrightarrow> Offload FromNodeHost \<in> set evs \<and> gone evs FromStepWorker \<and> gone evs FromCommitWorker \<and> gone evs FromSnapshotWorker"
  by (auto simp: all_gone_def)

lemma status_invD:
  assumes "status_inv evs st"
  shows "os_offloadedFromNodeHost st \<longleftrightarrow> Offload FromNodeHost \<in> set evs"
    "os_loadedByStepWorker st \<longleftrightarrow> Load FromStepWorker \<in> set evs"
    "os_loadedByCommitWorker st \<longleftrightarrow> Load FromCommitWorker \<in> set evs"
    "os_loadedBySnapshotWorker st \<longleftrightarrow> Load FromSnapshotWorker \<in> set evs"
    "os_offloadedFromStepWorker st \<longleftrightarrow> gone evs FromStepWorker"
    "os_offloadedFromCommitWorker st \<longleftrightarrow> gone evs FromCommitWorker"
    "os_offloadedFromSnapshotWorker st \<longleftrightarrow> gone evs FromSnapshotWorker"
    "os_readyToDestroy st \<longleftrightarrow> all_gone evs" "os_destroyed st \<longleftrightarrow> all_gone evs"
  using assms by (simp_all only: status_inv_def)

lemma SetLoaded_inv:
  assumes "status_inv evs st" and "SetLoaded f st = Some st'"
  shows "status_inv (evs @ [Load f]) st' \<and> all_gone (evs @ [Load f]) = all_gone evs"
proof -
  have f: "f \<noteq> FromNodeHost" "\<not> os_offloadedFromNodeHost st"
    using assms(2) by (cases f; auto simp: SetLoaded_def split: if_splits)+
  then have n: "Offload FromNodeHost \<notin> set evs" using assms(1) by (simp add: status_inv_def)
  show ?thesis
    using assms f n by (cases f) (clarsimp simp: status_inv_def SetLoaded_def all_gone_iff)+
qed

lemma SetOffloaded_fields:
  "os_offloadedFromNodeHost (SetOffloaded f st) \<longleftrightarrow> f = FromNodeHost \<or> os_offloadedFromNodeHost st"
  "os_loadedByStepWorker (SetOffloaded f st) = os_loadedByStepWorker st"
  "os_loadedByCommitWorker (SetOffloaded f st) = os_loadedByCommitWorker st"
  "os_loadedBySnapshotWorker (SetOffloaded f st) = os_loadedBySnapshotWorker st"
  "os_offloadedFromStepWorker (SetOffloaded f st)
     \<longleftrightarrow> f = FromStepWorker \<or> os_offloadedFromStepWorker st \<or> f = FromNodeHost \<and> \<not> os_loadedByStepWorker st"
  "os_offloadedFromCommitWorker (SetOffloaded f st)
     \<longleftrightarrow> f = FromCommitWorker \<or> os_offloadedFromCommitWorker st \<or> f = FromNodeHost \<and> \<not> os_loadedByCommitWorker st"
  "os_offloadedFromSnapshotWorker (SetOffloaded f st)
     \<longleftrightarrow> f = FromSnapshotWorker \<or> os_offloadedFromSnapshotWorker st \<or> f = FromNodeHost \<and> \<not> os_loadedBySnapshotWorker st"
  "os_destroyed (SetOffloaded f st) = os_destroyed st"
  by (cases f; simp add: SetOffloaded_def Let_def)+

lemma SetOffloaded_ready:
  "os_readyToDestroy (SetOffloaded f st) \<longleftrightarrow> os_readyToDestroy st
     \<or> os_offloadedFromNodeHost (SetOffloaded f st) \<and> os_offloadedFromCommitWorker (SetOffloaded f st)
       \<and> os_offloadedFromSnapshotWorker (SetOffloaded f st) \<and> os_offloadedFromStepWorker (SetOffloaded f st)"
  by (cases f; simp add: SetOffloaded_def Let_def; blast)

lemma nsm_Offloaded_inv:
  assumes "status_inv evs (ns_status ds)"
  shows "status_inv (evs @ [Offload f]) (ns_status (nsm_Offloaded ops f ds))"
    and "ns_dataStore (nsm_Offloaded ops f ds)
      = (if all_gone (evs @ [Offload f]) \<and> \<not> all_gone evs then us_Close ops (ns_dataStore ds) else ns_dataStore ds)"
proof -
  let ?st = "SetOffloaded f (ns_status ds)"
  note a = status_invD [OF assms]
  have st: "os_offloadedFromNodeHost ?st \<longleftrightarrow> Offload FromNodeHost \<in> set (evs @ [Offload f])"
    "os_loadedByStepWorker ?st \<longleftrightarrow> Load FromStepWorker \<in> set (evs @ [Offload f])"
    "os_loadedByCommitWorker ?st \<longleftrightarrow> Load FromCommitWorker \<in> set (evs @ [Offload f])"
    "os_loadedBySnapshotWorker ?st \<longleftrightarrow> Load FromSnapshotWorker \<in> set (evs @ [Offload f])"
    "os_offloadedFromStepWorker ?st \<longleftrightarrow> gone (evs @ [Offload f]) FromStepWorker"
    "os_offloadedFromCommitWorker ?st \<longleftrightarrow> gone (evs @ [Offload f]) FromCommitWorker"
    "os_offloadedFromSnapshotWorker ?st \<longleftrightarrow> gone (evs @ [Offload f]) FromSnapshotWorker"
    unfolding SetOffloaded_fields a by auto
  then have "os_readyToDestroy ?st \<longleftrightarrow> all_gone evs \<or> all_gone (evs @ [Offload f])"
    unfolding SetOffloaded_ready all_gone_iff [of "evs @ [Offload f]"] a by blast
  have mono: "all_gone evs \<Longrightarrow> all_gone (evs @ [Offload f])" by (auto simp: all_gone_def)
  then have ready: "os_readyToDestroy ?st \<longleftrightarrow> all_gone (evs @ [Offload f])" "os_destroyed ?st \<longleftrightarrow> all_gone evs"
    using \<open>os_readyToDestroy ?st \<longleftrightarrow> _\<close> by (auto simp: SetOffloaded_fields(8) a)
  show "status_inv (evs @ [Offload f]) (ns_status (nsm_Offloaded ops f ds))"
    using st ready mono unfolding status_inv_def
    by (simp add: nsm_Offloaded_def ReadyToDestroy_def Destroyed_def SetDestroyed_def nsm_closeStateMachine_def Let_def) blast
  show "ns_dataStore (nsm_Offloaded ops f ds)
      = (if all_gone (evs @ [Offload f]) \<and> \<not> all_gone evs then us_Close ops (ns_dataStore ds) else ns_dataStore ds)"
    using ready by (simp add: nsm_Offloaded_def ReadyToDestroy_def Destroyed_def nsm_closeStateMachine_def Let_def)
qed

lemma go_fold_append: "go_fold f (xs @ ys) s = do { s \<leftarrow> go_fold f xs s; go_fold f ys s }"
  by (induction xs arbitrary: s) (simp_all split: Option.bind_split)

lemma run_inv:
  assumes "NewNativeStateMachine d = Some ds0" and "go_fold (sm_step ops) evs ds0 = Some ds"
  shows "status_inv evs (ns_status ds) \<and> ns_dataStore ds = (if all_gone evs then us_Close ops d else d)"
  using assms(2)
proof (induction evs arbitrary: ds rule: rev_induct)
  case Nil
  then show ?case
    using assms(1) by (auto simp: NewNativeStateMachine_def status_inv_def new_status_def all_gone_def split: Option.bind_splits)
next
  case (snoc ev evs)
  obtain ds1 where d1: "go_fold (sm_step ops) evs ds0 = Some ds1" "sm_step ops ev ds1 = Some ds"
    using snoc.prems by (auto simp: go_fold_append split: Option.bind_splits)
  note IH = snoc.IH [OF d1(1)]
  show ?case
  proof (cases ev)
    case (Load f)
    then obtain st where "SetLoaded f (ns_status ds1) = Some st" "ds = ds1\<lparr>ns_status := st\<rparr>"
      using d1(2) by (auto simp: sm_step_def nsm_Loaded_def split: Option.bind_splits)
    then show ?thesis using SetLoaded_inv [of evs "ns_status ds1" f st] IH Load by simp
  next
    case (Offload f)
    then have "ds = nsm_Offloaded ops f ds1" using d1(2) by (simp add: sm_step_def)
    moreover have "all_gone evs \<Longrightarrow> all_gone (evs @ [Offload f])" by (auto simp: all_gone_def)
    ultimately show ?thesis using nsm_Offloaded_inv [where evs = evs and ds = ds1 and f = f and ops = ops] IH Offload by auto
  qed
qed

end
