(* ===== verification/RSMProps.thy ===== *)
theory RSMProps
  imports RSMSnapshot ManagedSpec SessProps
begin

text \<open>
  The properties of the replicated state machine and of snapshot files, and a sample state machine, a counter,
  on which the witnesses evaluate them.
\<close>

section \<open>A sample\<close>

text \<open>The counter adds the length of the command.\<close>

definition demo_ops :: "u64 user_sm" where
  "demo_ops = \<lparr>us_Update = (\<lambda>cmd d. (d + of_nat (length cmd), d + of_nat (length cmd))), us_Lookup = (\<lambda>q d. PutUint64 d),
     us_GetHash = (\<lambda>d. d), us_SaveSnapshot = (\<lambda>d. Inr (PutUint64 d, 8, [])),
     us_RecoverFromSnapshot = (\<lambda>bs files d. (None, length bs, get_le bs)), us_Close = (\<lambda>d. 0)\<rparr>"

definition demo_members :: membership where
  "demo_members = \<lparr>mb_ConfigChangeId = 4, mb_Addresses = [(1, ''a1''), (2, ''a2'')], mb_Removed = [(3, True)], mb_Observers = []\<rparr>"

definition demo_rsm :: "lrusession \<Rightarrow> commit_rec list \<Rightarrow> u64 rsm_state" where
  "demo_rsm rec batch =
     \<lparr>sm_sm = \<lparr>ns_dataStore = 100, ns_status = new_status, ns_sessions = rec\<rparr>, sm_lastApplied = 10, sm_lastAppliedTerm = 2,
      sm_lastSnapshotIndex = 0, sm_members = demo_members, sm_ordered = False, sm_commitC = batch, sm_aborted = False,
      sm_batchedLastApplied = 10, sm_calls = []\<rparr>"

definition demo_replica :: "u64 replica" where
  "demo_replica = \<lparr>rp_sessions = abs_sessions demo_sessions, rp_capacity = 2, rp_store = 100, rp_members = demo_members,
     rp_index = 10, rp_term = 2\<rparr>"

text \<open>A new update of client 7, the same update again, and one of client 9 that was answered before.\<close>

definition demo_entries :: "entry list" where
  "demo_entries =
     [empty_entry\<lparr>e_Term := 2, e_Index := 11, e_ClientID := 7, e_SeriesID := 1, e_Cmd := [5, 6]\<rparr>,
      empty_entry\<lparr>e_Term := 2, e_Index := 12, e_ClientID := 7, e_SeriesID := 1, e_Cmd := [5, 6]\<rparr>,
      empty_entry\<lparr>e_Term := 3, e_Index := 13, e_ClientID := 9, e_SeriesID := 12, e_RespondedTo := 3, e_Cmd := [1]\<rparr>]"

definition demo_commit :: commit_rec where
  "demo_commit = empty_commit\<lparr>cm_Entries := demo_entries\<rparr>"

lemma demo_represents: "lru_holds rec demo_sessions \<Longrightarrow> lru_size rec = 2 \<Longrightarrow> represents (demo_rsm rec batch) demo_replica"
  by (auto simp: represents_def demo_rsm_def demo_replica_def sess_rep_def)

lemma demo_entries_ok: "entries_ok 10 2 demo_entries"
  by (simp add: demo_entries_def entry_ok_def IsConfigChange_def IsSessionManaged_def NotSessionManagedClientID_def)

lemma demo_store_after: "rp_store (fold (spec_apply demo_ops False) demo_entries demo_replica) = 102"
  by (simp add: spec_apply_def spec_entry_def spec_update_def demo_entries_def demo_replica_def demo_ops_def demo_sessions_def
      IsConfigChange_def IsSessionManaged_def IsNewSessionRequest_def IsEndOfSessionRequest_def IsNoOPSession_def NoOPSeriesID_def
      NotSessionManagedClientID_def acked_def asess_def newSession_def remove_key_def Let_def)

lemma demo_rec: obtains rec where "lru_holds rec demo_sessions" "lru_size rec = 2"
  using demo_store by blast

lemma demo_fits: "\<forall>(k, s)\<in>set demo_sessions. fits s"
proof -
  have "\<forall>(k, s)\<in>set demo_sessions. length (json_Marshal s) \<le> 60" by code_simp
  then show ?thesis by (auto simp: fits_def)
qed

lemma lru_unique: "lru_holds rec xs \<Longrightarrow> lru_holds rec ys \<Longrightarrow> xs = ys"
proof -
  assume h: "lru_holds rec xs" "lru_holds rec ys"
  have "bc_OrderedDo (lru_sessions rec) = Some (rev xs)" "bc_OrderedDo (lru_sessions rec) = Some (rev ys)"
    using h by (auto intro!: oc.OrderedDo_spec simp: lru_holds_def)
  then show ?thesis by simp
qed

lemma fold_capacity: "rp_capacity (fold (spec_apply ops ordered) es rp) = rp_capacity rp"
proof (induction es arbitrary: rp)
  case (Cons e es)
  have "rp_capacity (spec_apply ops ordered e rp) = rp_capacity rp"
    by (auto simp: spec_apply_def spec_entry_def spec_update_def Let_def split_def split: option.splits)
  then show ?case using Cons by simp
qed simp

section \<open>Applying entries\<close>

text \<open>
  C7. The state machine implements the replica. \<open>Handle\<close> takes the records up to the first one about a snapshot from
  the queue and applies their entries: when the entries continue the log and are well formed it does not panic, the state afterwards is the one
  that applying the entries one after the other to the replica gives, with the same sessions, data and membership, and the
  node is told exactly the results that the replica computes, in order.
\<close>

theorem rsm_refines:
  assumes rep: "represents s rp"
    and batch: "batch = takeWhile (\<lambda>rec. \<not> is_snapshot_rec rec) (sm_commitC s)"
    and ok: "entries_ok (rp_index rp) (rp_term rp) (batch_entries batch)"
  shows "\<exists>res s'. rsm_Handle ops batched s = Some (res, s')
    \<and> represents s' (fold (spec_apply ops (sm_ordered s)) (batch_entries batch) rp)
    \<and> sm_calls s' = sm_calls s @ batch_calls ops (sm_ordered s) batched batch rp
    \<and> (case dropWhile (\<lambda>rec. \<not> is_snapshot_rec rec) (sm_commitC s) of
         [] \<Rightarrow> res = (empty_commit, False) \<and> sm_commitC s' = []
       | rec # rest \<Rightarrow> res = (rec, True) \<and> sm_commitC s' = rest)"
proof -
  have no: "\<forall>rec\<in>set batch. \<not> is_snapshot_rec rec" unfolding batch by (auto dest: set_takeWhileD)
  have r: "represents (s\<lparr>sm_commitC := q\<rparr>) rp" for q using rep by (simp add: represents_def)
  have h: "\<exists>s'. rsm_handle ops batched batch (s\<lparr>sm_commitC := q\<rparr>) = Some s'
      \<and> represents s' (fold (spec_apply ops (sm_ordered s)) (batch_entries batch) rp)
      \<and> sm_calls s' = sm_calls s @ batch_calls ops (sm_ordered s) batched batch rp \<and> sm_commitC s' = q" for q
    using rsm_handle_rep [OF r ok no, of ops batched q] by (auto simp: same_frame_def)
  show ?thesis
  proof (cases "dropWhile (\<lambda>rec. \<not> is_snapshot_rec rec) (sm_commitC s)")
    case Nil
    show ?thesis unfolding rsm_Handle_def Let_def batch [symmetric] Nil list.case using h [of "[]"] by auto
  next
    case (Cons rec rest)
    show ?thesis unfolding rsm_Handle_def Let_def batch [symmetric] Cons list.case using h [of rest] by auto
  qed
qed

theorem rsm_refines_witness:
  "\<exists>rec s'. lru_holds rec demo_sessions
    \<and> rsm_Handle demo_ops True (demo_rsm rec [demo_commit, empty_commit\<lparr>cm_SnapshotRequested := True\<rparr>])
        = Some ((empty_commit\<lparr>cm_SnapshotRequested := True\<rparr>, True), s')
    \<and> ns_dataStore (sm_sm s') = 102 \<and> sm_commitC s' = []"
proof -
  obtain rec where rec: "lru_holds rec demo_sessions" "lru_size rec = 2" by (rule demo_rec)
  let ?q = "[demo_commit, empty_commit\<lparr>cm_SnapshotRequested := True\<rparr>]" and ?p = "\<lambda>rec. \<not> is_snapshot_rec rec"
  have q: "takeWhile ?p ?q = [demo_commit]" "dropWhile ?p ?q = [empty_commit\<lparr>cm_SnapshotRequested := True\<rparr>]"
    by (simp_all add: is_snapshot_rec_def demo_commit_def empty_commit_def)
  have 1: "[demo_commit] = takeWhile ?p (sm_commitC (demo_rsm rec ?q))" using q by (simp add: demo_rsm_def)
  have 2: "entries_ok (rp_index demo_replica) (rp_term demo_replica) (batch_entries [demo_commit])"
    using demo_entries_ok by (simp add: demo_replica_def demo_commit_def)
  have c: "sm_commitC (demo_rsm rec ?q) = ?q" "sm_ordered (demo_rsm rec ?q) = False" by (simp_all add: demo_rsm_def)
  show ?thesis
    using rsm_refines [OF demo_represents [OF rec] 1 2, of demo_ops True] rec(1) demo_store_after
    unfolding c q by (auto simp: represents_def demo_commit_def)
qed





section \<open>Membership\<close>

lemma members_ok_removed:
  assumes "members_ok m" and "nid \<in> gomap_keys (mb_Removed m)"
  shows "map_of (mb_Addresses m) nid = None \<and> map_of (mb_Observers m) nid = None"
proof -
  have "gomap_keys (mb_Addresses m) \<inter> gomap_keys (mb_Removed m) = {}" "gomap_keys (mb_Observers m) \<inter> gomap_keys (mb_Removed m) = {}"
    using assms(1) by (simp_all add: members_ok_def)
  then show ?thesis unfolding map_of_eq_None_iff using assms(2) by blast
qed

text \<open>
  C35. Config changes keep the membership consistent. No node is at the same time a member, an observer or a removed
  node; a removed node stays removed, so it never becomes a member or an observer again, whatever is proposed.
\<close>

theorem membership_consistent:
  assumes rep: "represents s rp" and ok: "entries_ok (rp_index rp) (rp_term rp) (batch_entries batch)"
    and no: "\<forall>rec\<in>set batch. \<not> is_snapshot_rec rec" and m: "members_ok (sm_members s)"
  shows "\<exists>s'. rsm_handle ops batched batch s = Some s' \<and> members_ok (sm_members s')
    \<and> (\<forall>nid\<in>gomap_keys (mb_Removed (sm_members s)).
         map_of (mb_Addresses (sm_members s')) nid = None \<and> map_of (mb_Observers (sm_members s')) nid = None)"
proof -
  obtain s' where s': "rsm_handle ops batched batch s = Some s'"
      "represents s' (fold (spec_apply ops (sm_ordered s)) (batch_entries batch) rp)"
    using rsm_handle_rep [OF rep ok no] by blast
  have "members_ok (rp_members rp)" using rep m by (simp add: represents_def)
  then have f: "members_ok (sm_members s')" "gomap_keys (mb_Removed (sm_members s)) \<subseteq> gomap_keys (mb_Removed (sm_members s'))"
    using fold_members [of rp ops "sm_ordered s" "batch_entries batch"] s'(2) rep by (simp_all add: represents_def)
  have "\<forall>nid\<in>gomap_keys (mb_Removed (sm_members s)).
      map_of (mb_Addresses (sm_members s')) nid = None \<and> map_of (mb_Observers (sm_members s')) nid = None"
    by (rule ballI, rule members_ok_removed [OF f(1)], rule subsetD [OF f(2)])
  then show ?thesis by (intro exI [of _ s'] conjI s'(1) f(1))
qed

definition demo_cc :: config_change where
  "demo_cc = \<lparr>cc_ConfigChangeId = 4, cc_Type = AddNode, cc_NodeID = 3, cc_Address = ''a3'', cc_Initialize = False\<rparr>"

definition demo_cc_entry :: entry where
  "demo_cc_entry = empty_entry\<lparr>e_Term := 2, e_Index := 11, e_Type := ConfigChangeEntry, e_Key := 9, e_Cmd := ConfigChange_MarshalTo demo_cc\<rparr>"

lemma demo_cc_decoded: "ConfigChange_Unmarshal (e_Cmd demo_cc_entry) = Some (Inr (cc_record demo_cc))"
proof -
  have "length (ConfigChange_MarshalTo demo_cc) = 12" by code_simp
  then show ?thesis using Unmarshal_MarshalTo [of demo_cc] by (simp add: demo_cc_entry_def)
qed

text \<open>The removed node 3 is proposed again.\<close>

theorem membership_consistent_witness:
  "\<exists>rec s'. lru_holds rec demo_sessions
    \<and> rsm_handle demo_ops False [empty_commit\<lparr>cm_Entries := [demo_cc_entry]\<rparr>] (demo_rsm rec []) = Some s'
    \<and> members_ok (sm_members s') \<and> map_of (mb_Addresses (sm_members s')) 3 = None"
proof -
  obtain rec where rec: "lru_holds rec demo_sessions" "lru_size rec = 2" by (rule demo_rec)
  let ?b = "[empty_commit\<lparr>cm_Entries := [demo_cc_entry]\<rparr>]"
  have "entry_ok 10 2 demo_cc_entry"
    using demo_cc_decoded by (simp add: entry_ok_def)
      (simp add: demo_cc_entry_def IsConfigChange_def cc_record_def demo_cc_def int32_type_def ConfigChangeType_value_def)
  then have 1: "entries_ok (rp_index demo_replica) (rp_term demo_replica) (batch_entries ?b)" by (simp add: demo_replica_def)
  have 2: "\<forall>rec\<in>set ?b. \<not> is_snapshot_rec rec" by (simp add: is_snapshot_rec_def empty_commit_def)
  have 3: "members_ok (sm_members (demo_rsm rec []))" by (simp add: demo_rsm_def demo_members_def members_ok_def)
  have "3 \<in> gomap_keys (mb_Removed (sm_members (demo_rsm rec [])))" by (simp add: demo_rsm_def demo_members_def)
  then show ?thesis
    using membership_consistent [OF demo_represents [OF rec] 1 2 3, of demo_ops False] rec(1) by blast
qed

text \<open>Two members may share an address: an observer may be added at the address of a member and then be promoted.\<close>

lemma shared_address:
  fixes m :: membership
  defines "m \<equiv> empty_membership\<lparr>mb_Addresses := [(1, ''a1'')]\<rparr>"
    and "cc1 \<equiv> \<lparr>raw_ConfigChangeId = 0, raw_Type = 2, raw_NodeID = 2, raw_Address = ''a1'', raw_Initialize = False\<rparr>"
    and "cc2 \<equiv> \<lparr>raw_ConfigChangeId = 0, raw_Type = 0, raw_NodeID = 2, raw_Address = ''b2'', raw_Initialize = False\<rparr>"
  shows "change_ok False cc1 m \<and> change_ok False cc2 (changed cc1 5 m)
    \<and> mb_Addresses (changed cc2 6 (changed cc1 5 m)) = [(1, ''a1''), (2, ''a1'')]"
  by (simp add: m_def cc1_def cc2_def change_ok_def changed_def int32_type_def empty_membership_def addressEqual_def TrimSpace_def
      is_space_def lower_char_def Let_def)

section \<open>Snapshots\<close>

text \<open>
  C9. Recovering from a snapshot is as good as applying the log. If one replica saves a snapshot, and another one recovers from
  the file and the recorded membership, then both go on alike: after the same further entries, in whatever batches and with either way of
  applying them, they hold the same data, the same membership, the same position in the log and the same client sessions, in the same order of use.
  The application promises that recovering restores what it saved (\<open>restores\<close>).
\<close>

theorem snapshot_transparent:
  assumes rep: "represents s rp" and fit: "sessions_fit (ns_sessions (sm_sm s))" and m: "members_ok (sm_members s)"
    and user: "restores ops (ns_dataStore (sm_sm s))"
    and save: "nsm_SaveSnapshot ops now (sm_sm s) = Some (Inr (sz, files), content, sm')"
    and ss: "snapshot_of s files ss" "is_file sn (ss_Index ss) = Some content"
    and t: "sm_lastApplied t < ss_Index ss" "\<not> sm_aborted t" "sm_ordered t = sm_ordered s"
    and ok: "entries_ok (rp_index rp) (rp_term rp) (batch_entries batch1)" "batch_entries batch2 = batch_entries batch1"
    and no: "\<forall>rec\<in>set (batch1 @ batch2). \<not> is_snapshot_rec rec"
  shows "\<exists>t' s2 t2 ax. recoverSnapshot ops sn ss t = Some ((True, 0, None), t')
    \<and> rsm_handle ops b1 batch1 (s\<lparr>sm_sm := sm'\<rparr>) = Some s2 \<and> rsm_handle ops b2 batch2 t' = Some t2
    \<and> ns_dataStore (sm_sm t2) = ns_dataStore (sm_sm s2) \<and> sm_members t2 = sm_members s2
    \<and> sm_lastApplied t2 = sm_lastApplied s2
    \<and> sess_rep (ns_sessions (sm_sm s2)) (rp_capacity rp) ax \<and> sess_rep (ns_sessions (sm_sm t2)) (rp_capacity rp) ax"
proof -
  note r = recoverSnapshot_rep [OF rep fit m user save ss t(1,2)]
  obtain t' where t': "recoverSnapshot ops sn ss t = Some ((True, 0, None), t')" "represents t' rp" "same_frame t t'"
    using r(1) by blast
  let ?rp = "fold (spec_apply ops (sm_ordered s)) (batch_entries batch1) rp"
  have n: "\<forall>rec\<in>set batch1. \<not> is_snapshot_rec rec" "\<forall>rec\<in>set batch2. \<not> is_snapshot_rec rec" using no by simp_all
  obtain s2 where s2: "rsm_handle ops b1 batch1 (s\<lparr>sm_sm := sm'\<rparr>) = Some s2" "represents s2 ?rp"
    using rsm_handle_rep [OF r(2) ok(1) n(1), of ops b1] by auto
  have "sm_ordered t' = sm_ordered s" using t'(3) t(3) by (simp add: same_frame_def)
  then obtain t2 where t2: "rsm_handle ops b2 batch2 t' = Some t2" "represents t2 ?rp"
    using rsm_handle_rep [OF t'(2) _ n(2), of ops b2] ok by auto
  have cap: "rp_capacity ?rp = rp_capacity rp" by (rule fold_capacity)
  show ?thesis
    using t'(1) s2 t2 cap unfolding represents_def
    by (intro exI [of _ t'] exI [of _ s2] exI [of _ t2] exI [of _ "rp_sessions ?rp"]) simp
qed

definition demo_snapshotter :: "byte list \<Rightarrow> u64 isnapshotter" where
  "demo_snapshotter content = \<lparr>is_GetSnapshot = (\<lambda>i. Inl ErrNoSnapshot), is_GetMostRecentSnapshot = Inl ErrNoSnapshot,
     is_file = (\<lambda>i. if i = 10 then Some content else None), is_stat = (\<lambda>p. None), is_Save = (\<lambda>i t sm. None)\<rparr>"

definition demo_snapshot :: snapshot where
  "demo_snapshot = empty_snapshot\<lparr>ss_Index := 10, ss_Term := 2, ss_Membership := deepCopyMembership demo_members\<rparr>"

lemma demo_restores: "restores demo_ops d"
  by (simp add: restores_def demo_ops_def)

theorem snapshot_transparent_witness:
  "\<exists>rec sz content sm' t' s2 t2. lru_holds rec demo_sessions
    \<and> nsm_SaveSnapshot demo_ops 77 (sm_sm (demo_rsm rec [])) = Some (Inr (sz, []), content, sm')
    \<and> recoverSnapshot demo_ops (demo_snapshotter content) demo_snapshot ((demo_rsm rec [])\<lparr>sm_lastApplied := 3\<rparr>)
        = Some ((True, 0, None), t')
    \<and> rsm_handle demo_ops False [demo_commit] ((demo_rsm rec [])\<lparr>sm_sm := sm'\<rparr>) = Some s2
    \<and> rsm_handle demo_ops True [demo_commit] t' = Some t2 \<and> ns_dataStore (sm_sm t2) = ns_dataStore (sm_sm s2)"
proof -
  obtain rec where rec: "lru_holds rec demo_sessions" "lru_size rec = 2" by (rule demo_rec)
  let ?s = "demo_rsm rec []"
  have h: "lru_holds (ns_sessions (sm_sm ?s)) demo_sessions" "us_SaveSnapshot demo_ops (ns_dataStore (sm_sm ?s)) = Inr (PutUint64 100, 8, [])"
    using rec(1) by (simp_all add: demo_rsm_def demo_ops_def)
  obtain sz content sm' where save: "nsm_SaveSnapshot demo_ops 77 (sm_sm ?s) = Some (Inr (sz, []), content, sm')"
    using nsm_save_spec [OF h, of 77] by blast
  have fit: "sessions_fit (ns_sessions (sm_sm ?s))"
    using rec(1) demo_fits lru_unique by (auto simp: sessions_fit_def demo_rsm_def)
  have m: "members_ok (sm_members ?s)" by (simp add: demo_rsm_def demo_members_def members_ok_def)
  have ss: "snapshot_of ?s [] demo_snapshot" "is_file (demo_snapshotter content) (ss_Index demo_snapshot) = Some content"
    by (simp_all add: snapshot_of_def demo_snapshot_def demo_rsm_def getSnapshotFiles_def empty_snapshot_def demo_snapshotter_def)
  have t: "sm_lastApplied (?s\<lparr>sm_lastApplied := 3\<rparr>) < ss_Index demo_snapshot" "\<not> sm_aborted (?s\<lparr>sm_lastApplied := 3\<rparr>)"
      "sm_ordered (?s\<lparr>sm_lastApplied := 3\<rparr>) = sm_ordered ?s"
    by (simp_all add: demo_rsm_def demo_snapshot_def)
  have ok: "entries_ok (rp_index demo_replica) (rp_term demo_replica) (batch_entries [demo_commit])"
    using demo_entries_ok by (simp add: demo_replica_def demo_commit_def)
  have no: "\<forall>rec\<in>set ([demo_commit] @ [demo_commit]). \<not> is_snapshot_rec rec"
    by (simp add: is_snapshot_rec_def demo_commit_def empty_commit_def)
  show ?thesis
    using snapshot_transparent [OF demo_represents [OF rec] fit m demo_restores save ss t ok refl no, of False True] rec(1) save
    by blast
qed

text \<open>
  C39. An error of the application during the recovery is lost. \<open>RecoverFromSnapshot\<close> names its result, and the deferred call that closes the
  file overwrites it; so when the application reports an error, \<open>ErrSnapshotStopped\<close> for instance, the caller counts the
  snapshot as recovered: it moves to the index of the snapshot, with whatever data the interrupted recovery left.
\<close>

theorem recover_error_lost:
  assumes "is_file sn (ss_Index ss) = Some (header_block (header_for now smsz sz (sbs @ bs)) @ sbs @ bs)"
    and "lru_load (sbs @ bs) (ns_sessions (sm_sm t)) = Some (Inr (rec, bs))"
    and "us_RecoverFromSnapshot ops bs (getSnapshotFiles ss) (ns_dataStore (sm_sm t)) = (Some err, n, d)"
    and "sm_lastApplied t < ss_Index ss" and "\<not> sm_aborted t"
  shows "\<exists>t'. recoverSnapshot ops sn ss t = Some ((True, 0, None), t')
    \<and> sm_lastApplied t' = ss_Index ss \<and> ns_dataStore (sm_sm t') = d \<and> \<not> sm_aborted t'"
proof -
  let ?p = "sbs @ bs" let ?h = "header_for now smsz sz ?p" let ?b = "header_block ?h"
  have g: "sr_GetHeader (NewSnapshotReader (?b @ ?p)) = Some (Inr (?h, reader_at ?b ?p 0))"
    by (rule sr_GetHeader_saved [OF header_for_fits]) simp
  obtain x where "sr_Read (length sbs) (reader_at ?b ?p 0) = Some (Inr (x, reader_at ?b ?p (length sbs)))"
    using sr_Read_upto [of 0 "length sbs" ?p ?b] by auto
  then have "nsm_RecoverFromSnapshot ops (Some (?b @ ?p)) (getSnapshotFiles ss) (sm_sm t)
      = Some (None, (sm_sm t)\<lparr>ns_sessions := rec, ns_dataStore := d\<rparr>)"
    using g assms(2,3)
    by (simp add: nsm_RecoverFromSnapshot_def nsm_recover_def sr_ValidateHeader_saved Let_def sr_Close_def)
  then show ?thesis using assms(1,4,5) by (simp add: recoverSnapshot_def Let_def not_le [symmetric])
qed

definition failing_ops :: "u64 user_sm" where
  "failing_ops = demo_ops\<lparr>us_RecoverFromSnapshot := (\<lambda>bs files d. (Some ErrSnapshotStopped, 0, d))\<rparr>"

theorem recover_error_lost_witness:
  "\<exists>rec sbs t'. us_RecoverFromSnapshot failing_ops [] [] 100 = (Some ErrSnapshotStopped, 0, 100)
    \<and> recoverSnapshot failing_ops (demo_snapshotter (header_block (header_for 77 0 0 (sbs @ [])) @ sbs @ [])) demo_snapshot
        ((demo_rsm rec [])\<lparr>sm_lastApplied := 3\<rparr>) = Some ((True, 0, None), t')
    \<and> sm_lastApplied t' = 10 \<and> ns_dataStore (sm_sm t') = 100"
proof -
  obtain rec where rec: "lru_holds rec demo_sessions" "lru_size rec = 2" by (rule demo_rec)
  let ?t = "(demo_rsm rec [])\<lparr>sm_lastApplied := 3\<rparr>"
  have "\<forall>(k, s)\<in>set demo_sessions. fits s" by (rule demo_fits)
  from load_spec [OF rec(1) this, of "[]" rec]
  obtain sbs rec2 where l: "lru_load (sbs @ []) (ns_sessions (sm_sm ?t)) = Some (Inr (rec2, []))"
    by (auto simp: demo_rsm_def)
  have f: "is_file (demo_snapshotter (header_block (header_for 77 0 0 (sbs @ [])) @ sbs @ [])) (ss_Index demo_snapshot)
      = Some (header_block (header_for 77 0 0 (sbs @ [])) @ sbs @ [])"
    by (simp add: demo_snapshotter_def demo_snapshot_def)
  have u: "us_RecoverFromSnapshot failing_ops [] (getSnapshotFiles demo_snapshot) (ns_dataStore (sm_sm ?t)) = (Some ErrSnapshotStopped, 0, 100)"
    by (simp add: failing_ops_def demo_rsm_def)
  have t: "sm_lastApplied ?t < ss_Index demo_snapshot" "\<not> sm_aborted ?t" by (simp_all add: demo_rsm_def demo_snapshot_def)
  have "ss_Index demo_snapshot = 10" "us_RecoverFromSnapshot failing_ops [] [] 100 = (Some ErrSnapshotStopped, 0, 100)"
    by (simp_all add: demo_snapshot_def failing_ops_def)
  then show ?thesis using recover_error_lost [OF f l u t] by metis
qed

text \<open>
  C38. The validator of incoming snapshots. When the chunks of a file are added in order, cut in any way that leaves the header block in the
  first chunk, the validator accepts the file whose payload is the one that was saved, and rejects every file whose payload
  differs from it in exactly one byte.
\<close>

theorem snapshot_chunks_checked:
  assumes "c @ concat (map snd cs) = header_block (header_for now smsz sz p) @ p'"
    and "SnapshotHeaderSize \<le> length c" and "\<forall>(i, c) \<in> set cs. i \<noteq> 0"
  shows "\<exists>v. add_chunks ((0, c) # cs) NewSnapshotValidator = Some (True, v)
    \<and> (p' = p \<longrightarrow> v_Validate v = Some True)
    \<and> (\<forall>as x y bs. p = as @ x # bs \<longrightarrow> p' = as @ y # bs \<longrightarrow> x \<noteq> y \<longrightarrow> v_Validate v = Some False)"
proof -
  let ?v = "\<lparr>v_header = header_for now smsz sz p, v_h = Some (crc32_Write p' 0)\<rparr>"
  have "add_chunks ((0, c) # cs) NewSnapshotValidator = Some (True, ?v)"
    by (rule add_chunks_saved [OF header_for_fits _ assms]) simp
  moreover have "v_Validate ?v = Some (crc32_Write p' 0 = crc32_Write p 0)"
    by (simp add: v_Validate_def slice_bytes_def crc32_Sum_inj)
  ultimately show ?thesis using crc32_single_byte by fastforce
qed

theorem snapshot_chunks_checked_witness:
  "\<exists>v. add_chunks [(0, header_block (header_for 77 0 0 [1, 2, 3]) @ [1]), (1, [9, 3])] NewSnapshotValidator = Some (True, v)
    \<and> v_Validate v = Some False"
proof -
  let ?b = "header_block (header_for 77 0 0 [1, 2, 3])"
  have 1: "(?b @ [1]) @ concat (map snd [(1 :: u64, [9, 3])]) = ?b @ [1, 9, 3]" by simp
  have 2: "SnapshotHeaderSize \<le> length (?b @ [1])" using header_block_length [OF header_for_fits] by simp
  have 3: "\<forall>(i, c) \<in> set [(1 :: u64, [9, 3 :: byte])]. i \<noteq> 0" by simp
  obtain v where v: "add_chunks [(0, ?b @ [1]), (1, [9, 3])] NewSnapshotValidator = Some (True, v)"
      "\<forall>as x y bs. [1, 2, 3 :: byte] = as @ x # bs \<longrightarrow> [1, 9, 3] = as @ y # bs \<longrightarrow> x \<noteq> y \<longrightarrow> v_Validate v = Some False"
    by (rule exE [OF snapshot_chunks_checked [OF 1 2 3]], elim conjE, rule that)
  have "v_Validate v = Some False" using v(2) [rule_format, of "[1]" 2 "[3]" 9] by simp
  then show ?thesis using v(1) by blast
qed

section \<open>The life of the store\<close>



end
