(* ===== verification/EntryCodec.thy ===== *)
theory EntryCodec
  imports ProtoDecode SessionsSpec
begin

text \<open>
  The encoding of entries in \<open>raftpb/raft_optimized.go\<close>: \<open>Size\<close>, \<open>marshalTo\<close> and \<open>unmarshal\<close> of \<open>Entry\<close>. Zero fields are left
  out, a field starts with its number, numbers are varints or, from \<open>2 ^ 49\<close> on, eight bytes in big-endian order, and
  the byte \<open>0x7f\<close> ends the entry.

  The \<open>Type\<close> of an entry on the wire is any \<open>int32\<close>, so the entries here are \<open>entry_raw\<close>. The position in the data
  only grows and stays within the data, or one content behind it.
\<close>

section \<open>Definitions\<close>

record entry_raw =
  re_Term :: u64
  re_Index :: u64
  re_Type :: "32 word"
  re_Key :: u64
  re_ClientID :: u64
  re_SeriesID :: u64
  re_RespondedTo :: u64
  re_Cmd :: "byte list"

definition entry_zero :: entry_raw where
  "entry_zero = \<lparr>re_Term = 0, re_Index = 0, re_Type = 0, re_Key = 0, re_ClientID = 0, re_SeriesID = 0, re_RespondedTo = 0, re_Cmd = []\<rparr>"

definition ColferSizeMax :: nat where
  "ColferSizeMax = 256 * 1024 * 1024"

definition Entry_SizeUpperLimit :: "entry_raw \<Rightarrow> nat" where
  "Entry_SizeUpperLimit e = 16 * 7 + 16 + length (re_Cmd e)"

text \<open>The number of turns of a loop \<open>for x >= 0x80 { x >>= 7 }\<close>.\<close>

function size_loop :: "u64 \<Rightarrow> nat" where
  "size_loop x = (if x \<ge> 0x80 then Suc (size_loop (drop_bit 7 x)) else 0)"
  by pat_completeness auto
termination
  by (relation "measure unat") (auto simp: drop_bit_7_less)

definition size_u64 :: "u64 \<Rightarrow> nat" where
  "size_u64 x = (if x \<ge> 2 ^ 49 then 9 else if x \<noteq> 0 then 2 + size_loop x else 0)"

definition type_abs :: "32 word \<Rightarrow> 32 word" where
  "type_abs v = (if sint v < 0 then NOT v + 1 else v)"

definition size_type :: "32 word \<Rightarrow> nat" where
  "size_type v = (if v \<noteq> 0 then 2 + size_loop (ucast (type_abs v)) else 0)"

definition size_cmd :: "byte list \<Rightarrow> nat" where
  "size_cmd cmd = (let x = length cmd in if x \<noteq> 0 then x + 2 + size_loop (of_nat x) else 0)"

definition Entry_Size :: "entry_raw \<Rightarrow> nat option" where
  "Entry_Size e =
     (if length (re_Cmd e) > ColferSizeMax then panic
      else
        let l = 1 + size_u64 (re_Term e) + size_u64 (re_Index e) + size_type (re_Type e) + size_u64 (re_Key e)
              + size_u64 (re_ClientID e) + size_u64 (re_SeriesID e) + size_u64 (re_RespondedTo e) + size_cmd (re_Cmd e)
        in if l > ColferSizeMax then panic else Some l)"

text \<open>The bytes that a loop \<open>for x >= 0x80\<close> and the assignment after it write.\<close>

function put_loop :: "u64 \<Rightarrow> byte list" where
  "put_loop x = (if x \<ge> 0x80 then ucast (x OR 0x80) # put_loop (drop_bit 7 x) else [ucast x])"
  by pat_completeness auto
termination
  by (relation "measure unat") (auto simp: drop_bit_7_less)

declare size_loop.simps [simp del] put_loop.simps [simp del]

definition BigEndian_PutUint64 :: "u64 \<Rightarrow> byte list" where
  "BigEndian_PutUint64 v = rev (PutUint64 v)"

definition BigEndian_Uint64 :: "byte list \<Rightarrow> u64" where
  "BigEndian_Uint64 b = get_le (rev (take 8 b))"

definition put_u64 :: "byte \<Rightarrow> u64 \<Rightarrow> byte list" where
  "put_u64 h x = (if x \<ge> 2 ^ 49 then (h OR 0x80) # BigEndian_PutUint64 x else if x \<noteq> 0 then h # put_loop x else [])"

definition put_type :: "32 word \<Rightarrow> byte list" where
  "put_type v = (if v \<noteq> 0 then (if sint v \<ge> 0 then 2 else 2 OR 0x80) # put_loop (ucast (type_abs v)) else [])"

definition put_cmd :: "byte list \<Rightarrow> byte list" where
  "put_cmd cmd = (if length cmd \<noteq> 0 then 7 # put_loop (of_nat (length cmd)) @ cmd else [])"

definition Entry_MarshalTo :: "entry_raw \<Rightarrow> byte list" where
  "Entry_MarshalTo e =
     put_u64 0 (re_Term e) @ put_u64 1 (re_Index e) @ put_type (re_Type e) @ put_u64 3 (re_Key e)
     @ put_u64 4 (re_ClientID e) @ put_u64 5 (re_SeriesID e) @ put_u64 6 (re_RespondedTo e) @ put_cmd (re_Cmd e) @ [0x7f]"

section \<open>Decoding\<close>

text \<open>How \<open>unmarshal\<close> is left early: \<open>goto eof\<close> with the position, or an error.\<close>

datatype colfer_exit = Eof nat | Fails proto_error

definition colfer_then :: "(colfer_exit + 'a) option \<Rightarrow> ('a \<Rightarrow> (colfer_exit + 'b) option) \<Rightarrow> (colfer_exit + 'b) option" where
  "colfer_then r f = (case r of None \<Rightarrow> panic | Some (Inl x) \<Rightarrow> Some (Inl x) | Some (Inr a) \<Rightarrow> f a)"

text \<open>The loop that reads the further bytes of a number. For the fields of 64 bits it ends with the byte at shift 56.\<close>

function read_loop :: "nat option \<Rightarrow> byte list \<Rightarrow> nat \<Rightarrow> nat \<Rightarrow> 'a::len word \<Rightarrow> (colfer_exit + ('a word \<times> nat)) option" where
  "read_loop last_shift data i shift x =
     (if i \<ge> length data then panic
      else
        let b = data ! i; i = i + 1 in
        if i \<ge> length data then Some (Inl (Eof i))
        else if b < 0x80 \<or> last_shift = Some shift then Some (Inr (x OR push_bit shift (ucast b), i))
        else read_loop last_shift data i (shift + 7) (x OR push_bit shift (ucast b AND 0x7f)))"
  by pat_completeness auto
termination
  by (relation "measure (\<lambda>(_, data, i, _). length data - i)") auto

declare read_loop.simps [simp del]

definition read_number :: "nat option \<Rightarrow> byte list \<Rightarrow> nat \<Rightarrow> (colfer_exit + ('a::len word \<times> nat)) option" where
  "read_number last_shift data i =
     (if i + 1 \<ge> length data then Some (Inl (Eof (i + 1)))
      else
        let b = data ! i; x = ucast b in
        if b \<ge> 0x80 then read_loop last_shift data (i + 1) 7 (x AND 0x7f) else Some (Inr (x, i + 1)))"

type_synonym colfer_state = "byte \<times> nat \<times> entry_raw"

text \<open>\<open>header = data[i]; i++\<close> after a field.\<close>

definition next_header :: "byte list \<Rightarrow> nat \<Rightarrow> entry_raw \<Rightarrow> (colfer_exit + colfer_state) option" where
  "next_header data i e = do { header \<leftarrow> go_index data i; Some (Inr (header, i + 1, e)) }"

definition read_u64 ::
  "byte \<Rightarrow> (u64 \<Rightarrow> entry_raw \<Rightarrow> entry_raw) \<Rightarrow> byte list \<Rightarrow> colfer_state \<Rightarrow> (colfer_exit + colfer_state) option" where
  "read_u64 h assign data = (\<lambda>(header, i, e).
     if header = h then
       colfer_then (read_number (Some 56) data i) (\<lambda>(x, i). next_header data i (assign x e))
     else if header = h OR 0x80 then
       let start = i; i = i + 8 in
       if i \<ge> length data then Some (Inl (Eof i))
       else next_header data i (assign (BigEndian_Uint64 (drop start data)) e)
     else Some (Inr (header, i, e)))"

definition read_type :: "byte list \<Rightarrow> colfer_state \<Rightarrow> (colfer_exit + colfer_state) option" where
  "read_type data = (\<lambda>(header, i, e).
     if header = 2 then
       colfer_then (read_number None data i) (\<lambda>(x, i). next_header data i (e\<lparr>re_Type := x\<rparr>))
     else if header = 2 OR 0x80 then
       colfer_then (read_number None data i) (\<lambda>(x, i). next_header data i (e\<lparr>re_Type := NOT x + 1\<rparr>))
     else Some (Inr (header, i, e)))"

function length_loop :: "byte list \<Rightarrow> nat \<Rightarrow> nat \<Rightarrow> u64 \<Rightarrow> (colfer_exit + (u64 \<times> nat)) option" where
  "length_loop data i shift x =
     (if i \<ge> length data then Some (Inl (Eof i))
      else
        let b = data ! i; i = i + 1 in
        if b < 0x80 then Some (Inr (x OR push_bit shift (ucast b), i))
        else length_loop data i (shift + 7) (x OR push_bit shift (ucast b AND 0x7f)))"
  by pat_completeness auto
termination
  by (relation "measure (\<lambda>(data, i, _). length data - i)") auto

declare length_loop.simps [simp del]

definition read_cmd_length :: "byte list \<Rightarrow> nat \<Rightarrow> (colfer_exit + (u64 \<times> nat)) option" where
  "read_cmd_length data i =
     (if i \<ge> length data then Some (Inl (Eof i))
      else
        let b = data ! i; x = ucast b in
        if b \<ge> 0x80 then length_loop data (i + 1) 7 (x AND 0x7f) else Some (Inr (x, i + 1)))"

definition read_cmd :: "byte list \<Rightarrow> colfer_state \<Rightarrow> (colfer_exit + colfer_state) option" where
  "read_cmd data = (\<lambda>(header, i, e).
     if header = 7 then
       colfer_then (read_cmd_length data i) (\<lambda>(x, i).
         if x > of_nat ColferSizeMax then Some (Inl (Fails ColferMax))
         else
           let start = i; i = i + unat x in
           if i \<ge> length data then Some (Inl (Eof i))
           else next_header data i (e\<lparr>re_Cmd := take (unat x) (drop start data)\<rparr>))
     else Some (Inr (header, i, e)))"

definition read_client_fields :: "byte list \<Rightarrow> colfer_state \<Rightarrow> (colfer_exit + colfer_state) option" where
  "read_client_fields data st =
     colfer_then (read_u64 3 (\<lambda>x e. e\<lparr>re_Key := x\<rparr>) data st) (\<lambda>st.
     colfer_then (read_u64 4 (\<lambda>x e. e\<lparr>re_ClientID := x\<rparr>) data st) (\<lambda>st.
     colfer_then (read_u64 5 (\<lambda>x e. e\<lparr>re_SeriesID := x\<rparr>) data st) (\<lambda>st.
     read_u64 6 (\<lambda>x e. e\<lparr>re_RespondedTo := x\<rparr>) data st)))"

definition read_fields :: "byte list \<Rightarrow> colfer_state \<Rightarrow> (colfer_exit + colfer_state) option" where
  "read_fields data st =
     colfer_then (read_u64 0 (\<lambda>x e. e\<lparr>re_Term := x\<rparr>) data st) (\<lambda>st.
     colfer_then (read_u64 1 (\<lambda>x e. e\<lparr>re_Index := x\<rparr>) data st) (\<lambda>st.
     colfer_then (read_type data st) (\<lambda>st.
     colfer_then (read_client_fields data st) (\<lambda>st.
     read_cmd data st))))"

definition colfer_eof :: "nat \<Rightarrow> (proto_error + entry_raw) option" where
  "colfer_eof i = Some (Inl (if i \<ge> ColferSizeMax then ColferMax else ErrEOF))"

definition Entry_Unmarshal :: "byte list \<Rightarrow> entry_raw \<Rightarrow> (proto_error + entry_raw) option" where
  "Entry_Unmarshal data e =
     (if data = [] then Some (Inl ErrEOF)
      else case read_fields data (hd data, 1, e) of
        None \<Rightarrow> panic
      | Some (Inl (Fails err)) \<Rightarrow> Some (Inl err)
      | Some (Inl (Eof i)) \<Rightarrow> colfer_eof i
      | Some (Inr (header, i, e)) \<Rightarrow>
          if header \<noteq> 0x7f then Some (Inl (ColferError (i - 1)))
          else if i < ColferSizeMax then Some (Inr e)
          else colfer_eof i)"

section \<open>Sizes\<close>

lemma high_byte:
  assumes "\<And>n. bit (h :: u64) n \<longleftrightarrow> n = 7"
  shows "ucast (x OR h) = (ucast (x AND mask 7 OR h) :: byte)"
  by (rule bit_word_eqI) (auto simp: bit_simps assms)

lemma put_loop_encode: "put_loop x = encodeVarintRaft x"
proof (induction x rule: put_loop.induct)
  case (1 x)
  have "ucast (x OR 0x80) = (ucast (x AND 0x7f OR 0x80) :: byte)"
    unfolding mask_7 by (rule high_byte [OF bit_128])
  then show ?case using 1 by (subst put_loop.simps, subst encodeVarintRaft.simps) simp
qed

lemma size_loop_sov: "Suc (size_loop x) = sovRaft x"
proof (induction x rule: size_loop.induct)
  case (1 x)
  then show ?case
    by (subst size_loop.simps, subst sovRaft.simps) (auto simp: Let_def drop_bit_7_zero not_le not_less)
qed

lemma BigEndian_inverse: "BigEndian_Uint64 (BigEndian_PutUint64 v @ rest) = v"
  by (simp add: BigEndian_Uint64_def BigEndian_PutUint64_def)

lemma length_put [simp]:
  "length (put_u64 h x) = size_u64 x" "length (put_type v) = size_type v" "length (put_cmd cmd) = size_cmd cmd"
proof -
  have l: "length (put_loop x) = Suc (size_loop x)" for x
    by (simp add: put_loop_encode encodeVarintRaft_length size_loop_sov)
  show "length (put_u64 h x) = size_u64 x" "length (put_type v) = size_type v" "length (put_cmd cmd) = size_cmd cmd"
    by (simp_all add: put_u64_def size_u64_def put_type_def size_type_def put_cmd_def size_cmd_def l
        BigEndian_PutUint64_def Let_def)
qed

lemma Entry_MarshalTo_length: "Entry_Size e = Some n \<Longrightarrow> length (Entry_MarshalTo e) = n \<and> n \<le> ColferSizeMax"
  by (auto simp: Entry_Size_def Entry_MarshalTo_def Let_def split: if_splits)

lemma Entry_Size_limit: "Entry_Size e = Some n \<Longrightarrow> n \<le> Entry_SizeUpperLimit e"
proof -
  assume n: "Entry_Size e = Some n"
  have l: "size_loop x \<le> 9" for x using sovRaft_le [of x] size_loop_sov [of x] by simp
  have u: "size_u64 x \<le> 11" for x using l [of x] by (simp add: size_u64_def)
  have "size_type (re_Type e) \<le> 11" "size_cmd (re_Cmd e) \<le> 11 + length (re_Cmd e)"
    using l by (simp_all add: size_type_def size_cmd_def Let_def)
  with n u [of "re_Term e"] u [of "re_Index e"] u [of "re_Key e"] u [of "re_ClientID e"] u [of "re_SeriesID e"] u [of "re_RespondedTo e"]
  show ?thesis by (auto simp: Entry_Size_def Entry_SizeUpperLimit_def Let_def split: if_splits)
qed

section \<open>Reading what was written\<close>

lemma ucast_step:
  assumes "LENGTH('a::len) \<le> 64"
  shows "ucast ((w :: u64) OR push_bit s (ucast (b :: byte) AND 0x7F)) = (ucast w OR push_bit s (ucast b AND 0x7F) :: 'a word)"
proof -
  have m: "(0x7F :: 'b::len word) = mask 7" by (simp add: mask_eq_exp_minus_1)
  show ?thesis unfolding m by (rule bit_word_eqI) (use assms in \<open>auto simp: bit_simps\<close>)
qed

lemma low_byte: "(b :: byte) < 0x80 \<Longrightarrow> (ucast b AND 0x7F :: 'a::len word) = ucast b"
proof -
  assume b: "b < 0x80"
  have m: "(0x7F :: 'a word) = mask 7" by (simp add: mask_eq_exp_minus_1)
  have "n < 7" if "bit b n" for n
  proof -
    have "n < 8" using bit_imp_le_length [OF that] by simp
    moreover have "n \<noteq> 7" using b that by (auto simp: byte_high)
    ultimately show ?thesis by simp
  qed
  then show ?thesis unfolding m by (intro bit_word_eqI) (auto simp: bit_simps)
qed

lemma read_loop_varint:
  assumes "varint data i shift w = Some (Inr (v, j))" and "i = int n" and "nat j < length data"
    and "LENGTH('a::len) \<le> 64" and "last_shift = None \<or> last_shift = Some 56 \<and> shift + 7 * (nat j - n) \<le> 63"
  shows "read_loop last_shift data n shift (ucast w :: 'a word) = Some (Inr (ucast v, nat j))"
  using assms
proof (induction data i shift w arbitrary: n rule: varint.induct)
  case (1 data i shift w)
  let ?b = "data ! n" and ?w = "w OR push_bit shift (ucast (data ! n) AND 0x7F)"
  note v = "1.prems"(1) [unfolded varint.simps [of data i]]
  have r: "n < length data" "shift < 64" using v "1.prems"(2) by (auto split: if_splits)
  show ?case
  proof (cases "?b < 0x80")
    case True
    then have "v = ?w" "nat j = n + 1" using v "1.prems"(2) r by (auto simp: Let_def nat_add_distrib split: if_splits)
    moreover have "ucast ?w = (ucast w OR push_bit shift (ucast ?b) :: 'a word)"
      using ucast_step [OF "1.prems"(4), of w shift ?b] low_byte [OF True, where 'a = 'a] by simp
    ultimately show ?thesis
      using r True "1.prems"(3) by (subst read_loop.simps) (simp add: Let_def)
  next
    case False
    then have r2: "varint data (i + 1) (shift + 7) ?w = Some (Inr (v, j))" using v "1.prems"(2) r by (auto simp: Let_def split: if_splits)
    have pos: "n + 1 < nat j" using varint_position [OF r2] "1.prems"(2) by arith
    have "read_loop last_shift data (n + 1) (shift + 7) (ucast ?w :: 'a word) = Some (Inr (ucast v, nat j))"
      by (rule "1.IH") (use False r r2 pos "1.prems" in auto)
    then show ?thesis
      using r False pos "1.prems"(3,4,5)
      by (subst read_loop.simps) (auto simp: Let_def ucast_step simp del: push_bit_and)
  qed
qed

lemma read_number_at:
  assumes d: "data = pre @ put_loop x @ rest" and "rest \<noteq> []" and len: "LENGTH('a::len) \<le> 64" and small: "last_shift = None \<or> last_shift = Some 56 \<and> x < 2 ^ 49"
  shows "read_number last_shift data (length pre) = Some (Inr (ucast x :: 'a word, length pre + length (put_loop x)))"
proof -
  let ?n = "length pre" and ?b = "data ! length pre"
  let ?j = "?n + sovRaft x"
  have v: "varint data (int ?n) 0 0 = Some (Inr (x, int ?j))"
    using varint_encode0 [of data pre x rest] d by (simp add: put_loop_encode)
  have l: "length (put_loop x) = sovRaft x" by (simp add: put_loop_encode encodeVarintRaft_length)
  have r: "?j < length data" "0 < sovRaft x" using assms(2) d l size_loop_sov [of x] by auto
  have s: "sovRaft x \<le> 7" if "last_shift = Some 56"
    by (rule sovRaft_bound) (use small that in \<open>simp_all add: word_less_nat_alt\<close>)
  note step = v [unfolded varint.simps [of data "int ?n"]]
  show ?thesis
  proof (cases "?b < 0x80")
    case True
    then have x: "x = ucast ?b AND 0x7F" and one: "sovRaft x = 1" using step r by (auto simp: Let_def)
    have "ucast x = (ucast ?b :: 'a word)"
      unfolding x using ucast_step [OF len, of 0 0 ?b] low_byte [OF True, where 'a = 'a] by simp
    then show ?thesis
      using True r one by (simp add: read_number_def Let_def l not_le [symmetric])
  next
    case False
    then have v2: "varint data (int (?n + 1)) 7 (ucast ?b AND 0x7F) = Some (Inr (x, int ?j))"
      using step r by (simp add: Let_def add.commute)
    from varint_position [OF v2] have pos: "?n + 1 < ?j" by simp
    have "read_loop last_shift data (?n + 1) 7 (ucast (ucast ?b AND 0x7F :: u64) :: 'a word) = Some (Inr (ucast x, nat (int ?j)))"
      by (rule read_loop_varint [OF v2 refl]) (use r s len small in \<open>auto simp: nat_add_distrib\<close>)
    then show ?thesis
      using False r ucast_step [OF len, of 0 0 ?b] pos by (simp add: read_number_def Let_def l nat_add_distrib)
  qed
qed

text \<open>\<open>later h rest\<close>: the field that \<open>rest\<close> starts with has a number above \<open>h\<close>, or \<open>rest\<close> is the end.\<close>

definition later :: "byte \<Rightarrow> byte list \<Rightarrow> bool" where
  "later h rest \<longleftrightarrow> rest \<noteq> [] \<and> h < hd rest AND 0x7f"

lemma header_number: "(h :: byte) < 0x80 \<Longrightarrow> h AND 0x7f = h \<and> (h OR 0x80) AND 0x7f = h"
  using low_byte [of h, where 'a = 8] by (simp add: bit.conj_disj_distrib2)

lemma later_neq: "later h rest \<Longrightarrow> h < 0x80 \<Longrightarrow> hd rest \<noteq> h \<and> hd rest \<noteq> h OR 0x80"
  using header_number [of h] by (auto simp: later_def)

lemma later_trans: "h < h' \<Longrightarrow> later h' rest \<Longrightarrow> later h rest"
  by (auto simp: later_def)

lemma later_put:
  "h < h' \<Longrightarrow> h' < 0x80 \<Longrightarrow> later h' rest \<Longrightarrow> later h (put_u64 h' x @ rest)"
  "h < 2 \<Longrightarrow> later 2 rest \<Longrightarrow> later h (put_type v @ rest)"
  "h < 7 \<Longrightarrow> later 7 rest \<Longrightarrow> later h (put_cmd cmd @ rest)"
  using header_number [of h'] by (auto simp: put_u64_def put_type_def put_cmd_def intro: later_trans) (auto simp: later_def)

text \<open>\<open>reads f enc rest e e'\<close>: the code \<open>f\<close> for a field reads \<open>enc\<close>, when \<open>rest\<close> follows, and takes the entry from \<open>e\<close> to \<open>e'\<close>.\<close>

definition reads ::
  "(byte list \<Rightarrow> colfer_state \<Rightarrow> (colfer_exit + colfer_state) option) \<Rightarrow> byte list \<Rightarrow> byte list \<Rightarrow> entry_raw \<Rightarrow> entry_raw \<Rightarrow> bool" where
  "reads f enc rest e e' \<longleftrightarrow>
     (\<forall>pre. f (pre @ enc @ rest) (hd (enc @ rest), length pre + 1, e) = Some (Inr (hd rest, length pre + length enc + 1, e')))"

lemma reads_then:
  assumes "reads f a (b @ rest) e e1" and "reads g b rest e1 e2"
  shows "reads (\<lambda>d st. colfer_then (f d st) (g d)) (a @ b) rest e e2"
  unfolding reads_def
proof
  fix pre
  have "f (pre @ a @ b @ rest) (hd (a @ b @ rest), length pre + 1, e) = Some (Inr (hd (b @ rest), length pre + length a + 1, e1))"
    using assms(1) unfolding reads_def by blast
  moreover have "g ((pre @ a) @ b @ rest) (hd (b @ rest), length (pre @ a) + 1, e1) = Some (Inr (hd rest, length (pre @ a) + length b + 1, e2))"
    using assms(2) unfolding reads_def by blast
  ultimately show "colfer_then (f (pre @ (a @ b) @ rest) (hd ((a @ b) @ rest), length pre + 1, e)) (g (pre @ (a @ b) @ rest))
      = Some (Inr (hd rest, length pre + length (a @ b) + 1, e2))"
    by (simp add: colfer_then_def)
qed

lemma next_header_at: "i = length pre \<Longrightarrow> rest \<noteq> [] \<Longrightarrow> next_header (pre @ rest) i e = Some (Inr (hd rest, Suc i, e))"
  by (simp add: next_header_def go_index_def nth_append hd_conv_nth)

lemma reads_u64:
  assumes "later h rest" and "h < 0x80" and zero: "assign 0 e = e"
  shows "reads (read_u64 h assign) (put_u64 h x) rest e (assign x e)"
  unfolding reads_def
proof
  fix pre
  let ?d = "pre @ put_u64 h x @ rest"
  have "bit (h OR 0x80) 7" by (simp add: bit_simps)
  then have h: "hd rest \<noteq> h" "hd rest \<noteq> h OR 0x80" "rest \<noteq> []" "h OR 0x80 \<noteq> h"
    using later_neq [OF assms(1,2)] assms(1,2) by (auto simp: later_def byte_high)
  consider (zero) "x = 0" | (number) "x \<noteq> 0" "x < 2 ^ 49" | (fixed) "x \<ge> 2 ^ 49" by fastforce
  then show "read_u64 h assign ?d (hd (put_u64 h x @ rest), length pre + 1, e)
      = Some (Inr (hd rest, length pre + length (put_u64 h x) + 1, assign x e))"
  proof cases
    case zero
    then have "put_u64 h x = []" by (simp add: put_u64_def)
    then show ?thesis using h zero assms(3) by (simp add: read_u64_def)
  next
    case number
    then have p: "put_u64 h x = h # put_loop x" by (simp add: put_u64_def not_le [symmetric])
    have "read_number (Some 56) ?d (length (pre @ [h])) = Some (Inr (ucast x :: u64, length (pre @ [h]) + length (put_loop x)))"
      by (rule read_number_at) (use number h p in simp_all)
    then show ?thesis
      using h p next_header_at [of _ "pre @ h # put_loop x" rest] by (simp add: read_u64_def colfer_then_def)
  next
    case fixed
    then have p: "put_u64 h x = (h OR 0x80) # BigEndian_PutUint64 x" by (simp add: put_u64_def)
    moreover have "length (BigEndian_PutUint64 x) = 8" by (simp add: BigEndian_PutUint64_def)
    ultimately show ?thesis
      using h next_header_at [of "9 + length pre" "pre @ (h OR 0x80) # BigEndian_PutUint64 x" rest]
      by (simp add: read_u64_def Let_def BigEndian_inverse)
  qed
qed

lemma reads_type:
  assumes "later 2 rest" and zero: "re_Type e = 0"
  shows "reads read_type (put_type v) rest e (e\<lparr>re_Type := v\<rparr>)"
  unfolding reads_def
proof
  fix pre
  let ?d = "pre @ put_type v @ rest" and ?h = "if sint v \<ge> 0 then 2 else 2 OR 0x80 :: byte"
  have h: "hd rest \<noteq> 2" "hd rest \<noteq> 2 OR 0x80" "rest \<noteq> []"
    using later_neq [OF assms(1)] assms(1) by (auto simp: later_def)
  show "read_type ?d (hd (put_type v @ rest), length pre + 1, e)
      = Some (Inr (hd rest, length pre + length (put_type v) + 1, e\<lparr>re_Type := v\<rparr>))"
  proof (cases "v = 0")
    case True
    then have "put_type v = []" "e\<lparr>re_Type := v\<rparr> = e" using zero by (simp_all add: put_type_def)
    then show ?thesis using h by (simp add: read_type_def)
  next
    case False
    then have p: "put_type v = ?h # put_loop (ucast (type_abs v))" by (simp add: put_type_def)
    have "read_number None ?d (length (pre @ [?h])) = Some (Inr (ucast (ucast (type_abs v) :: u64) :: 32 word,
        length (pre @ [?h]) + length (put_loop (ucast (type_abs v)))))"
      by (rule read_number_at) (use h p in simp_all)
    moreover have "(ucast (ucast (type_abs v) :: u64) :: 32 word) = type_abs v"
      by (rule bit_word_eqI) (simp add: bit_simps)
    moreover have "sint v < 0 \<Longrightarrow> NOT (type_abs v) + 1 = v" "sint v \<ge> 0 \<Longrightarrow> type_abs v = v"
      by (simp_all add: type_abs_def minus_eq_not_plus_1 [symmetric])
    ultimately show ?thesis
      using h p next_header_at [of _ "pre @ ?h # put_loop (ucast (type_abs v))" rest]
      by (cases "sint v \<ge> 0") (simp_all add: read_type_def colfer_then_def)
  qed
qed

lemma length_loop_varint:
  assumes "varint data i shift w = Some (Inr (v, j))" and "i = int n"
  shows "length_loop data n shift w = Some (Inr (v, nat j))"
  using assms
proof (induction data i shift w arbitrary: n rule: varint.induct)
  case (1 data i shift w)
  let ?b = "data ! n" and ?w = "w OR push_bit shift (ucast (data ! n) AND 0x7F)"
  note v = "1.prems"(1) [unfolded varint.simps [of data i]]
  have r: "n < length data" "shift < 64" using v "1.prems"(2) by (auto split: if_splits)
  show ?case
  proof (cases "?b < 0x80")
    case True
    then have "v = ?w" "nat j = n + 1" using v "1.prems"(2) r by (auto simp: Let_def nat_add_distrib split: if_splits)
    then show ?thesis
      using r True low_byte [OF True, where 'a = 64] by (subst length_loop.simps) (simp add: Let_def)
  next
    case False
    have "length_loop data (n + 1) (shift + 7) ?w = Some (Inr (v, nat j))"
      by (rule "1.IH") (use False r v "1.prems" in \<open>auto simp: Let_def split: if_splits\<close>)
    then show ?thesis using r False by (subst length_loop.simps) (simp add: Let_def)
  qed
qed

lemma read_cmd_length_at:
  assumes d: "data = pre @ put_loop x @ rest"
  shows "read_cmd_length data (length pre) = Some (Inr (x, length pre + length (put_loop x)))"
proof -
  let ?n = "length pre" and ?b = "data ! length pre"
  have v: "varint data (int ?n) 0 0 = Some (Inr (x, int (?n + sovRaft x)))"
    using varint_encode0 [of data pre x rest] d by (simp add: put_loop_encode)
  have l: "length (put_loop x) = sovRaft x" by (simp add: put_loop_encode encodeVarintRaft_length)
  have r: "?n < length data" using varint_position [OF v] by simp
  have "length_loop data ?n 0 0 = Some (Inr (x, ?n + sovRaft x))"
    using length_loop_varint [OF v refl] by (simp add: nat_add_distrib)
  then show ?thesis
    using r by (subst (asm) length_loop.simps) (auto simp: read_cmd_length_def Let_def l not_le not_less split: if_splits)
qed

lemma reads_cmd:
  assumes "later 7 rest" and zero: "re_Cmd e = []" and max: "length cmd \<le> ColferSizeMax"
  shows "reads read_cmd (put_cmd cmd) rest e (e\<lparr>re_Cmd := cmd\<rparr>)"
  unfolding reads_def
proof
  fix pre
  let ?d = "pre @ put_cmd cmd @ rest" and ?n = "of_nat (length cmd) :: u64"
  have h: "hd rest \<noteq> 7" "rest \<noteq> []" using later_neq [OF assms(1)] assms(1) by (auto simp: later_def)
  have u: "unat ?n = length cmd" using max by (intro u64_of_nat) (simp add: ColferSizeMax_def)
  then have m: "\<not> ?n > of_nat ColferSizeMax" using max by (simp add: word_less_nat_alt ColferSizeMax_def)
  show "read_cmd ?d (hd (put_cmd cmd @ rest), length pre + 1, e)
      = Some (Inr (hd rest, length pre + length (put_cmd cmd) + 1, e\<lparr>re_Cmd := cmd\<rparr>))"
  proof (cases "cmd = []")
    case True
    then have "put_cmd cmd = []" "e\<lparr>re_Cmd := cmd\<rparr> = e" using zero by (simp_all add: put_cmd_def)
    then show ?thesis using h by (simp add: read_cmd_def)
  next
    case False
    then have p: "put_cmd cmd = 7 # put_loop ?n @ cmd" by (simp add: put_cmd_def)
    have "read_cmd_length ?d (length (pre @ [7])) = Some (Inr (?n, length (pre @ [7]) + length (put_loop ?n)))"
      by (rule read_cmd_length_at [of _ _ _ "cmd @ rest"]) (simp add: p)
    then show ?thesis
      using h p m u next_header_at [of _ "pre @ 7 # put_loop ?n @ cmd" rest]
      by (simp add: read_cmd_def colfer_then_def Let_def add.assoc)
  qed
qed

lemma colfer_then_assoc: "colfer_then (colfer_then r f) g = colfer_then r (\<lambda>a. colfer_then (f a) g)"
  by (simp add: colfer_then_def split: option.splits sum.splits)

lemma reads_fields:
  assumes "length (re_Cmd e) \<le> ColferSizeMax"
  shows "reads read_fields
     (put_u64 0 (re_Term e) @ put_u64 1 (re_Index e) @ put_type (re_Type e) @ put_u64 3 (re_Key e)
       @ put_u64 4 (re_ClientID e) @ put_u64 5 (re_SeriesID e) @ put_u64 6 (re_RespondedTo e) @ put_cmd (re_Cmd e)) [0x7f]
     entry_zero e"
proof -
  let ?b7 = "put_cmd (re_Cmd e)"
  let ?b6 = "put_u64 6 (re_RespondedTo e) @ ?b7"
  let ?b5 = "put_u64 5 (re_SeriesID e) @ ?b6"
  let ?b4 = "put_u64 4 (re_ClientID e) @ ?b5"
  let ?b3 = "put_u64 3 (re_Key e) @ ?b4"
  let ?b2 = "put_type (re_Type e) @ ?b3"
  let ?b1 = "put_u64 1 (re_Index e) @ ?b2"
  have 7: "later 7 [0x7f]" by (simp add: later_def)
  have 6: "later 6 (?b7 @ [0x7f])" using later_put(3) [OF _ 7] by simp
  have 5: "later 5 (?b6 @ [0x7f])" using later_put(1) [OF _ _ 6] by simp
  have 4: "later 4 (?b5 @ [0x7f])" using later_put(1) [OF _ _ 5] by simp
  have 3: "later 3 (?b4 @ [0x7f])" using later_put(1) [OF _ _ 4] by simp
  have 2: "later 2 (?b3 @ [0x7f])" using later_put(1) [OF _ _ 3] by simp
  have 1: "later 1 (?b2 @ [0x7f])" using later_put(2) [OF _ 2] by simp
  have 0: "later 0 (?b1 @ [0x7f])" using later_put(1) [OF _ _ 1] by simp
  note rs = reads_then [OF reads_u64 [OF 0, where assign = "\<lambda>x e. e\<lparr>re_Term := x\<rparr>"]
    reads_then [OF reads_u64 [OF 1, where assign = "\<lambda>x e. e\<lparr>re_Index := x\<rparr>"]
    reads_then [OF reads_type [OF 2]
    reads_then [OF reads_u64 [OF 3, where assign = "\<lambda>x e. e\<lparr>re_Key := x\<rparr>"]
    reads_then [OF reads_u64 [OF 4, where assign = "\<lambda>x e. e\<lparr>re_ClientID := x\<rparr>"]
    reads_then [OF reads_u64 [OF 5, where assign = "\<lambda>x e. e\<lparr>re_SeriesID := x\<rparr>"]
    reads_then [OF reads_u64 [OF 6, where assign = "\<lambda>x e. e\<lparr>re_RespondedTo := x\<rparr>"]
      reads_cmd [OF 7 _ assms]]]]]]]]
  have f: "read_fields = (\<lambda>d st. read_fields d st)" by simp
  have "reads read_fields (put_u64 0 (re_Term e) @ ?b1) [0x7f] entry_zero
      (entry_zero\<lparr>re_Term := re_Term e, re_Index := re_Index e, re_Type := re_Type e, re_Key := re_Key e,
         re_ClientID := re_ClientID e, re_SeriesID := re_SeriesID e, re_RespondedTo := re_RespondedTo e, re_Cmd := re_Cmd e\<rparr>)"
    by (subst f, unfold read_fields_def read_client_fields_def colfer_then_assoc, rule rs) (simp_all add: entry_zero_def)
  moreover have "entry_zero\<lparr>re_Term := re_Term e, re_Index := re_Index e, re_Type := re_Type e, re_Key := re_Key e,
      re_ClientID := re_ClientID e, re_SeriesID := re_SeriesID e, re_RespondedTo := re_RespondedTo e, re_Cmd := re_Cmd e\<rparr> = e"
    by (cases e) (simp add: entry_zero_def)
  ultimately show ?thesis by simp
qed

lemma Entry_decode:
  assumes "Entry_Size e = Some n"
  shows "Entry_Unmarshal (Entry_MarshalTo e) entry_zero = Some (if n < ColferSizeMax then Inr e else Inl ColferMax)"
proof -
  have len: "length (Entry_MarshalTo e) = n" using Entry_MarshalTo_length [OF assms] by simp
  have cmd: "length (re_Cmd e) \<le> ColferSizeMax" using assms by (auto simp: Entry_Size_def split: if_splits)
  have "read_fields (Entry_MarshalTo e) (hd (Entry_MarshalTo e), 1, entry_zero) = Some (Inr (0x7f, n, e))"
    using reads_fields [OF cmd, unfolded reads_def, rule_format, of "[]"] len
    by (simp add: Entry_MarshalTo_def)
  moreover have "Entry_MarshalTo e \<noteq> []" by (simp add: Entry_MarshalTo_def)
  ultimately show ?thesis by (simp add: Entry_Unmarshal_def colfer_eof_def)
qed

end
