(* ===== verification/MessageCodec.thy ===== *)
theory MessageCodec
  imports EntryCodec
begin

text \<open>
  The encoding of what one host sends to another: \<open>MarshalTo\<close>, \<open>Size\<close> and \<open>Unmarshal\<close> of \<open>Membership\<close>, \<open>SnapshotFile\<close>, \<open>Snapshot\<close>,
  \<open>EntryBatch\<close>, \<open>Message\<close> and \<open>MessageBatch\<close>, in \<open>raftpb/raft.pb.go\<close> and, for the decoders of the last two, in
  \<open>raftpb/raft_optimized.go\<close>. These count the entries or messages that follow the first one before they allocate the slice.

  On the wire a message may carry any \<open>int32\<close> as its type, and the metadata of a file is a slice that may be \<open>nil\<close>, so
  messages, snapshots and files have a record of their own here. Pointers to files are not \<open>nil\<close>.
\<close>

section \<open>Membership\<close>

definition string_field :: "byte \<Rightarrow> string \<Rightarrow> byte list" where
  "string_field t s = t # encodeVarintRaft (of_nat (length s)) @ str_bytes s"

definition address_bytes :: "byte \<Rightarrow> u64 \<times> string \<Rightarrow> byte list" where
  "address_bytes t = (\<lambda>(k, v).
     let mapSize = 1 + sovRaft k + 1 + length v + sovRaft (of_nat (length v))
     in t # encodeVarintRaft (of_nat mapSize) @ 0x8 # encodeVarintRaft k @ string_field 0x12 v)"

definition removed_bytes :: "u64 \<times> bool \<Rightarrow> byte list" where
  "removed_bytes = (\<lambda>(k, v).
     let mapSize = 1 + sovRaft k + 1 + 1
     in 0x1a # encodeVarintRaft (of_nat mapSize) @ 0x8 # encodeVarintRaft k @ [0x10, if v then 1 else 0])"

definition Membership_MarshalTo :: "membership \<Rightarrow> byte list" where
  "Membership_MarshalTo m =
     0x8 # encodeVarintRaft (mb_ConfigChangeId m)
     @ concat (map (address_bytes 0x12) (mb_Addresses m))
     @ concat (map removed_bytes (mb_Removed m))
     @ concat (map (address_bytes 0x22) (mb_Observers m))"

definition address_size :: "u64 \<times> string \<Rightarrow> nat" where
  "address_size = (\<lambda>(k, v).
     let mapEntrySize = 1 + sovRaft k + 1 + length v + sovRaft (of_nat (length v))
     in mapEntrySize + 1 + sovRaft (of_nat mapEntrySize))"

definition removed_size :: "u64 \<times> bool \<Rightarrow> nat" where
  "removed_size = (\<lambda>(k, v).
     let mapEntrySize = 1 + sovRaft k + 1 + 1 in mapEntrySize + 1 + sovRaft (of_nat mapEntrySize))"

definition Membership_Size :: "membership \<Rightarrow> nat" where
  "Membership_Size m =
     1 + sovRaft (mb_ConfigChangeId m) + sum_list (map address_size (mb_Addresses m))
     + sum_list (map removed_size (mb_Removed m)) + sum_list (map address_size (mb_Observers m))"

text \<open>The value of a map entry: the code reads it with the bounds of the whole message.\<close>

definition string_value :: "byte list \<Rightarrow> int \<Rightarrow> (proto_error + (string \<times> int)) option" where
  "string_value dAtA i =
     (case read_length dAtA i of
        None \<Rightarrow> panic
      | Some (Inl err) \<Rightarrow> Some (Inl err)
      | Some (Inr (i, post)) \<Rightarrow>
          if post < i then panic
          else do { bs \<leftarrow> go_slice dAtA (nat i) (nat post); Some (Inr (bytes_string bs, post)) })"

definition bool_value :: "byte list \<Rightarrow> int \<Rightarrow> (proto_error + (bool \<times> int)) option" where
  "bool_value dAtA i = map_option (map_sum id (\<lambda>(v, i). (v \<noteq> 0, i))) (varint dAtA i 0 0)"

text \<open>One turn of the loop over a map entry. A repeated key is or-ed into the key read before.\<close>

definition map_entry_field ::
  "(byte list \<Rightarrow> int \<Rightarrow> (proto_error + ('v \<times> int)) option) \<Rightarrow> byte list \<Rightarrow> int \<Rightarrow> int \<Rightarrow> u64 \<Rightarrow> 'v
     \<Rightarrow> (proto_error + (int \<times> u64 \<times> 'v)) option" where
  "map_entry_field getv dAtA postIndex entryPreIndex mapkey mapvalue =
     (case varint dAtA entryPreIndex 0 0 of
        None \<Rightarrow> panic
      | Some (Inl err) \<Rightarrow> Some (Inl err)
      | Some (Inr (wire, i)) \<Rightarrow>
          let fieldNum = (ucast (drop_bit 3 wire) :: 32 word) in
          if fieldNum = 1 then map_option (map_sum id (\<lambda>(k, i). (i, k, mapvalue))) (varint dAtA i 0 mapkey)
          else if fieldNum = 2 then map_option (map_sum id (\<lambda>(v, i). (i, mapkey, v))) (getv dAtA i)
          else map_option (map_sum id (\<lambda>i. (i, mapkey, mapvalue))) (skip_field dAtA entryPreIndex postIndex))"

partial_function (option) map_entry_loop ::
  "(byte list \<Rightarrow> int \<Rightarrow> (proto_error + ('v \<times> int)) option) \<Rightarrow> byte list \<Rightarrow> int \<Rightarrow> int \<Rightarrow> u64 \<Rightarrow> 'v \<Rightarrow> (proto_error + (u64 \<times> 'v)) option" where
  "map_entry_loop getv dAtA postIndex i mapkey mapvalue =
     (if i < postIndex then
        (case map_entry_field getv dAtA postIndex i mapkey mapvalue of
           None \<Rightarrow> panic
         | Some (Inl err) \<Rightarrow> Some (Inl err)
         | Some (Inr (i, k, v)) \<Rightarrow> map_entry_loop getv dAtA postIndex i k v)
      else Some (Inr (mapkey, mapvalue)))"

definition map_entry ::
  "(byte list \<Rightarrow> int \<Rightarrow> (proto_error + ('v \<times> int)) option) \<Rightarrow> 'v \<Rightarrow> (u64 \<Rightarrow> 'v \<Rightarrow> 'm \<Rightarrow> 'm)
     \<Rightarrow> byte list \<Rightarrow> int \<Rightarrow> int \<Rightarrow> 'm \<Rightarrow> (proto_error + 'm) option" where
  "map_entry getv zero put dAtA i postIndex m =
     map_option (map_sum id (\<lambda>(k, v). put k v m)) (map_entry_loop getv dAtA postIndex i 0 zero)"

definition Membership_fields :: "membership fields" where
  "Membership_fields fieldNum =
     (if fieldNum = 1 then Some (Num (\<lambda>v m. m\<lparr>mb_ConfigChangeId := v\<rparr>))
      else if fieldNum = 2 then
        Some (Content (map_entry string_value [] (\<lambda>k v m. m\<lparr>mb_Addresses := AList.update k v (mb_Addresses m)\<rparr>)))
      else if fieldNum = 3 then
        Some (Content (map_entry bool_value False (\<lambda>k v m. m\<lparr>mb_Removed := AList.update k v (mb_Removed m)\<rparr>)))
      else if fieldNum = 4 then
        Some (Content (map_entry string_value [] (\<lambda>k v m. m\<lparr>mb_Observers := AList.update k v (mb_Observers m)\<rparr>)))
      else None)"

section \<open>Snapshots\<close>

record file_raw =
  rf_Filepath :: string
  rf_FileSize :: u64
  rf_FileId :: u64
  rf_Metadata :: "byte list option"

record snapshot_raw =
  rs_Filepath :: string
  rs_FileSize :: u64
  rs_Index :: u64
  rs_Term :: u64
  rs_Membership :: membership
  rs_Files :: "file_raw list"

definition file_zero :: file_raw where
  "file_zero = \<lparr>rf_Filepath = [], rf_FileSize = 0, rf_FileId = 0, rf_Metadata = None\<rparr>"

definition snapshot_zero :: snapshot_raw where
  "snapshot_zero = \<lparr>rs_Filepath = [], rs_FileSize = 0, rs_Index = 0, rs_Term = 0, rs_Membership = empty_membership, rs_Files = []\<rparr>"

definition SnapshotFile_MarshalTo :: "file_raw \<Rightarrow> byte list" where
  "SnapshotFile_MarshalTo m =
     string_field 0x12 (rf_Filepath m)
     @ 0x18 # encodeVarintRaft (rf_FileSize m)
     @ 0x20 # encodeVarintRaft (rf_FileId m)
     @ (case rf_Metadata m of None \<Rightarrow> [] | Some bs \<Rightarrow> 0x2a # encodeVarintRaft (of_nat (length bs)) @ bs)"

definition string_size :: "string \<Rightarrow> nat" where
  "string_size s = (let l = length s in 1 + l + sovRaft (of_nat l))"

definition SnapshotFile_Size :: "file_raw \<Rightarrow> nat" where
  "SnapshotFile_Size m =
     string_size (rf_Filepath m) + (1 + sovRaft (rf_FileSize m)) + (1 + sovRaft (rf_FileId m))
     + (case rf_Metadata m of None \<Rightarrow> 0 | Some bs \<Rightarrow> 1 + length bs + sovRaft (of_nat (length bs)))"

definition SnapshotFile_fields :: "file_raw fields" where
  "SnapshotFile_fields fieldNum =
     (if fieldNum = 2 then Some (Content (slice_content (\<lambda>bs m. Some (Inr (m\<lparr>rf_Filepath := bytes_string bs\<rparr>)))))
      else if fieldNum = 3 then Some (Num (\<lambda>v m. m\<lparr>rf_FileSize := v\<rparr>))
      else if fieldNum = 4 then Some (Num (\<lambda>v m. m\<lparr>rf_FileId := v\<rparr>))
      else if fieldNum = 5 then Some (Content (slice_content (\<lambda>bs m. Some (Inr (m\<lparr>rf_Metadata := Some bs\<rparr>)))))
      else None)"

definition sub_size :: "nat \<Rightarrow> nat" where
  "sub_size l = 1 + l + sovRaft (of_nat l)"

definition Snapshot_MarshalTo :: "snapshot_raw \<Rightarrow> byte list" where
  "Snapshot_MarshalTo m =
     string_field 0x12 (rs_Filepath m)
     @ 0x18 # encodeVarintRaft (rs_FileSize m)
     @ 0x20 # encodeVarintRaft (rs_Index m)
     @ 0x28 # encodeVarintRaft (rs_Term m)
     @ 0x32 # encodeVarintRaft (of_nat (Membership_Size (rs_Membership m))) @ Membership_MarshalTo (rs_Membership m)
     @ concat (map (\<lambda>msg. 0x3a # encodeVarintRaft (of_nat (SnapshotFile_Size msg)) @ SnapshotFile_MarshalTo msg) (rs_Files m))"

definition Snapshot_Size :: "snapshot_raw \<Rightarrow> nat" where
  "Snapshot_Size m =
     string_size (rs_Filepath m) + (1 + sovRaft (rs_FileSize m)) + (1 + sovRaft (rs_Index m)) + (1 + sovRaft (rs_Term m))
     + sub_size (Membership_Size (rs_Membership m)) + sum_list (map (\<lambda>e. sub_size (SnapshotFile_Size e)) (rs_Files m))"

text \<open>\<open>m.X.Unmarshal(dAtA[iNdEx:postIndex])\<close> on a message inside the message.\<close>

definition sub_message :: "'a fields \<Rightarrow> ('m \<Rightarrow> 'a) \<Rightarrow> ('a \<Rightarrow> 'm \<Rightarrow> 'm) \<Rightarrow> byte list \<Rightarrow> 'm \<Rightarrow> (proto_error + 'm) option" where
  "sub_message F get put bs m = map_option (map_sum id (\<lambda>a. put a m)) (unmarshal_loop F bs 0 (get m))"

definition Snapshot_fields :: "snapshot_raw fields" where
  "Snapshot_fields fieldNum =
     (if fieldNum = 2 then Some (Content (slice_content (\<lambda>bs m. Some (Inr (m\<lparr>rs_Filepath := bytes_string bs\<rparr>)))))
      else if fieldNum = 3 then Some (Num (\<lambda>v m. m\<lparr>rs_FileSize := v\<rparr>))
      else if fieldNum = 4 then Some (Num (\<lambda>v m. m\<lparr>rs_Index := v\<rparr>))
      else if fieldNum = 5 then Some (Num (\<lambda>v m. m\<lparr>rs_Term := v\<rparr>))
      else if fieldNum = 6 then
        Some (Content (slice_content (sub_message Membership_fields rs_Membership (\<lambda>a m. m\<lparr>rs_Membership := a\<rparr>))))
      else if fieldNum = 7 then
        Some (Content (slice_content (sub_message SnapshotFile_fields (\<lambda>_. file_zero) (\<lambda>a m. m\<lparr>rs_Files := rs_Files m @ [a]\<rparr>))))
      else None)"

section \<open>Batches of entries\<close>

fun entries_bytes :: "byte \<Rightarrow> entry_raw list \<Rightarrow> byte list option" where
  "entries_bytes t [] = Some []"
| "entries_bytes t (e # es) = do {
     size \<leftarrow> Entry_Size e;
     rest \<leftarrow> entries_bytes t es;
     Some (t # encodeVarintRaft (of_nat size) @ Entry_MarshalTo e @ rest) }"

fun entries_size :: "entry_raw list \<Rightarrow> nat option" where
  "entries_size [] = Some 0"
| "entries_size (e # es) = do {
     l \<leftarrow> Entry_Size e;
     n \<leftarrow> entries_size es;
     Some (sub_size l + n) }"

definition EntryBatch_MarshalTo :: "entry_raw list \<Rightarrow> byte list option" where
  "EntryBatch_MarshalTo es = entries_bytes 0xa es"

definition EntryBatch_Size :: "entry_raw list \<Rightarrow> nat option" where
  "EntryBatch_Size es = entries_size es"

definition EntryBatch_SizeUpperLimit :: "entry_raw list \<Rightarrow> nat" where
  "EntryBatch_SizeUpperLimit es = 16 + sum_list (map (\<lambda>e. Entry_SizeUpperLimit e + 16) es)"

text \<open>The entry at the end of the slice, a new one, is decoded.\<close>

definition entry_content :: "(entry_raw \<Rightarrow> 'm \<Rightarrow> 'm) \<Rightarrow> byte list \<Rightarrow> int \<Rightarrow> int \<Rightarrow> 'm \<Rightarrow> (proto_error + 'm) option" where
  "entry_content add = slice_content (\<lambda>bs m. map_option (map_sum id (\<lambda>e. add e m)) (Entry_Unmarshal bs entry_zero))"

definition EntryBatch_fields :: "entry_raw list fields" where
  "EntryBatch_fields fieldNum = (if fieldNum = 1 then Some (Content (entry_content (\<lambda>e es. es @ [e]))) else None)"

definition EntryBatch_Unmarshal :: "byte list \<Rightarrow> (proto_error + entry_raw list) option" where
  "EntryBatch_Unmarshal dAtA = unmarshal_loop EntryBatch_fields dAtA 0 []"

section \<open>Messages\<close>

record message_raw =
  rm_Type :: "32 word"
  rm_To :: u64
  rm_From :: u64
  rm_ClusterId :: u64
  rm_Term :: u64
  rm_LogTerm :: u64
  rm_LogIndex :: u64
  rm_Commit :: u64
  rm_Reject :: bool
  rm_Hint :: u64
  rm_Entries :: "entry_raw list"
  rm_Snapshot :: snapshot_raw
  rm_HintHigh :: u64

definition message_zero :: message_raw where
  "message_zero = \<lparr>rm_Type = 0, rm_To = 0, rm_From = 0, rm_ClusterId = 0, rm_Term = 0, rm_LogTerm = 0, rm_LogIndex = 0,
     rm_Commit = 0, rm_Reject = False, rm_Hint = 0, rm_Entries = [], rm_Snapshot = snapshot_zero, rm_HintHigh = 0\<rparr>"

definition Message_MarshalTo :: "message_raw \<Rightarrow> byte list option" where
  "Message_MarshalTo m = do {
     entries \<leftarrow> entries_bytes 0x5a (rm_Entries m);
     Some (0x8 # encodeVarintRaft (scast (rm_Type m))
       @ 0x10 # encodeVarintRaft (rm_To m)
       @ 0x18 # encodeVarintRaft (rm_From m)
       @ 0x20 # encodeVarintRaft (rm_ClusterId m)
       @ 0x28 # encodeVarintRaft (rm_Term m)
       @ 0x30 # encodeVarintRaft (rm_LogTerm m)
       @ 0x38 # encodeVarintRaft (rm_LogIndex m)
       @ 0x40 # encodeVarintRaft (rm_Commit m)
       @ 0x48 # [if rm_Reject m then 1 else 0]
       @ 0x50 # encodeVarintRaft (rm_Hint m)
       @ entries
       @ 0x62 # encodeVarintRaft (of_nat (Snapshot_Size (rm_Snapshot m))) @ Snapshot_MarshalTo (rm_Snapshot m)
       @ 0x68 # encodeVarintRaft (rm_HintHigh m)) }"

definition Message_Size :: "message_raw \<Rightarrow> nat option" where
  "Message_Size m = do {
     entries \<leftarrow> entries_size (rm_Entries m);
     Some ((1 + sovRaft (scast (rm_Type m))) + (1 + sovRaft (rm_To m)) + (1 + sovRaft (rm_From m)) + (1 + sovRaft (rm_ClusterId m))
       + (1 + sovRaft (rm_Term m)) + (1 + sovRaft (rm_LogTerm m)) + (1 + sovRaft (rm_LogIndex m)) + (1 + sovRaft (rm_Commit m))
       + 2 + (1 + sovRaft (rm_Hint m)) + entries + sub_size (Snapshot_Size (rm_Snapshot m)) + (1 + sovRaft (rm_HintHigh m))) }"

definition Message_SizeUpperLimit :: "message_raw \<Rightarrow> nat" where
  "Message_SizeUpperLimit m = 16 * 12 + Snapshot_Size (rm_Snapshot m) + sum_list (map (\<lambda>e. 16 + Entry_SizeUpperLimit e) (rm_Entries m))"

text \<open>The varint loop of \<open>entryCount\<close> and \<open>messageCount\<close>, without a check of the bounds.\<close>

function count_varint :: "byte list \<Rightarrow> int \<Rightarrow> nat \<Rightarrow> u64 \<Rightarrow> (u64 \<times> int) option" where
  "count_varint dAtA i shift v =
     (if i < 0 \<or> i \<ge> int (length dAtA) then panic
      else
        let b = dAtA ! nat i;
            v = v OR push_bit shift (ucast b AND 0x7F)
        in if b < 0x80 then Some (v, i + 1) else count_varint dAtA (i + 1) (shift + 7) v)"
  by pat_completeness auto
termination
  by (relation "measure (\<lambda>(dAtA, i, _). nat (int (length dAtA) - i))") auto

declare count_varint.simps [simp del]

partial_function (option) count_loop :: "32 word \<Rightarrow> byte list \<Rightarrow> int \<Rightarrow> nat \<Rightarrow> nat option" where
  "count_loop num dAtA iNdEx count =
     (if iNdEx < int (length dAtA) then do {
        (wire, iNdEx) \<leftarrow> count_varint dAtA iNdEx 0 0;
        if ucast (drop_bit 3 wire) = num then do {
          (msglen, iNdEx) \<leftarrow> count_varint dAtA iNdEx 0 0;
          count_loop num dAtA (go_int (iNdEx + sint msglen)) (count + 1) }
        else Some count }
      else Some count)"

definition entryCount :: "byte list \<Rightarrow> nat option" where
  "entryCount dAtA = count_loop 11 dAtA 0 0"

definition messageCount :: "byte list \<Rightarrow> nat option" where
  "messageCount dAtA = count_loop 1 dAtA 0 0"

text \<open>\<open>count(dAtA[postIndex:])\<close>, when the slice is still empty.\<close>

definition count_rest :: "(byte list \<Rightarrow> nat option) \<Rightarrow> bool \<Rightarrow> byte list \<Rightarrow> int \<Rightarrow> nat option" where
  "count_rest count is_empty dAtA postIndex =
     (if \<not> is_empty then Some 0 else if postIndex < 0 then panic else count (drop (nat postIndex) dAtA))"

definition message_entry :: "byte list \<Rightarrow> int \<Rightarrow> int \<Rightarrow> message_raw \<Rightarrow> (proto_error + message_raw) option" where
  "message_entry dAtA i postIndex m = do {
     _ \<leftarrow> count_rest entryCount (rm_Entries m = []) dAtA postIndex;
     entry_content (\<lambda>e m. m\<lparr>rm_Entries := rm_Entries m @ [e]\<rparr>) dAtA i postIndex m }"

definition Message_fields :: "message_raw fields" where
  "Message_fields fieldNum =
     (if fieldNum = 1 then Some (Num (\<lambda>v m. m\<lparr>rm_Type := ucast v\<rparr>))
      else if fieldNum = 2 then Some (Num (\<lambda>v m. m\<lparr>rm_To := v\<rparr>))
      else if fieldNum = 3 then Some (Num (\<lambda>v m. m\<lparr>rm_From := v\<rparr>))
      else if fieldNum = 4 then Some (Num (\<lambda>v m. m\<lparr>rm_ClusterId := v\<rparr>))
      else if fieldNum = 5 then Some (Num (\<lambda>v m. m\<lparr>rm_Term := v\<rparr>))
      else if fieldNum = 6 then Some (Num (\<lambda>v m. m\<lparr>rm_LogTerm := v\<rparr>))
      else if fieldNum = 7 then Some (Num (\<lambda>v m. m\<lparr>rm_LogIndex := v\<rparr>))
      else if fieldNum = 8 then Some (Num (\<lambda>v m. m\<lparr>rm_Commit := v\<rparr>))
      else if fieldNum = 9 then Some (Num (\<lambda>v m. m\<lparr>rm_Reject := (v \<noteq> 0)\<rparr>))
      else if fieldNum = 10 then Some (Num (\<lambda>v m. m\<lparr>rm_Hint := v\<rparr>))
      else if fieldNum = 11 then Some (Content message_entry)
      else if fieldNum = 12 then
        Some (Content (slice_content (sub_message Snapshot_fields rm_Snapshot (\<lambda>a m. m\<lparr>rm_Snapshot := a\<rparr>))))
      else if fieldNum = 13 then Some (Num (\<lambda>v m. m\<lparr>rm_HintHigh := v\<rparr>))
      else None)"

definition Message_Unmarshal :: "byte list \<Rightarrow> (proto_error + message_raw) option" where
  "Message_Unmarshal dAtA = unmarshal_loop Message_fields dAtA 0 message_zero"

section \<open>Batches of messages\<close>

record message_batch =
  bt_Requests :: "message_raw list"
  bt_DeploymentId :: u64
  bt_SourceAddress :: string
  bt_BinVer :: "32 word"

definition batch_zero :: message_batch where
  "batch_zero = \<lparr>bt_Requests = [], bt_DeploymentId = 0, bt_SourceAddress = [], bt_BinVer = 0\<rparr>"

fun requests_bytes :: "message_raw list \<Rightarrow> byte list option" where
  "requests_bytes [] = Some []"
| "requests_bytes (m # ms) = do {
     size \<leftarrow> Message_Size m;
     bs \<leftarrow> Message_MarshalTo m;
     rest \<leftarrow> requests_bytes ms;
     Some (0xa # encodeVarintRaft (of_nat size) @ bs @ rest) }"

fun requests_size :: "message_raw list \<Rightarrow> nat option" where
  "requests_size [] = Some 0"
| "requests_size (m # ms) = do {
     l \<leftarrow> Message_Size m;
     n \<leftarrow> requests_size ms;
     Some (sub_size l + n) }"

definition MessageBatch_MarshalTo :: "message_batch \<Rightarrow> byte list option" where
  "MessageBatch_MarshalTo m = do {
     requests \<leftarrow> requests_bytes (bt_Requests m);
     Some (requests @ 0x10 # encodeVarintRaft (bt_DeploymentId m) @ string_field 0x1a (bt_SourceAddress m)
       @ 0x20 # encodeVarintRaft (ucast (bt_BinVer m))) }"

definition MessageBatch_Size :: "message_batch \<Rightarrow> nat option" where
  "MessageBatch_Size m = do {
     requests \<leftarrow> requests_size (bt_Requests m);
     Some (requests + (1 + sovRaft (bt_DeploymentId m)) + string_size (bt_SourceAddress m) + (1 + sovRaft (ucast (bt_BinVer m)))) }"

definition MessageBatch_SizeUpperLimit :: "message_batch \<Rightarrow> nat" where
  "MessageBatch_SizeUpperLimit m =
     16 * 3 + length (bt_SourceAddress m) + sum_list (map (\<lambda>msg. 16 + Message_SizeUpperLimit msg) (bt_Requests m))"

definition MessageBatch_Marshal :: "message_batch \<Rightarrow> byte list option" where
  "MessageBatch_Marshal m = do {
     size \<leftarrow> MessageBatch_Size m;
     dAtA \<leftarrow> MessageBatch_MarshalTo m;
     if length dAtA > size then panic else Some dAtA }"

definition batch_request :: "byte list \<Rightarrow> int \<Rightarrow> int \<Rightarrow> message_batch \<Rightarrow> (proto_error + message_batch) option" where
  "batch_request dAtA i postIndex m = do {
     _ \<leftarrow> count_rest messageCount (bt_Requests m = []) dAtA postIndex;
     slice_content (sub_message Message_fields (\<lambda>_. message_zero) (\<lambda>r m. m\<lparr>bt_Requests := bt_Requests m @ [r]\<rparr>))
       dAtA i postIndex m }"

definition MessageBatch_fields :: "message_batch fields" where
  "MessageBatch_fields fieldNum =
     (if fieldNum = 1 then Some (Content batch_request)
      else if fieldNum = 2 then Some (Num (\<lambda>v m. m\<lparr>bt_DeploymentId := v\<rparr>))
      else if fieldNum = 3 then Some (Content (slice_content (\<lambda>bs m. Some (Inr (m\<lparr>bt_SourceAddress := bytes_string bs\<rparr>)))))
      else if fieldNum = 4 then Some (Num (\<lambda>v m. m\<lparr>bt_BinVer := ucast v\<rparr>))
      else None)"

definition MessageBatch_Unmarshal :: "byte list \<Rightarrow> (proto_error + message_batch) option" where
  "MessageBatch_Unmarshal dAtA = unmarshal_loop MessageBatch_fields dAtA 0 batch_zero"

end
