(* ===== verification/MessageSpec.thy ===== *)
theory MessageSpec
  imports MessageCodec
begin

text \<open>
  Messages that are encoded are decoded to themselves. \<open>Size\<close> is the length of what \<open>MarshalTo\<close> writes; the maps of a membership
  come back in the order in which they were written; and the functions that count the elements ahead of the decoder stop at the
  first field of another kind.
\<close>

section \<open>Sizes\<close>

lemma length_string_field [simp]: "length (string_field t s) = string_size s"
  by (simp add: string_field_def string_size_def encodeVarintRaft_length Let_def)

lemma length_map_entries [simp]:
  "length (address_bytes t kv) = address_size kv" "length (removed_bytes kr) = removed_size kr"
  by (simp_all add: address_bytes_def address_size_def removed_bytes_def removed_size_def encodeVarintRaft_length
      string_size_def Let_def split: prod.splits)

lemma length_Membership [simp]: "length (Membership_MarshalTo m) = Membership_Size m"
  by (simp add: Membership_MarshalTo_def Membership_Size_def encodeVarintRaft_length length_concat o_def)

lemma length_SnapshotFile [simp]: "length (SnapshotFile_MarshalTo m) = SnapshotFile_Size m"
  by (simp add: SnapshotFile_MarshalTo_def SnapshotFile_Size_def encodeVarintRaft_length split: option.splits)

lemma length_Snapshot [simp]: "length (Snapshot_MarshalTo m) = Snapshot_Size m"
  by (simp add: Snapshot_MarshalTo_def Snapshot_Size_def sub_size_def encodeVarintRaft_length length_concat o_def add_ac)

text \<open>A field whose content is a message.\<close>

definition sub_field :: "byte \<Rightarrow> byte list \<Rightarrow> byte list" where
  "sub_field t bs = t # encodeVarintRaft (of_nat (length bs)) @ bs"

lemma length_sub_field [simp]: "length (sub_field t bs) = sub_size (length bs)"
  by (simp add: sub_field_def sub_size_def encodeVarintRaft_length)

lemma entries_bytes_eq:
  "entries_bytes t es = Some bs \<Longrightarrow>
     bs = concat (map (\<lambda>e. sub_field t (Entry_MarshalTo e)) es) \<and> (\<forall>e\<in>set es. Entry_Size e \<noteq> None)"
proof (induction es arbitrary: bs)
  case (Cons e es)
  then obtain n rest where "Entry_Size e = Some n" "entries_bytes t es = Some rest"
      "bs = t # encodeVarintRaft (of_nat n) @ Entry_MarshalTo e @ rest" by (auto split: Option.bind_splits)
  then show ?case using Cons.IH Entry_MarshalTo_length by (simp add: sub_field_def)
qed simp

lemma entries_size_eq:
  "\<forall>e\<in>set es. Entry_Size e \<noteq> None \<Longrightarrow> entries_size es = Some (length (concat (map (\<lambda>e. sub_field t (Entry_MarshalTo e)) es)))"
proof (induction es)
  case (Cons e es)
  then obtain n where "Entry_Size e = Some n" by auto
  then show ?case using Cons Entry_MarshalTo_length by auto
qed simp

lemma Message_Size_eq: "Message_MarshalTo m = Some bs \<Longrightarrow> Message_Size m = Some (length bs)"
  by (auto simp: Message_MarshalTo_def Message_Size_def sub_size_def encodeVarintRaft_length
      dest!: entries_bytes_eq entries_size_eq [of _ "0x5a"] split: Option.bind_splits)

lemma requests_bytes_eq:
  "requests_bytes ms = Some bs \<Longrightarrow>
     bs = concat (map (\<lambda>m. sub_field 0xa (the (Message_MarshalTo m))) ms) \<and> (\<forall>m\<in>set ms. Message_MarshalTo m \<noteq> None)"
proof (induction ms arbitrary: bs)
  case (Cons m ms)
  then obtain n b rest where "Message_Size m = Some n" "Message_MarshalTo m = Some b" "requests_bytes ms = Some rest"
      "bs = 0xa # encodeVarintRaft (of_nat n) @ b @ rest" by (auto split: Option.bind_splits)
  then show ?case using Cons.IH Message_Size_eq by (simp add: sub_field_def)
qed simp

section \<open>Reading fields\<close>

lemma decodes_slice:
  assumes "F (field_no t) = Some (Content (slice_content g))" and "t < 0x80" and "ucast t AND 7 = (2 :: u64)" and "0 < sint (field_no t)"
    and "length bs < 2 ^ 63 \<Longrightarrow> g bs m = Some (Inr m')"
  shows "decodes F (sub_field t bs) m m'"
  unfolding sub_field_def by (rule decodes_content, rule assms(1)) (simp_all add: assms)

lemma decodes_sub:
  assumes "F (field_no t) = Some (Content (slice_content (sub_message G get put)))"
    and "t < 0x80" and "ucast t AND 7 = (2 :: u64)" and "0 < sint (field_no t)"
    and "decodes G bs (get m) a" and "m' = put a m"
  shows "decodes F (sub_field t bs) m m'"
  by (rule decodes_slice, rule assms(1))
    (simp_all add: assms sub_message_def decodes_Unmarshal [OF assms(5) TrueI])

lemma string_field_sub: "string_field t s = sub_field t (str_bytes s)"
  by (simp add: string_field_def sub_field_def)

section \<open>Map entries\<close>

lemma map_entry_step:
  "i < p \<Longrightarrow> map_entry_field getv d p i k v = Some (Inr (j, k', v')) \<Longrightarrow> map_entry_loop getv d p i k v = map_entry_loop getv d p j k' v'"
  by (subst map_entry_loop.simps) simp

lemma map_entry_end: "map_entry_loop getv d p p k v = Some (Inr (k, v))"
  by (subst map_entry_loop.simps) simp

lemma map_entry_at:
  assumes val: "\<And>pre post. length (pre @ vb @ post) < 2 ^ 63 \<Longrightarrow>
      getv (pre @ vb @ post) (int (length pre)) = Some (Inr (v, int (length pre) + int (length vb)))"
    and t: "t < 0x80" "field_no t = 2" and len: "length (pre @ (0x8 # encodeVarintRaft k @ t # vb) @ post) < 2 ^ 63"
  shows "map_entry getv zero put (pre @ (0x8 # encodeVarintRaft k @ t # vb) @ post) (int (length pre))
      (int (length pre) + int (length (0x8 # encodeVarintRaft k @ t # vb))) m = Some (Inr (put k v m))"
proof -
  let ?d = "pre @ (0x8 # encodeVarintRaft k @ t # vb) @ post" and ?i = "int (length pre)"
  let ?p = "?i + int (length (0x8 # encodeVarintRaft k @ t # vb))" and ?j = "?i + 1 + int (sovRaft k)"
  have "varint ?d ?i 0 0 = Some (Inr (ucast (0x8 :: byte), ?i + 1))"
    by (rule varint_tag) simp_all
  moreover have "varint ?d (?i + 1) 0 0 = Some (Inr (k, ?j))"
    by (rule varint_encode0 [of _ "pre @ [0x8]" _ "t # vb @ post"]) simp_all
  ultimately have 1: "map_entry_field getv ?d ?p ?i 0 zero = Some (Inr (?j, k, zero))"
    by (simp add: map_entry_field_def)
  have "varint ?d ?j 0 0 = Some (Inr (ucast t, ?j + 1))"
    by (rule varint_tag [of _ "pre @ 0x8 # encodeVarintRaft k" _ "vb @ post"]) (simp_all add: t encodeVarintRaft_length)
  moreover have "getv ((pre @ 0x8 # encodeVarintRaft k @ [t]) @ vb @ post) (int (length (pre @ 0x8 # encodeVarintRaft k @ [t])))
      = Some (Inr (v, int (length (pre @ 0x8 # encodeVarintRaft k @ [t])) + int (length vb)))"
    by (rule val) (use len in simp)
  ultimately have 2: "map_entry_field getv ?d ?p ?j k zero = Some (Inr (?p, k, v))"
    using t(2) by (simp add: map_entry_field_def field_no_def encodeVarintRaft_length add_ac)
  have "?i < ?p" "?j < ?p" by (simp_all add: encodeVarintRaft_length)
  from map_entry_step [OF this(1) 1] map_entry_step [OF this(2) 2]
  have "map_entry_loop getv ?d ?p ?i 0 zero = Some (Inr (k, v))" by (simp only: map_entry_end)
  then show ?thesis by (simp add: map_entry_def)
qed

lemma string_value_at:
  assumes "length (pre @ (encodeVarintRaft (of_nat (length s)) @ str_bytes s) @ post) < 2 ^ 63"
  shows "string_value (pre @ (encodeVarintRaft (of_nat (length s)) @ str_bytes s) @ post) (int (length pre))
    = Some (Inr (s, int (length pre) + int (length (encodeVarintRaft (of_nat (length s)) @ str_bytes s))))"
proof -
  let ?e = "encodeVarintRaft (of_nat (length s))"
  let ?d = "pre @ (?e @ str_bytes s) @ post"
  have "read_length ?d (int (length pre)) = Some (Inr (int (length (pre @ ?e)), int (length (pre @ ?e)) + int (length s)))"
    using read_length_encoded [of ?d pre "str_bytes s" post] assms by (simp add: encodeVarintRaft_length)
  moreover have "go_slice ?d (length (pre @ ?e)) (length (pre @ ?e) + length s) = Some (str_bytes s)"
    by (simp add: go_slice_def)
  moreover have "nat (int (length (pre @ ?e)) + int (length s)) = length (pre @ ?e) + length s" by simp
  ultimately show ?thesis by (simp add: string_value_def add.assoc del: length_append nat_add_distrib)
      (simp add: add_ac)
qed

lemma bool_value_at:
  "bool_value (pre @ [if b then 1 else 0] @ post) (int (length pre)) = Some (Inr (b, int (length pre) + int (length [if b then 1 else 0 :: byte])))"
proof -
  have "varint (pre @ [if b then 1 else 0] @ post) (int (length pre)) 0 0 = Some (Inr (ucast (if b then 1 else 0 :: byte), int (length pre) + 1))"
    by (rule varint_tag) simp_all
  then show ?thesis by (cases b) (simp_all add: bool_value_def)
qed

lemma decodes_map_entry:
  assumes "F (field_no t) = Some (Content (map_entry getv zero put))"
    and "t < 0x80" and "ucast t AND 7 = (2 :: u64)" and "0 < sint (field_no t)"
    and "\<And>pre post. length (pre @ vb @ post) < 2 ^ 63 \<Longrightarrow>
      getv (pre @ vb @ post) (int (length pre)) = Some (Inr (v, int (length pre) + int (length vb)))"
    and "t' < 0x80" and "field_no t' = 2"
  shows "decodes F (sub_field t (0x8 # encodeVarintRaft k @ t' # vb)) m (put k v m)"
  unfolding sub_field_def
proof (rule decodes_content [where F = F and t = t and f = "map_entry getv zero put", OF assms(1-4)])
  fix pre post :: "byte list"
  assume len: "length (pre @ (0x8 # encodeVarintRaft k @ t' # vb) @ post) < 2 ^ 63"
  show "map_entry getv zero put (pre @ (0x8 # encodeVarintRaft k @ t' # vb) @ post) (int (length pre))
      (int (length pre) + int (length (0x8 # encodeVarintRaft k @ t' # vb))) m = Some (Inr (put k v m))"
    by (rule map_entry_at, rule assms(5)) (use assms(6,7) len in simp_all)
qed

lemma decodes_address:
  assumes "F (field_no t) = Some (Content (map_entry string_value [] put))"
    and "t < 0x80" and "ucast t AND 7 = (2 :: u64)" and "0 < sint (field_no t)"
  shows "decodes F (address_bytes t kv) m (case kv of (k, v) \<Rightarrow> put k v m)"
proof -
  obtain k v where kv: "kv = (k, v)" by (cases kv)
  have "decodes F (sub_field t (0x8 # encodeVarintRaft k @ 0x12 # encodeVarintRaft (of_nat (length v)) @ str_bytes v)) m (put k v m)"
    by (rule decodes_map_entry [where F = F and t = t and getv = string_value, OF assms string_value_at]) (simp_all add: field_no_def)
  then show ?thesis
    by (simp add: kv address_bytes_def string_field_def sub_field_def Let_def encodeVarintRaft_length add_ac)
qed

lemma decodes_removed:
  assumes "F 3 = Some (Content (map_entry bool_value False put))"
  shows "decodes F (removed_bytes kv) m (case kv of (k, v) \<Rightarrow> put k v m)"
proof -
  obtain k v where kv: "kv = (k, v)" by (cases kv)
  have "decodes F (sub_field 0x1a (0x8 # encodeVarintRaft k @ 0x10 # [if v then 1 else 0])) m (put k v m)"
    by (rule decodes_map_entry [where F = F and t = "0x1a" and getv = bool_value, OF _ _ _ _ bool_value_at]) (simp_all add: field_no_def assms)
  then show ?thesis by (simp add: kv removed_bytes_def sub_field_def Let_def encodeVarintRaft_length add_ac)
qed

text \<open>Reading the entries of a map with distinct keys gives the map, in its order.\<close>

lemma fold_update_id:
  "distinct (map fst (c @ kvs)) \<Longrightarrow> fold (\<lambda>(k, v). AList.update k v) kvs c = c @ kvs"
proof (induction kvs arbitrary: c)
  case (Cons kv kvs)
  obtain k v where kv: "kv = (k, v)" by (cases kv)
  have "AList.update k v c = c @ [(k, v)]" using Cons.prems kv by (intro update_new) auto
  then show ?case using Cons.IH [of "c @ [(k, v)]"] Cons.prems kv by simp
qed simp

lemma decodes_map:
  assumes "\<And>kv m. decodes F (enc kv) m (case kv of (k, v) \<Rightarrow> put k v m)"
    and "\<And>k v c. put k v (setm c) = setm (AList.update k v c)" and "distinct (map fst kvs)"
  shows "decodes F (concat (map enc kvs)) (setm []) (setm kvs)"
proof -
  have "fold (\<lambda>kv m. case kv of (k, v) \<Rightarrow> put k v m) kvs (setm c) = setm (fold (\<lambda>(k, v). AList.update k v) kvs c)" for c
    using assms(2) by (induction kvs arbitrary: c) auto
  then show ?thesis using decodes_concat [of kvs F enc, OF assms(1)] fold_update_id [of "[]" kvs] assms(3) by (metis append_Nil)
qed

section \<open>Snapshots\<close>

definition membership_ok :: "membership \<Rightarrow> bool" where
  "membership_ok m \<longleftrightarrow> gomap_ok (mb_Addresses m) \<and> gomap_ok (mb_Removed m) \<and> gomap_ok (mb_Observers m)"

lemma Membership_decodes:
  assumes "membership_ok m"
  shows "decodes Membership_fields (Membership_MarshalTo m) empty_membership m"
proof -
  let ?F = Membership_fields
  let ?m1 = "empty_membership\<lparr>mb_ConfigChangeId := mb_ConfigChangeId m\<rparr>"
  let ?m2 = "?m1\<lparr>mb_Addresses := mb_Addresses m\<rparr>" let ?m3 = "?m2\<lparr>mb_Removed := mb_Removed m\<rparr>"
  note field = Membership_fields_def field_no_def
  have 1: "decodes ?F (0x08 # encodeVarintRaft (mb_ConfigChangeId m)) empty_membership ?m1"
    by (rule decodes_num, simp add: field) (simp_all add: field)
  have 2: "decodes ?F (concat (map (address_bytes 0x12) (mb_Addresses m))) (?m1\<lparr>mb_Addresses := []\<rparr>) (?m1\<lparr>mb_Addresses := mb_Addresses m\<rparr>)"
    by (rule decodes_map, rule decodes_address, simp add: field) (use assms in \<open>simp_all add: field membership_ok_def\<close>)
  have 3: "decodes ?F (concat (map removed_bytes (mb_Removed m))) (?m2\<lparr>mb_Removed := []\<rparr>) (?m2\<lparr>mb_Removed := mb_Removed m\<rparr>)"
    by (rule decodes_map, rule decodes_removed, simp add: field) (use assms in \<open>simp_all add: field membership_ok_def\<close>)
  have 4: "decodes ?F (concat (map (address_bytes 0x22) (mb_Observers m))) (?m3\<lparr>mb_Observers := []\<rparr>) (?m3\<lparr>mb_Observers := mb_Observers m\<rparr>)"
    by (rule decodes_map, rule decodes_address, simp add: field) (use assms in \<open>simp_all add: field membership_ok_def\<close>)
  have e: "?m1\<lparr>mb_Addresses := []\<rparr> = ?m1" "?m2\<lparr>mb_Removed := []\<rparr> = ?m2" "?m3\<lparr>mb_Observers := []\<rparr> = ?m3"
      "?m3\<lparr>mb_Observers := mb_Observers m\<rparr> = m" by (simp_all add: empty_membership_def)
  show ?thesis
    using decodes_append [OF 1 decodes_append [OF 2 [unfolded e] decodes_append [OF 3 [unfolded e] 4 [unfolded e]]]]
    by (simp add: Membership_MarshalTo_def)
qed

lemma SnapshotFile_decodes: "decodes SnapshotFile_fields (SnapshotFile_MarshalTo m) file_zero m"
proof -
  let ?F = SnapshotFile_fields
  let ?m1 = "file_zero\<lparr>rf_Filepath := rf_Filepath m\<rparr>" let ?m2 = "?m1\<lparr>rf_FileSize := rf_FileSize m\<rparr>"
  let ?m3 = "?m2\<lparr>rf_FileId := rf_FileId m\<rparr>"
  note field = SnapshotFile_fields_def field_no_def
  have 1: "decodes ?F (string_field 0x12 (rf_Filepath m)) file_zero ?m1"
    unfolding string_field_sub by (rule decodes_slice, simp add: field) (simp_all add: field)
  have 2: "decodes ?F (0x18 # encodeVarintRaft (rf_FileSize m)) ?m1 ?m2"
    by (rule decodes_num, simp add: field) (simp_all add: field)
  have 3: "decodes ?F (0x20 # encodeVarintRaft (rf_FileId m)) ?m2 ?m3"
    by (rule decodes_num, simp add: field) (simp_all add: field)
  have 4: "decodes ?F (case rf_Metadata m of None \<Rightarrow> [] | Some bs \<Rightarrow> 0x2a # encodeVarintRaft (of_nat (length bs)) @ bs) ?m3 m"
  proof (cases "rf_Metadata m")
    case None
    then have "?m3 = m" by (simp add: file_zero_def)
    then show ?thesis by (simp add: None)
  next
    case (Some bs)
    then have e: "?m3\<lparr>rf_Metadata := Some bs\<rparr> = m" by (simp add: file_zero_def)
    have "decodes ?F (0x2a # encodeVarintRaft (of_nat (length bs)) @ bs) ?m3 (?m3\<lparr>rf_Metadata := Some bs\<rparr>)"
      by (rule decodes_bytes, simp add: field) (simp_all add: field)
    then show ?thesis unfolding e by (simp add: Some)
  qed
  show ?thesis
    using decodes_append [OF 1 decodes_append [OF 2 decodes_append [OF 3 4]]] by (simp add: SnapshotFile_MarshalTo_def)
qed

lemma Snapshot_decodes:
  assumes "membership_ok (rs_Membership m)"
  shows "decodes Snapshot_fields (Snapshot_MarshalTo m) snapshot_zero m"
proof -
  let ?F = Snapshot_fields
  let ?m1 = "snapshot_zero\<lparr>rs_Filepath := rs_Filepath m\<rparr>" let ?m2 = "?m1\<lparr>rs_FileSize := rs_FileSize m\<rparr>"
  let ?m3 = "?m2\<lparr>rs_Index := rs_Index m\<rparr>" let ?m4 = "?m3\<lparr>rs_Term := rs_Term m\<rparr>"
  let ?m5 = "?m4\<lparr>rs_Membership := rs_Membership m\<rparr>" let ?add = "\<lambda>a m. m\<lparr>rs_Files := rs_Files m @ [a]\<rparr>"
  note field = Snapshot_fields_def field_no_def
  have 1: "decodes ?F (string_field 0x12 (rs_Filepath m)) snapshot_zero ?m1"
    unfolding string_field_sub by (rule decodes_slice, simp add: field) (simp_all add: field)
  have 2: "decodes ?F (0x18 # encodeVarintRaft (rs_FileSize m)) ?m1 ?m2"
    by (rule decodes_num, simp add: field) (simp_all add: field)
  have 3: "decodes ?F (0x20 # encodeVarintRaft (rs_Index m)) ?m2 ?m3"
    by (rule decodes_num, simp add: field) (simp_all add: field)
  have 4: "decodes ?F (0x28 # encodeVarintRaft (rs_Term m)) ?m3 ?m4"
    by (rule decodes_num, simp add: field) (simp_all add: field)
  have z: "rs_Membership ?m4 = empty_membership" by (simp add: snapshot_zero_def)
  have 5: "decodes ?F (sub_field 0x32 (Membership_MarshalTo (rs_Membership m))) ?m4 ?m5"
    by (rule decodes_sub [where get = rs_Membership], simp add: field)
      (simp_all add: field z Membership_decodes [OF assms])
  have f: "decodes ?F (sub_field 0x3a (SnapshotFile_MarshalTo x)) a (?add x a)" for x a
    by (rule decodes_sub [where get = "\<lambda>_. file_zero"], simp add: field) (simp_all add: field SnapshotFile_decodes)
  have 6: "decodes ?F (concat (map (\<lambda>x. sub_field 0x3a (SnapshotFile_MarshalTo x)) (rs_Files m))) ?m5 (fold ?add (rs_Files m) ?m5)"
    by (rule decodes_concat) (rule f)
  have "fold ?add xs (a\<lparr>rs_Files := ys\<rparr>) = a\<lparr>rs_Files := ys @ xs\<rparr>" for xs ys and a :: snapshot_raw
    by (induction xs arbitrary: ys) simp_all
  from this [of "rs_Files m" "[]" ?m5] have e: "fold ?add (rs_Files m) ?m5 = m" by (simp add: snapshot_zero_def)
  show ?thesis
    using decodes_append [OF 1 decodes_append [OF 2 decodes_append [OF 3 decodes_append [OF 4 decodes_append [OF 5 6 [unfolded e]]]]]]
    by (simp add: Snapshot_MarshalTo_def sub_field_def)
qed

section \<open>Counting ahead\<close>

lemma count_varint_varint: "varint dAtA i shift v = Some (Inr (w, j)) \<Longrightarrow> count_varint dAtA i shift v = Some (w, j)"
proof (induction dAtA i shift v rule: varint.induct)
  case (1 dAtA i shift v)
  note step = "1.prems" [unfolded varint.simps [of dAtA i]]
  show ?case
    using step "1.IH" by (subst count_varint.simps) (auto simp: Let_def split: if_splits)
qed

lemma count_skip:
  assumes "field_no t = num" and "t < 0x80" and len: "length (pre @ sub_field t bs @ post) < 2 ^ 63"
  shows "count_loop num (pre @ sub_field t bs @ post) (int (length pre)) n
    = count_loop num (pre @ sub_field t bs @ post) (int (length (pre @ sub_field t bs))) (n + 1)"
proof -
  let ?d = "pre @ sub_field t bs @ post" and ?n = "of_nat (length bs) :: u64"
  have 1: "count_varint ?d (int (length pre)) 0 0 = Some (ucast t, int (length pre) + 1)"
    by (rule count_varint_varint, rule varint_tag) (use assms(2) in \<open>simp_all add: sub_field_def\<close>)
  have 2: "count_varint ?d (int (length pre) + 1) 0 0 = Some (?n, int (length pre) + 1 + int (sovRaft ?n))"
    by (rule count_varint_varint, rule varint_encode0 [of _ "pre @ [t]" _ "bs @ post"]) (simp_all add: sub_field_def)
  have "int (length bs) < 2 ^ 63" using len by (simp add: sub_size_def)
  then have "sint ?n = int (length bs)" using go_int_small [of "int (length bs)"] by (simp add: go_int_def)
  moreover have "go_int (int (length (pre @ sub_field t bs))) = int (length (pre @ sub_field t bs))"
    by (rule go_int_small) (use len in simp_all)
  ultimately have "go_int (int (length pre) + 1 + int (sovRaft ?n) + sint ?n) = int (length (pre @ sub_field t bs))"
    by (simp add: sub_size_def add_ac)
  moreover have "int (length pre) < int (length ?d)" by (simp add: sub_size_def)
  ultimately show ?thesis
    using 1 2 assms(1) by (subst count_loop.simps) (simp add: field_no_def)
qed

lemma count_stop:
  assumes "field_no t \<noteq> num" and "t < 0x80"
  shows "count_loop num (pre @ t # post) (int (length pre)) n = Some n"
proof -
  have "count_varint (pre @ t # post) (int (length pre)) 0 0 = Some (ucast t, int (length pre) + 1)"
    by (rule count_varint_varint, rule varint_tag) (use assms(2) in simp_all)
  then show ?thesis using assms(1) by (subst count_loop.simps) (simp add: field_no_def)
qed

text \<open>\<open>other_field num post\<close>: a field with another number than \<open>num\<close> comes next.\<close>

definition other_field :: "32 word \<Rightarrow> byte list \<Rightarrow> bool" where
  "other_field num post \<longleftrightarrow> (\<exists>t rest. post = t # rest \<and> t < 0x80 \<and> field_no t \<noteq> num)"

lemma count_fields:
  assumes "field_no t = num" and "t < 0x80" and "other_field num post"
    and "length (pre @ concat (map (\<lambda>x. sub_field t (enc x)) xs) @ post) < 2 ^ 63"
  shows "count_loop num (pre @ concat (map (\<lambda>x. sub_field t (enc x)) xs) @ post) (int (length pre)) n = Some (n + length xs)"
  using assms(4)
proof (induction xs arbitrary: pre n)
  case Nil
  then show ?case using assms(3) count_stop by (auto simp: other_field_def)
next
  case (Cons x xs)
  let ?rest = "concat (map (\<lambda>x. sub_field t (enc x)) xs) @ post"
  have "length (pre @ sub_field t (enc x) @ ?rest) < 2 ^ 63" using Cons.prems by simp
  from count_skip [OF assms(1,2) this] Cons.IH [of "pre @ sub_field t (enc x)" "n + 1"] Cons.prems
  show ?case by simp
qed

lemma decodes_counted:
  fixes num :: "32 word"
  assumes F: "F (field_no t) = Some (Content (\<lambda>dAtA i p m. do {
        _ \<leftarrow> count_rest (\<lambda>d. count_loop num d 0 0) (get m = []) dAtA p;
        slice_content g dAtA i p m }))"
    and t: "t < 0x80" "ucast t AND 7 = (2 :: u64)" "0 < sint (field_no t)" "field_no t = num"
    and g: "\<And>x m. x \<in> set xs \<Longrightarrow> length (enc x) < 2 ^ 63 \<Longrightarrow> g (enc x) m = Some (Inr (add x m))"
  shows "decodes_to (other_field num) F (concat (map (\<lambda>x. sub_field t (enc x)) xs)) m (fold add xs m)"
  using g
proof (induction xs arbitrary: m)
  case (Cons x xs)
  let ?P = "\<lambda>post. length post < 2 ^ 63 \<longrightarrow> count_loop num post 0 0 \<noteq> None"
  have "decodes_to ?P F (sub_field t (enc x)) m (add x m)"
    unfolding sub_field_def
  proof (rule decodes_content [where F = F and t = t, OF F t(1-3)])
    fix pre post :: "byte list"
    assume p: "?P post" and len: "length (pre @ enc x @ post) < 2 ^ 63"
    have "nat (int (length pre) + int (length (enc x))) = length (pre @ enc x)" by simp
    then obtain n where "count_rest (\<lambda>d. count_loop num d 0 0) (get m = []) (pre @ enc x @ post) (int (length pre) + int (length (enc x))) = Some n"
      using p len by (cases "get m = []") (auto simp: count_rest_def)
    then show "do { _ \<leftarrow> count_rest (\<lambda>d. count_loop num d 0 0) (get m = []) (pre @ enc x @ post) (int (length pre) + int (length (enc x)));
        slice_content g (pre @ enc x @ post) (int (length pre)) (int (length pre) + int (length (enc x))) m } = Some (Inr (add x m))"
      using Cons.prems [of x m] len by simp
  qed
  moreover have "decodes_to (other_field num) F (concat (map (\<lambda>x. sub_field t (enc x)) xs)) (add x m) (fold add xs (add x m))"
    by (rule Cons.IH) (use Cons.prems in simp)
  moreover have "?P (concat (map (\<lambda>x. sub_field t (enc x)) xs) @ post)" if "other_field num post" for post
    using count_fields [OF t(4,1) that, of "[]" enc xs 0] by simp
  ultimately show ?case by (simp add: decodes_to_append)
qed simp

section \<open>Messages\<close>

lemma ucast_sign: "ucast (scast (t :: 32 word) :: u64) = t" "ucast (ucast t :: u64) = t"
  by (rule bit_word_eqI; auto simp: bit_simps)+

text \<open>What a message needs to come back: maps are maps, and the entries are below the size limit.\<close>

definition entry_fits :: "entry_raw \<Rightarrow> bool" where
  "entry_fits e \<longleftrightarrow> (case Entry_Size e of None \<Rightarrow> False | Some n \<Rightarrow> n < ColferSizeMax)"

definition message_ok :: "message_raw \<Rightarrow> bool" where
  "message_ok m \<longleftrightarrow> membership_ok (rs_Membership (rm_Snapshot m)) \<and> list_all entry_fits (rm_Entries m)"

lemma Entry_decode_fits: "entry_fits e \<Longrightarrow> Entry_Unmarshal (Entry_MarshalTo e) entry_zero = Some (Inr e)"
  by (auto simp: entry_fits_def Entry_decode split: option.splits)

lemma message_entries_decodes:
  assumes "list_all entry_fits es" and "rm_Entries m = []"
  shows "decodes_to (other_field 11) Message_fields (concat (map (\<lambda>e. sub_field 0x5a (Entry_MarshalTo e)) es)) m (m\<lparr>rm_Entries := es\<rparr>)"
proof -
  let ?add = "\<lambda>e m. m\<lparr>rm_Entries := rm_Entries m @ [e]\<rparr>"
  let ?g = "\<lambda>bs m. map_option (map_sum id (\<lambda>e. ?add e m)) (Entry_Unmarshal bs entry_zero)"
  have "Message_fields (field_no 0x5a) = Some (Content (\<lambda>dAtA i p m. do {
      _ \<leftarrow> count_rest (\<lambda>d. count_loop 11 d 0 0) (rm_Entries m = []) dAtA p; slice_content ?g dAtA i p m }))"
    by (simp add: Message_fields_def field_no_def message_entry_def entryCount_def [abs_def] entry_content_def fun_eq_iff)
  then have "decodes_to (other_field 11) Message_fields (concat (map (\<lambda>e. sub_field 0x5a (Entry_MarshalTo e)) es)) m (fold ?add es m)"
    by (rule decodes_counted) (use assms(1) in \<open>simp_all add: field_no_def list_all_iff Entry_decode_fits\<close>)
  moreover have f: "fold ?add xs (a\<lparr>rm_Entries := ys\<rparr>) = a\<lparr>rm_Entries := ys @ xs\<rparr>" for xs ys and a :: message_raw
    by (induction xs arbitrary: ys) simp_all
  have z: "m\<lparr>rm_Entries := []\<rparr> = m" using assms(2) by (cases m) simp
  ultimately show ?thesis using f [of es "[]" m, unfolded z append_Nil] by simp
qed

lemma Message_decodes:
  assumes enc: "Message_MarshalTo m = Some bs" and ok: "message_ok m"
  shows "decodes Message_fields bs message_zero m"
proof -
  let ?F = Message_fields
  let ?m1 = "message_zero\<lparr>rm_Type := rm_Type m\<rparr>" let ?m2 = "?m1\<lparr>rm_To := rm_To m\<rparr>" let ?m3 = "?m2\<lparr>rm_From := rm_From m\<rparr>"
  let ?m4 = "?m3\<lparr>rm_ClusterId := rm_ClusterId m\<rparr>" let ?m5 = "?m4\<lparr>rm_Term := rm_Term m\<rparr>" let ?m6 = "?m5\<lparr>rm_LogTerm := rm_LogTerm m\<rparr>"
  let ?m7 = "?m6\<lparr>rm_LogIndex := rm_LogIndex m\<rparr>" let ?m8 = "?m7\<lparr>rm_Commit := rm_Commit m\<rparr>" let ?m9 = "?m8\<lparr>rm_Reject := rm_Reject m\<rparr>"
  let ?m10 = "?m9\<lparr>rm_Hint := rm_Hint m\<rparr>" let ?m11 = "?m10\<lparr>rm_Entries := rm_Entries m\<rparr>"
  let ?m12 = "?m11\<lparr>rm_Snapshot := rm_Snapshot m\<rparr>"
  note field = Message_fields_def field_no_def
  have 1: "decodes ?F (0x8 # encodeVarintRaft (scast (rm_Type m))) message_zero ?m1"
    by (rule decodes_num, simp add: field) (simp_all add: field ucast_sign)
  have 2: "decodes ?F (0x10 # encodeVarintRaft (rm_To m)) ?m1 ?m2" by (rule decodes_num, simp add: field) (simp_all add: field)
  have 3: "decodes ?F (0x18 # encodeVarintRaft (rm_From m)) ?m2 ?m3" by (rule decodes_num, simp add: field) (simp_all add: field)
  have 4: "decodes ?F (0x20 # encodeVarintRaft (rm_ClusterId m)) ?m3 ?m4" by (rule decodes_num, simp add: field) (simp_all add: field)
  have 5: "decodes ?F (0x28 # encodeVarintRaft (rm_Term m)) ?m4 ?m5" by (rule decodes_num, simp add: field) (simp_all add: field)
  have 6: "decodes ?F (0x30 # encodeVarintRaft (rm_LogTerm m)) ?m5 ?m6" by (rule decodes_num, simp add: field) (simp_all add: field)
  have 7: "decodes ?F (0x38 # encodeVarintRaft (rm_LogIndex m)) ?m6 ?m7" by (rule decodes_num, simp add: field) (simp_all add: field)
  have 8: "decodes ?F (0x40 # encodeVarintRaft (rm_Commit m)) ?m7 ?m8" by (rule decodes_num, simp add: field) (simp_all add: field)
  have 9: "decodes ?F (0x48 # encodeVarintRaft (if rm_Reject m then 1 else 0)) ?m8 ?m9"
    by (rule decodes_num, simp add: field) (simp_all add: field)
  have 10: "decodes ?F (0x50 # encodeVarintRaft (rm_Hint m)) ?m9 ?m10" by (rule decodes_num, simp add: field) (simp_all add: field)
  let ?es = "concat (map (\<lambda>e. sub_field 0x5a (Entry_MarshalTo e)) (rm_Entries m))"
  let ?ss = "sub_field 0x62 (Snapshot_MarshalTo (rm_Snapshot m))"
  have 11: "decodes_to (other_field 11) ?F ?es ?m10 ?m11"
    by (rule message_entries_decodes) (use ok in \<open>simp_all add: message_ok_def message_zero_def\<close>)
  have z: "rm_Snapshot ?m11 = snapshot_zero" by (simp add: message_zero_def)
  have 12: "decodes ?F ?ss ?m11 ?m12"
    by (rule decodes_sub [where get = rm_Snapshot], simp add: field)
      (use ok in \<open>simp_all add: field z message_ok_def Snapshot_decodes\<close>)
  have 13: "decodes ?F (0x68 # encodeVarintRaft (rm_HintHigh m)) ?m12 m"
    by (rule decodes_num, simp add: field) (simp_all add: field message_zero_def)
  have "other_field 11 ((?ss @ 0x68 # encodeVarintRaft (rm_HintHigh m)) @ post)" for post
    by (simp add: other_field_def sub_field_def field_no_def)
  then have tail: "decodes ?F (?es @ ?ss @ 0x68 # encodeVarintRaft (rm_HintHigh m)) ?m10 m"
    by (rule decodes_to_append [OF 11 decodes_append [OF 12 13]])
  have "entries_bytes 0x5a (rm_Entries m) = Some ?es"
    using enc entries_bytes_eq by (auto simp: Message_MarshalTo_def split: Option.bind_splits)
  then show ?thesis
    using decodes_append [OF 1 decodes_append [OF 2 decodes_append [OF 3 decodes_append [OF 4 decodes_append [OF 5
      decodes_append [OF 6 decodes_append [OF 7 decodes_append [OF 8 decodes_append [OF 9 decodes_append [OF 10 tail]]]]]]]]]] enc
    by (simp add: Message_MarshalTo_def encode_bool sub_field_def)
qed

lemma batch_requests_decodes:
  assumes "list_all message_ok ms" and "\<forall>m\<in>set ms. Message_MarshalTo m \<noteq> None" and "bt_Requests b = []"
  shows "decodes_to (other_field 1) MessageBatch_fields (concat (map (\<lambda>m. sub_field 0xa (the (Message_MarshalTo m))) ms)) b
    (b\<lparr>bt_Requests := ms\<rparr>)"
proof -
  let ?add = "\<lambda>r m. m\<lparr>bt_Requests := bt_Requests m @ [r]\<rparr>"
  let ?g = "sub_message Message_fields (\<lambda>_. message_zero) ?add"
  have F: "MessageBatch_fields (field_no 0xa) = Some (Content (\<lambda>dAtA i p m. do {
      _ \<leftarrow> count_rest (\<lambda>d. count_loop 1 d 0 0) (bt_Requests m = []) dAtA p; slice_content ?g dAtA i p m }))"
    by (simp add: MessageBatch_fields_def field_no_def batch_request_def messageCount_def [abs_def] fun_eq_iff)
  have g: "?g (the (Message_MarshalTo x)) b = Some (Inr (?add x b))"
    if x: "x \<in> set ms" and len: "length (the (Message_MarshalTo x)) < 2 ^ 63" for x b
  proof -
    obtain bs where bs: "Message_MarshalTo x = Some bs" using x assms(2) by auto
    have "message_ok x" using x assms(1) by (simp add: list_all_iff)
    from decodes_Unmarshal [OF Message_decodes [OF bs this] TrueI] len bs show ?thesis by (simp add: sub_message_def)
  qed
  have "decodes_to (other_field 1) MessageBatch_fields (concat (map (\<lambda>m. sub_field 0xa (the (Message_MarshalTo m))) ms)) b (fold ?add ms b)"
    by (rule decodes_counted [where F = MessageBatch_fields and t = "0xa", OF F]) (simp_all add: field_no_def g)
  moreover have f: "fold ?add xs (a\<lparr>bt_Requests := ys\<rparr>) = a\<lparr>bt_Requests := ys @ xs\<rparr>" for xs ys and a :: message_batch
    by (induction xs arbitrary: ys) simp_all
  have z: "b\<lparr>bt_Requests := []\<rparr> = b" using assms(3) by (cases b) simp
  ultimately show ?thesis using f [of ms "[]" b, unfolded z append_Nil] by simp
qed

lemma MessageBatch_decodes:
  assumes enc: "MessageBatch_MarshalTo b = Some bs" and ok: "list_all message_ok (bt_Requests b)"
  shows "decodes MessageBatch_fields bs batch_zero b"
proof -
  let ?F = MessageBatch_fields
  let ?b1 = "batch_zero\<lparr>bt_Requests := bt_Requests b\<rparr>" let ?b2 = "?b1\<lparr>bt_DeploymentId := bt_DeploymentId b\<rparr>"
  let ?b3 = "?b2\<lparr>bt_SourceAddress := bt_SourceAddress b\<rparr>"
  let ?rs = "concat (map (\<lambda>m. sub_field 0xa (the (Message_MarshalTo m))) (bt_Requests b))"
  note field = MessageBatch_fields_def field_no_def
  have rs: "requests_bytes (bt_Requests b) = Some ?rs" "\<forall>m\<in>set (bt_Requests b). Message_MarshalTo m \<noteq> None"
    using enc requests_bytes_eq by (auto simp: MessageBatch_MarshalTo_def split: Option.bind_splits)
  have 1: "decodes_to (other_field 1) ?F ?rs batch_zero ?b1"
    by (rule batch_requests_decodes [OF ok rs(2)]) (simp add: batch_zero_def)
  have 2: "decodes ?F (0x10 # encodeVarintRaft (bt_DeploymentId b)) ?b1 ?b2" by (rule decodes_num, simp add: field) (simp_all add: field)
  have 3: "decodes ?F (string_field 0x1a (bt_SourceAddress b)) ?b2 ?b3"
    unfolding string_field_sub by (rule decodes_slice, simp add: field) (simp_all add: field)
  have 4: "decodes ?F (0x20 # encodeVarintRaft (ucast (bt_BinVer b))) ?b3 b"
    by (rule decodes_num, simp add: field) (simp_all add: field batch_zero_def ucast_sign)
  have "decodes ?F (?rs @ (0x10 # encodeVarintRaft (bt_DeploymentId b)) @ string_field 0x1a (bt_SourceAddress b)
      @ 0x20 # encodeVarintRaft (ucast (bt_BinVer b))) batch_zero b"
    by (rule decodes_to_append [OF 1 decodes_append [OF 2 decodes_append [OF 3 4]]]) (simp add: other_field_def field_no_def)
  then show ?thesis using enc rs(1) by (simp add: MessageBatch_MarshalTo_def)
qed

lemma requests_size_eq:
  "\<forall>m\<in>set ms. Message_MarshalTo m \<noteq> None \<Longrightarrow>
     requests_size ms = Some (length (concat (map (\<lambda>m. sub_field 0xa (the (Message_MarshalTo m))) ms)))"
proof (induction ms)
  case (Cons m ms)
  then obtain bs where "Message_MarshalTo m = Some bs" by auto
  then show ?case using Cons Message_Size_eq by auto
qed simp

lemma MessageBatch_Size_eq: "MessageBatch_MarshalTo b = Some bs \<Longrightarrow> MessageBatch_Size b = Some (length bs)"
  by (auto simp: MessageBatch_MarshalTo_def MessageBatch_Size_def encodeVarintRaft_length
      dest!: requests_bytes_eq requests_size_eq split: Option.bind_splits)

lemma MessageBatch_Marshal_eq: "MessageBatch_Marshal b = MessageBatch_MarshalTo b"
proof (cases "MessageBatch_MarshalTo b")
  case None
  then show ?thesis by (auto simp: MessageBatch_Marshal_def split: Option.bind_splits)
next
  case (Some bs)
  then show ?thesis using MessageBatch_Size_eq [OF Some] by (simp add: MessageBatch_Marshal_def)
qed

section \<open>Upper limits of the sizes\<close>

lemma sub_size_le: "sub_size l \<le> 11 + l"
  using sovRaft_le [of "of_nat l"] by (simp add: sub_size_def)

lemma entries_size_limit: "entries_size es = Some n \<Longrightarrow> n \<le> sum_list (map (\<lambda>e. 16 + Entry_SizeUpperLimit e) es)"
proof (induction es arbitrary: n)
  case (Cons e es)
  then obtain l k where l: "Entry_Size e = Some l" "entries_size es = Some k" "n = sub_size l + k" by (auto split: Option.bind_splits)
  with Cons.IH [OF l(2)] Entry_Size_limit [OF l(1)] sub_size_le [of l] show ?case by simp
qed simp

lemma EntryBatch_Size_limit: "EntryBatch_Size es = Some n \<Longrightarrow> n \<le> EntryBatch_SizeUpperLimit es"
  using entries_size_limit [of es n] by (simp add: EntryBatch_Size_def EntryBatch_SizeUpperLimit_def add.commute)

lemma Message_Size_limit: "Message_Size m = Some n \<Longrightarrow> n \<le> Message_SizeUpperLimit m"
proof -
  assume "Message_Size m = Some n"
  then obtain k where k: "entries_size (rm_Entries m) = Some k" and n: "Some n = Message_Size m"
    by (auto simp: Message_Size_def split: Option.bind_splits)
  note s = sovRaft_le [of "scast (rm_Type m)"] sovRaft_le [of "rm_To m"] sovRaft_le [of "rm_From m"] sovRaft_le [of "rm_ClusterId m"]
    sovRaft_le [of "rm_Term m"] sovRaft_le [of "rm_LogTerm m"] sovRaft_le [of "rm_LogIndex m"] sovRaft_le [of "rm_Commit m"]
    sovRaft_le [of "rm_Hint m"] sovRaft_le [of "rm_HintHigh m"]
  show ?thesis
    using n s entries_size_limit [OF k] sub_size_le [of "Snapshot_Size (rm_Snapshot m)"]
    by (simp add: Message_Size_def k Message_SizeUpperLimit_def)
qed

lemma requests_size_limit: "requests_size ms = Some n \<Longrightarrow> n \<le> sum_list (map (\<lambda>m. 16 + Message_SizeUpperLimit m) ms)"
proof (induction ms arbitrary: n)
  case (Cons m ms)
  then obtain l k where l: "Message_Size m = Some l" "requests_size ms = Some k" "n = sub_size l + k" by (auto split: Option.bind_splits)
  with Cons.IH [OF l(2)] Message_Size_limit [OF l(1)] sub_size_le [of l] show ?case by simp
qed simp

lemma MessageBatch_Size_limit: "MessageBatch_Size b = Some n \<Longrightarrow> n \<le> MessageBatch_SizeUpperLimit b"
proof -
  assume n: "MessageBatch_Size b = Some n"
  then obtain k where k: "requests_size (bt_Requests b) = Some k" by (auto simp: MessageBatch_Size_def split: Option.bind_splits)
  show ?thesis
    using n requests_size_limit [OF k] sovRaft_le [of "bt_DeploymentId b"] sovRaft_le [of "of_nat (length (bt_SourceAddress b))"]
      sovRaft_le [of "ucast (bt_BinVer b)"]
    by (simp add: MessageBatch_Size_def k MessageBatch_SizeUpperLimit_def string_size_def Let_def)
qed

end
