(* ===== verification/CodecProps.thy ===== *)
theory CodecProps
  imports MessageSpec
begin

text \<open>
  The properties of the codec between hosts, and a sample batch on which the witnesses evaluate them.
\<close>

lemma entries_bytes_total: "list_all entry_fits es \<Longrightarrow> \<exists>bs. entries_bytes t es = Some bs"
  by (induction es) (auto simp: entry_fits_def split: option.splits)

lemma Message_MarshalTo_total: "message_ok m \<Longrightarrow> \<exists>bs. Message_MarshalTo m = Some bs"
  using entries_bytes_total [of "rm_Entries m" "0x5a"] by (auto simp: Message_MarshalTo_def message_ok_def)

lemma requests_bytes_total: "list_all message_ok ms \<Longrightarrow> \<exists>bs. requests_bytes ms = Some bs"
proof (induction ms)
  case (Cons m ms)
  then obtain bs rest where "Message_MarshalTo m = Some bs" "requests_bytes ms = Some rest"
    using Message_MarshalTo_total [of m] by auto
  then show ?case using Message_Size_eq by simp
qed simp

text \<open>
  C10. Whatever a host sends arrives: a batch of messages whose maps have distinct keys and whose
  entries stay below the size limit is encoded without a panic, in as many bytes as \<open>Size\<close> announces and never more than the buffer of \<open>SizeUpperLimit\<close> bytes
  that the TCP transport provides. Decoding the bytes gives the batch again: all messages in order, with all entries, snapshots,
  memberships and files.
\<close>

theorem message_batch_roundtrip:
  assumes "list_all message_ok (bt_Requests b)"
  shows "\<exists>bs. MessageBatch_Marshal b = Some bs \<and> MessageBatch_Size b = Some (length bs) \<and> length bs \<le> MessageBatch_SizeUpperLimit b
    \<and> (length bs < 2 ^ 63 \<longrightarrow> MessageBatch_Unmarshal bs = Some (Inr b))"
proof -
  obtain bs where bs: "MessageBatch_MarshalTo b = Some bs"
    using requests_bytes_total [OF assms] by (auto simp: MessageBatch_MarshalTo_def)
  from decodes_Unmarshal [OF MessageBatch_decodes [OF bs assms] TrueI] bs MessageBatch_Size_eq [OF bs]
    MessageBatch_Size_limit [OF MessageBatch_Size_eq [OF bs]] show ?thesis
    by (simp add: MessageBatch_Marshal_eq MessageBatch_Unmarshal_def)
qed

definition demo_message :: message_raw where
  "demo_message = message_zero\<lparr>rm_Type := 12, rm_To := 2, rm_From := 1, rm_Term := 3, rm_LogIndex := 300,
     rm_Entries := [entry_zero\<lparr>re_Term := 3, re_Index := 301, re_Type := 1, re_Cmd := [1, 2, 3]\<rparr>, entry_zero],
     rm_Snapshot := snapshot_zero\<lparr>rs_Membership := empty_membership\<lparr>mb_Addresses := [(1, ''a1''), (2, ''a2'')], mb_Removed := [(3, True)]\<rparr>,
       rs_Files := [file_zero\<lparr>rf_Metadata := Some []\<rparr>]\<rparr>\<rparr>"

definition demo_batch :: message_batch where
  "demo_batch = batch_zero\<lparr>bt_Requests := [demo_message, message_zero], bt_SourceAddress := ''host'', bt_BinVer := 7\<rparr>"

lemma small_sizes: "v < 0x80 \<Longrightarrow> sovRaft v = 1" "v < 0x80 \<Longrightarrow> size_loop v = 0" "sovRaft 300 = 2" "size_loop 301 = 1"
proof -
  show "v < 0x80 \<Longrightarrow> sovRaft v = 1" by (simp add: sovRaft.simps drop_bit_7_zero)
  show "v < 0x80 \<Longrightarrow> size_loop v = 0" by (simp add: size_loop.simps not_le [symmetric])
  show "sovRaft 300 = 2" "size_loop 301 = 1" by code_simp+
qed

lemmas entry_sizes = Entry_Size_def size_u64_def size_type_def type_abs_def size_cmd_def small_sizes ColferSizeMax_def entry_zero_def

lemma demo_messages_ok: "list_all message_ok (bt_Requests demo_batch)"
  by (simp add: demo_batch_def demo_message_def message_ok_def membership_ok_def message_zero_def snapshot_zero_def
      empty_membership_def batch_zero_def entry_fits_def entry_sizes)

theorem message_batch_roundtrip_witness:
  "\<exists>bs. MessageBatch_Marshal demo_batch = Some bs \<and> length bs = 137 \<and> MessageBatch_Unmarshal bs = Some (Inr demo_batch)"
proof -
  have "MessageBatch_Size demo_batch = Some 137"
    by (simp add: demo_batch_def demo_message_def message_zero_def snapshot_zero_def empty_membership_def batch_zero_def file_zero_def
        MessageBatch_Size_def Message_Size_def Snapshot_Size_def SnapshotFile_Size_def Membership_Size_def sub_size_def string_size_def
        address_size_def removed_size_def entry_sizes)
  then show ?thesis using message_batch_roundtrip [OF demo_messages_ok] by auto
qed

lemma varint_cut: "varint (pre @ [0x80]) (int (length pre)) 0 0 = Some (Inl proto_error.ErrUnexpectedEOF)"
  by (subst varint.simps, subst varint.simps) (simp add: Let_def)

lemma Entry_fits_length: "entry_fits e \<Longrightarrow> length (Entry_MarshalTo e) < 2 ^ 28"
  using Entry_MarshalTo_length by (fastforce simp: entry_fits_def ColferSizeMax_def split: option.splits)

lemma EntryBatch_cut:
  assumes "entry_fits e"
  shows "EntryBatch_Unmarshal (sub_field 0xa (Entry_MarshalTo e) @ [0x80]) = Some (Inl proto_error.ErrUnexpectedEOF)"
proof -
  let ?f = "sub_field 0xa (Entry_MarshalTo e)"
  have len: "length ?f + 1 < 2 ^ 63"
    using Entry_fits_length [OF assms] sovRaft_le [of "of_nat (length (Entry_MarshalTo e))"] by (simp add: sub_size_def)
  have "decodes EntryBatch_fields ?f [] [e]"
    by (rule decodes_slice, simp add: EntryBatch_fields_def field_no_def entry_content_def)
      (simp_all add: field_no_def Entry_decode_fits [OF assms])
  from decodes_toD [OF this TrueI, of "[]" "[0x80]"] len
  have "EntryBatch_Unmarshal (?f @ [0x80]) = unmarshal_loop EntryBatch_fields (?f @ [0x80]) (int (length ?f)) [e]"
    by (simp add: EntryBatch_Unmarshal_def)
  also have "\<dots> = Some (Inl proto_error.ErrUnexpectedEOF)"
    by (subst unmarshal_loop.simps) (simp add: unmarshal_field_def varint_cut del: length_sub_field)
  finally show ?thesis .
qed

lemma Message_cut:
  assumes "entry_fits e"
  shows "Message_Unmarshal (sub_field 0x5a (Entry_MarshalTo e) @ [0x80]) = panic"
proof -
  let ?bs = "Entry_MarshalTo e" let ?n = "of_nat (length ?bs) :: u64"
  let ?d = "sub_field 0x5a ?bs @ [0x80]"
  have len: "length ?d < 2 ^ 63" using Entry_fits_length [OF assms] sovRaft_le [of ?n] by (simp add: sub_size_def)
  have "varint ?d 0 0 0 = Some (Inr (0x5a, 1))"
    using varint_tag [of ?d "[]" "0x5a" "encodeVarintRaft ?n @ ?bs @ [0x80]" 0] by (simp add: sub_field_def)
  moreover have "read_length ?d 1 = Some (Inr (1 + int (sovRaft ?n), 1 + int (sovRaft ?n) + int (length ?bs)))"
    by (rule read_length_encoded [of _ "[0x5a]" ?bs "[0x80]"]) (use len in \<open>simp_all add: sub_field_def\<close>)
  moreover have "count_rest entryCount True ?d (1 + int (sovRaft ?n) + int (length ?bs)) = panic"
  proof -
    have "nat (1 + int (sovRaft ?n) + int (length ?bs)) = length (sub_field 0x5a ?bs)" by (simp add: sub_size_def)
    then have "drop (nat (1 + int (sovRaft ?n) + int (length ?bs))) ?d = [0x80]" by simp
    moreover have "count_varint [0x80] 0 0 0 = None" by code_simp
    then have "entryCount [0x80] = None" unfolding entryCount_def by (subst count_loop.simps) simp
    ultimately show ?thesis by (simp add: count_rest_def)
  qed
  ultimately have "unmarshal_field Message_fields ?d 0 message_zero = None"
    by (simp add: unmarshal_field_def Message_fields_def message_entry_def message_zero_def)
  then show ?thesis
    unfolding Message_Unmarshal_def by (subst unmarshal_loop.simps) simp
qed

text \<open>
  C40. One stray byte behind the first entry of a message makes the decoder panic: \<open>entryCount\<close>, called to
  find the capacity of the slice, reads a varint without looking at the end of the data. The decoder of \<open>EntryBatch\<close>, which does not look
  ahead, returns \<open>io.ErrUnexpectedEOF\<close> when the same byte follows an entry.
\<close>

theorem message_trailing_panics:
  assumes "entry_fits e"
  shows "Message_Unmarshal (sub_field 0x5a (Entry_MarshalTo e) @ [0x80]) = panic
    \<and> EntryBatch_Unmarshal (sub_field 0xa (Entry_MarshalTo e) @ [0x80]) = Some (Inl proto_error.ErrUnexpectedEOF)"
  using Message_cut [OF assms] EntryBatch_cut [OF assms] by simp

theorem message_trailing_panics_witness:
  "Message_Unmarshal [0x5a, 1, 0x7f, 0x80] = panic \<and> EntryBatch_Unmarshal [0xa, 1, 0x7f, 0x80] = Some (Inl proto_error.ErrUnexpectedEOF)"
proof -
  have "entry_fits entry_zero" by (simp add: entry_fits_def entry_sizes)
  moreover have "sub_field t (Entry_MarshalTo entry_zero) = [t, 1, 0x7f]" for t
  proof -
    have "Entry_MarshalTo entry_zero = [0x7f]" "encodeVarintRaft 1 = [1]" by code_simp+
    then show ?thesis by (simp add: sub_field_def)
  qed
  ultimately show ?thesis using message_trailing_panics [of entry_zero] by simp
qed

end
